(* ===== verification/Prelude.thy ===== *)
theory Prelude
  imports Main "HOL-Library.Word" "HOL-Library.Sublist"
begin

text \<open>
  Shared vocabulary of the PRCS development: the error tokens and results of the
  error-passing style of the sources (\<open>src/src/include/typedefs.h\<close>,
  \<open>PrError<T>\<close>), the C library string functions the sources call, and the
  generic list lemmas the component theories share.

  A C string is the list of the characters before its terminating NUL; a pointer into
  a string is the suffix that starts there, and a null pointer is \<open>None\<close>.
\<close>

named_theorems cstr_simps "unfolding rules of the C string functions"
named_theorems inv_intros "introduction rules for the invariants of the components"

section \<open>Error results\<close>

datatype ErrorToken =
    NonFatalError
  | FatalError
  | InternalError
  | InternalRepositoryError
  | RepositoryError
  | WriteFailure
  | ReadFailure
  | StatFailure
  | UserAbort

text \<open>\<open>PrError<T>\<close>: an error token or a value. \<open>Return_if_fail\<close> is \<open>ebind\<close>.\<close>

type_synonym 'a pr_error = "ErrorToken + 'a"

definition ebind :: "'e + 'a \<Rightarrow> ('a \<Rightarrow> 'e + 'b) \<Rightarrow> 'e + 'b" where
  "ebind r f = (case r of Inl e \<Rightarrow> Inl e | Inr x \<Rightarrow> f x)"

lemma ebind_simps [simp]:
  "ebind (Inl e) f = Inl e"
  "ebind (Inr x) f = f x"
  by (simp_all add: ebind_def)

lemma ebind_eq_Inr: "ebind r f = Inr y \<longleftrightarrow> (\<exists>x. r = Inr x \<and> f x = Inr y)"
  by (cases r) simp_all

lemma ebind_eq_Inl: "ebind r f = Inl e \<longleftrightarrow> r = Inl e \<or> (\<exists>x. r = Inr x \<and> f x = Inl e)"
  by (cases r) simp_all

lemma ebind_cong [fundef_cong]:
  "r = r' \<Longrightarrow> (\<And>x. r' = Inr x \<Longrightarrow> f x = f' x) \<Longrightarrow> ebind r f = ebind r' f'"
  by (cases r') simp_all

text \<open>\<open>foreach\<close> loops over an array whose body may return early with an error.\<close>

fun efold :: "('s \<Rightarrow> 'a \<Rightarrow> 'e + 's) \<Rightarrow> 's \<Rightarrow> 'a list \<Rightarrow> 'e + 's" where
  "efold f s [] = Inr s"
| "efold f s (x # xs) = ebind (f s x) (\<lambda>s'. efold f s' xs)"

lemma efold_append [simp]:
  "efold f s (xs @ ys) = ebind (efold f s xs) (\<lambda>s'. efold f s' ys)"
  by (induction xs arbitrary: s) (auto simp: ebind_def split: sum.splits)

lemma efold_invariant:
  assumes "efold f s xs = Inr s'" and "P s"
    and "\<And>s x s'. x \<in> set xs \<Longrightarrow> P s \<Longrightarrow> f s x = Inr s' \<Longrightarrow> P s'"
  shows "P s'"
  using assms
proof (induction xs arbitrary: s)
  case Nil
  then show ?case by simp
next
  case (Cons x xs)
  from Cons.prems(1) obtain t where t: "f s x = Inr t" "efold f t xs = Inr s'"
    by (auto simp: ebind_eq_Inr)
  have "P t" using Cons.prems(2) Cons.prems(3)[OF _ _ t(1)] by simp
  show ?case
    by (rule Cons.IH [OF t(2) \<open>P t\<close>]) (use Cons.prems(3) in auto)
qed

lemma find_append:
  "find P (xs @ ys) = (case find P xs of Some x \<Rightarrow> Some x | None \<Rightarrow> find P ys)"
  by (induction xs) auto

section \<open>The C string library\<close>

abbreviation SLASH :: char where "SLASH \<equiv> CHR ''/''"
abbreviation BACKSLASH :: char where "BACKSLASH \<equiv> CHR 0x5C"
abbreviation DQUOTE :: char where "DQUOTE \<equiv> CHR 0x22"
abbreviation NEWLINE :: char where "NEWLINE \<equiv> CHR 0x0A"
abbreviation DOT :: char where "DOT \<equiv> CHR ''.''"
abbreviation NUL :: char where "NUL \<equiv> CHR 0x00"

text \<open>\<open>strchr\<close> and \<open>strrchr\<close> return the suffix that starts at the found character.\<close>

fun strchr :: "string \<Rightarrow> char \<Rightarrow> string option" where
  "strchr [] c = None"
| "strchr (x # xs) c = (if x = c then Some (x # xs) else strchr xs c)"

fun strrchr :: "string \<Rightarrow> char \<Rightarrow> string option" where
  "strrchr [] c = None"
| "strrchr (x # xs) c =
     (case strrchr xs c of Some r \<Rightarrow> Some r | None \<Rightarrow> if x = c then Some (x # xs) else None)"

text \<open>\<open>strncmp(p, s, strlen p) == 0\<close>: \<open>p\<close> is a prefix of \<open>s\<close>.\<close>

definition strncmp_eq :: "string \<Rightarrow> string \<Rightarrow> bool" where
  [cstr_simps]: "strncmp_eq p s \<longleftrightarrow> take (length p) s = p"

lemma strncmp_eq_prefix: "strncmp_eq p s \<longleftrightarrow> prefix p s"
  by (auto simp: strncmp_eq_def prefix_def) (metis append_take_drop_id)

lemma strchr_None [simp]: "strchr s c = None \<longleftrightarrow> c \<notin> set s"
  by (induction s) auto

lemma strchr_Some: "strchr s c = Some r \<longleftrightarrow> (\<exists>p t. s = p @ r \<and> r = c # t \<and> c \<notin> set p)"
proof (induction s)
  case Nil
  then show ?case by auto
next
  case (Cons x xs)
  show ?case
  proof (cases "x = c")
    case True
    then show ?thesis by (auto simp: Cons_eq_append_conv)
  next
    case False
    then show ?thesis using Cons by (auto simp: Cons_eq_append_conv)
  qed
qed

lemma strrchr_None: "strrchr s c = None \<longleftrightarrow> c \<notin> set s"
  by (induction s) (auto split: option.splits)

lemma strrchr_absent [simp]: "c \<notin> set s \<Longrightarrow> strrchr s c = None"
  by (simp add: strrchr_None)

lemma strrchr_SomeD: "strrchr s c = Some r \<Longrightarrow> \<exists>p t. s = p @ r \<and> r = c # t \<and> c \<notin> set t"
proof (induction s)
  case Nil
  then show ?case by simp
next
  case (Cons x xs)
  show ?case
  proof (cases "strrchr xs c")
    case None
    with Cons.prems have "x = c" "r = c # xs" by (auto split: if_splits)
    moreover from None have "c \<notin> set xs" by (simp add: strrchr_None)
    ultimately show ?thesis by blast
  next
    case (Some q)
    with Cons.prems have "q = r" by simp
    with Some Cons.IH obtain p t where "xs = p @ r" "r = c # t" "c \<notin> set t" by blast
    then have "x # xs = (x # p) @ r" by simp
    with \<open>r = c # t\<close> \<open>c \<notin> set t\<close> show ?thesis by blast
  qed
qed

lemma strrchr_append_Cons [simp]: "c \<notin> set t \<Longrightarrow> strrchr (p @ c # t) c = Some (c # t)"
proof (induction p)
  case Nil
  then show ?case by simp
next
  case (Cons x p)
  then show ?case by simp
qed

lemma strrchr_Some: "strrchr s c = Some r \<longleftrightarrow> (\<exists>p t. s = p @ r \<and> r = c # t \<and> c \<notin> set t)"
  using strrchr_SomeD by fastforce

lemma append_length_diff [simp]: "take (length (p @ r) - length r) (p @ r) = p"
  by simp

end
