(* ===== verification/Effects.thy ===== *)
theory Effects
  imports Prelude
begin

text \<open>
  The effectful operations of the program: a command takes a state and gives a failure
  or a value, and the state it leaves in either case. A failure is an error token of
  \<open>PrError<T>\<close>, a violated \<open>ASSERT\<close>, a call of \<open>abort\<close>, or behaviour the language leaves
  undefined (a null dereference, an index outside an array). \<open>Return_if_fail\<close> is
  \<open>cbind\<close>: it returns the token of a failed call and leaves the state as the call left it.
\<close>

datatype failure = Err ErrorToken | AssertFailed | Aborted | Undefined

type_synonym ('s, 'a) cmd = "'s \<Rightarrow> (failure + 'a) \<times> 's"

definition creturn :: "'a \<Rightarrow> ('s, 'a) cmd" where
  "creturn a = (\<lambda>s. (Inr a, s))"

definition cthrow :: "failure \<Rightarrow> ('s, 'a) cmd" where
  "cthrow f = (\<lambda>s. (Inl f, s))"

definition cbind :: "('s, 'a) cmd \<Rightarrow> ('a \<Rightarrow> ('s, 'b) cmd) \<Rightarrow> ('s, 'b) cmd" where
  "cbind m f = (\<lambda>s. case m s of (Inl e, s') \<Rightarrow> (Inl e, s') | (Inr a, s') \<Rightarrow> f a s')"

definition cthen :: "('s, 'a) cmd \<Rightarrow> ('s, 'b) cmd \<Rightarrow> ('s, 'b) cmd" where
  "cthen m k = cbind m (\<lambda>_. k)"

definition cget :: "('s \<Rightarrow> 'a) \<Rightarrow> ('s, 'a) cmd" where
  "cget f = (\<lambda>s. (Inr (f s), s))"

definition cupd :: "('s \<Rightarrow> 's) \<Rightarrow> ('s, unit) cmd" where
  "cupd f = (\<lambda>s. (Inr (), f s))"

definition cassert :: "bool \<Rightarrow> ('s, unit) cmd" where
  "cassert b = (if b then creturn () else cthrow AssertFailed)"

definition cdefined :: "bool \<Rightarrow> ('s, unit) cmd" where
  "cdefined b = (if b then creturn () else cthrow Undefined)"

text \<open>\<open>foreach\<close> over an array, with early return.\<close>

fun cforeach :: "'a list \<Rightarrow> ('a \<Rightarrow> ('s, unit) cmd) \<Rightarrow> ('s, unit) cmd" where
  "cforeach [] f = creturn ()"
| "cforeach (x # xs) f = cthen (f x) (cforeach xs f)"

named_theorems cmd_simps "what a command does on a state"

lemma cmd_apply [cmd_simps]:
  "creturn a s = (Inr a, s)"
  "cthrow f s = (Inl f, s)"
  "cget g s = (Inr (g s), s)"
  "cupd h s = (Inr (), h s)"
  "cassert b s = (if b then Inr () else Inl AssertFailed, s)"
  "cdefined b s = (if b then Inr () else Inl Undefined, s)"
  by (simp_all add: creturn_def cthrow_def cget_def cupd_def cassert_def cdefined_def)

lemma cbind_apply [cmd_simps]:
  "cbind m f s = (case m s of (Inl e, s') \<Rightarrow> (Inl e, s') | (Inr a, s') \<Rightarrow> f a s')"
  by (simp add: cbind_def)

lemma cthen_apply [cmd_simps]:
  "cthen m k s = (case m s of (Inl e, s') \<Rightarrow> (Inl e, s') | (Inr a, s') \<Rightarrow> k s')"
  by (simp add: cthen_def cbind_def)

lemma cbind_Inr: "m s = (Inr a, s') \<Longrightarrow> cbind m f s = f a s'"
  by (simp add: cbind_def)

lemma cbind_Inl: "m s = (Inl e, s') \<Longrightarrow> cbind m f s = (Inl e, s')"
  by (simp add: cbind_def)

lemma cthen_Inr: "m s = (Inr a, s') \<Longrightarrow> cthen m k s = k s'"
  by (simp add: cthen_apply)

lemma cthen_Inl: "m s = (Inl e, s') \<Longrightarrow> cthen m k s = (Inl e, s')"
  by (simp add: cthen_apply)

lemma cget_bind: "cbind (cget g) k s = k (g s) s"
  by (simp add: cmd_simps)

lemma cbind_Inr_iff: "cbind m f s = (Inr b, t) \<longleftrightarrow> (\<exists>a s'. m s = (Inr a, s') \<and> f a s' = (Inr b, t))"
  by (auto simp: cbind_apply split: prod.splits sum.splits)

lemma cthen_Inr_iff: "cthen m k s = (Inr b, t) \<longleftrightarrow> (\<exists>a s'. m s = (Inr a, s') \<and> k s' = (Inr b, t))"
  by (simp add: cthen_def cbind_Inr_iff)

section \<open>Relations between the states before and after\<close>

text \<open>
  \<open>always R m\<close>: whatever the outcome of \<open>m\<close>, the states before and after are related by
  \<open>R\<close>. With a reflexive and transitive \<open>R\<close> this composes along a program; each command
  of a component has one \<open>always\<close> lemma and the compound ones follow by \<open>inv_intros\<close>.
\<close>

definition always :: "('s \<Rightarrow> 's \<Rightarrow> bool) \<Rightarrow> ('s, 'a) cmd \<Rightarrow> bool" where
  "always R m \<longleftrightarrow> (\<forall>s. R s (snd (m s)))"

lemma alwaysD: "always R m \<Longrightarrow> m s = (r, s') \<Longrightarrow> R s s'"
  by (metis always_def snd_conv)

locale step_rel =
  fixes R :: "'s \<Rightarrow> 's \<Rightarrow> bool"
  assumes R_refl: "R s s"
    and R_trans: "R s t \<Longrightarrow> R t u \<Longrightarrow> R s u"
begin

lemma always_return: "always R (creturn a)"
  by (simp add: always_def R_refl cmd_simps)

lemma always_throw: "always R (cthrow f)"
  by (simp add: always_def R_refl cmd_simps)

lemma always_get: "always R (cget g)"
  by (simp add: always_def R_refl cmd_simps)

lemma always_assert: "always R (cassert b)"
  by (simp add: always_def R_refl cmd_simps)

lemma always_defined: "always R (cdefined b)"
  by (simp add: always_def R_refl cmd_simps)

lemma always_upd: "(\<And>s. R s (h s)) \<Longrightarrow> always R (cupd h)"
  by (simp add: always_def cmd_simps)

lemma always_bind:
  assumes "always R m" and "\<And>a. always R (f a)"
  shows "always R (cbind m f)"
  unfolding always_def
proof
  fix s
  obtain r s' where m: "m s = (r, s')" by (cases "m s")
  have st: "R s s'" using alwaysD [OF assms(1) m] .
  show "R s (snd (cbind m f s))"
  proof (cases r)
    case (Inl e)
    then show ?thesis using st by (simp add: m cbind_apply)
  next
    case (Inr a)
    have "R s' (snd (f a s'))" using assms(2) by (simp add: always_def)
    then show ?thesis using R_trans [OF st] Inr by (simp add: m cbind_apply)
  qed
qed

lemma always_then: "always R m \<Longrightarrow> always R k \<Longrightarrow> always R (cthen m k)"
  by (simp add: cthen_def always_bind)

lemma always_if: "(b \<Longrightarrow> always R m) \<Longrightarrow> (\<not> b \<Longrightarrow> always R k) \<Longrightarrow> always R (if b then m else k)"
  by simp

lemma always_foreach: "(\<And>x. x \<in> set xs \<Longrightarrow> always R (f x)) \<Longrightarrow> always R (cforeach xs f)"
  by (induction xs) (simp_all add: always_return always_then)

lemmas always_intros =
  always_return always_throw always_get always_assert always_defined always_upd
  always_bind always_then always_if always_foreach

end

text \<open>Keeping a component of the state is such a relation.\<close>

definition keeps :: "('s \<Rightarrow> 'p) \<Rightarrow> 's \<Rightarrow> 's \<Rightarrow> bool" where
  "keeps p s t \<longleftrightarrow> p t = p s"

interpretation kept: step_rel "keeps p"
  for p :: "'s \<Rightarrow> 'p"
  by unfold_locales (simp_all add: keeps_def)

lemma keeps_upd: "(\<And>s. p (h s) = p s) \<Longrightarrow> keeps p s (h s)"
  by (simp add: keeps_def)

section \<open>Undefined behaviour and violated assertions\<close>

text \<open>
  \<open>hoare P m Q E\<close>: from a state with \<open>P\<close>, \<open>m\<close> returns a value and a state with \<open>Q\<close>, or
  fails with an error token in a state with \<open>E\<close>; it violates no assertion and has no
  undefined behaviour.
\<close>

definition hoare ::
  "('s \<Rightarrow> bool) \<Rightarrow> ('s, 'a) cmd \<Rightarrow> ('a \<Rightarrow> 's \<Rightarrow> bool) \<Rightarrow> ('s \<Rightarrow> bool) \<Rightarrow> bool" where
  "hoare P m Q E \<longleftrightarrow>
     (\<forall>s. P s \<longrightarrow>
        (case m s of (Inl (Err t), s') \<Rightarrow> E s' | (Inl _, _) \<Rightarrow> False | (Inr a, s') \<Rightarrow> Q a s'))"

lemma hoareI:
  "(\<And>s. P s \<Longrightarrow>
      case m s of (Inl (Err t), s') \<Rightarrow> E s' | (Inl _, _) \<Rightarrow> False | (Inr a, s') \<Rightarrow> Q a s') \<Longrightarrow>
   hoare P m Q E"
  by (simp add: hoare_def)

lemma hoareD: "hoare P m Q E \<Longrightarrow> P s \<Longrightarrow> m s = (Inr a, s') \<Longrightarrow> Q a s'"
  by (fastforce simp: hoare_def dest: spec [of _ s])

lemma hoare_errD: "hoare P m Q E \<Longrightarrow> P s \<Longrightarrow> m s = (Inl f, s') \<Longrightarrow> (\<exists>t. f = Err t) \<and> E s'"
  by (cases f) (fastforce simp: hoare_def dest: spec [of _ s])+

lemma hoare_intro:
  assumes "\<And>s a s'. P s \<Longrightarrow> m s = (Inr a, s') \<Longrightarrow> Q a s'"
    and "\<And>s f s'. P s \<Longrightarrow> m s = (Inl f, s') \<Longrightarrow> (\<exists>t. f = Err t) \<and> E s'"
  shows "hoare P m Q E"
proof (rule hoareI)
  fix s assume "P s"
  obtain r s' where m: "m s = (r, s')" by (cases "m s")
  show "case m s of (Inl (Err t), s') \<Rightarrow> E s' | (Inl _, _) \<Rightarrow> False | (Inr a, s') \<Rightarrow> Q a s'"
    using assms [OF \<open>P s\<close>] m by (cases r) (auto split: failure.split)
qed

lemma hoare_return: "(\<And>s. P s \<Longrightarrow> Q a s) \<Longrightarrow> hoare P (creturn a) Q E"
  by (rule hoareI) (simp add: cmd_simps)

lemma hoare_err: "(\<And>s. P s \<Longrightarrow> E s) \<Longrightarrow> hoare P (cthrow (Err t)) Q E"
  by (rule hoareI) (simp add: cmd_simps)

lemma hoare_get: "(\<And>s. P s \<Longrightarrow> Q (g s) s) \<Longrightarrow> hoare P (cget g) Q E"
  by (rule hoareI) (simp add: cmd_simps)

lemma hoare_get_at:
  assumes "\<And>s. P s \<Longrightarrow> hoare (\<lambda>t. t = s) (k (g s)) Q E"
  shows "hoare P (cbind (cget g) k) Q E"
  using assms by (simp add: hoare_def cmd_simps)

lemma hoare_upd: "(\<And>s. P s \<Longrightarrow> Q () (h s)) \<Longrightarrow> hoare P (cupd h) Q E"
  by (rule hoareI) (simp add: cmd_simps)

lemma hoare_assert: "(\<And>s. P s \<Longrightarrow> b \<and> Q () s) \<Longrightarrow> hoare P (cassert b) Q E"
  by (rule hoareI) (simp add: cmd_simps)

lemma hoare_defined: "(\<And>s. P s \<Longrightarrow> b \<and> Q () s) \<Longrightarrow> hoare P (cdefined b) Q E"
  by (rule hoareI) (simp add: cmd_simps)

lemma hoare_bind:
  assumes m: "hoare P m Q E" and f: "\<And>a. hoare (Q a) (f a) R E"
  shows "hoare P (cbind m f) R E"
proof (rule hoare_intro)
  fix s a s' assume "P s" and b: "cbind m f s = (Inr a, s')"
  then obtain x t where "m s = (Inr x, t)" "f x t = (Inr a, s')"
    by (auto simp: cbind_apply split: prod.splits sum.splits)
  then show "R a s'" using hoareD [OF m \<open>P s\<close>] hoareD [OF f] by blast
next
  fix s e s' assume "P s" and b: "cbind m f s = (Inl e, s')"
  show "(\<exists>t. e = Err t) \<and> E s'"
  proof (cases "m s")
    case (Pair r t)
    show ?thesis
    proof (cases r)
      case (Inl e')
      then show ?thesis using Pair b hoare_errD [OF m \<open>P s\<close>] by (simp add: cbind_apply)
    next
      case (Inr x)
      then have "f x t = (Inl e, s')" and "Q x t"
        using Pair b hoareD [OF m \<open>P s\<close>] by (simp_all add: cbind_apply)
      then show ?thesis using hoare_errD [OF f] by blast
    qed
  qed
qed

lemma hoare_then: "hoare P m Q E \<Longrightarrow> hoare (Q ()) k R E \<Longrightarrow> hoare P (cthen m k) R E"
  for m :: "('s, unit) cmd"
  unfolding cthen_def by (rule hoare_bind) (simp_all add: old.unit.exhaust)

lemma hoare_if: "(b \<Longrightarrow> hoare P m Q E) \<Longrightarrow> (\<not> b \<Longrightarrow> hoare P k Q E) \<Longrightarrow> hoare P (if b then m else k) Q E"
  by simp

lemma hoare_pre: "hoare P' m Q E \<Longrightarrow> (\<And>s. P s \<Longrightarrow> P' s) \<Longrightarrow> hoare P m Q E"
  by (simp add: hoare_def)

lemma hoare_post:
  assumes "hoare P m Q E" and "\<And>a s. Q a s \<Longrightarrow> R a s" and "\<And>s. E s \<Longrightarrow> F s"
  shows "hoare P m R F"
  by (rule hoare_intro) (use assms hoareD [OF assms(1)] hoare_errD [OF assms(1)] in blast)+

lemma hoare_pure:
  "(A \<Longrightarrow> hoare P m Q E) \<Longrightarrow> hoare (\<lambda>s. A \<and> P s) m (\<lambda>a s. A \<and> Q a s) E"
  by (cases A) (simp_all add: hoare_def)

lemma hoare_false: "(\<And>s. \<not> P s) \<Longrightarrow> hoare P m Q E"
  by (simp add: hoare_def)

lemma hoare_foreach:
  assumes "\<And>x. x \<in> set xs \<Longrightarrow> hoare P (f x) (\<lambda>_. P) E"
  shows "hoare P (cforeach xs f) (\<lambda>_. P) E"
  using assms
proof (induction xs)
  case Nil
  show ?case by (simp add: hoare_return)
next
  case (Cons x xs)
  have "hoare P (cforeach xs f) (\<lambda>_. P) E" using Cons by simp
  then show ?case using Cons.prems by (simp add: hoare_then [where Q = "\<lambda>_. P"])
qed

end
