(* ===== verification/Misc.thy ===== *)
theory Misc
  imports Prelude
begin

text \<open>
  The string utilities of \<open>src/src/misc.cc\<close>: the quoting of names in project files
  (\<open>correct_path\<close>, \<open>protect_path\<close>, \<open>print_protected\<close>, \<open>protect_string\<close>), the
  check of file names (\<open>weird_pathname\<close>), the comparison and the hash of path names
  (\<open>pathname_equal\<close>, \<open>pathname_hash\<close>) and the splitting of version names.
\<close>

section \<open>Quoting\<close>

text \<open>
  \<open>correct_path(path, in)\<close> appends to \<open>in\<close> the characters of \<open>path\<close>, dropping one
  backslash before each character it protects. After a lone backslash at the end of
  the string the code appends the terminating NUL and steps past it: \<open>None\<close>.
\<close>

fun correct_path :: "string \<Rightarrow> string \<Rightarrow> string option" where
  "correct_path [] inp = Some inp"
| "correct_path (c # cs) inp =
     (if c = BACKSLASH
      then (case cs of [] \<Rightarrow> None | d # ds \<Rightarrow> correct_path ds (inp @ [d]))
      else correct_path cs (inp @ [c]))"

text \<open>The characters that end a name token or start another one.\<close>

definition path_special :: "char \<Rightarrow> bool" where
  "path_special c \<longleftrightarrow>
     c = DQUOTE \<or> c = BACKSLASH \<or> c = CHR '')'' \<or> c = CHR ''('' \<or> c = CHR '' '' \<or>
     c = CHR 0x09 \<or> c = NEWLINE \<or> c = CHR 0x0B \<or> c = CHR 0x0D \<or> c = CHR 0x0C \<or> c = CHR '';''"

fun protect_path :: "string \<Rightarrow> string \<Rightarrow> string" where
  "protect_path [] inp = inp"
| "protect_path (c # cs) inp =
     (if path_special c then protect_path cs (inp @ [BACKSLASH, c])
      else protect_path cs (inp @ [c]))"

text \<open>\<open>print_protected\<close> writes the same characters to a stream.\<close>

fun print_protected :: "string \<Rightarrow> string" where
  "print_protected [] = []"
| "print_protected (c # cs) =
     (if path_special c then BACKSLASH # c # print_protected cs else c # print_protected cs)"

fun protect_string :: "string \<Rightarrow> string \<Rightarrow> string" where
  "protect_string [] inp = inp"
| "protect_string (c # cs) inp =
     (if c = DQUOTE \<or> c = BACKSLASH then protect_string cs (inp @ [BACKSLASH, c])
      else protect_string cs (inp @ [c]))"

lemma protect_path_eq: "protect_path s inp = inp @ print_protected s"
  by (induction s arbitrary: inp) auto

lemma correct_path_print: "correct_path (print_protected s) inp = Some (inp @ s)"
  by (induction s arbitrary: inp) (auto simp: path_special_def)

section \<open>File names\<close>

text \<open>
  \<open>weird_pathname\<close>. The loop walks the suffixes that start at a slash. It leaves with a
  null pointer, so the test for a trailing slash after it is never reached; the
  \<open>None\<close> below is that null pointer.
\<close>

datatype weird_exit = Weird | LoopEnd "string option"

fun weird_scan :: "string \<Rightarrow> weird_exit" where
  "weird_scan [] = LoopEnd None"
| "weird_scan (c # cs) =
     (if c \<noteq> SLASH then weird_scan cs
      else if strncmp_eq ''/../'' (c # cs) then Weird
      else if strncmp_eq ''/./'' (c # cs) then Weird
      else weird_scan cs)"

definition weird_pathname :: "string \<Rightarrow> bool" where
  "weird_pathname N =
     (if strncmp_eq ''../'' N then True
      else if strncmp_eq ''./'' N then True
      else if N \<noteq> [] \<and> hd N = SLASH then True
      else (case weird_scan N of
              Weird \<Rightarrow> True
            | LoopEnd None \<Rightarrow> False
            | LoopEnd (Some r) \<Rightarrow> 0 < length r \<and> last r = SLASH))"

definition strip_leading_path :: "string \<Rightarrow> string" where
  "strip_leading_path P = (case strrchr P SLASH of None \<Rightarrow> P | Some s \<Rightarrow> tl s)"

text \<open>\<open>dirname(p, s)\<close> assigns to \<open>s\<close> in one branch and appends to it in the other.\<close>

definition dirname :: "string \<Rightarrow> string \<Rightarrow> string" where
  "dirname p s =
     (case strrchr p SLASH of
        None \<Rightarrow> ''./''
      | Some r \<Rightarrow> s @ take (length p - length r) p)"

section \<open>Path name tables\<close>

text \<open>
  \<open>pathname_equal\<close> moves two pointers; a slash right after a slash is skipped. The
  boolean says that the pointer is not at the start and the character before it is a
  slash.
\<close>

fun skip_slashes :: "bool \<Rightarrow> string \<Rightarrow> string" where
  "skip_slashes prev [] = []"
| "skip_slashes prev (c # cs) =
     (if prev \<and> c = SLASH then skip_slashes True cs else c # cs)"

lemma length_skip_slashes [termination_simp]: "length (skip_slashes p s) \<le> length s"
  by (induction p s rule: skip_slashes.induct) auto

function pathname_equal_loop :: "bool \<Rightarrow> string \<Rightarrow> bool \<Rightarrow> string \<Rightarrow> bool" where
  "pathname_equal_loop pa a pb b =
     (case (skip_slashes pa a, skip_slashes pb b) of
        (x # xs, y # ys) \<Rightarrow>
          (if x \<noteq> y then False
           else pathname_equal_loop (x = SLASH) xs (y = SLASH) ys)
      | ([], []) \<Rightarrow> True
      | _ \<Rightarrow> False)"
  by pat_completeness auto
termination
  by (relation "measure (\<lambda>(pa, a, pb, b). length a)")
    (auto, metis length_skip_slashes length_Cons Suc_le_lessD)

declare pathname_equal_loop.simps [simp del]

definition pathname_equal :: "string \<Rightarrow> string \<Rightarrow> bool" where
  "pathname_equal a b = pathname_equal_loop False a False b"

text \<open>
  The string hash of the tables: 32-bit unsigned arithmetic, and a \<open>char\<close> that is
  signed, as on the platforms the package is built on.
\<close>

definition char_promote :: "char \<Rightarrow> 32 word" where
  "char_promote c = scast (of_char c :: 8 word)"

definition hash_step :: "32 word \<Rightarrow> char \<Rightarrow> 32 word" where
  "hash_step h0 c =
     (let h = push_bit 4 h0 + char_promote c;
          g = and h 0xf0000000
      in if g \<noteq> 0 then xor (xor h (drop_bit 24 g)) g else h)"

fun pathname_hash_loop :: "bool \<Rightarrow> string \<Rightarrow> 32 word \<Rightarrow> 32 word" where
  "pathname_hash_loop prev [] h = h"
| "pathname_hash_loop prev (c # cs) h =
     (if prev \<and> c = SLASH then pathname_hash_loop True cs h
      else pathname_hash_loop (c = SLASH) cs (hash_step h c))"

definition pathname_hash :: "string \<Rightarrow> nat \<Rightarrow> nat" where
  "pathname_hash s M = unat (pathname_hash_loop False s 0) mod M"

section \<open>Version names\<close>

definition major_version_of :: "string \<Rightarrow> string option" where
  "major_version_of name =
     (case strrchr name DOT of
        None \<Rightarrow> None
      | Some last_period \<Rightarrow> Some (take (length name - length last_period) name))"

definition minor_version_of :: "string \<Rightarrow> string option" where
  "minor_version_of name =
     (case strrchr name DOT of None \<Rightarrow> None | Some last_period \<Rightarrow> Some (tl last_period))"

datatype FileType = SymLink | Directory | RealFile

fun format_type :: "FileType \<Rightarrow> bool \<Rightarrow> string" where
  "format_type SymLink cap = (if cap then ''Symlink'' else ''symlink'')"
| "format_type Directory cap = (if cap then ''Directory'' else ''directory'')"
| "format_type RealFile cap = (if cap then ''File'' else ''file'')"

section \<open>Lemmas\<close>

fun split_slash :: "string \<Rightarrow> string list" where
  "split_slash [] = [[]]"
| "split_slash (c # cs) =
     (if c = SLASH then [] # split_slash cs
      else (c # hd (split_slash cs)) # tl (split_slash cs))"

lemma split_slash_nonempty [simp]: "split_slash s \<noteq> []"
  by (induction s) auto

lemma split_slash_prefix:
  "SLASH \<notin> set w \<Longrightarrow>
     prefix (w @ [SLASH]) s \<longleftrightarrow> hd (split_slash s) = w \<and> tl (split_slash s) \<noteq> []"
proof (induction s arbitrary: w)
  case Nil
  then show ?case by auto
next
  case (Cons c cs)
  then show ?case by (cases w) auto
qed

lemma split_slash_single: "split_slash s = [v] \<Longrightarrow> SLASH \<notin> set s \<and> s = v"
proof (induction s arbitrary: v)
  case Nil
  then show ?case by simp
next
  case (Cons c cs)
  then show ?case by (cases "split_slash cs") (auto split: if_splits)
qed

lemma split_slash_starts: "s \<noteq> [] \<Longrightarrow> hd (split_slash s) = [] \<longleftrightarrow> hd s = SLASH"
  by (cases s) auto

definition dots :: "string set" where
  "dots = {''.'', ''..''}"

lemma strncmp_eq_component:
  assumes "SLASH \<notin> set w" and "split_slash s = v # vs"
  shows "strncmp_eq (w @ [SLASH]) s \<longleftrightarrow> v = w \<and> vs \<noteq> []"
  using split_slash_prefix [OF assms(1), of s] assms(2) by (simp add: strncmp_eq_prefix)

lemma strncmp_eq_Cons: "strncmp_eq (x # p) (c # s) \<longleftrightarrow> c = x \<and> strncmp_eq p s"
  by (simp add: strncmp_eq_def)

lemma dot_components:
  assumes "split_slash s = v # vs"
  shows "strncmp_eq ''../'' s \<or> strncmp_eq ''./'' s \<longleftrightarrow> v \<in> dots \<and> vs \<noteq> []"
  using strncmp_eq_component [of "''..''", OF _ assms] strncmp_eq_component [of "''.''", OF _ assms]
  by (auto simp: dots_def)

lemma weird_scan_slash:
  "weird_scan (SLASH # cs) =
     (if strncmp_eq ''../'' cs \<or> strncmp_eq ''./'' cs then Weird else weird_scan cs)"
  by (simp add: strncmp_eq_Cons)

lemma weird_scan_iff:
  "weird_scan s =
     (if \<exists>w \<in> set (butlast (tl (split_slash s))). w \<in> dots then Weird else LoopEnd None)"
proof (induction s)
  case Nil
  then show ?case by simp
next
  case (Cons c cs)
  obtain v vs where v: "split_slash cs = v # vs"
    by (cases "split_slash cs") auto
  show ?case
  proof (cases "c = SLASH")
    case True
    have "split_slash (c # cs) = [] # v # vs" using True v by simp
    moreover have "weird_scan (c # cs) =
        (if v \<in> dots \<and> vs \<noteq> [] then Weird else weird_scan cs)"
      unfolding True weird_scan_slash dot_components [OF v] ..
    ultimately show ?thesis using Cons v by (cases "vs = []") simp_all
  next
    case False
    then show ?thesis using Cons v by simp
  qed
qed

lemma weird_pathname_iff:
  "weird_pathname N \<longleftrightarrow>
     (N \<noteq> [] \<and> hd N = SLASH) \<or> (\<exists>w \<in> set (butlast (split_slash N)). w \<in> dots)"
proof -
  obtain v vs where v: "split_slash N = v # vs"
    by (cases "split_slash N") auto
  have "weird_pathname N \<longleftrightarrow> (strncmp_eq ''../'' N \<or> strncmp_eq ''./'' N) \<or>
      (N \<noteq> [] \<and> hd N = SLASH) \<or> weird_scan N = Weird"
    unfolding weird_pathname_def weird_scan_iff by simp
  then show ?thesis
    unfolding dot_components [OF v] weird_scan_iff using v by (cases "vs = []") auto
qed

text \<open>Following the components of a relative name; \<open>None\<close>: above the start.\<close>

fun walk :: "nat \<Rightarrow> string list \<Rightarrow> nat option" where
  "walk d [] = Some d"
| "walk d (w # ws) =
     (if w = [] \<or> w = ''.'' then walk d ws
      else if w = ''..'' then (if d = 0 then None else walk (d - 1) ws)
      else walk (Suc d) ws)"

lemma walk_append: "walk d (us @ vs) = (case walk d us of None \<Rightarrow> None | Some e \<Rightarrow> walk e vs)"
  by (induction us arbitrary: d) auto

lemma walk_plain: "\<forall>w \<in> set ws. w \<notin> dots \<Longrightarrow> \<exists>e. walk d ws = Some e \<and> d \<le> e"
proof (induction ws arbitrary: d)
  case Nil
  then show ?case by simp
next
  case (Cons w ws)
  then have w: "w \<noteq> ''.''" "w \<noteq> ''..''" and rest: "\<forall>w \<in> set ws. w \<notin> dots"
    by (auto simp: dots_def)
  from Cons.IH [OF rest, of d] Cons.IH [OF rest, of "Suc d"] w show ?case
    by (cases "w = []") auto
qed

lemma walk_not_weird:
  assumes "\<not> weird_pathname N"
  shows "walk 0 (split_slash N) = None \<longleftrightarrow> N = ''..''"
proof (cases "N = []")
  case True
  then show ?thesis by simp
next
  case False
  with assms have hd: "hd N \<noteq> SLASH"
    and init: "\<forall>w \<in> set (butlast (split_slash N)). w \<notin> dots"
    by (auto simp: weird_pathname_iff)
  obtain v vs where v: "split_slash N = v # vs"
    by (cases "split_slash N") auto
  have vne: "v \<noteq> []"
    using split_slash_starts [OF False] hd v by simp
  show ?thesis
  proof (cases "vs = []")
    case True
    then have "SLASH \<notin> set N" and "N = v" using v split_slash_single by auto
    then show ?thesis using v True vne by auto
  next
    case nonempty: False
    define z where "z = last vs"
    have sp: "split_slash N = v # butlast vs @ [z]"
      using v nonempty by (simp add: z_def)
    have vd: "v \<notin> dots" and bl: "\<forall>w \<in> set (butlast vs). w \<notin> dots"
      using init v nonempty by auto
    obtain e where e: "walk 1 (butlast vs) = Some e" "1 \<le> e"
      using walk_plain [OF bl] by blast
    have "walk 0 (split_slash N) = walk e [z]"
      using vd vne e(1) by (simp add: sp walk_append dots_def)
    then have "walk 0 (split_slash N) \<noteq> None" using e(2) by simp
    moreover have "N \<noteq> ''..''" using v nonempty by auto
    ultimately show ?thesis by simp
  qed
qed

text \<open>The canonical form of a path name: no slash directly after a slash.\<close>

fun squeeze :: "bool \<Rightarrow> string \<Rightarrow> string" where
  "squeeze prev [] = []"
| "squeeze prev (c # cs) =
     (if prev \<and> c = SLASH then squeeze True cs else c # squeeze (c = SLASH) cs)"

lemma squeeze_skip:
  "squeeze p s = (case skip_slashes p s of [] \<Rightarrow> [] | c # cs \<Rightarrow> c # squeeze (c = SLASH) cs)"
  by (induction p s rule: skip_slashes.induct) auto

lemma pathname_equal_loop_iff:
  "pathname_equal_loop pa a pb b \<longleftrightarrow> squeeze pa a = squeeze pb b"
proof (induction pa a pb b rule: pathname_equal_loop.induct)
  case (1 pa a pb b)
  show ?case
  proof (cases "skip_slashes pa a")
    case Nil
    then show ?thesis
      by (subst pathname_equal_loop.simps)
        (simp add: squeeze_skip [of pa a] squeeze_skip [of pb b] split: list.split)
  next
    case (Cons x xs)
    show ?thesis
    proof (cases "skip_slashes pb b")
      case Nil
      then show ?thesis
        using Cons by (subst pathname_equal_loop.simps)
          (simp add: squeeze_skip [of pa a] squeeze_skip [of pb b])
    next
      case (Cons y ys)
      with \<open>skip_slashes pa a = x # xs\<close> "1.IH" show ?thesis
        by (subst pathname_equal_loop.simps)
          (simp add: squeeze_skip [of pa a] squeeze_skip [of pb b])
    qed
  qed
qed

lemma pathname_equal_iff: "pathname_equal a b \<longleftrightarrow> squeeze False a = squeeze False b"
  by (simp add: pathname_equal_def pathname_equal_loop_iff)

lemma pathname_hash_loop_squeeze:
  "pathname_hash_loop p s h = foldl hash_step h (squeeze p s)"
  by (induction p s arbitrary: h rule: squeeze.induct) auto

lemma pathname_hash_eq: "pathname_hash s M = unat (foldl hash_step 0 (squeeze False s)) mod M"
  by (simp add: pathname_hash_def pathname_hash_loop_squeeze)

section \<open>Properties\<close>

text \<open>
  C16. Quoting a name for the project file and reading it back gives the name: the
  quoted form never ends in a lone backslash and \<open>correct_path\<close> undoes it. The same
  holds of what is written to a stream. Repeated slashes stay as they are, although the comment on
  \<open>correct_path\<close> says that it removes them: \<open>a//b\<close> is read as \<open>a//b\<close>.
\<close>

theorem correct_path_protect_path:
  "correct_path (protect_path s []) [] = Some s \<and> correct_path (print_protected s) [] = Some s"
  by (simp add: protect_path_eq correct_path_print)

text \<open>
  C9. A name \<open>weird_pathname\<close> accepts stays below the project directory, with one
  exception: following its components leads above the start only for the name ``..'',
  which the test lets through because it looks for \<open>../\<close> and \<open>/../\<close> only.
\<close>

theorem weird_pathname_contained:
  assumes "\<not> weird_pathname N"
  shows "walk 0 (split_slash N) = None \<longleftrightarrow> N = ''..''"
  using assms by (rule walk_not_weird)

theorem weird_pathname_contained_witness: "walk 0 (split_slash ''src/x.cc'') \<noteq> None"
proof -
  have "\<not> weird_pathname ''src/x.cc''"
    by (simp add: weird_pathname_def strncmp_eq_def)
  from weird_pathname_contained [OF this] show ?thesis by simp
qed

text \<open>
  A name that ends in a slash, in \<open>/.\<close> or in \<open>/..\<close> is accepted as soon as the name
  before it is, although the callers say that names may not end in a slash.
\<close>

lemma weird_pathname_tail:
  "weird_pathname ''a/'' = False" "weird_pathname ''a/.'' = False"
  "weird_pathname ''a/..'' = False" "weird_pathname ''..'' = False"
  by (simp_all add: weird_pathname_def strncmp_eq_def)

text \<open>
  C17. The path tables are sound: names that \<open>pathname_equal\<close> identifies hash to the
  same bucket, whatever the number of buckets.
\<close>

theorem pathname_hash_respects_equal:
  assumes "pathname_equal a b"
  shows "pathname_hash a M = pathname_hash b M"
  using assms by (simp add: pathname_equal_iff pathname_hash_eq)

theorem pathname_hash_respects_equal_witness:
  "pathname_hash ''a//b'' 23 = pathname_hash ''a/b'' 23"
proof -
  have "pathname_equal ''a//b'' ''a/b''" by (simp add: pathname_equal_iff)
  then show ?thesis by (rule pathname_hash_respects_equal)
qed

text \<open>
  \<open>pathname_equal\<close> decides equality of the names with repeated slashes removed.
\<close>

lemma pathname_equal_canonical: "pathname_equal a b = (squeeze False a = squeeze False b)"
  by (rule pathname_equal_iff)

text \<open>
  A version name splits at its last period, and only there: the two functions
  return the halves exactly when the name is the major version, a period and a minor
  version without a period.
\<close>

lemma version_name_split:
  "(major_version_of name = Some maj \<and> minor_version_of name = Some mi) =
   (name = maj @ DOT # mi \<and> DOT \<notin> set mi)"
proof
  assume h: "major_version_of name = Some maj \<and> minor_version_of name = Some mi"
  then obtain r where r: "strrchr name DOT = Some r"
    by (auto simp: major_version_of_def split: option.splits)
  then obtain p t where "name = p @ r" "r = DOT # t" "DOT \<notin> set t"
    by (auto simp: strrchr_Some)
  with h r show "name = maj @ DOT # mi \<and> DOT \<notin> set mi"
    by (simp add: major_version_of_def minor_version_of_def)
next
  assume "name = maj @ DOT # mi \<and> DOT \<notin> set mi"
  then show "major_version_of name = Some maj \<and> minor_version_of name = Some mi"
    by (simp add: major_version_of_def minor_version_of_def)
qed

end
