(* ===== verification/Versions.thy ===== *)
theory Versions
  imports Misc
begin

text \<open>
  The project versions of a repository entry: the data of one version
  (\<open>ProjectVersionData\<close> of \<open>src/src/include/vc.h\<close> and \<open>src/src/vc.cc\<close>), the lookups
  and the common-ancestor search of \<open>src/src/repository.cc\<close>, and the resolution of
  version specifiers in \<open>src/src/prcsver.cc\<close>.
\<close>

section \<open>Version data\<close>

text \<open>
  The version at position \<open>i\<close> of the array \<open>project_summary()\<close> has version index \<open>i\<close>;
  the working project of a merge is a version outside the array, with index \<open>-1\<close>.
  The two flags of a version are kept apart, as the sets of the flagged indices.
\<close>

record ProjectVersionData =
  prcs_major :: string
  prcs_minor :: string
  version_index :: int
  parents :: "nat list"
  deleted :: bool
  rcs_version :: string

text \<open>
  \<open>isspace\<close> and \<open>isdigit\<close> of the C locale, and \<open>atoi\<close>: the number is cut to the range of \<open>long\<close>, as
  \<open>strtol\<close> does, and then to the low 32 bits.
\<close>

definition isspace :: "char \<Rightarrow> bool" where
  "isspace c \<longleftrightarrow> c = CHR '' '' \<or> c = CHR 0x09 \<or> c = CHR 0x0A \<or> c = CHR 0x0B \<or> c = CHR 0x0C \<or> c = CHR 0x0D"

definition isdigit :: "char \<Rightarrow> bool" where
  "isdigit c \<longleftrightarrow> 48 \<le> (of_char c :: nat) \<and> (of_char c :: nat) \<le> 57"

fun digits_val :: "int \<Rightarrow> string \<Rightarrow> int" where
  "digits_val acc [] = acc"
| "digits_val acc (c # cs) =
     (if isdigit c then digits_val (10 * acc + (of_char c - 48)) cs else acc)"

definition int_of_long :: "int \<Rightarrow> int" where
  "int_of_long n = signed_take_bit 31 (max (- (2 ^ 63)) (min n (2 ^ 63 - 1)))"

definition atoi :: "string \<Rightarrow> int" where
  "atoi s =
     (case dropWhile isspace s of
        [] \<Rightarrow> 0
      | c # cs \<Rightarrow> int_of_long
          (if c = CHR ''-'' then - digits_val 0 cs
           else if c = CHR ''+'' then digits_val 0 cs
           else digits_val 0 (c # cs)))"

text \<open>The number of a version is computed when its minor version is set.\<close>

definition prcs_minor_int :: "ProjectVersionData \<Rightarrow> int" where
  "prcs_minor_int v = atoi (prcs_minor v)"

lemma int_of_long_id: "- (2 ^ 31) \<le> n \<Longrightarrow> n < 2 ^ 31 \<Longrightarrow> int_of_long n = n"
  by (simp add: int_of_long_def signed_take_bit_int_eq_self)

lemma int_of_long_range: "- (2 ^ 31) \<le> int_of_long n \<and> int_of_long n < 2 ^ 31"
  unfolding int_of_long_def
  using signed_take_bit_int_greater_eq_minus_exp [of 31] signed_take_bit_int_less_exp [of 31] by blast

lemma atoi_range: "- (2 ^ 31) \<le> atoi s \<and> atoi s < 2 ^ 31"
  using int_of_long_range by (simp add: atoi_def split: list.split)

lemma minor_int_range: "- (2 ^ 31) \<le> prcs_minor_int v \<and> prcs_minor_int v < 2 ^ 31"
  unfolding prcs_minor_int_def by (rule atoi_range)

text \<open>\<open>%d\<close> of a non-negative integer, as \<open>assign_int\<close> prints it.\<close>

fun print_nat :: "nat \<Rightarrow> string" where
  "print_nat n =
     (if n < 10 then [char_of (48 + n)] else print_nat (n div 10) @ [char_of (48 + n mod 10)])"

declare print_nat.simps [simp del]

definition assign_int :: "int \<Rightarrow> string" where
  "assign_int x = (if x < 0 then CHR ''-'' # print_nat (nat (- x)) else print_nat (nat x))"

text \<open>The \<open>number\<close> case of \<open>VC_check_token_match\<close>.\<close>

definition check_number :: "string \<Rightarrow> bool" where
  "check_number token \<longleftrightarrow>
     \<not> (token \<noteq> [] \<and> hd token = CHR ''0'' \<and> tl token \<noteq> []) \<and> list_all isdigit token"

section \<open>Lookups\<close>

text \<open>\<open>lookup_version\<close> scans the array from its end.\<close>

definition version_matches :: "string \<Rightarrow> int \<Rightarrow> ProjectVersionData \<Rightarrow> bool" where
  "version_matches major minorint v \<longleftrightarrow> minorint = prcs_minor_int v \<and> prcs_major v = major"

definition lookup_version_int :: "ProjectVersionData list \<Rightarrow> string \<Rightarrow> int \<Rightarrow> ProjectVersionData option" where
  "lookup_version_int arr major minorint = find (version_matches major minorint) (rev arr)"

definition lookup_version :: "ProjectVersionData list \<Rightarrow> string \<Rightarrow> string \<Rightarrow> ProjectVersionData option" where
  "lookup_version arr major minor = lookup_version_int arr major (atoi minor)"

text \<open>\<open>highest_major_version\<close>: \<open>-1\<close> if no major version is a number.\<close>

fun highest_major_from :: "int \<Rightarrow> ProjectVersionData list \<Rightarrow> int" where
  "highest_major_from mx [] = mx"
| "highest_major_from mx (v # vs) =
     (if check_number (prcs_major v)
      then highest_major_from (if atoi (prcs_major v) > mx then atoi (prcs_major v) else mx) vs
      else highest_major_from mx vs)"

definition highest_major_version :: "ProjectVersionData list \<Rightarrow> int" where
  "highest_major_version arr = highest_major_from (- 1) arr"

fun highest_minor_from ::
  "string \<Rightarrow> bool \<Rightarrow> int \<Rightarrow> ProjectVersionData option \<Rightarrow> ProjectVersionData list \<Rightarrow> ProjectVersionData option"
where
  "highest_minor_from major may_be_deleted mx data [] = data"
| "highest_minor_from major may_be_deleted mx data (pd # pds) =
     (if prcs_major pd = major then
        (if \<not> may_be_deleted \<and> deleted pd then highest_minor_from major may_be_deleted mx data pds
         else if prcs_minor_int pd > mx
         then highest_minor_from major may_be_deleted (prcs_minor_int pd) (Some pd) pds
         else highest_minor_from major may_be_deleted mx data pds)
      else highest_minor_from major may_be_deleted mx data pds)"

definition highest_minor_version_data :: "ProjectVersionData list \<Rightarrow> string \<Rightarrow> bool \<Rightarrow> ProjectVersionData option" where
  "highest_minor_version_data arr major may_be_deleted = highest_minor_from major may_be_deleted 0 None arr"

definition highest_minor_version :: "ProjectVersionData list \<Rightarrow> string \<Rightarrow> bool \<Rightarrow> int" where
  "highest_minor_version arr major may_be_deleted =
     (case highest_minor_version_data arr major may_be_deleted of
        None \<Rightarrow> 0 | Some d \<Rightarrow> prcs_minor_int d)"

definition major_version_exists :: "ProjectVersionData list \<Rightarrow> string \<Rightarrow> bool" where
  "major_version_exists arr major = list_ex (\<lambda>v. prcs_major v = major) arr"

section \<open>Resolving a version specifier\<close>

datatype resolve_error =
    FailedReadingProject
  | WorkingVersionMissing
  | NoVersions
  | NoNumericMajor
  | CouldNotResolve
  | VersionDeleted
  | NoSuchVersion

text \<open>
  \<open>resolve_version\<close>. The working project (\<open>project\<close>, or the one read from the project
  file) is given by its version; \<open>None\<close> is a project file that cannot be read. Without
  a minor version a missing working version was already reported: the assumption the
  code notes is that a null minor version comes with a null major version, and
  \<open>local_data\<close> is used in both branches.
\<close>

definition resolve_local ::
  "ProjectVersionData list \<Rightarrow> (string \<times> string) option \<Rightarrow> string \<Rightarrow> string
     \<Rightarrow> resolve_error + ProjectVersionData option" where
  "resolve_local arr project maj mi =
     (if maj = [] \<or> mi = [] then
        (case project of
           None \<Rightarrow> Inl FailedReadingProject
         | Some (pmaj, pmin) \<Rightarrow>
             (case lookup_version arr pmaj pmin of
                None \<Rightarrow> Inl WorkingVersionMissing
              | Some d \<Rightarrow> Inr (Some d)))
      else Inr None)"

definition resolve_major ::
  "ProjectVersionData list \<Rightarrow> ProjectVersionData option \<Rightarrow> string \<Rightarrow> resolve_error + string" where
  "resolve_major arr local_data maj =
     (if maj = [] then Inr (prcs_major (the local_data))
      else if maj = ''@'' then
        (if length arr = 0 then Inl NoVersions
         else if highest_major_version arr \<ge> 0 then Inr (assign_int (highest_major_version arr))
         else Inl NoNumericMajor)
      else Inr maj)"

definition resolve_minor ::
  "ProjectVersionData list \<Rightarrow> ProjectVersionData option \<Rightarrow> string \<Rightarrow> string \<Rightarrow> string" where
  "resolve_minor arr local_data new_major mi =
     (if mi = [] then prcs_minor (the local_data)
      else if mi = ''@'' then assign_int (highest_minor_version arr new_major False)
      else mi)"

definition resolve_version ::
  "ProjectVersionData list \<Rightarrow> (string \<times> string) option \<Rightarrow> string \<Rightarrow> string
     \<Rightarrow> resolve_error + ProjectVersionData" where
  "resolve_version arr project maj mi =
     ebind (resolve_local arr project maj mi) (\<lambda>local_data.
     ebind (resolve_major arr local_data maj) (\<lambda>new_major.
       let new_minor = resolve_minor arr local_data new_major mi;
           new_data = lookup_version arr new_major new_minor
       in if new_minor \<noteq> ''0'' \<and> new_data = None then Inl CouldNotResolve
          else (case new_data of
                  Some d \<Rightarrow> if deleted d then Inl VersionDeleted else Inr d
                | None \<Rightarrow> Inl NoSuchVersion)))"

section \<open>Common ancestors\<close>

text \<open>
  The depth-first searches. The list of pending nodes is the recursion stack of the
  code: the parents of a node are visited, in order, before the nodes that were pending
  when it was. \<open>None\<close> is the assertion of \<open>Dynarray::index\<close> that fails for a parent
  index outside the array.
\<close>

definition parent_nodes :: "ProjectVersionData list \<Rightarrow> ProjectVersionData \<Rightarrow> ProjectVersionData list option" where
  "parent_nodes arr node =
     (if list_all (\<lambda>p. p < length arr) (parents node) then Some (map (nth arr) (parents node)) else None)"

lemma parent_nodes_subset: "parent_nodes arr node = Some ps \<Longrightarrow> set ps \<subseteq> set arr"
  by (auto simp: parent_nodes_def list_all_iff split: if_splits)

definition unflagged :: "ProjectVersionData list \<Rightarrow> int set \<Rightarrow> ProjectVersionData list \<Rightarrow> nat" where
  "unflagged arr fl pend = card (version_index ` (set arr \<union> set pend) - fl)"

lemma unflagged_push:
  assumes "version_index node \<notin> fl" and "set ps \<subseteq> set arr"
  shows "unflagged arr (insert (version_index node) fl) (ps @ pend) < unflagged arr fl (node # pend)"
  unfolding unflagged_def
  by (rule psubset_card_mono) (use assms in auto)

lemma unflagged_drop: "unflagged arr fl pend \<le> unflagged arr fl (node # pend)"
  unfolding unflagged_def by (rule card_mono) auto

lemma unflagged_insert: "unflagged arr (insert i fl) pend \<le> unflagged arr fl (node # pend)"
  unfolding unflagged_def by (rule card_mono) auto

function common_version_dfs_1 ::
  "ProjectVersionData list \<Rightarrow> int set \<Rightarrow> ProjectVersionData list \<Rightarrow> int set option" where
  "common_version_dfs_1 arr flag1 [] = Some flag1"
| "common_version_dfs_1 arr flag1 (node # pend) =
     (if version_index node \<in> flag1 then common_version_dfs_1 arr flag1 pend
      else (case parent_nodes arr node of
              None \<Rightarrow> None
            | Some ps \<Rightarrow> common_version_dfs_1 arr (insert (version_index node) flag1) (ps @ pend)))"
  by pat_completeness auto
termination
  by (relation "measures [\<lambda>(arr, fl, pend). unflagged arr fl pend, \<lambda>(arr, fl, pend). length pend]")
    (use unflagged_drop unflagged_push parent_nodes_subset le_eq_less_or_eq in auto)

function common_version_dfs_2 ::
  "ProjectVersionData list \<Rightarrow> int set \<Rightarrow> int set \<Rightarrow> ProjectVersionData list \<Rightarrow> ProjectVersionData list
     \<Rightarrow> ProjectVersionData list option" where
  "common_version_dfs_2 arr flag1 flag2 res [] = Some res"
| "common_version_dfs_2 arr flag1 flag2 res (node # pend) =
     (if version_index node \<in> flag2 then common_version_dfs_2 arr flag1 flag2 res pend
      else if version_index node \<in> flag1
      then common_version_dfs_2 arr flag1 (insert (version_index node) flag2) (res @ [node]) pend
      else (case parent_nodes arr node of
              None \<Rightarrow> None
            | Some ps \<Rightarrow>
                common_version_dfs_2 arr flag1 (insert (version_index node) flag2) res (ps @ pend)))"
  by pat_completeness auto
termination
  by (relation "measures [\<lambda>(arr, f1, fl, res, pend). unflagged arr fl pend,
                          \<lambda>(arr, f1, fl, res, pend). length pend]")
    (use unflagged_drop unflagged_insert unflagged_push parent_nodes_subset le_eq_less_or_eq in auto)

definition common_version_dfs_3 ::
  "ProjectVersionData list \<Rightarrow> int set \<Rightarrow> ProjectVersionData \<Rightarrow> int set option" where
  "common_version_dfs_3 arr flag1 node =
     (case parent_nodes arr node of None \<Rightarrow> None | Some ps \<Rightarrow> common_version_dfs_1 arr flag1 ps)"

fun mark_parents ::
  "ProjectVersionData list \<Rightarrow> int set \<Rightarrow> ProjectVersionData list \<Rightarrow> int set option" where
  "mark_parents arr flag1 [] = Some flag1"
| "mark_parents arr flag1 (v # vs) =
     (case common_version_dfs_3 arr flag1 v of None \<Rightarrow> None | Some fl \<Rightarrow> mark_parents arr fl vs)"

text \<open>\<open>clear_flags\<close> resets the versions of the array; the flag of a version outside it stays.\<close>

definition clear_flags :: "ProjectVersionData list \<Rightarrow> int set \<Rightarrow> int set" where
  "clear_flags arr flag = flag - version_index ` set arr"

definition common_version ::
  "ProjectVersionData list \<Rightarrow> ProjectVersionData \<Rightarrow> ProjectVersionData \<Rightarrow> ProjectVersionData list option" where
  "common_version arr one two =
     (case common_version_dfs_1 arr {} [one] of None \<Rightarrow> None | Some flag1 \<Rightarrow>
     (case common_version_dfs_2 arr flag1 {} [] [two] of None \<Rightarrow> None | Some tmp \<Rightarrow>
     (case mark_parents arr (clear_flags arr flag1) tmp of None \<Rightarrow> None | Some marked \<Rightarrow>
        Some (filter (\<lambda>v. version_index v \<notin> marked) tmp))))"

section \<open>Correctness of the searches\<close>

definition parent_rel :: "ProjectVersionData list \<Rightarrow> (ProjectVersionData \<times> ProjectVersionData) set" where
  "parent_rel arr = {(u, v). v \<in> nth arr ` set (parents u)}"

text \<open>The data file describes a repository: positions are indices, parents exist.\<close>

definition wf_node :: "ProjectVersionData list \<Rightarrow> ProjectVersionData \<Rightarrow> bool" where
  "wf_node arr v \<longleftrightarrow> list_all (\<lambda>p. p < length arr) (parents v) \<and> (v \<in> set arr \<or> version_index v = - 1)"

definition wf_versions :: "ProjectVersionData list \<Rightarrow> bool" where
  "wf_versions arr \<longleftrightarrow>
     map version_index arr = map int [0..<length arr] \<and> list_all (wf_node arr) arr"

definition common_ancestors ::
  "ProjectVersionData list \<Rightarrow> ProjectVersionData \<Rightarrow> ProjectVersionData \<Rightarrow> ProjectVersionData set" where
  "common_ancestors arr one two =
     (parent_rel arr)\<^sup>* `` {one} \<inter> (parent_rel arr)\<^sup>* `` {two}"

lemma wf_versions_index: "wf_versions arr \<Longrightarrow> i < length arr \<Longrightarrow> version_index (arr ! i) = int i"
  unfolding wf_versions_def by (metis add_0 length_map nth_map nth_upt)

lemma wf_versions_inj:
  assumes "wf_versions arr" and "wf_node arr one"
  shows "inj_on version_index (insert one (set arr))"
proof -
  have arr: "inj_on version_index (set arr)"
    by (rule inj_onI) (metis assms(1) in_set_conv_nth of_nat_eq_iff wf_versions_index)
  have "version_index v \<noteq> - 1" if "v \<in> set arr" for v
    using that assms(1) by (metis in_set_conv_nth of_nat_0_le_iff wf_versions_index
        le_minus_one_simps(3))
  then have "version_index one \<notin> version_index ` set arr" if "one \<notin> set arr"
    using that assms(2) by (force simp: wf_node_def)
  with arr show ?thesis
    by (cases "one \<in> set arr") (simp_all add: insert_absorb)
qed

lemma parent_nodes_wf:
  "wf_node arr v \<Longrightarrow> \<exists>ps. parent_nodes arr v = Some ps \<and> set ps = parent_rel arr `` {v} \<and> set ps \<subseteq> set arr"
  by (auto simp: parent_nodes_def wf_node_def parent_rel_def list_all_iff)

text \<open>Closing a set of visited nodes: every successor is visited or pending.\<close>

lemma closed_rtrancl:
  assumes "R `` F \<subseteq> F \<union> S"
  shows "R\<^sup>* `` F \<subseteq> F \<union> R\<^sup>* `` S"
proof
  fix v
  assume "v \<in> R\<^sup>* `` F"
  then obtain u where "(u, v) \<in> R\<^sup>*" "u \<in> F" by auto
  then show "v \<in> F \<union> R\<^sup>* `` S"
  proof (induction rule: rtrancl_induct)
    case base
    then show ?case by simp
  next
    case (step y z)
    then show ?case using assms by (blast intro: rtrancl_into_rtrancl)
  qed
qed

lemma visit_flagged:
  assumes "R `` F \<subseteq> F \<union> insert n S" and "n \<in> F"
  shows "F \<union> R\<^sup>* `` insert n S = F \<union> R\<^sup>* `` S"
proof -
  have "R `` F \<subseteq> F \<union> S" using assms by auto
  then have "R\<^sup>* `` F \<subseteq> F \<union> R\<^sup>* `` S" by (rule closed_rtrancl)
  then show ?thesis using assms(2) by auto
qed

lemma rtrancl_Image_unfold: "R\<^sup>* `` insert n S = insert n (R\<^sup>* `` (R `` {n} \<union> S))"
proof -
  have "R\<^sup>* `` {n} = insert n (R\<^sup>* `` (R `` {n}))"
    by (auto elim: converse_rtranclE intro: converse_rtrancl_into_rtrancl)
  moreover have "R\<^sup>* `` insert n S = R\<^sup>* `` {n} \<union> R\<^sup>* `` S" by auto
  ultimately show ?thesis by (simp add: Image_Un)
qed

text \<open>
  The universe of a search: the nodes it can reach, with distinct indices. \<open>X\<close> holds the
  flags of nodes outside it.
\<close>

definition universe :: "ProjectVersionData list \<Rightarrow> ProjectVersionData set \<Rightarrow> int set \<Rightarrow> bool" where
  "universe arr U X \<longleftrightarrow>
     inj_on version_index U \<and> set arr \<subseteq> U \<and> (\<forall>v \<in> U. wf_node arr v) \<and> X \<inter> version_index ` U = {}"

lemma flag_iff:
  "universe arr U X \<Longrightarrow> n \<in> U \<Longrightarrow> F \<subseteq> U \<Longrightarrow> version_index n \<in> X \<union> version_index ` F \<longleftrightarrow> n \<in> F"
  using inj_on_image_mem_iff [of version_index U n F] by (auto simp: universe_def)

lemma dfs_1_result:
  assumes "universe arr U X" and "F \<subseteq> U" and "set pend \<subseteq> U"
    and "parent_rel arr `` F \<subseteq> F \<union> set pend"
  shows "common_version_dfs_1 arr (X \<union> version_index ` F) pend =
           Some (X \<union> version_index ` (F \<union> (parent_rel arr)\<^sup>* `` set pend))"
  using assms
proof (induction arr "X \<union> version_index ` F" pend arbitrary: F rule: common_version_dfs_1.induct)
  case (1 arr)
  then show ?case by simp
next
  case (2 arr node pend)
  show ?case
  proof (cases "node \<in> F")
    case True
    have flag: "version_index node \<in> X \<union> version_index ` F" using True by simp
    have cl: "parent_rel arr `` F \<subseteq> F \<union> set pend" using "2.prems"(4) True by auto
    have "F \<union> (parent_rel arr)\<^sup>* `` set (node # pend) = F \<union> (parent_rel arr)\<^sup>* `` set pend"
      using visit_flagged [OF _ True, of "parent_rel arr" "set pend"] "2.prems"(4) by simp
    then show ?thesis
      using "2.hyps"(1) [OF flag refl "2.prems"(1,2) _ cl] "2.prems"(3) flag by simp
  next
    case False
    from "2.prems" have node: "node \<in> U" and wf: "wf_node arr node" and sub: "set arr \<subseteq> U"
      by (auto simp: universe_def)
    have flag: "version_index node \<notin> X \<union> version_index ` F"
      using flag_iff [OF "2.prems"(1) node "2.prems"(2)] False by simp
    obtain ps where ps: "parent_nodes arr node = Some ps"
      "set ps = parent_rel arr `` {node}" "set ps \<subseteq> set arr"
      using parent_nodes_wf [OF wf] by blast
    have ins: "insert (version_index node) (X \<union> version_index ` F) = X \<union> version_index ` insert node F"
      by auto
    have "common_version_dfs_1 arr (X \<union> version_index ` insert node F) (ps @ pend) =
        Some (X \<union> version_index ` (insert node F \<union> (parent_rel arr)\<^sup>* `` set (ps @ pend)))"
    proof (rule "2.hyps"(2) [OF flag ps(1) ins "2.prems"(1)])
      show "insert node F \<subseteq> U" using node "2.prems"(2) by blast
      show "set (ps @ pend) \<subseteq> U" using ps(3) sub "2.prems"(3) by auto
      show "parent_rel arr `` insert node F \<subseteq> insert node F \<union> set (ps @ pend)"
        using "2.prems"(4) ps(2) by auto
    qed
    moreover have "insert node F \<union> (parent_rel arr)\<^sup>* `` set (ps @ pend) =
        F \<union> (parent_rel arr)\<^sup>* `` set (node # pend)"
      by (simp add: rtrancl_Image_unfold [of _ node] ps(2))
    ultimately show ?thesis
      by (simp only: common_version_dfs_1.simps(2) flag if_False ps(1) option.case ins)
  qed
qed

text \<open>The second search does not go past a flagged node.\<close>

definition unmarked_rel ::
  "ProjectVersionData list \<Rightarrow> ProjectVersionData set \<Rightarrow> (ProjectVersionData \<times> ProjectVersionData) set" where
  "unmarked_rel arr A = {(u, v) \<in> parent_rel arr. u \<notin> A}"

lemma unmarked_Image: "n \<notin> A \<Longrightarrow> unmarked_rel arr A `` {n} = parent_rel arr `` {n}"
  "n \<in> A \<Longrightarrow> unmarked_rel arr A `` {n} = {}"
  by (auto simp: unmarked_rel_def)

lemma dfs_2_result:
  assumes "universe arr U {}" and "G \<subseteq> U" and "A \<subseteq> U" and "set pend \<subseteq> U"
    and "unmarked_rel arr A `` G \<subseteq> G \<union> set pend" and "set res = G \<inter> A" and "distinct res"
  shows "\<exists>tmp. common_version_dfs_2 arr (version_index ` A) (version_index ` G) res pend = Some tmp \<and>
           set tmp = (G \<union> (unmarked_rel arr A)\<^sup>* `` set pend) \<inter> A \<and> distinct tmp"
  using assms
proof (induction arr "version_index ` A" "version_index ` G" res pend arbitrary: G
    rule: common_version_dfs_2.induct)
  case (1 arr res)
  then show ?case by simp
next
  case (2 arr res node pend)
  let ?R = "unmarked_rel arr A"
  from "2.prems" have node: "node \<in> U" and wf: "wf_node arr node" and sub: "set arr \<subseteq> U"
    by (auto simp: universe_def)
  have G: "version_index node \<in> version_index ` G \<longleftrightarrow> node \<in> G"
    and A: "version_index node \<in> version_index ` A \<longleftrightarrow> node \<in> A"
    using flag_iff [OF "2.prems"(1) node] "2.prems"(2,3) by simp_all
  have ins: "insert (version_index node) (version_index ` G) = version_index ` insert node G" by simp
  show ?case
  proof (cases "node \<in> G")
    case True
    have cl: "?R `` G \<subseteq> G \<union> set pend" using "2.prems"(5) True by auto
    have "G \<union> ?R\<^sup>* `` set (node # pend) = G \<union> ?R\<^sup>* `` set pend"
      using visit_flagged [OF _ True, of ?R "set pend"] "2.prems"(5) by simp
    moreover have "set pend \<subseteq> U" using "2.prems"(4) by simp
    ultimately show ?thesis
      using "2.hyps"(1) [OF G [THEN iffD2, OF True] refl "2.prems"(1,2,3) _ cl "2.prems"(6,7)] G True
      by (simp only: common_version_dfs_2.simps(2) if_True)
  next
    case notG: False
    note nG = notG [folded G]
    show ?thesis
    proof (cases "node \<in> A")
      case True
      have "\<exists>tmp. common_version_dfs_2 arr (version_index ` A) (version_index ` insert node G) (res @ [node]) pend
          = Some tmp \<and> set tmp = (insert node G \<union> ?R\<^sup>* `` set pend) \<inter> A \<and> distinct tmp"
      proof (rule "2.hyps"(2) [OF nG A [THEN iffD2, OF True] ins "2.prems"(1) _ "2.prems"(3)])
        show "insert node G \<subseteq> U" using node "2.prems"(2) by blast
        show "set pend \<subseteq> U" using "2.prems"(4) by simp
        show "?R `` insert node G \<subseteq> insert node G \<union> set pend"
          using "2.prems"(5) unmarked_Image(2) [OF True, of arr] by auto
        show "set (res @ [node]) = insert node G \<inter> A" using "2.prems"(6) True by auto
        show "distinct (res @ [node])" using "2.prems"(6,7) notG by simp
      qed
      moreover have "insert node G \<union> ?R\<^sup>* `` set pend = G \<union> ?R\<^sup>* `` set (node # pend)"
        using unmarked_Image(2) [OF True, of arr] by (simp add: rtrancl_Image_unfold [of _ node])
      ultimately show ?thesis
        using nG A True by (simp only: common_version_dfs_2.simps(2) if_False if_True ins)
    next
      case notA: False
      obtain ps where ps: "parent_nodes arr node = Some ps"
        "set ps = parent_rel arr `` {node}" "set ps \<subseteq> set arr"
        using parent_nodes_wf [OF wf] by blast
      have "\<exists>tmp. common_version_dfs_2 arr (version_index ` A) (version_index ` insert node G) res (ps @ pend)
          = Some tmp \<and> set tmp = (insert node G \<union> ?R\<^sup>* `` set (ps @ pend)) \<inter> A \<and> distinct tmp"
      proof (rule "2.hyps"(3) [OF nG notA [folded A] ps(1) ins "2.prems"(1) _ "2.prems"(3)])
        show "insert node G \<subseteq> U" using node "2.prems"(2) by blast
        show "set (ps @ pend) \<subseteq> U" using ps(3) sub "2.prems"(4) by auto
        show "?R `` insert node G \<subseteq> insert node G \<union> set (ps @ pend)"
          using "2.prems"(5) unmarked_Image(1) [OF notA, of arr] ps(2) by auto
        show "set res = insert node G \<inter> A" using "2.prems"(6) notA by auto
        show "distinct res" by (rule "2.prems"(7))
      qed
      moreover have "insert node G \<union> ?R\<^sup>* `` set (ps @ pend) = G \<union> ?R\<^sup>* `` set (node # pend)"
        using unmarked_Image(1) [OF notA, of arr]
        by (simp add: rtrancl_Image_unfold [of _ node] ps(2))
      ultimately show ?thesis
        using nG notA [folded A]
        by (simp only: common_version_dfs_2.simps(2) if_False ps(1) option.case ins)
    qed
  qed
qed

lemma parent_rel_step:
  assumes "universe arr U X" and "(u, w) \<in> parent_rel arr" and "u \<in> U"
  shows "w \<in> set arr"
  using parent_nodes_wf [of arr u] assms by (auto simp: universe_def)

lemma parent_rel_range:
  assumes "universe arr U X" and "u \<in> U"
  shows "(u, w) \<in> (parent_rel arr)\<^sup>+ \<Longrightarrow> w \<in> set arr"
proof (induction rule: trancl_induct)
  case (base y)
  then show ?case using parent_rel_step [OF assms(1) _ assms(2)] by simp
next
  case (step y z)
  then show ?case using parent_rel_step [OF assms(1) step(2)] assms(1) by (auto simp: universe_def)
qed

lemma Image_insert_Un: "R `` insert v S = R `` {v} \<union> R `` S"
  by auto

lemma trancl_Image_rtrancl: "R\<^sup>* `` (R `` S) = R\<^sup>+ `` S"
  by (simp add: trancl_unfold_left relcomp_Image)

lemma mark_parents_result:
  assumes "universe arr (set arr) X" and "F \<subseteq> set arr" and "set vs \<subseteq> set arr"
    and "parent_rel arr `` F \<subseteq> F"
  shows "mark_parents arr (X \<union> version_index ` F) vs =
           Some (X \<union> version_index ` (F \<union> (parent_rel arr)\<^sup>+ `` set vs))"
  using assms(2-)
proof (induction vs arbitrary: F)
  case Nil
  then show ?case by simp
next
  case (Cons v vs)
  let ?P = "parent_rel arr"
  from Cons.prems assms(1) have wf: "wf_node arr v" by (auto simp: universe_def)
  obtain ps where ps: "parent_nodes arr v = Some ps" "set ps = ?P `` {v}" "set ps \<subseteq> set arr"
    using parent_nodes_wf [OF wf] by blast
  let ?F' = "F \<union> ?P\<^sup>* `` set ps"
  have step: "?P\<^sup>* `` set ps = ?P\<^sup>+ `` {v}"
    by (simp add: ps(2) trancl_Image_rtrancl)
  have "common_version_dfs_1 arr (X \<union> version_index ` F) ps = Some (X \<union> version_index ` ?F')"
    by (rule dfs_1_result [OF assms(1) Cons.prems(1) ps(3)]) (use Cons.prems(3) in auto)
  moreover have "mark_parents arr (X \<union> version_index ` ?F') vs =
      Some (X \<union> version_index ` (?F' \<union> ?P\<^sup>+ `` set vs))"
  proof (rule Cons.IH)
    have "?P\<^sup>+ `` {v} \<subseteq> set arr"
      using parent_rel_range [OF assms(1)] Cons.prems(2) by auto
    then show "?F' \<subseteq> set arr" using Cons.prems(1) step by simp
    show "set vs \<subseteq> set arr" using Cons.prems(2) by simp
    show "?P `` ?F' \<subseteq> ?F'" using Cons.prems(3) by (auto intro: rtrancl_into_rtrancl)
  qed
  ultimately show ?case
    by (simp add: common_version_dfs_3_def ps(1) step Un_assoc Image_insert_Un [of _ v "set vs"])
qed

text \<open>
  The nodes the second search collects: common ancestors such that every common
  ancestor is an ancestor of a collected one.
\<close>

lemma frontier_covers:
  assumes A: "A = (parent_rel arr)\<^sup>* `` {one}" and c: "c \<in> A" "(two, c) \<in> (parent_rel arr)\<^sup>*"
  shows "\<exists>f \<in> (unmarked_rel arr A)\<^sup>* `` {two} \<inter> A. (f, c) \<in> (parent_rel arr)\<^sup>*"
proof -
  have "(two, c) \<in> (unmarked_rel arr A)\<^sup>* \<or>
      (\<exists>f \<in> (unmarked_rel arr A)\<^sup>* `` {two} \<inter> A. (f, c) \<in> (parent_rel arr)\<^sup>*)"
    using c(2)
  proof (induction rule: rtrancl_induct)
    case base
    then show ?case by simp
  next
    case (step c d)
    then show ?case
      by (cases "c \<in> A") (auto simp: unmarked_rel_def intro: rtrancl_into_rtrancl)
  qed
  then show ?thesis using c(1) by auto
qed

lemma unmarked_rtrancl: "(u, v) \<in> (unmarked_rel arr A)\<^sup>* \<Longrightarrow> (u, v) \<in> (parent_rel arr)\<^sup>*"
  by (rule rtrancl_mono [THEN subsetD]) (auto simp: unmarked_rel_def)

lemma frontier_maximal:
  assumes A: "A = (parent_rel arr)\<^sup>* `` {one}"
    and F: "F = (unmarked_rel arr A)\<^sup>* `` {two} \<inter> A"
  shows "v \<in> F \<and> v \<notin> (parent_rel arr)\<^sup>+ `` F \<longleftrightarrow>
    v \<in> common_ancestors arr one two \<and> (\<forall>c \<in> common_ancestors arr one two. (c, v) \<notin> (parent_rel arr)\<^sup>+)"
proof -
  have FC: "F \<subseteq> common_ancestors arr one two"
    by (auto simp: F A common_ancestors_def dest: unmarked_rtrancl)
  have cover: "\<exists>f \<in> F. (f, c) \<in> (parent_rel arr)\<^sup>*" if "c \<in> common_ancestors arr one two" for c
    using frontier_covers [OF A, of c two] that by (auto simp: F A common_ancestors_def)
  have up: "v \<in> (parent_rel arr)\<^sup>+ `` F" if "(c, v) \<in> (parent_rel arr)\<^sup>+" "c \<in> common_ancestors arr one two" for c
    using cover [OF that(2)] that(1) by (meson ImageI rtrancl_trancl_trancl)
  have inF: "v \<in> F" if "v \<in> common_ancestors arr one two" "v \<notin> (parent_rel arr)\<^sup>+ `` F"
    using cover [OF that(1)] that(2) by (metis ImageI rtranclD)
  show ?thesis using FC up inF by blast
qed

lemma wf_versions_universe:
  assumes "wf_versions arr" and "wf_node arr one"
  shows "universe arr (insert one (set arr)) {}"
  using wf_versions_inj [OF assms] assms by (auto simp: universe_def wf_versions_def list_all_iff)

lemma common_version_result:
  assumes "wf_versions arr" and "wf_node arr one" and "two \<in> set arr"
  shows "\<exists>res. common_version arr one two = Some res \<and> distinct res \<and>
    (\<forall>v. v \<in> set res \<longleftrightarrow> v \<in> common_ancestors arr one two \<and>
      (\<forall>c \<in> common_ancestors arr one two. (c, v) \<notin> (parent_rel arr)\<^sup>+))"
proof -
  let ?P = "parent_rel arr" and ?U = "insert one (set arr)"
  define A where "A = ?P\<^sup>* `` {one}"
  define F where "F = (unmarked_rel arr A)\<^sup>* `` {two} \<inter> A"
  note uni = wf_versions_universe [OF assms(1,2)]
  have AU: "A \<subseteq> ?U"
    using parent_rel_range [OF uni, of one] by (auto simp: A_def dest: rtranclD)
  have d1: "common_version_dfs_1 arr {} [one] = Some (version_index ` A)"
    using dfs_1_result [OF uni, of "{}" "[one]"] by (simp add: A_def)
  obtain tmp where tmp: "common_version_dfs_2 arr (version_index ` A) {} [] [two] = Some tmp"
    "set tmp = F" "distinct tmp"
    using dfs_2_result [OF uni, of "{}" A "[two]" "[]"] AU assms(3) by (auto simp: F_def)
  let ?X = "clear_flags arr (version_index ` A)"
  have uni2: "universe arr (set arr) ?X"
    using uni by (auto simp: universe_def clear_flags_def)
  have Farr: "F \<subseteq> set arr"
  proof
    fix v assume "v \<in> F"
    then have "(two, v) \<in> ?P\<^sup>*" by (auto simp: F_def dest: unmarked_rtrancl)
    then show "v \<in> set arr"
      using parent_rel_range [OF uni2 assms(3)] assms(3) by (auto dest: rtranclD)
  qed
  have mk: "mark_parents arr ?X tmp = Some (?X \<union> version_index ` (?P\<^sup>+ `` F))"
    using mark_parents_result [OF uni2, of "{}" tmp] tmp(2) Farr by simp
  have PF: "?P\<^sup>+ `` F \<subseteq> set arr"
    using parent_rel_range [OF uni2] Farr by blast
  have keep: "version_index v \<in> ?X \<union> version_index ` (?P\<^sup>+ `` F) \<longleftrightarrow> v \<in> ?P\<^sup>+ `` F" if "v \<in> F" for v
    using flag_iff [OF uni2 _ PF] that Farr by blast
  let ?res = "filter (\<lambda>v. version_index v \<notin> ?X \<union> version_index ` (?P\<^sup>+ `` F)) tmp"
  have "common_version arr one two = Some ?res"
    by (simp only: common_version_def d1 tmp(1) mk option.case)
  moreover have "v \<in> set ?res \<longleftrightarrow> v \<in> F \<and> v \<notin> ?P\<^sup>+ `` F" for v
    using keep tmp(2) by auto
  ultimately show ?thesis
    using tmp(3) frontier_maximal [OF A_def F_def] by (metis (no_types, lifting) distinct_filter)
qed

section \<open>Lemmas on the lookups\<close>

lemma lookup_version_int_Some:
  "lookup_version_int arr maj m = Some v \<Longrightarrow> v \<in> set arr \<and> prcs_major v = maj \<and> prcs_minor_int v = m"
  by (auto simp: lookup_version_int_def version_matches_def find_Some_iff in_set_conv_nth)
    (metis length_rev nth_mem set_rev in_set_conv_nth)

lemma lookup_version_int_None:
  "lookup_version_int arr maj m = None \<longleftrightarrow> (\<forall>v \<in> set arr. \<not> (prcs_major v = maj \<and> prcs_minor_int v = m))"
  by (auto simp: lookup_version_int_def version_matches_def find_None_iff)

lemma highest_minor_from_spec:
  assumes "\<And>d. data = Some d \<Longrightarrow> prcs_minor_int d = mx \<and> P d" and "data = None \<Longrightarrow> mx = 0"
    and P: "\<And>v. P v \<longleftrightarrow> prcs_major v = major \<and> (may_be_deleted \<or> \<not> deleted v) \<and> v \<in> Q"
    and "set pds \<subseteq> Q" and "0 \<le> mx"
  shows "case highest_minor_from major may_be_deleted mx data pds of
      None \<Rightarrow> data = None \<and> (\<forall>v \<in> set pds. P v \<longrightarrow> prcs_minor_int v \<le> 0)
    | Some d \<Rightarrow> P d \<and> mx \<le> prcs_minor_int d \<and> (\<forall>v \<in> set pds. P v \<longrightarrow> prcs_minor_int v \<le> prcs_minor_int d)
        \<and> (data = None \<longrightarrow> 0 < prcs_minor_int d)"
  using assms(1,2,4,5)
proof (induction pds arbitrary: mx data)
  case Nil
  then show ?case by (auto split: option.splits)
next
  case (Cons pd pds)
  show ?case
  proof (cases "P pd \<and> prcs_minor_int pd > mx")
    case True
    then have "highest_minor_from major may_be_deleted mx data (pd # pds) =
        highest_minor_from major may_be_deleted (prcs_minor_int pd) (Some pd) pds"
      by (auto simp: P)
    moreover have "case highest_minor_from major may_be_deleted (prcs_minor_int pd) (Some pd) pds of
      None \<Rightarrow> Some pd = None \<and> (\<forall>v \<in> set pds. P v \<longrightarrow> prcs_minor_int v \<le> 0)
    | Some d \<Rightarrow> P d \<and> prcs_minor_int pd \<le> prcs_minor_int d \<and>
        (\<forall>v \<in> set pds. P v \<longrightarrow> prcs_minor_int v \<le> prcs_minor_int d)
        \<and> (Some pd = None \<longrightarrow> 0 < prcs_minor_int d)"
      by (rule Cons.IH) (use True Cons.prems in auto)
    ultimately show ?thesis using True Cons.prems(4) by (auto split: option.splits)
  next
    case False
    then have eq: "highest_minor_from major may_be_deleted mx data (pd # pds) =
        highest_minor_from major may_be_deleted mx data pds"
      using Cons.prems(3) by (auto simp: P)
    have "case highest_minor_from major may_be_deleted mx data pds of
      None \<Rightarrow> data = None \<and> (\<forall>v \<in> set pds. P v \<longrightarrow> prcs_minor_int v \<le> 0)
    | Some d \<Rightarrow> P d \<and> mx \<le> prcs_minor_int d \<and>
        (\<forall>v \<in> set pds. P v \<longrightarrow> prcs_minor_int v \<le> prcs_minor_int d)
        \<and> (data = None \<longrightarrow> 0 < prcs_minor_int d)"
      by (rule Cons.IH) (use Cons.prems in auto)
    then show ?thesis using False Cons.prems(2) unfolding eq by (auto split: option.splits)
  qed
qed

definition candidate :: "ProjectVersionData list \<Rightarrow> string \<Rightarrow> bool \<Rightarrow> ProjectVersionData \<Rightarrow> bool" where
  "candidate arr major may_be_deleted v \<longleftrightarrow>
     prcs_major v = major \<and> (may_be_deleted \<or> \<not> deleted v) \<and> v \<in> set arr"

lemma highest_minor_version_data_spec:
  "case highest_minor_version_data arr major del of
      None \<Rightarrow> \<forall>v \<in> set arr. candidate arr major del v \<longrightarrow> prcs_minor_int v \<le> 0
    | Some d \<Rightarrow> candidate arr major del d \<and> 0 < prcs_minor_int d \<and>
        (\<forall>v \<in> set arr. candidate arr major del v \<longrightarrow> prcs_minor_int v \<le> prcs_minor_int d)"
  using highest_minor_from_spec [of None 0 "candidate arr major del" major del "set arr" arr]
  by (auto simp: highest_minor_version_data_def candidate_def split: option.splits)

lemma of_char_digit: "k < 10 \<Longrightarrow> (of_char (char_of (48 + k :: nat) :: char) :: nat) = 48 + k"
  by simp

lemma of_char_digit_int: "k < 10 \<Longrightarrow> (of_char (char_of (48 + k :: nat) :: char) :: int) = 48 + int k"
proof -
  assume "k < 10"
  then have "(of_char (char_of (48 + k :: nat) :: char) :: nat) = 48 + k" by (rule of_char_digit)
  then show ?thesis by (metis of_nat_add of_nat_numeral of_nat_of_char)
qed

lemma isdigit_digit: "k < 10 \<Longrightarrow> isdigit (char_of (48 + k :: nat))"
  by (simp add: isdigit_def)

lemma digits_val_append:
  "list_all isdigit s \<Longrightarrow> digits_val acc (s @ t) = digits_val (digits_val acc s) t"
  by (induction s arbitrary: acc) auto

lemma print_nat_digits: "list_all isdigit (print_nat n) \<and> print_nat n \<noteq> []"
proof (induction n rule: print_nat.induct)
  case (1 n)
  then show ?case by (subst (1 2) print_nat.simps) (auto simp: isdigit_digit)
qed

lemma digits_val_print: "digits_val 0 (print_nat n) = int n"
proof (induction n rule: print_nat.induct)
  case (1 n)
  show ?case
  proof (cases "n < 10")
    case True
    then show ?thesis
      by (subst print_nat.simps) (simp add: isdigit_digit of_char_digit_int)
  next
    case False
    have m: "n mod 10 < 10" by simp
    have "10 * int (n div 10) + int (n mod 10) = int n" by presburger
    with False show ?thesis
      by (subst print_nat.simps)
        (simp add: "1" digits_val_append print_nat_digits isdigit_digit [OF m] of_char_digit_int [OF m])
  qed
qed

lemma atoi_print_nat: "int n < 2 ^ 31 \<Longrightarrow> atoi (print_nat n) = int n"
proof -
  assume n: "int n < 2 ^ 31"
  obtain c cs where p: "print_nat n = c # cs" using print_nat_digits by (cases "print_nat n") auto
  have d: "isdigit c" using print_nat_digits [of n] p by simp
  have "\<not> isspace c" "c \<noteq> CHR ''-''" "c \<noteq> CHR ''+''"
    using d by (auto simp: isspace_def isdigit_def)
  then have "atoi (c # cs) = int_of_long (digits_val 0 (c # cs))" by (simp add: atoi_def del: digits_val.simps)
  then show ?thesis using digits_val_print [of n] p n by (simp add: int_of_long_id del: digits_val.simps)
qed

lemma atoi_assign_int: "0 \<le> n \<Longrightarrow> n < 2 ^ 31 \<Longrightarrow> atoi (assign_int n) = n"
  by (simp add: assign_int_def atoi_print_nat)

lemma assign_int_zero: "assign_int 0 = ''0''"
  by code_simp

text \<open>A repository in which no two versions share a name.\<close>

definition unique_names :: "ProjectVersionData list \<Rightarrow> bool" where
  "unique_names arr \<longleftrightarrow> distinct (map (\<lambda>v. (prcs_major v, prcs_minor_int v)) arr)"

lemma unique_names_eq:
  "unique_names arr \<Longrightarrow> u \<in> set arr \<Longrightarrow> v \<in> set arr \<Longrightarrow>
     prcs_major u = prcs_major v \<Longrightarrow> prcs_minor_int u = prcs_minor_int v \<Longrightarrow> u = v"
  unfolding unique_names_def by (drule distinct_map [THEN iffD1]) (auto dest: inj_onD)

lemma lookup_version_unique:
  assumes "unique_names arr" and "d \<in> set arr"
  shows "lookup_version_int arr (prcs_major d) (prcs_minor_int d) = Some d"
proof (cases "lookup_version_int arr (prcs_major d) (prcs_minor_int d)")
  case None
  then show ?thesis using assms(2) by (auto simp: lookup_version_int_None)
next
  case (Some e)
  then show ?thesis
    using lookup_version_int_Some [OF Some] unique_names_eq [OF assms(1) _ assms(2), of e] by simp
qed

section \<open>Properties\<close>

text \<open>
  C2. The common-ancestor search terminates on every repository and returns, without
  repetition, exactly the common ancestors of the two versions that are not proper
  ancestors of another common ancestor.
\<close>

theorem common_version_maximal:
  assumes "wf_versions arr" and "wf_node arr one" and "two \<in> set arr"
  shows "\<exists>res. common_version arr one two = Some res \<and> distinct res \<and>
    (\<forall>v. v \<in> set res \<longleftrightarrow> v \<in> common_ancestors arr one two \<and>
      (\<forall>c \<in> common_ancestors arr one two. (c, v) \<notin> (parent_rel arr)\<^sup>+))"
  using assms by (rule common_version_result)

text \<open>A history with two branches merged crosswise, which has two best ancestors.\<close>

definition pvd :: "int \<Rightarrow> string \<Rightarrow> string \<Rightarrow> nat list \<Rightarrow> ProjectVersionData" where
  "pvd i maj mi ps = \<lparr>prcs_major = maj, prcs_minor = mi, version_index = i,
     parents = ps, deleted = False, rcs_version = ''1.1''\<rparr>"

definition criss_cross :: "ProjectVersionData list" where
  "criss_cross =
     [pvd 0 ''0'' ''1'' [], pvd 1 ''0'' ''2'' [0], pvd 2 ''1'' ''1'' [0],
      pvd 3 ''0'' ''3'' [1, 2], pvd 4 ''1'' ''2'' [2, 1]]"

lemma criss_cross_wf: "wf_versions criss_cross" "wf_node criss_cross (criss_cross ! 3)"
  by code_simp+

lemma criss_cross_member: "criss_cross ! 4 \<in> set criss_cross" "criss_cross ! 1 \<in> set criss_cross"
  by (simp_all add: criss_cross_def)

theorem common_version_maximal_witness:
  "\<exists>res. common_version criss_cross (criss_cross ! 3) (criss_cross ! 4) = Some res \<and> distinct res"
  using common_version_maximal [OF criss_cross_wf criss_cross_member(1)] by blast

lemma criss_cross_two_ancestors:
  "map_option (map version_index) (common_version criss_cross (criss_cross ! 3) (criss_cross ! 4))
     = Some [2, 1]"
  by code_simp

lemma highest_major_from_spec:
  assumes "- 1 \<le> mx" and "mx < 2 ^ 31"
  shows "mx \<le> highest_major_from mx vs \<and> highest_major_from mx vs < 2 ^ 31 \<and>
    (\<forall>w \<in> set vs. check_number (prcs_major w) \<longrightarrow> atoi (prcs_major w) \<le> highest_major_from mx vs)"
  using assms
proof (induction mx vs rule: highest_major_from.induct)
  case (2 mx v vs)
  let ?mx = "if atoi (prcs_major v) > mx then atoi (prcs_major v) else mx"
  have "- 1 \<le> ?mx" "?mx < 2 ^ 31" using "2.prems" atoi_range [of "prcs_major v"] by auto
  then show ?case using 2 by (cases "check_number (prcs_major v)") (auto split: if_splits)
qed simp

lemma highest_major_version_spec:
  "highest_major_version arr < 2 ^ 31 \<and>
   (\<forall>w \<in> set arr. check_number (prcs_major w) \<longrightarrow> atoi (prcs_major w) \<le> highest_major_version arr)"
  using highest_major_from_spec [of "- 1" arr] by (simp add: highest_major_version_def)

text \<open>The version of the working project, which an empty component stands for.\<close>

definition local_version ::
  "ProjectVersionData list \<Rightarrow> (string \<times> string) option \<Rightarrow> ProjectVersionData option" where
  "local_version arr project = (case project of None \<Rightarrow> None | Some (pmaj, pmin) \<Rightarrow> lookup_version arr pmaj pmin)"

text \<open>
  C10. A resolved version is in the repository, is not deleted, and is the one that was asked for: an
  empty component is that of the working version, a major version \<open>@\<close> is at least every major version
  that is a number, a minor version \<open>@\<close> is at least every one of its major version that is not deleted,
  and any other component is the one given. A minor version is compared as an \<open>int\<close>: a number from
  \<open>2\<^sup>3\<^sup>1\<close> on stands for the one it wraps to.
\<close>

theorem resolve_version_sound:
  assumes "resolve_version arr project maj mi = Inr d"
  shows "d \<in> set arr \<and> \<not> deleted d \<and>
    (if maj = [] then \<exists>l. local_version arr project = Some l \<and> prcs_major d = prcs_major l
     else if maj = ''@''
     then \<forall>w \<in> set arr. check_number (prcs_major w) \<longrightarrow> atoi (prcs_major w) \<le> atoi (prcs_major d)
     else prcs_major d = maj) \<and>
    (if mi = [] then \<exists>l. local_version arr project = Some l \<and> prcs_minor_int d = prcs_minor_int l
     else if mi = ''@''
     then \<forall>w \<in> set arr. candidate arr (prcs_major d) False w \<longrightarrow> prcs_minor_int w \<le> prcs_minor_int d
     else prcs_minor_int d = atoi mi)"
proof -
  from assms obtain ld nm where
    ld: "resolve_local arr project maj mi = Inr ld" and
    nm: "resolve_major arr ld maj = Inr nm" and
    lk: "lookup_version arr nm (resolve_minor arr ld nm mi) = Some d" and del: "\<not> deleted d"
    by (auto simp: resolve_version_def ebind_eq_Inr Let_def split: if_splits option.splits)
  have d: "d \<in> set arr" "prcs_major d = nm" "prcs_minor_int d = atoi (resolve_minor arr ld nm mi)"
    using lookup_version_int_Some [OF lk [unfolded lookup_version_def]] by simp_all
  have loc: "local_version arr project = Some (the ld)" if "maj = [] \<or> mi = []"
    using ld that by (auto simp: resolve_local_def local_version_def split: option.splits prod.splits) (metis option.sel)+
  have major: "if maj = [] then \<exists>l. local_version arr project = Some l \<and> prcs_major d = prcs_major l
     else if maj = ''@''
     then \<forall>w \<in> set arr. check_number (prcs_major w) \<longrightarrow> atoi (prcs_major w) \<le> atoi (prcs_major d)
     else prcs_major d = maj"
  proof (cases "maj = ''@''")
    case True
    then have h: "nm = assign_int (highest_major_version arr)" "0 \<le> highest_major_version arr"
      using nm by (auto simp: resolve_major_def split: if_splits)
    have "atoi nm = highest_major_version arr"
      unfolding h(1) using h(2) highest_major_version_spec by (intro atoi_assign_int) simp_all
    then show ?thesis using True d(2) highest_major_version_spec [of arr] by simp
  next
    case False
    then show ?thesis using nm d(2) loc by (auto simp: resolve_major_def)
  qed
  have minor: "if mi = [] then \<exists>l. local_version arr project = Some l \<and> prcs_minor_int d = prcs_minor_int l
     else if mi = ''@''
     then \<forall>w \<in> set arr. candidate arr (prcs_major d) False w \<longrightarrow> prcs_minor_int w \<le> prcs_minor_int d
     else prcs_minor_int d = atoi mi"
  proof (cases "mi = ''@''")
    case True
    let ?h = "highest_minor_version arr nm False"
    have h: "0 \<le> ?h" "?h < 2 ^ 31"
      "\<forall>w \<in> set arr. candidate arr nm False w \<longrightarrow> prcs_minor_int w \<le> ?h"
      using highest_minor_version_data_spec [of arr nm False] minor_int_range
      by (auto simp: highest_minor_version_def split: option.splits)
    have "prcs_minor_int d = ?h"
      using d(3) True atoi_assign_int [OF h(1,2)] by (simp add: resolve_minor_def)
    then show ?thesis using True d(2) h(3) by simp
  next
    case False
    then show ?thesis using d(3) loc by (auto simp: resolve_minor_def prcs_minor_int_def)
  qed
  show ?thesis using d(1) del major minor by blast
qed

theorem resolve_version_sound_witness:
  "resolve_version criss_cross None ''1'' ''2'' = Inr (criss_cross ! 4) \<and>
   prcs_major (criss_cross ! 4) = ''1''"
proof -
  have r: "resolve_version criss_cross None ''1'' ''2'' = Inr (criss_cross ! 4)" by code_simp
  show ?thesis using resolve_version_sound [OF r] r by auto
qed

text \<open>
  C11. The specifier \<open>M.@\<close> resolves to the highest minor version of \<open>M\<close> that is not
  deleted, whenever there is one.
\<close>

theorem resolve_version_at:
  assumes "unique_names arr" and "maj \<noteq> []" and "maj \<noteq> ''@''"
    and "candidate arr maj False v" and "0 < prcs_minor_int v"
  shows "\<exists>d. resolve_version arr project maj ''@'' = Inr d \<and> candidate arr maj False d \<and>
    (\<forall>w \<in> set arr. candidate arr maj False w \<longrightarrow> prcs_minor_int w \<le> prcs_minor_int d)"
proof -
  have v: "v \<in> set arr" using assms(4) by (simp add: candidate_def)
  obtain d where d: "highest_minor_version_data arr maj False = Some d" "candidate arr maj False d"
    "0 < prcs_minor_int d" "\<forall>w \<in> set arr. candidate arr maj False w \<longrightarrow> prcs_minor_int w \<le> prcs_minor_int d"
    using highest_minor_version_data_spec [of arr maj False] v assms(4,5)
    by (auto split: option.splits)
  have h: "highest_minor_version arr maj False = prcs_minor_int d"
    by (simp add: highest_minor_version_def d(1))
  have "lookup_version arr maj (assign_int (prcs_minor_int d)) = Some d"
    using lookup_version_unique [OF assms(1), of d] d(2,3) minor_int_range [of d]
      atoi_assign_int [of "prcs_minor_int d"]
    by (simp add: lookup_version_def candidate_def)
  then have "resolve_version arr project maj ''@'' = Inr d"
    using assms(2,3) d(2) by (simp add: resolve_version_def resolve_local_def resolve_major_def
        resolve_minor_def h candidate_def)
  then show ?thesis using d by blast
qed

theorem resolve_version_at_witness:
  "\<exists>d. resolve_version criss_cross None ''0'' ''@'' = Inr d \<and> candidate criss_cross ''0'' False d"
proof -
  have u: "unique_names criss_cross" by code_simp
  have v: "candidate criss_cross ''0'' False (criss_cross ! 1)" "0 < prcs_minor_int (criss_cross ! 1)"
    by code_simp+
  show ?thesis using resolve_version_at [OF u _ _ v, of None] by auto
qed

end
