(* ===== verification/Containers.thy ===== *)
theory Containers
  imports Misc
begin

text \<open>
  The hash tables of \<open>src/src/hash.cc\<close> and \<open>src/src/include/hash.h\<close>: the string hash,
  \<open>HashTable\<close> with its growth by a table of sizes, \<open>OrderedTable\<close>, and the interface
  their clients rely on. A table takes its hash function and its equality as function
  pointers; here they are the parameters \<open>func\<close> and \<open>equalfunc\<close> of every operation.
\<close>

section \<open>Hashing strings\<close>

definition hash_string :: "string \<Rightarrow> nat \<Rightarrow> nat" where
  "hash_string s M = unat (foldl hash_step 0 s) mod M"

section \<open>HashTable\<close>

text \<open>The table of sizes, as it stands in the source.\<close>

definition primes :: "nat list" where
  "primes = [23, 47, 101, 211, 431, 863, 1733, 3467, 6949, 13901, 27803, 55609,
     11239, 22481, 44963, 89939, 199999, 400009, 800029, 1600061,
     16000627, 160006271]"

definition NUM_PRIMES :: nat where
  "NUM_PRIMES = length primes"

text \<open>
  \<open>buckets\<close> is the array \<open>L\<close> of linked lists, \<open>buckets_M\<close> its length \<open>M\<close>, \<open>items_N\<close> the
  counter \<open>N\<close> and \<open>prime_idx\<close> the index of \<open>M\<close> in the table of sizes.
\<close>

record ('k, 'd) HashTable =
  buckets_M :: nat
  buckets :: "('k \<times> 'd) list list"
  items_N :: nat
  prime_idx :: nat

definition ht_init :: "nat \<Rightarrow> ('k, 'd) HashTable" where
  "ht_init p = \<lparr>buckets_M = primes ! p, buckets = replicate (primes ! p) [], items_N = 0, prime_idx = p\<rparr>"

definition ht_empty :: "('k, 'd) HashTable" where
  "ht_empty = ht_init 0"

text \<open>An equation that evaluates without going through the big sizes.\<close>

lemma ht_empty_code [code]:
  "ht_empty = \<lparr>buckets_M = 23, buckets = replicate 23 [], items_N = 0, prime_idx = 0\<rparr>"
  by (simp add: ht_empty_def ht_init_def primes_def)

fun bucket_find :: "('k \<Rightarrow> 'k \<Rightarrow> bool) \<Rightarrow> 'k \<Rightarrow> ('k \<times> 'd) list \<Rightarrow> ('k \<times> 'd) option" where
  "bucket_find equalfunc x [] = None"
| "bucket_find equalfunc x (p # ps) =
     (if equalfunc x (fst p) then Some p else bucket_find equalfunc x ps)"

definition ht_lookup_pair ::
  "('k \<Rightarrow> nat \<Rightarrow> nat) \<Rightarrow> ('k \<Rightarrow> 'k \<Rightarrow> bool) \<Rightarrow> ('k, 'd) HashTable \<Rightarrow> 'k \<Rightarrow> ('k \<times> 'd) option" where
  "ht_lookup_pair func equalfunc t x = bucket_find equalfunc x (buckets t ! func x (buckets_M t))"

definition ht_lookup ::
  "('k \<Rightarrow> nat \<Rightarrow> nat) \<Rightarrow> ('k \<Rightarrow> 'k \<Rightarrow> bool) \<Rightarrow> ('k, 'd) HashTable \<Rightarrow> 'k \<Rightarrow> 'd option" where
  "ht_lookup func equalfunc t x = map_option snd (ht_lookup_pair func equalfunc t x)"

definition ht_isdefined ::
  "('k \<Rightarrow> nat \<Rightarrow> nat) \<Rightarrow> ('k \<Rightarrow> 'k \<Rightarrow> bool) \<Rightarrow> ('k, 'd) HashTable \<Rightarrow> 'k \<Rightarrow> bool" where
  "ht_isdefined func equalfunc t x = (ht_lookup func equalfunc t x \<noteq> None)"

text \<open>The loop that moves every item to an array of the next size.\<close>

definition rehash_item ::
  "('k \<Rightarrow> nat \<Rightarrow> nat) \<Rightarrow> nat \<Rightarrow> ('k \<times> 'd) list list \<Rightarrow> 'k \<times> 'd \<Rightarrow> ('k \<times> 'd) list list" where
  "rehash_item func newM tmp p = (let h = func (fst p) newM in tmp[h := p # tmp ! h])"

definition ht_rehash ::
  "('k \<Rightarrow> nat \<Rightarrow> nat) \<Rightarrow> ('k, 'd) HashTable \<Rightarrow> ('k, 'd) HashTable" where
  "ht_rehash func t =
     (let newM = primes ! (prime_idx t + 1)
      in t\<lparr>buckets := foldl (rehash_item func newM) (replicate newM []) (concat (buckets t)),
           buckets_M := newM, prime_idx := prime_idx t + 1\<rparr>)"

fun bucket_set :: "('k \<Rightarrow> 'k \<Rightarrow> bool) \<Rightarrow> 'k \<Rightarrow> 'd \<Rightarrow> ('k \<times> 'd) list \<Rightarrow> ('k \<times> 'd) list" where
  "bucket_set equalfunc x v [] = []"
| "bucket_set equalfunc x v (p # ps) =
     (if equalfunc x (fst p) then (fst p, v) # ps else p # bucket_set equalfunc x v ps)"

definition ht_insert ::
  "('k \<Rightarrow> nat \<Rightarrow> nat) \<Rightarrow> ('k \<Rightarrow> 'k \<Rightarrow> bool) \<Rightarrow> ('k, 'd) HashTable \<Rightarrow> 'k \<Rightarrow> 'd \<Rightarrow> ('k, 'd) HashTable" where
  "ht_insert func equalfunc t x v =
     (let h = func x (buckets_M t)
      in case bucket_find equalfunc x (buckets t ! h) of
           None \<Rightarrow>
             let t1 = t\<lparr>buckets := (buckets t)[h := (x, v) # buckets t ! h], items_N := items_N t + 1\<rparr>
             in if 2 * buckets_M t < items_N t1 \<and> prime_idx t + 1 < NUM_PRIMES
                then ht_rehash func t1 else t1
         | Some p \<Rightarrow> t\<lparr>buckets := (buckets t)[h := bucket_set equalfunc x v (buckets t ! h)]\<rparr>)"

text \<open>
  \<open>remove\<close> looks at the head of the bucket before it tests for the end of the list:
  \<open>None\<close> is the null dereference on an empty bucket. It does not update \<open>N\<close>.
\<close>

fun bucket_remove :: "('k \<Rightarrow> 'k \<Rightarrow> bool) \<Rightarrow> 'k \<Rightarrow> ('k \<times> 'd) list \<Rightarrow> ('k \<times> 'd) list" where
  "bucket_remove equalfunc x [] = []"
| "bucket_remove equalfunc x (p # ps) =
     (if equalfunc x (fst p) then ps else p # bucket_remove equalfunc x ps)"

definition ht_remove ::
  "('k \<Rightarrow> nat \<Rightarrow> nat) \<Rightarrow> ('k \<Rightarrow> 'k \<Rightarrow> bool) \<Rightarrow> ('k, 'd) HashTable \<Rightarrow> 'k \<Rightarrow> ('k, 'd) HashTable option" where
  "ht_remove func equalfunc t x =
     (let h = func x (buckets_M t)
      in case buckets t ! h of
           [] \<Rightarrow> None
         | p # ps \<Rightarrow> Some (t\<lparr>buckets := (buckets t)[h := bucket_remove equalfunc x (p # ps)]\<rparr>))"

text \<open>\<open>HashIterator\<close> walks the buckets in order.\<close>

definition ht_items :: "('k, 'd) HashTable \<Rightarrow> ('k \<times> 'd) list" where
  "ht_items t = concat (buckets t)"

section \<open>OrderedTable\<close>

record ('k, 'd) OrderedTable =
  ot_table :: "('k, 'd) HashTable"
  key_array :: "'k list"
  data_array :: "'d list"

definition ot_empty :: "('k, 'd) OrderedTable" where
  "ot_empty = \<lparr>ot_table = ht_empty, key_array = [], data_array = []\<rparr>"

definition ot_lookup ::
  "('k \<Rightarrow> nat \<Rightarrow> nat) \<Rightarrow> ('k \<Rightarrow> 'k \<Rightarrow> bool) \<Rightarrow> ('k, 'd) OrderedTable \<Rightarrow> 'k \<Rightarrow> 'd option" where
  "ot_lookup func equalfunc t x = ht_lookup func equalfunc (ot_table t) x"

text \<open>Shifting the entries after the first key equal to \<open>x\<close> down by one, in both arrays.\<close>

fun shift_down :: "('k \<Rightarrow> 'k \<Rightarrow> bool) \<Rightarrow> 'k \<Rightarrow> 'k list \<Rightarrow> 'd list \<Rightarrow> 'k list \<times> 'd list" where
  "shift_down equalfunc x (k # ks) (d # ds) =
     (if equalfunc x k then (ks, ds)
      else (let (ks', ds') = shift_down equalfunc x ks ds in (k # ks', d # ds')))"
| "shift_down equalfunc x ks ds = (ks, ds)"

definition ot_remove ::
  "('k \<Rightarrow> nat \<Rightarrow> nat) \<Rightarrow> ('k \<Rightarrow> 'k \<Rightarrow> bool) \<Rightarrow> ('k, 'd) OrderedTable \<Rightarrow> 'k \<Rightarrow> ('k, 'd) OrderedTable option" where
  "ot_remove func equalfunc t x =
     (if ot_lookup func equalfunc t x \<noteq> None then
        (let (ks, ds) = shift_down equalfunc x (key_array t) (data_array t)
         in case ht_remove func equalfunc (ot_table t) x of
              None \<Rightarrow> None
            | Some h \<Rightarrow> Some \<lparr>ot_table = h, key_array = ks, data_array = ds\<rparr>)
      else Some t)"

definition ot_insert ::
  "('k \<Rightarrow> nat \<Rightarrow> nat) \<Rightarrow> ('k \<Rightarrow> 'k \<Rightarrow> bool) \<Rightarrow> ('k, 'd) OrderedTable \<Rightarrow> 'k \<Rightarrow> 'd
     \<Rightarrow> ('k, 'd) OrderedTable option" where
  "ot_insert func equalfunc t x v =
     (case ot_remove func equalfunc t x of
        None \<Rightarrow> None
      | Some t1 \<Rightarrow> Some \<lparr>ot_table = ht_insert func equalfunc (ot_table t1) x v,
                         key_array = key_array t1 @ [x], data_array = data_array t1 @ [v]\<rparr>)"

section \<open>The interface of a table\<close>

text \<open>
  What the clients of a table rely on: after an insertion the key, and every key equal
  to it, is bound to the new value and the others keep theirs; after a removal it is
  unbound.
\<close>

locale table =
  fixes empty :: "'t"
    and insert :: "'t \<Rightarrow> 'k \<Rightarrow> 'd \<Rightarrow> 't"
    and remove :: "'t \<Rightarrow> 'k \<Rightarrow> 't option"
    and lookup :: "'t \<Rightarrow> 'k \<Rightarrow> 'd option"
    and eq :: "'k \<Rightarrow> 'k \<Rightarrow> bool"
    and invar :: "'t \<Rightarrow> bool"
  assumes eq_refl: "eq x x"
    and invar_empty: "invar empty"
    and lookup_empty: "lookup empty x = None"
    and invar_insert: "invar t \<Longrightarrow> invar (insert t x v)"
    and lookup_insert: "invar t \<Longrightarrow> lookup (insert t x v) y = (if eq y x then Some v else lookup t y)"
    and remove_bound: "invar t \<Longrightarrow> lookup t x \<noteq> None \<Longrightarrow> \<exists>t'. remove t x = Some t'"
    and invar_remove: "invar t \<Longrightarrow> remove t x = Some t' \<Longrightarrow> invar t'"
    and lookup_remove:
      "invar t \<Longrightarrow> remove t x = Some t' \<Longrightarrow> lookup t' y = (if eq y x then None else lookup t y)"
begin

text \<open>Filling a table from a list: the last binding of a key wins.\<close>

fun insert_all :: "'t \<Rightarrow> ('k \<times> 'd) list \<Rightarrow> 't" where
  "insert_all t [] = t"
| "insert_all t (p # ps) = insert_all (insert t (fst p) (snd p)) ps"

lemma invar_insert_all: "invar t \<Longrightarrow> invar (insert_all t ps)"
  by (induction ps arbitrary: t) (auto intro: invar_insert)

lemma lookup_insert_all:
  "invar t \<Longrightarrow> lookup (insert_all t ps) y =
     (case find (\<lambda>p. eq y (fst p)) (rev ps) of Some p \<Rightarrow> Some (snd p) | None \<Rightarrow> lookup t y)"
proof (induction ps arbitrary: t)
  case Nil
  then show ?case by simp
next
  case (Cons p ps)
  obtain k v where p: "p = (k, v)" by (cases p)
  show ?case
    using Cons.IH [OF invar_insert [OF Cons.prems], of k v] lookup_insert [OF Cons.prems, of k v y]
    by (cases "find (\<lambda>p. eq y (fst p)) (rev ps)") (simp_all add: p find_append)
qed

lemma bound_insert_all:
  "invar t \<Longrightarrow> lookup (insert_all t ps) y \<noteq> None \<longleftrightarrow>
     lookup t y \<noteq> None \<or> (\<exists>p \<in> set ps. eq y (fst p))"
  by (induction ps arbitrary: t) (auto simp: lookup_insert invar_insert)

end

section \<open>The hash table provides the interface\<close>

text \<open>What a hash function and an equality must satisfy.\<close>

locale key_hash =
  fixes func :: "'k \<Rightarrow> nat \<Rightarrow> nat" and eq :: "'k \<Rightarrow> 'k \<Rightarrow> bool"
  assumes eq_refl: "eq x x"
    and eq_sym: "eq x y \<Longrightarrow> eq y x"
    and eq_trans: "eq x y \<Longrightarrow> eq y z \<Longrightarrow> eq x z"
    and func_eq: "eq x y \<Longrightarrow> func x M = func y M"
    and func_less: "0 < M \<Longrightarrow> func x M < M"

definition uniq_keys :: "('k \<Rightarrow> 'k \<Rightarrow> bool) \<Rightarrow> ('k \<times> 'd) list \<Rightarrow> bool" where
  "uniq_keys eq ps \<longleftrightarrow> sorted_wrt (\<lambda>p q. \<not> eq (fst p) (fst q) \<and> \<not> eq (fst q) (fst p)) ps"

definition buckets_ok :: "('k \<Rightarrow> nat \<Rightarrow> nat) \<Rightarrow> ('k \<Rightarrow> 'k \<Rightarrow> bool) \<Rightarrow> nat \<Rightarrow> ('k \<times> 'd) list list \<Rightarrow> bool" where
  "buckets_ok func eq M bs \<longleftrightarrow>
     length bs = M \<and> (\<forall>i < M. uniq_keys eq (bs ! i) \<and> (\<forall>p \<in> set (bs ! i). func (fst p) M = i))"

definition ht_inv :: "('k \<Rightarrow> nat \<Rightarrow> nat) \<Rightarrow> ('k \<Rightarrow> 'k \<Rightarrow> bool) \<Rightarrow> ('k, 'd) HashTable \<Rightarrow> bool" where
  "ht_inv func eq t \<longleftrightarrow>
     prime_idx t < NUM_PRIMES \<and> buckets_M t = primes ! prime_idx t \<and>
     buckets_ok func eq (buckets_M t) (buckets t)"

lemma primes_pos: "p < NUM_PRIMES \<Longrightarrow> 0 < primes ! p"
  by (simp add: NUM_PRIMES_def primes_def nth_Cons' split: if_splits)

lemma uniq_keys_Cons:
  "uniq_keys eq (p # ps) \<longleftrightarrow>
     (\<forall>q \<in> set ps. \<not> eq (fst p) (fst q) \<and> \<not> eq (fst q) (fst p)) \<and> uniq_keys eq ps"
  by (simp add: uniq_keys_def)

lemma uniq_keys_Nil [simp]: "uniq_keys eq []"
  by (simp add: uniq_keys_def)

lemma bucket_find_SomeD: "bucket_find eq x ps = Some p \<Longrightarrow> p \<in> set ps \<and> eq x (fst p)"
  by (induction ps) (auto split: if_splits)

lemma bucket_find_None: "bucket_find eq x ps = None \<longleftrightarrow> (\<forall>p \<in> set ps. \<not> eq x (fst p))"
  by (induction ps) auto

lemma set_bucket_remove: "set (bucket_remove eq x ps) \<subseteq> set ps"
  by (induction ps) auto

lemma uniq_keys_remove: "uniq_keys eq ps \<Longrightarrow> uniq_keys eq (bucket_remove eq x ps)"
  using set_bucket_remove by (induction ps) (fastforce simp: uniq_keys_Cons)+

lemma fst_bucket_set: "map fst (bucket_set eq x v ps) = map fst ps"
  by (induction ps) auto

lemma uniq_keys_map: "map fst ps = map fst qs \<Longrightarrow> uniq_keys eq ps \<longleftrightarrow> uniq_keys eq qs"
proof -
  have "uniq_keys eq ps \<longleftrightarrow> sorted_wrt (\<lambda>a b. \<not> eq a b \<and> \<not> eq b a) (map fst ps)" for ps :: "('a \<times> 'c) list"
    by (simp add: uniq_keys_def sorted_wrt_map)
  moreover have "uniq_keys eq qs \<longleftrightarrow> sorted_wrt (\<lambda>a b. \<not> eq a b \<and> \<not> eq b a) (map fst qs)" for qs :: "('a \<times> 'b) list"
    by (simp add: uniq_keys_def sorted_wrt_map)
  ultimately show "map fst ps = map fst qs \<Longrightarrow> uniq_keys eq ps \<longleftrightarrow> uniq_keys eq qs"
    by simp
qed

lemma ht_inv_count: "ht_inv func eq (t\<lparr>items_N := n\<rparr>) = ht_inv func eq t"
  by (simp add: ht_inv_def)

lemma ht_inv_empty: "ht_inv func eq ht_empty"
  by (simp add: ht_inv_def ht_empty_def ht_init_def buckets_ok_def NUM_PRIMES_def primes_def)

context key_hash
begin

lemma eq_cong: "eq x y \<Longrightarrow> eq x z \<longleftrightarrow> eq y z"
  by (blast intro: eq_sym eq_trans)

lemma bucket_find_iff:
  "uniq_keys eq ps \<Longrightarrow> bucket_find eq x ps = Some p \<longleftrightarrow> p \<in> set ps \<and> eq x (fst p)"
proof (induction ps)
  case Nil
  then show ?case by simp
next
  case (Cons q ps)
  then show ?case
    using eq_trans [OF eq_sym, of x "fst q" "fst p"] by (auto simp: uniq_keys_Cons)
qed

lemma bucket_find_remove:
  "uniq_keys eq ps \<Longrightarrow> bucket_find eq y (bucket_remove eq x ps) =
     (if eq y x then None else bucket_find eq y ps)"
proof (induction ps)
  case Nil
  then show ?case by simp
next
  case (Cons p ps)
  have hit: "eq x (fst p) \<Longrightarrow> eq y x \<Longrightarrow> eq y (fst p)" "eq x (fst p) \<Longrightarrow> eq y (fst p) \<Longrightarrow> eq y x"
    by (blast intro: eq_sym eq_trans)+
  have miss: "bucket_find eq y ps = None" if "eq y (fst p)"
    using that Cons.prems eq_trans [OF eq_sym [OF that]] by (auto simp: uniq_keys_Cons bucket_find_None)
  show ?case
    using Cons hit miss by (auto simp: uniq_keys_Cons)
      (metis eq_sym eq_trans)+
qed

lemma bucket_find_set:
  "bucket_find eq x ps \<noteq> None \<Longrightarrow> map_option snd (bucket_find eq y (bucket_set eq x v ps)) =
     (if eq y x then Some v else map_option snd (bucket_find eq y ps))"
  by (induction ps) (auto intro: eq_sym eq_trans)

text \<open>A table in which every key is in its bucket is searched as a whole.\<close>

lemma ht_lookup_pair_iff:
  assumes "ht_inv func eq t"
  shows "ht_lookup_pair func eq t x = Some p \<longleftrightarrow> p \<in> set (ht_items t) \<and> eq x (fst p)"
proof -
  let ?M = "buckets_M t" and ?bs = "buckets t"
  have ok: "length ?bs = ?M" "0 < ?M"
    "\<And>i. i < ?M \<Longrightarrow> uniq_keys eq (?bs ! i)" "\<And>i p. i < ?M \<Longrightarrow> p \<in> set (?bs ! i) \<Longrightarrow> func (fst p) ?M = i"
    using assms primes_pos unfolding ht_inv_def buckets_ok_def by metis+
  have less: "func x ?M < ?M" using func_less ok(2) by blast
  have "p \<in> set (ht_items t)" if "p \<in> set (?bs ! func x ?M)"
    using that nth_mem [of "func x ?M" ?bs] less ok(1) by (auto simp: ht_items_def)
  moreover have "p \<in> set (?bs ! func x ?M)" if "p \<in> set (ht_items t)" "eq x (fst p)"
  proof -
    from that(1) obtain i where i: "i < length ?bs" "p \<in> set (?bs ! i)"
      by (auto simp: ht_items_def in_set_conv_nth [of _ ?bs])
    then have "func x ?M = i" using ok(1,4) func_eq [OF that(2)] by simp
    then show ?thesis using i(2) by simp
  qed
  ultimately have "p \<in> set (?bs ! func x ?M) \<and> eq x (fst p) \<longleftrightarrow> p \<in> set (ht_items t) \<and> eq x (fst p)"
    by blast
  then show ?thesis
    using bucket_find_iff [OF ok(3) [OF less]] by (simp add: ht_lookup_pair_def)
qed

lemma buckets_ok_cons:
  assumes "buckets_ok func eq M bs" and "h = func (fst p) M" and "0 < M"
    and "\<And>q. q \<in> set (bs ! h) \<Longrightarrow> \<not> eq (fst p) (fst q)"
  shows "buckets_ok func eq M (bs[h := p # bs ! h])"
proof -
  have len: "length bs = M" and ok: "\<And>i. i < M \<Longrightarrow> uniq_keys eq (bs ! i)"
    "\<And>i q. i < M \<Longrightarrow> q \<in> set (bs ! i) \<Longrightarrow> func (fst q) M = i"
    using assms(1) unfolding buckets_ok_def by blast+
  have h: "h < M" using assms(2,3) func_less by simp
  have "uniq_keys eq (p # bs ! h)"
    using ok(1) [OF h] assms(4) eq_sym by (auto simp: uniq_keys_Cons)
  then show ?thesis
    unfolding buckets_ok_def using len ok h assms(2) by (auto simp: nth_list_update)
qed

lemma set_concat_update:
  "h < length bs \<Longrightarrow> set (concat (bs[h := p # bs ! h])) = insert p (set (concat bs))"
  by (induction bs arbitrary: h) (auto split: nat.splits)

lemma rehash_ok:
  assumes "0 < M" and "buckets_ok func eq M tmp" and "uniq_keys eq ps"
    and "\<And>p q. p \<in> set ps \<Longrightarrow> q \<in> set (concat tmp) \<Longrightarrow> \<not> eq (fst p) (fst q)"
  shows "buckets_ok func eq M (foldl (rehash_item func M) tmp ps) \<and>
    set (concat (foldl (rehash_item func M) tmp ps)) = set ps \<union> set (concat tmp)"
  using assms(2-)
proof (induction ps arbitrary: tmp)
  case Nil
  then show ?case by simp
next
  case (Cons p ps)
  let ?h = "func (fst p) M" and ?tmp = "rehash_item func M tmp p"
  have len: "?h < length tmp" using func_less [OF assms(1)] Cons.prems(1) by (simp add: buckets_ok_def)
  then have st: "set (concat ?tmp) = insert p (set (concat tmp))"
    unfolding rehash_item_def Let_def by (rule set_concat_update)
  have "buckets_ok func eq M ?tmp"
    unfolding rehash_item_def Let_def
    by (rule buckets_ok_cons [OF Cons.prems(1) refl assms(1)])
      (use Cons.prems(3) [of p] nth_mem [OF len] in auto)
  moreover have "uniq_keys eq ps" using Cons.prems(2) by (simp add: uniq_keys_Cons)
  moreover have "\<not> eq (fst r) (fst q)" if "r \<in> set ps" "q \<in> set (concat ?tmp)" for r q
    using that Cons.prems(2) Cons.prems(3) [of r q] unfolding st by (auto simp: uniq_keys_Cons)
  ultimately show ?case using Cons.IH st by simp
qed

lemma uniq_keys_concat:
  "(\<forall>b \<in> set bs. uniq_keys eq b) \<Longrightarrow>
   sorted_wrt (\<lambda>b c. \<forall>p \<in> set b. \<forall>q \<in> set c. \<not> eq (fst p) (fst q) \<and> \<not> eq (fst q) (fst p)) bs \<Longrightarrow>
   uniq_keys eq (concat bs)"
  by (induction bs) (auto simp: uniq_keys_def sorted_wrt_append)

lemma uniq_keys_items:
  assumes "ht_inv func eq t"
  shows "uniq_keys eq (ht_items t)"
  unfolding ht_items_def
proof (rule uniq_keys_concat)
  have ok: "length (buckets t) = buckets_M t" "\<And>i. i < buckets_M t \<Longrightarrow> uniq_keys eq (buckets t ! i)"
    "\<And>i p. i < buckets_M t \<Longrightarrow> p \<in> set (buckets t ! i) \<Longrightarrow> func (fst p) (buckets_M t) = i"
    using assms unfolding ht_inv_def buckets_ok_def by metis+
  show "\<forall>b \<in> set (buckets t). uniq_keys eq b"
    using ok(1,2) by (auto simp: in_set_conv_nth)
  show "sorted_wrt (\<lambda>b c. \<forall>p \<in> set b. \<forall>q \<in> set c. \<not> eq (fst p) (fst q) \<and> \<not> eq (fst q) (fst p)) (buckets t)"
    unfolding sorted_wrt_iff_nth_less
    using ok(1,3) func_eq by (metis less_not_refl order_less_trans)
qed

lemma ht_lookup_same_items:
  assumes "ht_inv func eq t" and "ht_inv func eq u" and "set (ht_items t) = set (ht_items u)"
  shows "ht_lookup func eq t x = ht_lookup func eq u x"
proof -
  have "ht_lookup_pair func eq t x = Some p \<longleftrightarrow> ht_lookup_pair func eq u x = Some p" for p
    using assms by (simp add: ht_lookup_pair_iff)
  then have "ht_lookup_pair func eq t x = ht_lookup_pair func eq u x"
    by (metis not_Some_eq)
  then show ?thesis by (simp add: ht_lookup_def)
qed

lemma rehash_inv:
  assumes "ht_inv func eq t" and "prime_idx t + 1 < NUM_PRIMES"
  shows "ht_inv func eq (ht_rehash func t)" and "set (ht_items (ht_rehash func t)) = set (ht_items t)"
proof -
  let ?M = "primes ! (prime_idx t + 1)"
  have M: "0 < ?M" using primes_pos assms(2) .
  have "buckets_ok func eq ?M (replicate ?M [])" by (simp add: buckets_ok_def)
  from rehash_ok [OF M this uniq_keys_items [OF assms(1)]]
  have "buckets_ok func eq ?M (foldl (rehash_item func ?M) (replicate ?M []) (ht_items t))"
    "set (concat (foldl (rehash_item func ?M) (replicate ?M []) (ht_items t))) = set (ht_items t)"
    by simp_all
  then show "ht_inv func eq (ht_rehash func t)" "set (ht_items (ht_rehash func t)) = set (ht_items t)"
    using assms by (simp_all add: ht_inv_def ht_rehash_def ht_items_def Let_def)
qed

text \<open>Changing one bucket changes only the keys that are equal to a key of that bucket.\<close>

definition put_bucket :: "('k, 'd) HashTable \<Rightarrow> nat \<Rightarrow> ('k \<times> 'd) list \<Rightarrow> ('k, 'd) HashTable" where
  "put_bucket t h b = t\<lparr>buckets := (buckets t)[h := b]\<rparr>"

lemma put_bucket_lookup:
  assumes "ht_inv func eq t" and "h = func x (buckets_M t)"
    and "map_option snd (bucket_find eq y b) =
      (if eq y x then r else map_option snd (bucket_find eq y (buckets t ! h)))"
  shows "ht_lookup func eq (put_bucket t h b) y = (if eq y x then r else ht_lookup func eq t y)"
proof -
  have len: "func y (buckets_M t) < length (buckets t)"
    using assms(1) primes_pos func_less unfolding ht_inv_def buckets_ok_def by metis
  show ?thesis
  proof (cases "func y (buckets_M t) = h")
    case True
    then show ?thesis
      using assms(3) len by (simp add: put_bucket_def ht_lookup_def ht_lookup_pair_def)
  next
    case False
    then have "\<not> eq y x" using func_eq assms(2) by blast
    with False show ?thesis by (simp add: put_bucket_def ht_lookup_def ht_lookup_pair_def)
  qed
qed

lemma put_bucket_inv:
  assumes "ht_inv func eq t" and "uniq_keys eq b"
    and "\<And>p. p \<in> set b \<Longrightarrow> func (fst p) (buckets_M t) = h"
  shows "ht_inv func eq (put_bucket t h b)"
proof -
  let ?M = "buckets_M t"
  have ok: "prime_idx t < NUM_PRIMES" "?M = primes ! prime_idx t" "length (buckets t) = ?M"
    "\<And>i. i < ?M \<Longrightarrow> uniq_keys eq (buckets t ! i)"
    "\<And>i p. i < ?M \<Longrightarrow> p \<in> set (buckets t ! i) \<Longrightarrow> func (fst p) ?M = i"
    using assms(1) unfolding ht_inv_def buckets_ok_def by metis+
  have "uniq_keys eq ((buckets t)[h := b] ! i) \<and> (\<forall>p \<in> set ((buckets t)[h := b] ! i). func (fst p) ?M = i)"
    if "i < ?M" for i
    using ok(3) ok(4,5) [OF that] assms(2,3) that by (cases "i = h") auto
  then have "buckets_ok func eq ?M ((buckets t)[h := b])"
    using ok(3) unfolding buckets_ok_def by simp
  then show ?thesis
    using ok(1,2) unfolding ht_inv_def put_bucket_def by simp
qed

lemma bucket_facts:
  assumes "ht_inv func eq t"
  shows "uniq_keys eq (buckets t ! func x (buckets_M t))"
    and "p \<in> set (buckets t ! func x (buckets_M t)) \<Longrightarrow> func (fst p) (buckets_M t) = func x (buckets_M t)"
  using assms primes_pos func_less unfolding ht_inv_def buckets_ok_def by metis+

lemma ht_insert_correct:
  assumes "ht_inv func eq t"
  shows "ht_inv func eq (ht_insert func eq t x v) \<and>
    ht_lookup func eq (ht_insert func eq t x v) y = (if eq y x then Some v else ht_lookup func eq t y)"
proof -
  let ?h = "func x (buckets_M t)"
  let ?b = "buckets t ! ?h"
  show ?thesis
  proof (cases "bucket_find eq x ?b")
    case None
    let ?t0 = "put_bucket t ?h ((x, v) # ?b)"
    let ?t1 = "?t0\<lparr>items_N := items_N t + 1\<rparr>"
    have uq: "uniq_keys eq ((x, v) # ?b)"
      using None bucket_facts(1) [OF assms] eq_sym by (auto simp: uniq_keys_Cons bucket_find_None)
    have inv0: "ht_inv func eq ?t0"
      by (rule put_bucket_inv [OF assms uq]) (use bucket_facts(2) [OF assms] in auto)
    have lk0: "ht_lookup func eq ?t0 y = (if eq y x then Some v else ht_lookup func eq t y)"
      by (rule put_bucket_lookup [OF assms refl]) simp
    have inv1: "ht_inv func eq ?t1" using inv0 by (simp only: ht_inv_count)
    have lk1: "ht_lookup func eq ?t1 y = ht_lookup func eq ?t0 y"
      by (simp add: ht_lookup_def ht_lookup_pair_def)
    have ins: "ht_insert func eq t x v =
        (if 2 * buckets_M t < items_N t + 1 \<and> prime_idx t + 1 < NUM_PRIMES then ht_rehash func ?t1 else ?t1)"
      using None by (simp add: ht_insert_def Let_def put_bucket_def)
    show ?thesis
    proof (cases "2 * buckets_M t < items_N t + 1 \<and> prime_idx t + 1 < NUM_PRIMES")
      case True
      have idx: "prime_idx ?t1 + 1 < NUM_PRIMES" using True by (simp add: put_bucket_def)
      note re = rehash_inv [OF inv1 idx]
      have "ht_lookup func eq (ht_rehash func ?t1) y = ht_lookup func eq ?t1 y"
        by (rule ht_lookup_same_items [OF re(1) inv1 re(2)])
      then show ?thesis unfolding ins if_P [OF True] using re(1) lk0 lk1 by simp
    next
      case False
      show ?thesis unfolding ins if_not_P [OF False] using inv1 lk0 lk1 by simp
    qed
  next
    case (Some p)
    have ins: "ht_insert func eq t x v = put_bucket t ?h (bucket_set eq x v ?b)"
      using Some by (simp add: ht_insert_def Let_def put_bucket_def)
    have fm: "map fst (bucket_set eq x v ?b) = map fst ?b" by (rule fst_bucket_set)
    have "ht_inv func eq (put_bucket t ?h (bucket_set eq x v ?b))"
    proof (rule put_bucket_inv [OF assms])
      show "uniq_keys eq (bucket_set eq x v ?b)"
        using bucket_facts(1) [OF assms] uniq_keys_map [OF fm] by blast
      show "func (fst q) (buckets_M t) = ?h" if q: "q \<in> set (bucket_set eq x v ?b)" for q
      proof -
        have "fst q \<in> fst ` set ?b" using q fm by (metis image_eqI list.set_map)
        then show ?thesis using bucket_facts(2) [OF assms] by auto
      qed
    qed
    moreover have "ht_lookup func eq (put_bucket t ?h (bucket_set eq x v ?b)) y =
        (if eq y x then Some v else ht_lookup func eq t y)"
      by (rule put_bucket_lookup [OF assms refl]) (use Some bucket_find_set [of x ?b] in simp)
    ultimately show ?thesis unfolding ins by blast
  qed
qed

lemma ht_remove_correct:
  assumes "ht_inv func eq t" and "ht_remove func eq t x = Some t'"
  shows "ht_inv func eq t' \<and> ht_lookup func eq t' y = (if eq y x then None else ht_lookup func eq t y)"
proof -
  let ?h = "func x (buckets_M t)"
  let ?b = "buckets t ! ?h"
  have t': "t' = put_bucket t ?h (bucket_remove eq x ?b)"
    using assms(2) by (simp add: ht_remove_def Let_def put_bucket_def split: list.splits)
  have "ht_inv func eq (put_bucket t ?h (bucket_remove eq x ?b))"
    by (rule put_bucket_inv [OF assms(1) uniq_keys_remove [OF bucket_facts(1) [OF assms(1)]]])
      (rule bucket_facts(2) [OF assms(1) subsetD [OF set_bucket_remove]])
  moreover have "ht_lookup func eq (put_bucket t ?h (bucket_remove eq x ?b)) y =
      (if eq y x then None else ht_lookup func eq t y)"
    by (rule put_bucket_lookup [OF assms(1) refl])
      (simp add: bucket_find_remove [OF bucket_facts(1) [OF assms(1)]])
  ultimately show ?thesis unfolding t' by blast
qed

lemma ht_remove_bound:
  assumes "ht_lookup func eq t x \<noteq> None"
  shows "\<exists>t'. ht_remove func eq t x = Some t'"
proof -
  have "buckets t ! func x (buckets_M t) \<noteq> []"
    using assms by (auto simp: ht_lookup_def ht_lookup_pair_def)
  then show ?thesis by (auto simp: ht_remove_def Let_def split: list.splits)
qed

end

context key_hash
begin

text \<open>Equal keys have the same binding.\<close>

lemma bucket_find_cong: "eq x y \<Longrightarrow> bucket_find eq x b = bucket_find eq y b"
  by (induction b) (auto intro: eq_trans eq_sym)

lemma lookup_cong: "eq x y \<Longrightarrow> ht_lookup func eq t x = ht_lookup func eq t y"
  by (simp add: ht_lookup_def ht_lookup_pair_def func_eq [of x y] bucket_find_cong [of x y])

end

sublocale key_hash \<subseteq> ht: table ht_empty "ht_insert func eq" "ht_remove func eq" "ht_lookup func eq" eq
  "ht_inv func eq"
proof
  show "ht_lookup func eq ht_empty x = (None :: 'd option)" for x
  proof -
    have "func x 23 < 23" by (rule func_less) simp
    then show ?thesis
      by (simp add: ht_lookup_def ht_lookup_pair_def ht_empty_def ht_init_def primes_def)
  qed
next
  show "ht_inv func eq (ht_insert func eq t x v)" if "ht_inv func eq t" for t :: "('k, 'd) HashTable" and x v
    using ht_insert_correct [OF that] by (rule conjunct1)
next
  show "ht_lookup func eq (ht_insert func eq t x v) y = (if eq y x then Some v else ht_lookup func eq t y)"
    if "ht_inv func eq t" for t :: "('k, 'd) HashTable" and x v y
    using ht_insert_correct [OF that] by (rule conjunct2)
next
  show "ht_inv func eq t'" if "ht_inv func eq t" "ht_remove func eq t x = Some t'"
    for t t' :: "('k, 'd) HashTable" and x
    using ht_remove_correct [OF that] by (rule conjunct1)
next
  show "ht_lookup func eq t' y = (if eq y x then None else ht_lookup func eq t y)"
    if "ht_inv func eq t" "ht_remove func eq t x = Some t'" for t t' :: "('k, 'd) HashTable" and x y
    using ht_remove_correct [OF that] by (rule conjunct2)
qed (rule eq_refl ht_inv_empty ht_remove_bound; assumption?)+

section \<open>The two instances the program has\<close>

lemma hash_string_less: "0 < M \<Longrightarrow> hash_string s M < M"
  by (simp add: hash_string_def)

lemma pathname_hash_less: "0 < M \<Longrightarrow> pathname_hash s M < M"
  by (simp add: pathname_hash_def)

text \<open>Tables of C strings: \<open>hash(const char* const&, int)\<close> and \<open>equal\<close> by \<open>strcmp\<close>.\<close>

interpretation str: key_hash hash_string "(=)"
  by unfold_locales (simp_all add: hash_string_less)

text \<open>Path tables: \<open>pathname_hash\<close> and \<open>pathname_equal\<close> of \<open>src/src/misc.cc\<close>.\<close>

interpretation path: key_hash pathname_hash pathname_equal
  by unfold_locales (simp_all add: pathname_equal_iff pathname_hash_eq pathname_hash_less)

section \<open>Ordered tables list their keys in the order of the last insertion\<close>

definition ot_entries :: "('k, 'd) OrderedTable \<Rightarrow> ('k \<times> 'd) list" where
  "ot_entries t = zip (key_array t) (data_array t)"

definition ot_inv :: "('k \<Rightarrow> nat \<Rightarrow> nat) \<Rightarrow> ('k \<Rightarrow> 'k \<Rightarrow> bool) \<Rightarrow> ('k, 'd) OrderedTable \<Rightarrow> bool" where
  "ot_inv func eq t \<longleftrightarrow>
     ht_inv func eq (ot_table t) \<and> length (key_array t) = length (data_array t) \<and>
     uniq_keys eq (ot_entries t) \<and>
     (\<forall>x. ot_lookup func eq t x = map_option snd (bucket_find eq x (ot_entries t)))"

lemma shift_down_entries:
  "length ks = length ds \<Longrightarrow> shift_down eq x ks ds = (ks', ds') \<Longrightarrow>
     length ks' = length ds' \<and> zip ks' ds' = bucket_remove eq x (zip ks ds)"
  by (induction eq x ks ds arbitrary: ks' ds' rule: shift_down.induct)
    (auto split: if_splits prod.splits)

context key_hash
begin

lemma bucket_remove_filter:
  "uniq_keys eq ps \<Longrightarrow> bucket_remove eq x ps = filter (\<lambda>p. \<not> eq x (fst p)) ps"
proof (induction ps)
  case Nil
  then show ?case by simp
next
  case (Cons p ps)
  have "filter (\<lambda>q. \<not> eq x (fst q)) ps = ps" if "eq x (fst p)"
    unfolding filter_id_conv
    using Cons.prems that eq_trans [OF eq_sym [OF that]] by (auto simp: uniq_keys_Cons)
  with Cons show ?case by (simp add: uniq_keys_Cons)
qed

lemma uniq_keys_snoc:
  "uniq_keys eq ps \<Longrightarrow> (\<And>p. p \<in> set ps \<Longrightarrow> \<not> eq x (fst p)) \<Longrightarrow> uniq_keys eq (ps @ [(x, v)])"
  using eq_sym by (auto simp: uniq_keys_def sorted_wrt_append)

lemma bucket_find_append:
  "bucket_find eq x (ps @ qs) =
     (case bucket_find eq x ps of Some p \<Rightarrow> Some p | None \<Rightarrow> bucket_find eq x qs)"
  by (induction ps) auto

lemma ot_inv_empty: "ot_inv func eq ot_empty"
  using ht.invar_empty ht.lookup_empty
  by (auto simp: ot_inv_def ot_empty_def ot_entries_def ot_lookup_def)

lemma ot_remove_ok:
  assumes inv: "ot_inv func eq t"
  shows "\<exists>t'. ot_remove func eq t x = Some t' \<and> ot_inv func eq t' \<and>
    ot_entries t' = filter (\<lambda>p. \<not> eq x (fst p)) (ot_entries t)"
proof -
  have h: "ht_inv func eq (ot_table t)" and len: "length (key_array t) = length (data_array t)"
    and uq: "uniq_keys eq (ot_entries t)"
    and lk: "\<And>y. ht_lookup func eq (ot_table t) y = map_option snd (bucket_find eq y (ot_entries t))"
    using inv by (auto simp: ot_inv_def ot_lookup_def)
  show ?thesis
  proof (cases "ht_lookup func eq (ot_table t) x")
    case None
    then have "filter (\<lambda>p. \<not> eq x (fst p)) (ot_entries t) = ot_entries t"
      using lk [of x] by (auto simp: filter_id_conv bucket_find_None)
    then show ?thesis using inv None by (simp add: ot_remove_def ot_lookup_def)
  next
    case (Some v)
    then obtain h' where h': "ht_remove func eq (ot_table t) x = Some h'"
      using ht.remove_bound [OF h, of x] by auto
    obtain ks ds where sd: "shift_down eq x (key_array t) (data_array t) = (ks, ds)"
      by (cases "shift_down eq x (key_array t) (data_array t)")
    note sd' = shift_down_entries [OF len sd]
    let ?t' = "\<lparr>ot_table = h', key_array = ks, data_array = ds\<rparr>"
    have en: "ot_entries ?t' = bucket_remove eq x (ot_entries t)"
      using sd' by (simp add: ot_entries_def)
    have "ot_lookup func eq ?t' y = map_option snd (bucket_find eq y (ot_entries ?t'))" for y
      unfolding en bucket_find_remove [OF uq]
      using ht.lookup_remove [OF h h', of y] lk [of y] by (simp add: ot_lookup_def)
    then have "ot_inv func eq ?t'"
      using ht.invar_remove [OF h h'] sd' uniq_keys_remove [OF uq] en by (simp add: ot_inv_def)
    moreover have "ot_remove func eq t x = Some ?t'"
      using Some h' sd by (simp add: ot_remove_def ot_lookup_def)
    ultimately show ?thesis using en bucket_remove_filter [OF uq] by auto
  qed
qed

lemma ot_insert_ok:
  assumes inv: "ot_inv func eq t"
  shows "\<exists>t'. ot_insert func eq t x v = Some t' \<and> ot_inv func eq t' \<and>
    ot_entries t' = filter (\<lambda>p. \<not> eq x (fst p)) (ot_entries t) @ [(x, v)]"
proof -
  obtain t1 where t1: "ot_remove func eq t x = Some t1" "ot_inv func eq t1"
    "ot_entries t1 = filter (\<lambda>p. \<not> eq x (fst p)) (ot_entries t)"
    using ot_remove_ok [OF inv] by blast
  have h: "ht_inv func eq (ot_table t1)" and len: "length (key_array t1) = length (data_array t1)"
    and uq: "uniq_keys eq (ot_entries t1)"
    and lk: "\<And>y. ht_lookup func eq (ot_table t1) y = map_option snd (bucket_find eq y (ot_entries t1))"
    using t1(2) by (auto simp: ot_inv_def ot_lookup_def)
  let ?t' = "\<lparr>ot_table = ht_insert func eq (ot_table t1) x v,
    key_array = key_array t1 @ [x], data_array = data_array t1 @ [v]\<rparr>"
  have en: "ot_entries ?t' = ot_entries t1 @ [(x, v)]"
    using len by (simp add: ot_entries_def)
  have out: "\<not> eq x (fst p)" if "p \<in> set (ot_entries t1)" for p
    using that t1(3) by auto
  have "bucket_find eq y (ot_entries t1) = None" if y: "eq y x" for y
    using out eq_trans [OF eq_sym [OF y]] by (auto simp: bucket_find_None)
  then have "ot_lookup func eq ?t' y = map_option snd (bucket_find eq y (ot_entries ?t'))" for y
    unfolding en bucket_find_append
    using ht.lookup_insert [OF h, of x v y] lk [of y] by (auto simp: ot_lookup_def split: option.split)
  moreover have "uniq_keys eq (ot_entries ?t')"
    unfolding en by (rule uniq_keys_snoc [OF uq out])
  ultimately have "ot_inv func eq ?t'"
    using ht.invar_insert [OF h] len by (simp add: ot_inv_def)
  then show ?thesis using t1 en by (simp add: ot_insert_def)
qed

lemma ot_insert_lookup:
  assumes "ot_inv func eq t"
  shows "\<exists>t'. ot_insert func eq t x v = Some t' \<and> ot_inv func eq t' \<and>
    (\<forall>y. ot_lookup func eq t' y = (if eq y x then Some v else ot_lookup func eq t y))"
proof -
  obtain t' where t': "ot_insert func eq t x v = Some t'" "ot_inv func eq t'"
    "ot_entries t' = filter (\<lambda>p. \<not> eq x (fst p)) (ot_entries t) @ [(x, v)]"
    using ot_insert_ok [OF assms] by blast
  have uq: "uniq_keys eq (ot_entries t)" using assms by (simp add: ot_inv_def)
  have lk: "ot_lookup func eq u y = map_option snd (bucket_find eq y (ot_entries u))"
    if "ot_inv func eq u" for u :: "('k, 'b) OrderedTable" and y
    using that by (simp add: ot_inv_def)
  have "ot_lookup func eq t' y = (if eq y x then Some v else ot_lookup func eq t y)" for y
    using bucket_find_remove [OF uq, of y x]
    unfolding lk [OF t'(2)] lk [OF assms] t'(3) bucket_find_append bucket_remove_filter [OF uq]
    by (auto split: option.split)
  then show ?thesis using t' by blast
qed

lemma ot_remove_lookup:
  assumes "ot_inv func eq t"
  shows "\<exists>t'. ot_remove func eq t x = Some t' \<and> ot_inv func eq t' \<and>
    (\<forall>y. ot_lookup func eq t' y = (if eq y x then None else ot_lookup func eq t y))"
proof -
  obtain t' where t': "ot_remove func eq t x = Some t'" "ot_inv func eq t'"
    "ot_entries t' = filter (\<lambda>p. \<not> eq x (fst p)) (ot_entries t)"
    using ot_remove_ok [OF assms] by blast
  have uq: "uniq_keys eq (ot_entries t)" using assms by (simp add: ot_inv_def)
  have lk: "ot_lookup func eq u y = map_option snd (bucket_find eq y (ot_entries u))"
    if "ot_inv func eq u" for u :: "('k, 'b) OrderedTable" and y
    using that by (simp add: ot_inv_def)
  have "ot_lookup func eq t' y = (if eq y x then None else ot_lookup func eq t y)" for y
    using bucket_find_remove [OF uq, of y x]
    unfolding lk [OF t'(2)] lk [OF assms] t'(3) bucket_remove_filter [OF uq, symmetric] by simp
  then show ?thesis using t' by blast
qed

end

section \<open>Histories of operations\<close>

text \<open>A client's history on an ordered table, and the list it stands for.\<close>

datatype ('k, 'd) table_op = Insert 'k 'd | Remove 'k

fun ot_step ::
  "('k \<Rightarrow> nat \<Rightarrow> nat) \<Rightarrow> ('k \<Rightarrow> 'k \<Rightarrow> bool) \<Rightarrow> ('k, 'd) table_op \<Rightarrow> ('k, 'd) OrderedTable
     \<Rightarrow> ('k, 'd) OrderedTable option" where
  "ot_step func eq (Insert k v) t = ot_insert func eq t k v"
| "ot_step func eq (Remove k) t = ot_remove func eq t k"

fun ot_run ::
  "('k \<Rightarrow> nat \<Rightarrow> nat) \<Rightarrow> ('k \<Rightarrow> 'k \<Rightarrow> bool) \<Rightarrow> ('k, 'd) table_op list \<Rightarrow> ('k, 'd) OrderedTable
     \<Rightarrow> ('k, 'd) OrderedTable option" where
  "ot_run func eq [] t = Some t"
| "ot_run func eq (a # as) t = Option.bind (ot_step func eq a t) (ot_run func eq as)"

fun list_step :: "('k, 'd) table_op \<Rightarrow> ('k \<times> 'd) list \<Rightarrow> ('k \<times> 'd) list" where
  "list_step (Insert k v) ps = filter (\<lambda>p. fst p \<noteq> k) ps @ [(k, v)]"
| "list_step (Remove k) ps = filter (\<lambda>p. fst p \<noteq> k) ps"

lemma ot_run_str:
  "ot_inv hash_string (=) t \<Longrightarrow>
   \<exists>t'. ot_run hash_string (=) as t = Some t' \<and> ot_inv hash_string (=) t' \<and>
     ot_entries t' = fold list_step as (ot_entries t)"
proof (induction "as" arbitrary: t)
  case Nil
  then show ?case by simp
next
  case (Cons a "as")
  have sym: "filter (\<lambda>p. k \<noteq> fst p) ps = filter (\<lambda>p. fst p \<noteq> k) ps" for k and ps :: "(string \<times> 'a) list"
    by (rule filter_cong) auto
  obtain t1 where t1: "ot_step hash_string (=) a t = Some t1" "ot_inv hash_string (=) t1"
    "ot_entries t1 = list_step a (ot_entries t)"
  proof (cases a)
    case (Insert k v)
    then show thesis
      using str.ot_insert_ok [OF Cons.prems, of k v] that by (auto simp: sym)
  next
    case (Remove k)
    then show thesis
      using str.ot_remove_ok [OF Cons.prems, of k] that by (auto simp: sym)
  qed
  then show ?case using Cons.IH [OF t1(2)] by simp
qed

lemma bucket_find_map_of: "map_option snd (bucket_find (=) x ps) = map_of ps x"
  by (induction ps) auto

lemma path_insert_all:
  "path.ht.insert_all t ps = fold (\<lambda>p t. ht_insert pathname_hash pathname_equal t (fst p) (snd p)) ps t"
  by (induction ps arbitrary: t) simp_all

section \<open>Properties\<close>

text \<open>
  C3. A path table filled from empty, through any number of growths, finds under a name
  the value of the last entry whose name is the same path, and nothing when there is
  none.
\<close>

theorem path_table_last_insert_wins:
  "ht_lookup pathname_hash pathname_equal
     (fold (\<lambda>p t. ht_insert pathname_hash pathname_equal t (fst p) (snd p)) ps ht_empty) y =
   map_option snd (find (\<lambda>p. pathname_equal y (fst p)) (rev ps))"
  using path.ht.lookup_insert_all [OF path.ht.invar_empty, of ps y]
  by (simp add: path_insert_all path.ht.lookup_empty split: option.splits)

text \<open>
  C8. Whatever the history of insertions and removals, an ordered table of strings
  never takes the null dereference of \<open>HashTable::remove\<close>, its two arrays list the
  bound keys in the order in which they were last inserted, and a lookup agrees with
  the arrays.
\<close>

theorem ordered_table_history:
  "\<exists>t. ot_run hash_string (=) as ot_empty = Some t \<and>
     zip (key_array t) (data_array t) = fold list_step as [] \<and>
     length (key_array t) = length (data_array t) \<and>
     (\<forall>x. ot_lookup hash_string (=) t x = map_of (fold list_step as []) x)"
proof -
  obtain t where t: "ot_run hash_string (=) as ot_empty = Some t" "ot_inv hash_string (=) t"
    "ot_entries t = fold list_step as (ot_entries ot_empty)"
    using ot_run_str [OF str.ot_inv_empty] by blast
  moreover have "ot_entries ot_empty = []" by (simp add: ot_entries_def ot_empty_def)
  ultimately show ?thesis
    unfolding ot_inv_def by (simp add: bucket_find_map_of ot_entries_def ot_empty_def)
qed

text \<open>
  C15. Removing a key from a table of strings or of path names, bound or not: when its bucket is empty a
  null pointer is dereferenced; otherwise the key and every key equal to it is unbound afterwards, all
  other keys keep their values, and the table is as well-formed as before, so that any further operation
  behaves.
\<close>

theorem hash_remove_result:
  fixes t :: "(string, 'd) HashTable"
  assumes "(func, eq) \<in> {(hash_string, (=)), (pathname_hash, pathname_equal)}" and "ht_inv func eq t"
  shows "case ht_remove func eq t x of
      None \<Rightarrow> buckets t ! func x (buckets_M t) = []
    | Some t' \<Rightarrow> buckets t ! func x (buckets_M t) \<noteq> [] \<and> ht_inv func eq t' \<and>
        (\<forall>y. ht_lookup func eq t' y = (if eq y x then None else ht_lookup func eq t y))"
proof -
  have none: "ht_remove func eq t x = None \<longleftrightarrow> buckets t ! func x (buckets_M t) = []"
    by (simp add: ht_remove_def Let_def split: list.split)
  have "ht_inv func eq t' \<and> (\<forall>y. ht_lookup func eq t' y = (if eq y x then None else ht_lookup func eq t y))"
    if "ht_remove func eq t x = Some t'" for t'
    using assms that str.ht.invar_remove [of t x t'] path.ht.invar_remove [of t x t']
      str.ht.lookup_remove [of t x t'] path.ht.lookup_remove [of t x t'] by auto
  then show ?thesis using none by (auto split: option.split)
qed

theorem hash_remove_result_witness:
  "\<exists>t'. ht_remove hash_string (=) (ht_insert hash_string (=) (ht_insert hash_string (=) ht_empty ''a'' (1 :: nat)) ''b'' 2) ''a''
       = Some t' \<and>
     ht_lookup hash_string (=) t' ''a'' = None \<and> ht_lookup hash_string (=) t' ''b'' = Some 2"
proof -
  let ?t = "ht_insert hash_string (=) (ht_insert hash_string (=) ht_empty ''a'' (1 :: nat)) ''b'' 2"
  have inv: "ht_inv hash_string (=) (ht_insert hash_string (=) ht_empty ''a'' (1 :: nat))"
    by (intro str.ht.invar_insert str.ht.invar_empty)
  then have t: "ht_inv hash_string (=) ?t" by (rule str.ht.invar_insert)
  have lk: "ht_lookup hash_string (=) ?t y = (if y = ''b'' then Some 2 else if y = ''a'' then Some 1 else None)" for y
    using str.ht.lookup_insert [OF inv, of "''b''" 2 y]
      str.ht.lookup_insert [OF str.ht.invar_empty, of "''a''" "1 :: nat" y] by (simp add: str.ht.lookup_empty)
  then obtain t' where t': "ht_remove hash_string (=) ?t ''a'' = Some t'"
    using str.ht.remove_bound [OF t, of "''a''"] by auto
  moreover have "(hash_string, (=)) \<in> {(hash_string, (=)), (pathname_hash, pathname_equal)}" by simp
  ultimately show ?thesis
    using hash_remove_result [OF _ t, of "''a''"] lk by simp
qed

text \<open>The table of sizes is not increasing: the thirteenth growth makes the table smaller.\<close>

lemma primes_not_sorted: "primes ! 12 < primes ! 11 \<and> length primes = 22"
  by (simp add: primes_def)

end
