(* ===== verification/Query.thy ===== *)
theory Query
  imports Effects
begin

text \<open>
  Questions to the user: \<open>get_user_char\<close> of \<open>src/src/misc.cc\<close> and \<open>QueryOstream\<close> of
  \<open>src/src/prcserror.cc\<close> and \<open>src/src/include/prcserror.h\<close>. The object \<open>prcsquery\<close> is one
  global variable: its array of options and the index of the default survive a query,
  only the count is reset. The state of a command contains it.
\<close>

section \<open>Options of the command line\<close>

record Options =
  option_force_resolution :: bool
  option_report_actions :: bool
  option_be_silent :: bool
  option_skilled_merge :: bool
  option_long_format :: bool
  option_really_long_format :: bool

section \<open>Standard input\<close>

text \<open>
  The input is what is left to read; its end also stands for a read error. The first
  character of a line counts, the rest of the line is dropped, and a line that is not
  ended by a newline is an error, as NUL.
\<close>

definition get_user_char :: "string \<Rightarrow> char \<times> string" where
  "get_user_char inp =
     (case inp of
        [] \<Rightarrow> (NUL, [])
      | c # cs \<Rightarrow> if c = NEWLINE then (NEWLINE, cs)
          else (case strchr cs NEWLINE of None \<Rightarrow> (NUL, []) | Some r \<Rightarrow> (c, tl r)))"

definition read_string :: "string \<Rightarrow> string pr_error \<times> string" where
  "read_string inp =
     (case strchr inp NEWLINE of
        None \<Rightarrow> (Inl ReadFailure, [])
      | Some r \<Rightarrow> (Inr (take (length inp - length r) inp), tl r))"

section \<open>The query object\<close>

record QueryOption =
  opt_let :: char
  opt_descr :: string
  opt_val :: "char pr_error"

definition MAX_QUERY_OPTIONS :: nat where
  "MAX_QUERY_OPTIONS = 10"

text \<open>
  \<open>bang_flag\<close> is a pointer to one of the static \<open>BangFlag\<close> objects of the callers, which
  are named; \<open>bangs\<close> holds their contents. \<open>force_option\<close> is NUL when it is 0;
  the null string the constructor leaves in \<open>string_val\<close> is \<open>Inr None\<close>.
\<close>

record QueryOstream =
  stdin :: string
  said :: "string list"
  val :: "char pr_error"
  string_val :: "string option pr_error"
  options :: "QueryOption list"
  option_count :: nat
  default_option :: nat
  force_option :: char
  force_message :: string
  report_message :: string
  default_input :: string
  help_string :: "string option"
  bang_flag :: "string option"
  bangs :: "string \<Rightarrow> bool"

definition option_manip :: "QueryOption \<Rightarrow> ('z QueryOstream_scheme, unit) cmd" where
  "option_manip p = cbind (cget id) (\<lambda>q.
     cthen (cdefined (option_count q < MAX_QUERY_OPTIONS))
     (cupd (\<lambda>q. q\<lparr>options := (options q)[option_count q := p], option_count := option_count q + 1\<rparr>)))"

definition default_manip :: "QueryOption \<Rightarrow> ('z QueryOstream_scheme, unit) cmd" where
  "default_manip p = cthen (cupd (\<lambda>q. q\<lparr>default_option := option_count q\<rparr>)) (option_manip p)"

definition report_manip :: "string \<Rightarrow> ('z QueryOstream_scheme, unit) cmd" where
  "report_manip m = cupd (\<lambda>q. q\<lparr>report_message := m\<rparr>)"

definition force_manip :: "string \<Rightarrow> ('z QueryOstream_scheme, unit) cmd" where
  "force_manip m = cupd (\<lambda>q. q\<lparr>force_message := m\<rparr>)"

definition force_manip_different :: "string \<Rightarrow> char \<Rightarrow> ('z QueryOstream_scheme, unit) cmd" where
  "force_manip_different m c = cupd (\<lambda>q. q\<lparr>force_message := m, force_option := c\<rparr>)"

definition definput_manip :: "string \<Rightarrow> ('z QueryOstream_scheme, unit) cmd" where
  "definput_manip m = cupd (\<lambda>q. q\<lparr>default_input := m\<rparr>)"

definition help_manip :: "string \<Rightarrow> ('z QueryOstream_scheme, unit) cmd" where
  "help_manip m = cupd (\<lambda>q. q\<lparr>help_string := Some m\<rparr>)"

definition bang :: "string \<Rightarrow> ('z QueryOstream_scheme, unit) cmd" where
  "bang flag = cupd (\<lambda>q. q\<lparr>bang_flag := Some flag\<rparr>)"

section \<open>Asking\<close>

text \<open>The last option with the letter wins, as the loop does not stop at the first.\<close>

definition pick_option :: "QueryOption list \<Rightarrow> char \<Rightarrow> QueryOption option" where
  "pick_option opts c = find (\<lambda>p. opt_let p = c) (rev opts)"

text \<open>
  The interactive loop over the lines of the input: \<open>opts\<close> are the declared options,
  \<open>def\<close> the default one. The result is the value, whether the bang flag was set, and the
  input that is left.
\<close>

lemma strchr_shorter: "strchr s c = Some r \<Longrightarrow> length r \<le> length s"
  by (auto simp: strchr_Some)

lemma get_user_char_shorter: "inp \<noteq> [] \<Longrightarrow> length (snd (get_user_char inp)) < length inp"
  by (cases inp) (auto simp: get_user_char_def split: option.splits dest: strchr_shorter)

function answer_loop ::
  "QueryOption list \<Rightarrow> QueryOption \<Rightarrow> bool \<Rightarrow> bool \<Rightarrow> string \<Rightarrow> char pr_error \<times> bool \<times> string" where
  "answer_loop opts def has_bang has_help inp =
     (if inp = [] then (Inl UserAbort, False, [])
      else
        let c = fst (get_user_char inp); rest = snd (get_user_char inp);
            c' = (if c = NEWLINE then opt_let def else c);
            again = answer_loop opts def has_bang has_help rest
        in if c = NUL then (Inl UserAbort, False, rest)
           else if c = CHR ''?'' then again
           else if has_bang \<and> c = CHR ''!'' then
             (case pick_option opts c of None \<Rightarrow> (opt_val def, True, rest) | Some p \<Rightarrow> (opt_val p, True, rest))
           else if c = CHR ''q'' then
             (case pick_option opts c of None \<Rightarrow> (Inl UserAbort, False, rest) | Some p \<Rightarrow> (opt_val p, False, rest))
           else if has_help \<and> c = CHR ''h'' then again
           else (case pick_option opts c' of None \<Rightarrow> again | Some p \<Rightarrow> (opt_val p, False, rest)))"
  by pat_completeness auto
termination
  by (relation "measure (\<lambda>(_, _, _, _, inp). length inp)") (simp_all add: get_user_char_shorter)

declare answer_loop.simps [simp del]

text \<open>The first option with the letter of \<open>force(message, letter)\<close> becomes the default.\<close>

fun find_index :: "('a \<Rightarrow> bool) \<Rightarrow> 'a list \<Rightarrow> nat option" where
  "find_index P [] = None"
| "find_index P (x # xs) = (if P x then Some 0 else map_option Suc (find_index P xs))"

definition forced_default :: "Options \<Rightarrow> 'z QueryOstream_scheme \<Rightarrow> nat" where
  "forced_default o' q =
     (if force_option q \<noteq> NUL \<and> option_force_resolution o' then
        (case find_index (\<lambda>p. opt_let p = force_option q) (take (option_count q) (options q)) of
           None \<Rightarrow> default_option q | Some i \<Rightarrow> i)
      else default_option q)"

definition query_reset :: "'z QueryOstream_scheme \<Rightarrow> 'z QueryOstream_scheme" where
  "query_reset q = q\<lparr>force_option := NUL, option_count := 0, bang_flag := None, help_string := None\<rparr>"

definition query_manip :: "Options \<Rightarrow> ('z QueryOstream_scheme, unit) cmd" where
  "query_manip o' =
     cthen (cupd (\<lambda>q. q\<lparr>default_option := forced_default o' q\<rparr>))
     (cthen (cbind (cget id) (\<lambda>q.
       let def = options q ! default_option q;
           quiet = (\<lambda>messages. cupd (\<lambda>q. q\<lparr>said := said q @ messages, val := opt_val def\<rparr>))
       in cthen (cdefined (default_option q < length (options q)))
          (if option_force_resolution o' \<and> option_be_silent o' then quiet []
           else if option_report_actions o' then quiet [report_message q]
           else if option_force_resolution o' then quiet [force_message q]
           else if (case bang_flag q of None \<Rightarrow> False | Some b \<Rightarrow> bangs q b) then quiet [force_message q]
           else
             (case answer_loop (take (option_count q) (options q)) def
                     (bang_flag q \<noteq> None) (help_string q \<noteq> None) (stdin q) of
                (v, banged, rest) \<Rightarrow>
                  cupd (\<lambda>q. q\<lparr>val := v, stdin := rest,
                    bangs := (case bang_flag q of
                      Some b \<Rightarrow> if banged then (bangs q)(b := True) else bangs q | None \<Rightarrow> bangs q)\<rparr>)))))
     (cupd query_reset))"

text \<open>\<open>string_query\<close>: a line of text, the default input for an empty one.\<close>

definition string_query_manip :: "Options \<Rightarrow> ('z QueryOstream_scheme, unit) cmd" where
  "string_query_manip o' =
     cthen (cbind (cget id) (\<lambda>q.
       if option_force_resolution o' \<and> option_be_silent o' then creturn ()
       else if option_force_resolution o' \<or> option_report_actions o' then
         cupd (\<lambda>q. q\<lparr>said := said q @ [default_input q], string_val := Inr (Some (default_input q))\<rparr>)
       else
         (case read_string (stdin q) of
            (Inl e, rest) \<Rightarrow> cupd (\<lambda>q. q\<lparr>string_val := Inl UserAbort, stdin := rest\<rparr>)
          | (Inr ans, rest) \<Rightarrow>
              cupd (\<lambda>q. q\<lparr>string_val := Inr (Some (if ans \<noteq> [] then ans else default_input q)), stdin := rest\<rparr>))))
     (cupd query_reset)"

text \<open>\<open>prcsquery.result()\<close> and \<open>string_result()\<close> under \<open>Return_if_fail\<close>.\<close>

definition lift_error :: "'a pr_error \<Rightarrow> ('s, 'a) cmd" where
  "lift_error r = (case r of Inl e \<Rightarrow> cthrow (Err e) | Inr a \<Rightarrow> creturn a)"

definition result :: "('z QueryOstream_scheme, char) cmd" where
  "result = cbind (cget val) lift_error"

definition string_result :: "('z QueryOstream_scheme, string option) cmd" where
  "string_result = cbind (cget string_val) lift_error"

text \<open>The manipulators a caller writes between \<open>prcsquery\<close> and \<open>query\<close>.\<close>

datatype manip =
    Force string
  | ForceWith string char
  | Report string
  | Help string
  | AllowBang string
  | Opt QueryOption
  | DefOpt QueryOption

definition option_of :: "char \<Rightarrow> string \<Rightarrow> QueryOption" where
  "option_of c descr = \<lparr>opt_let = c, opt_descr = descr, opt_val = Inr c\<rparr>"

definition option_fail :: "char \<Rightarrow> QueryOption" where
  "option_fail c = \<lparr>opt_let = c, opt_descr = ''Fail and abort PRCS'', opt_val = Inl UserAbort\<rparr>"

fun manip_cmd :: "manip \<Rightarrow> ('z QueryOstream_scheme, unit) cmd" where
  "manip_cmd (Force m) = force_manip m"
| "manip_cmd (ForceWith m c) = force_manip_different m c"
| "manip_cmd (Report m) = report_manip m"
| "manip_cmd (Help m) = help_manip m"
| "manip_cmd (AllowBang b) = bang b"
| "manip_cmd (Opt p) = option_manip p"
| "manip_cmd (DefOpt p) = default_manip p"

definition prcsquery :: "Options \<Rightarrow> manip list \<Rightarrow> ('z QueryOstream_scheme, char) cmd" where
  "prcsquery o' ms = cthen (cforeach ms manip_cmd) (cthen (query_manip o') result)"

section \<open>What a query asks\<close>

fun opts_of :: "manip list \<Rightarrow> QueryOption list" where
  "opts_of [] = []"
| "opts_of (Opt p # ms) = p # opts_of ms"
| "opts_of (DefOpt p # ms) = p # opts_of ms"
| "opts_of (_ # ms) = opts_of ms"

text \<open>The last manipulator of a kind counts.\<close>

definition last_of :: "(manip \<Rightarrow> 'a option) \<Rightarrow> manip list \<Rightarrow> 'a option" where
  "last_of f ms = fold (\<lambda>m a. case f m of None \<Rightarrow> a | Some x \<Rightarrow> Some x) ms None"

fun as_default :: "manip \<Rightarrow> QueryOption option" where
  "as_default (DefOpt p) = Some p"
| "as_default _ = None"

fun as_bang :: "manip \<Rightarrow> string option" where
  "as_bang (AllowBang b) = Some b"
| "as_bang _ = None"

fun as_help :: "manip \<Rightarrow> string option" where
  "as_help (Help h) = Some h"
| "as_help _ = None"

fun as_forced :: "manip \<Rightarrow> char option" where
  "as_forced (ForceWith m c) = Some c"
| "as_forced _ = None"

text \<open>The default that counts: under \<open>-f\<close> the option \<open>force\<close> names, when there is one.\<close>

definition effective_default :: "Options \<Rightarrow> manip list \<Rightarrow> QueryOption \<Rightarrow> QueryOption" where
  "effective_default o' ms d =
     (case last_of as_forced ms of
        None \<Rightarrow> d
      | Some c \<Rightarrow>
          if c \<noteq> NUL \<and> option_force_resolution o' then
            (case find (\<lambda>p. opt_let p = c) (opts_of ms) of None \<Rightarrow> d | Some p \<Rightarrow> p)
          else d)"

definition ask ::
  "Options \<Rightarrow> manip list \<Rightarrow> QueryOption \<Rightarrow> (string \<Rightarrow> bool) \<Rightarrow> string \<Rightarrow> char pr_error \<times> (string \<Rightarrow> bool) \<times> string" where
  "ask o' ms d bs inp =
     (let def = effective_default o' ms d; flag = last_of as_bang ms
      in if option_force_resolution o' \<or> option_report_actions o' \<or>
            (case flag of None \<Rightarrow> False | Some b \<Rightarrow> bs b)
         then (opt_val def, bs, inp)
         else (case answer_loop (opts_of ms) def (flag \<noteq> None) (last_of as_help ms \<noteq> None) inp of
                 (v, banged, rest) \<Rightarrow>
                   (v, (case flag of Some b \<Rightarrow> if banged then bs(b := True) else bs | None \<Rightarrow> bs), rest)))"

definition query_ready :: "'z QueryOstream_scheme \<Rightarrow> bool" where
  "query_ready q \<longleftrightarrow> length (options q) = MAX_QUERY_OPTIONS \<and> option_count q = 0 \<and>
     force_option q = NUL \<and> bang_flag q = None \<and> help_string q = None"

section \<open>Lemmas\<close>

lemma cforeach_snoc: "cforeach (xs @ [x]) f s = cthen (cforeach xs f) (f x) s"
proof (induction xs arbitrary: s)
  case Nil
  show ?case by (simp add: cmd_simps split: sum.split prod.split)
next
  case (Cons y ys)
  then show ?case by (simp add: cmd_simps split: sum.split prod.split)
qed

lemma opts_of_append: "opts_of (xs @ ys) = opts_of xs @ opts_of ys"
  by (induction xs rule: opts_of.induct) auto

lemma last_of_snoc: "last_of f (ms @ [m]) = (case f m of None \<Rightarrow> last_of f ms | Some x \<Rightarrow> Some x)"
  by (simp add: last_of_def split: option.split)

lemma last_of_Nil: "last_of f [] = None"
  by (simp add: last_of_def)

lemma find_index_find:
  "find P xs = map_option (\<lambda>i. xs ! i) (find_index P xs)"
  by (induction xs) (auto simp: option.map_comp comp_def)

lemma find_index_less: "find_index P xs = Some i \<Longrightarrow> i < length xs"
  by (induction xs arbitrary: i) (auto split: if_splits)

text \<open>The object after the manipulators: what it holds depends on them alone.\<close>

definition query_built :: "'z QueryOstream_scheme \<Rightarrow> manip list \<Rightarrow> 'z QueryOstream_scheme \<Rightarrow> bool" where
  "query_built q ms q1 \<longleftrightarrow>
     length (options q1) = MAX_QUERY_OPTIONS \<and> option_count q1 = length (opts_of ms) \<and>
     take (option_count q1) (options q1) = opts_of ms \<and>
     (\<forall>d. last_of as_default ms = Some d \<longrightarrow>
        default_option q1 < option_count q1 \<and> options q1 ! default_option q1 = d) \<and>
     force_option q1 = (case last_of as_forced ms of None \<Rightarrow> NUL | Some c \<Rightarrow> c) \<and>
     bang_flag q1 = last_of as_bang ms \<and> help_string q1 = last_of as_help ms \<and>
     stdin q1 = stdin q \<and> bangs q1 = bangs q \<and> QueryOstream.more q1 = QueryOstream.more q"

lemma query_built_step:
  assumes "query_built q ms q1" and "length (opts_of (ms @ [m])) \<le> MAX_QUERY_OPTIONS"
  shows "\<exists>q2. manip_cmd m q1 = (Inr (), q2) \<and> query_built q (ms @ [m]) q2"
proof (cases m)
  case (Opt p)
  have "option_count q1 < MAX_QUERY_OPTIONS"
    using assms by (simp add: query_built_def Opt opts_of_append)
  then show ?thesis
    using assms(1)
    by (auto simp: query_built_def Opt opts_of_append option_manip_def cmd_simps last_of_snoc
      take_Suc_conv_app_nth)
next
  case (DefOpt p)
  have "option_count q1 < MAX_QUERY_OPTIONS"
    using assms by (simp add: query_built_def DefOpt opts_of_append)
  then show ?thesis
    using assms(1)
    by (auto simp: query_built_def DefOpt opts_of_append option_manip_def default_manip_def cmd_simps
      last_of_snoc take_Suc_conv_app_nth)
qed (use assms(1) in \<open>auto simp: query_built_def opts_of_append cmd_simps last_of_snoc force_manip_def
       force_manip_different_def report_manip_def help_manip_def bang_def\<close>)

lemma query_built_all:
  assumes "query_ready q" and "length (opts_of ms) \<le> MAX_QUERY_OPTIONS"
  shows "\<exists>q1. cforeach ms manip_cmd q = (Inr (), q1) \<and> query_built q ms q1"
  using assms(2)
proof (induction ms rule: rev_induct)
  case Nil
  then show ?case
    using assms(1) by (simp add: query_built_def query_ready_def cmd_simps last_of_Nil)
next
  case (snoc m ms)
  have "length (opts_of ms) \<le> MAX_QUERY_OPTIONS"
    using snoc.prems by (simp add: opts_of_append)
  then obtain q1 where "cforeach ms manip_cmd q = (Inr (), q1)" "query_built q ms q1"
    using snoc.IH by blast
  moreover from query_built_step [OF this(2) snoc.prems] obtain q2 where
    "manip_cmd m q1 = (Inr (), q2)" "query_built q (ms @ [m]) q2" by blast
  ultimately show ?case
    by (auto simp: cforeach_snoc cthen_apply)
qed

lemma forced_default_built:
  assumes "query_built q ms q1" and "last_of as_default ms = Some d"
  shows "forced_default o' q1 < option_count q1"
    and "options q1 ! forced_default o' q1 = effective_default o' ms d"
proof -
  let ?P = "\<lambda>p. opt_let p = force_option q1"
  have b: "take (option_count q1) (options q1) = opts_of ms" "default_option q1 < option_count q1"
    "options q1 ! default_option q1 = d" "option_count q1 = length (opts_of ms)"
    "force_option q1 = (case last_of as_forced ms of None \<Rightarrow> NUL | Some c \<Rightarrow> c)"
    using assms unfolding query_built_def by blast+
  have nth: "options q1 ! i = opts_of ms ! i" if "i < option_count q1" for i
    using b(1) that by (metis nth_take)
  have "forced_default o' q1 < option_count q1 \<and> options q1 ! forced_default o' q1 = effective_default o' ms d"
  proof (cases "find_index ?P (opts_of ms)")
    case None
    then show ?thesis
      using b by (cases "last_of as_forced ms")
        (simp_all add: forced_default_def effective_default_def find_index_find)
  next
    case (Some i)
    then have "i < option_count q1" using find_index_less b(4) by metis
    then show ?thesis
      using Some b nth
      by (cases "last_of as_forced ms")
        (simp_all add: forced_default_def effective_default_def find_index_find)
  qed
  then show "forced_default o' q1 < option_count q1"
    and "options q1 ! forced_default o' q1 = effective_default o' ms d" by blast+
qed

definition as_failure :: "'a pr_error \<Rightarrow> failure + 'a" where
  "as_failure r = (case r of Inl e \<Rightarrow> Inl (Err e) | Inr a \<Rightarrow> Inr a)"

lemma lift_error_apply: "lift_error r s = (as_failure r, s)"
  by (simp add: lift_error_def as_failure_def cmd_simps split: sum.split)

lemma query_manip_built:
  assumes "query_built q ms q1" and "last_of as_default ms = Some d"
  shows "\<exists>q2. query_manip o' q1 = (Inr (), q2) \<and> query_ready q2 \<and>
     (val q2, bangs q2, stdin q2) = ask o' ms d (bangs q) (stdin q) \<and>
     QueryOstream.more q2 = QueryOstream.more q"
proof -
  have b: "take (option_count q1) (options q1) = opts_of ms" "length (options q1) = MAX_QUERY_OPTIONS"
    "bang_flag q1 = last_of as_bang ms" "help_string q1 = last_of as_help ms"
    "stdin q1 = stdin q" "bangs q1 = bangs q" "QueryOstream.more q1 = QueryOstream.more q"
    using assms unfolding query_built_def by blast+
  have "length (take (option_count q1) (options q1)) = option_count q1"
    using assms unfolding query_built_def by metis
  then have le: "option_count q1 \<le> length (options q1)" by simp
  note f = forced_default_built [OF assms, of o']
  have lt: "forced_default o' q1 < length (options q1)" using f(1) le by simp
  obtain v banged rest where al: "answer_loop (opts_of ms) (effective_default o' ms d)
      (last_of as_bang ms \<noteq> None) (last_of as_help ms \<noteq> None) (stdin q) = (v, banged, rest)"
    by (rule prod_cases3)
  show ?thesis
    using b f(2) lt al
    by (cases "last_of as_bang ms")
      (auto simp: query_manip_def cmd_simps ask_def Let_def query_reset_def query_ready_def)
qed

lemma prcsquery_ask:
  assumes "query_ready q" and "length (opts_of ms) \<le> MAX_QUERY_OPTIONS" and "last_of as_default ms = Some d"
  shows "\<exists>q2. prcsquery o' ms q = (as_failure (fst (ask o' ms d (bangs q) (stdin q))), q2) \<and> query_ready q2 \<and>
     (bangs q2, stdin q2) = snd (ask o' ms d (bangs q) (stdin q)) \<and>
     QueryOstream.more q2 = QueryOstream.more q"
proof -
  obtain q1 where q1: "cforeach ms manip_cmd q = (Inr (), q1)" "query_built q ms q1"
    using query_built_all [OF assms(1,2)] by blast
  obtain q2 where q2: "query_manip o' q1 = (Inr (), q2)" "query_ready q2"
    "(val q2, bangs q2, stdin q2) = ask o' ms d (bangs q) (stdin q)"
    "QueryOstream.more q2 = QueryOstream.more q"
    using query_manip_built [OF q1(2) assms(3)] by blast
  have "prcsquery o' ms q = (as_failure (val q2), q2)"
    by (simp add: prcsquery_def cthen_apply q1(1) q2(1) result_def cmd_simps lift_error_apply)
  with q2(2-) show ?thesis by (metis fst_conv snd_conv)
qed

lemma pick_option_in: "pick_option opts c = Some p \<Longrightarrow> p \<in> set opts \<and> opt_let p = c"
  by (auto simp: pick_option_def find_Some_iff) (metis length_rev nth_mem set_rev)

lemma answer_loop_values:
  "fst (answer_loop opts def b h inp) \<in> insert (Inl UserAbort) (insert (opt_val def) (opt_val ` set opts))"
proof (induction opts def b h inp rule: answer_loop.induct)
  case (1 opts def b h inp)
  show ?case
  proof (cases "inp = []")
    case True
    then show ?thesis by (subst answer_loop.simps) simp
  next
    case False
    let ?IH = "fst (answer_loop opts def b h (snd (get_user_char inp)))
       \<in> insert (Inl UserAbort) (insert (opt_val def) (opt_val ` set opts))"
    have ?IH using 1 [OF False refl refl refl] .
    moreover have in_opts: "pick_option opts c = Some p \<Longrightarrow> opt_val p \<in> opt_val ` set opts" for c p
      using pick_option_in by blast
    ultimately show ?thesis
      using False by (subst answer_loop.simps) (auto simp: Let_def split: option.split)
  qed
qed

section \<open>Properties\<close>

text \<open>
  C14. A query with at most ten options and a default never leaves the array of options
  and answers what its own manipulators and the input determine, whatever earlier
  queries left in the shared object: under \<open>-n\<close>, \<open>-f\<close> and a set bang flag the value of the
  effective default without reading input, otherwise the answer of the loop over the
  input lines. The object is ready for the next query.
\<close>

theorem prcsquery_history_independent:
  assumes "query_ready q" and "length (opts_of ms) \<le> MAX_QUERY_OPTIONS"
    and "last_of as_default ms = Some d"
  shows "fst (prcsquery o' ms q) = as_failure (fst (ask o' ms d (bangs q) (stdin q))) \<and>
    (bangs (snd (prcsquery o' ms q)), stdin (snd (prcsquery o' ms q))) = snd (ask o' ms d (bangs q) (stdin q)) \<and>
    query_ready (snd (prcsquery o' ms q))"
  using prcsquery_ask [OF assms, of o'] by (elim exE conjE) simp

definition query_fresh :: "string \<Rightarrow> QueryOstream" where
  "query_fresh inp = \<lparr>stdin = inp, said = [], val = Inr NUL, string_val = Inr None,
     options = replicate 10 (option_of NUL []), option_count = 0, default_option = 7,
     force_option = NUL, force_message = [], report_message = [], default_input = [],
     help_string = None, bang_flag = None, bangs = (\<lambda>_. False)\<rparr>"

definition interactive :: Options where
  "interactive = \<lparr>option_force_resolution = False, option_report_actions = False, option_be_silent = False,
     option_skilled_merge = False, option_long_format = False, option_really_long_format = False\<rparr>"

theorem prcsquery_history_independent_witness:
  "fst (prcsquery interactive [Opt (option_fail (CHR ''n'')), DefOpt (option_of (CHR ''y'') [])]
     (query_fresh (''x'' @ [NEWLINE] @ ''no'' @ [NEWLINE]))) = Inl (Err UserAbort)"
proof -
  let ?ms = "[Opt (option_fail (CHR ''n'')), DefOpt (option_of (CHR ''y'') [])]"
  let ?q = "query_fresh (''x'' @ [NEWLINE] @ ''no'' @ [NEWLINE])"
  have "fst (prcsquery interactive ?ms ?q) =
      as_failure (fst (ask interactive ?ms (option_of (CHR ''y'') []) (bangs ?q) (stdin ?q)))"
    by (rule prcsquery_history_independent [THEN conjunct1])
      (simp_all add: query_ready_def query_fresh_def MAX_QUERY_OPTIONS_def last_of_def)
  then show ?thesis
    by (simp add: query_fresh_def last_of_def ask_def interactive_def effective_default_def
      answer_loop.simps get_user_char_def pick_option_def option_fail_def option_of_def as_failure_def Let_def)
qed

text \<open>
  Under \<open>-f\<close> together with \<open>-q\<close> a string query does not set its result: the caller
  gets the answer of the previous string query, and a null string when there was none.
\<close>

lemma string_query_silent_stale:
  assumes "option_force_resolution o'" and "option_be_silent o'"
  shows "fst (cthen (cthen (definput_manip m) (string_query_manip o')) string_result q) =
    as_failure (string_val q)"
  using assms
  by (simp add: cmd_simps definput_manip_def string_query_manip_def string_result_def query_reset_def
      lift_error_apply)

theorem string_query_silent_stale_witness:
  "fst (cthen (cthen (definput_manip ''1.0'') (string_query_manip
      (interactive\<lparr>option_force_resolution := True, option_be_silent := True\<rparr>))) string_result
     (query_fresh [])) = Inr None"
  by (subst string_query_silent_stale) (simp_all add: query_fresh_def as_failure_def)

end
