(* ===== verification/MergeRules.thy ===== *)
theory MergeRules
  imports Query
begin

text \<open>
  The choice of a merge rule in \<open>src/src/merge.cc\<close>: the table \<open>merge_defaults\<close>, the
  default actions, the virtual functions of \<open>MergeControl\<close>, and the loop of
  \<open>MergeControl::run_merge\<close> that compares the three files pass by pass until one rule
  is left. A null \<open>Mergeable*\<close> is \<open>None\<close>.
\<close>

section \<open>Rules and actions\<close>

datatype MergeAction = NoPrompt | Merge | Add | Delete | Nothing | Replace

fun action_char :: "MergeAction \<Rightarrow> char" where
  "action_char NoPrompt = NUL"
| "action_char Merge = CHR ''m''"
| "action_char Add = CHR ''a''"
| "action_char Delete = CHR ''d''"
| "action_char Nothing = CHR ''n''"
| "action_char Replace = CHR ''r''"

text \<open>\<open>(MergeAction)c\<close>, on the letters of the enumeration.\<close>

definition char_action :: "char \<Rightarrow> MergeAction option" where
  "char_action c = find (\<lambda>a. action_char a = c) [NoPrompt, Merge, Add, Delete, Nothing, Replace]"

definition default_merge_actions :: "MergeAction list" where
  "default_merge_actions =
     [NoPrompt, Merge, Replace, NoPrompt, NoPrompt, Nothing, Delete,
      NoPrompt, Nothing, Delete, Merge, NoPrompt, NoPrompt, Add]"

record MergeDef =
  have_working :: bool
  have_selected :: bool
  have_common :: bool
  ws_cmp :: bool
  wc_cmp :: bool
  sc_cmp :: bool
  rule_no :: nat

definition merge_def :: "bool \<Rightarrow> bool \<Rightarrow> bool \<Rightarrow> bool \<Rightarrow> bool \<Rightarrow> bool \<Rightarrow> nat \<Rightarrow> MergeDef" where
  "merge_def w s c ws wc sc r =
     \<lparr>have_working = w, have_selected = s, have_common = c, ws_cmp = ws, wc_cmp = wc, sc_cmp = sc, rule_no = r\<rparr>"

definition merge_defaults :: "MergeDef list" where
  "merge_defaults =
     [merge_def False False True  False False False 12,
      merge_def True  False False False False False 13,
      merge_def False True  False False False False 14,
      merge_def False True  True  False False False 6,
      merge_def True  False True  False False False 7,
      merge_def True  True  False False False False 8,
      merge_def False True  True  False False True  9,
      merge_def True  False True  False True  False 10,
      merge_def True  True  False True  False False 11,
      merge_def True  True  True  False False False 1,
      merge_def True  True  True  True  True  True  2,
      merge_def True  True  True  True  False True  3,
      merge_def True  True  True  True  True  False 4,
      merge_def True  True  True  False True  True  5]"

section \<open>The virtual functions\<close>

text \<open>The names of the temporary files, and the record of what has been checked out where.\<close>

datatype temp_file = temp_file_working | temp_file_common | temp_file_selected

record 'n MergeCo =
  co_working :: "'n option"
  co_selected :: "'n option"
  co_common :: "'n option"

definition MergeCo_new :: "'n MergeCo" where
  "MergeCo_new = \<lparr>co_working = None, co_selected = None, co_common = None\<rparr>"

text \<open>
  The argument order is the code's: selected, common, working. \<open>quick_cmp\<close> returns its
  result only when it sets \<open>*positive\<close>; \<open>file_cmp\<close> is the static function that compares
  two temporary files. \<open>print3\<close> is what printing the three for a message reads: the text is an entry of
  a log here, but the entry is read where it is printed.
\<close>

type_synonym ('s, 'm, 'a) triple_cmd = "'m option \<Rightarrow> 'm option \<Rightarrow> 'm option \<Rightarrow> ('s, 'a) cmd"

record ('s, 'm, 'n) MergeVirtual =
  merge_action_by_rule :: "'m \<Rightarrow> nat \<Rightarrow> ('s, MergeAction) cmd"
  quick_cmp :: "('s, 'm, bool option) triple_cmd"
  prepare :: "'m option \<Rightarrow> 'n option \<Rightarrow> 'm option \<Rightarrow> 'n option \<Rightarrow> 'm option \<Rightarrow> 'n option
     \<Rightarrow> 'n MergeCo \<Rightarrow> ('s, 'n MergeCo) cmd"
  file_cmp :: "'n \<Rightarrow> 'n \<Rightarrow> ('s, bool) cmd"
  temp_name :: "temp_file \<Rightarrow> 'n"
  can_add :: "'m \<Rightarrow> ('s, bool) cmd"
  will_3way :: "'m \<Rightarrow> ('s, bool) cmd"
  can_view :: bool
  view :: "'m option \<Rightarrow> 'm option \<Rightarrow> 'm option \<Rightarrow> 'n MergeCo \<Rightarrow> ('s, 'n MergeCo) cmd"
  mergef :: "'m option \<Rightarrow> 'm option \<Rightarrow> 'm option \<Rightarrow> 'n MergeCo \<Rightarrow> ('s, bool) cmd"
  addf :: "'m option \<Rightarrow> 'm option \<Rightarrow> 'm option \<Rightarrow> 'n MergeCo \<Rightarrow> ('s, unit) cmd"
  deletef :: "'m option \<Rightarrow> 'm option \<Rightarrow> 'm option \<Rightarrow> 'n MergeCo \<Rightarrow> ('s, unit) cmd"
  replacef :: "'m option \<Rightarrow> 'm option \<Rightarrow> 'm option \<Rightarrow> 'n MergeCo \<Rightarrow> ('s, unit) cmd"
  print3 :: "'m option \<Rightarrow> 'm option \<Rightarrow> 'm option \<Rightarrow> ('s, unit) cmd"
  notify :: "'m option \<Rightarrow> 'm option \<Rightarrow> 'm option \<Rightarrow> MergeAction \<Rightarrow> ('s, unit) cmd"
  vname :: "'m \<Rightarrow> ('s, string) cmd"

section \<open>Comparing until one rule is left\<close>

text \<open>What is positively known of the three comparisons.\<close>

record Cmps =
  wc_known :: "bool option"
  ws_known :: "bool option"
  sc_known :: "bool option"

definition found_defs :: "'m option \<Rightarrow> 'm option \<Rightarrow> 'm option \<Rightarrow> MergeDef list" where
  "found_defs selected common working =
     filter (\<lambda>d. have_working d = (working \<noteq> None) \<and> have_common d = (common \<noteq> None) \<and>
        have_selected d = (selected \<noteq> None)) merge_defaults"

definition contradicts :: "bool option \<Rightarrow> bool \<Rightarrow> bool" where
  "contradicts known v \<longleftrightarrow> (case known of None \<Rightarrow> False | Some k \<Rightarrow> k \<noteq> v)"

text \<open>The rules a comparison rules out become null and \<open>compact\<close> drops them.\<close>

definition prune_defs :: "'m option \<Rightarrow> 'm option \<Rightarrow> 'm option \<Rightarrow> Cmps \<Rightarrow> MergeDef list \<Rightarrow> MergeDef list" where
  "prune_defs selected common working k ds =
     filter (\<lambda>d. \<not> (working \<noteq> None \<and> common \<noteq> None \<and> contradicts (wc_known k) (wc_cmp d) \<or>
                    working \<noteq> None \<and> selected \<noteq> None \<and> contradicts (ws_known k) (ws_cmp d) \<or>
                    selected \<noteq> None \<and> common \<noteq> None \<and> contradicts (sc_known k) (sc_cmp d))) ds"

definition quick_pass ::
  "('s, 'm, 'n) MergeVirtual \<Rightarrow> 'm option \<Rightarrow> 'm option \<Rightarrow> 'm option \<Rightarrow> ('s, Cmps) cmd" where
  "quick_pass V selected common working =
     cbind (if working \<noteq> None \<and> common \<noteq> None then quick_cmp V None common working else creturn None) (\<lambda>wc.
     cbind (if selected \<noteq> None \<and> working \<noteq> None then quick_cmp V selected None working else creturn None) (\<lambda>ws.
     cbind (if common \<noteq> None \<and> selected \<noteq> None then quick_cmp V selected common None else creturn None) (\<lambda>sc.
     creturn \<lparr>wc_known = wc, ws_known = ws, sc_known = sc\<rparr>)))"

definition compare_pass ::
  "('s, 'm, 'n) MergeVirtual \<Rightarrow> 'm option \<Rightarrow> 'm option \<Rightarrow> 'm option \<Rightarrow> nat \<Rightarrow> Cmps \<Rightarrow> 'n MergeCo
     \<Rightarrow> ('s, Cmps \<times> 'n MergeCo) cmd" where
  "compare_pass V selected common working pass k co =
     (let tw = temp_name V temp_file_working; tc = temp_name V temp_file_common;
          ts = temp_name V temp_file_selected
      in if pass = 0 then cbind (quick_pass V selected common working) (\<lambda>k'. creturn (k', co))
         else if pass = 1 \<and> selected \<noteq> None \<and> common \<noteq> None then
           cthen (cassert (sc_known k \<noteq> None)) (creturn (k, co))
         else if pass = 2 \<and> working \<noteq> None \<and> selected \<noteq> None \<and> ws_known k = None then
           cbind (prepare V selected (Some ts) None None working (Some tw) co) (\<lambda>co'.
           cbind (file_cmp V ts tw) (\<lambda>ws. creturn (k\<lparr>ws_known := Some ws\<rparr>, co')))
         else if pass = 3 \<and> working \<noteq> None \<and> common \<noteq> None \<and> wc_known k = None then
           cbind (prepare V None None common (Some tc) working (Some tw) co) (\<lambda>co'.
           cbind (file_cmp V tc tw) (\<lambda>wc. creturn (k\<lparr>wc_known := Some wc\<rparr>, co')))
         else if pass = 4 then cthrow AssertFailed
         else creturn (k, co))"

function merge_loop ::
  "('s, 'm, 'n) MergeVirtual \<Rightarrow> 'm option \<Rightarrow> 'm option \<Rightarrow> 'm option \<Rightarrow> nat \<Rightarrow> MergeDef list \<Rightarrow> Cmps
     \<Rightarrow> 'n MergeCo \<Rightarrow> ('s, MergeDef list \<times> 'n MergeCo) cmd" where
  "merge_loop V selected common working pass found k co =
     (if 1 < length found \<or> pass = 0 then
        cbind (compare_pass V selected common working pass k co) (\<lambda>(k', co').
          if 4 \<le> pass then cthrow AssertFailed
          else merge_loop V selected common working (pass + 1)
                 (prune_defs selected common working k' found) k' co')
      else creturn (found, co))"
  by pat_completeness auto
termination
  by (relation "measure (\<lambda>(V, s, c, w, pass, f, k, co). 4 - pass + (if pass \<le> 4 then 1 else 0))") auto

declare merge_loop.simps [simp del]

text \<open>The part of \<open>run_merge\<close> that ends at \<open>ASSERT (found == 1, ...)\<close>.\<close>

definition select_rule ::
  "('s, 'm, 'n) MergeVirtual \<Rightarrow> 'm option \<Rightarrow> 'm option \<Rightarrow> 'm option \<Rightarrow> ('s, MergeDef \<times> 'n MergeCo) cmd" where
  "select_rule V selected common working =
     cbind (merge_loop V selected common working 0 (found_defs selected common working)
              \<lparr>wc_known = None, ws_known = None, sc_known = None\<rparr> MergeCo_new) (\<lambda>(found, co).
     cthen (cassert (length found = 1)) (creturn (hd found, co)))"

section \<open>What the rules mean\<close>

text \<open>
  The rule for a triple, from the documentation of the rules: which versions have the
  file, and which of those that have it differ. \<open>differs\<close> is difference of contents.
\<close>

definition rule_spec :: "('m \<Rightarrow> 'm \<Rightarrow> bool) \<Rightarrow> 'm option \<Rightarrow> 'm option \<Rightarrow> 'm option \<Rightarrow> nat option" where
  "rule_spec differs selected common working =
     (case (working, selected, common) of
        (None, None, None) \<Rightarrow> None
      | (None, None, Some c) \<Rightarrow> Some 12
      | (Some w, None, None) \<Rightarrow> Some 13
      | (None, Some s, None) \<Rightarrow> Some 14
      | (None, Some s, Some c) \<Rightarrow> Some (if differs s c then 9 else 6)
      | (Some w, None, Some c) \<Rightarrow> Some (if differs w c then 10 else 7)
      | (Some w, Some s, None) \<Rightarrow> Some (if differs w s then 11 else 8)
      | (Some w, Some s, Some c) \<Rightarrow>
          Some (if \<not> differs w s then (if differs s c then 5 else 1)
                else if \<not> differs w c then 3
                else if \<not> differs s c then 4
                else 2))"

text \<open>The comparison of two of the versions, when both are there.\<close>

definition differ_opt :: "('m \<Rightarrow> 'm \<Rightarrow> bool) \<Rightarrow> 'm option \<Rightarrow> 'm option \<Rightarrow> bool option" where
  "differ_opt differs a b = (case (a, b) of (Some x, Some y) \<Rightarrow> Some (differs x y) | _ \<Rightarrow> None)"

definition cmps_sound :: "('m \<Rightarrow> 'm \<Rightarrow> bool) \<Rightarrow> 'm option \<Rightarrow> 'm option \<Rightarrow> 'm option \<Rightarrow> Cmps \<Rightarrow> bool" where
  "cmps_sound differs selected common working k \<longleftrightarrow>
     (wc_known k = None \<or> wc_known k = differ_opt differs working common) \<and>
     (ws_known k = None \<or> ws_known k = differ_opt differs working selected) \<and>
     (sc_known k = None \<or> sc_known k = differ_opt differs selected common)"

definition all_here :: "('m \<Rightarrow> bool) \<Rightarrow> 'm option \<Rightarrow> 'm option \<Rightarrow> 'm option \<Rightarrow> bool" where
  "all_here here selected common working \<longleftrightarrow>
     (selected \<noteq> None \<or> common \<noteq> None \<or> working \<noteq> None) \<and>
     pred_option here selected \<and> pred_option here common \<and> pred_option here working"

text \<open>What is known on entry to a pass.\<close>

definition cmps_progress :: "bool \<Rightarrow> 'm option \<Rightarrow> 'm option \<Rightarrow> 'm option \<Rightarrow> nat \<Rightarrow> Cmps \<Rightarrow> bool" where
  "cmps_progress quick_total selected common working pass k \<longleftrightarrow>
     (1 \<le> pass \<and> selected \<noteq> None \<and> common \<noteq> None \<longrightarrow> sc_known k \<noteq> None) \<and>
     (((1 \<le> pass \<and> quick_total) \<or> 3 \<le> pass) \<and> working \<noteq> None \<and> selected \<noteq> None \<longrightarrow> ws_known k \<noteq> None) \<and>
     (((1 \<le> pass \<and> quick_total) \<or> 4 \<le> pass) \<and> working \<noteq> None \<and> common \<noteq> None \<longrightarrow> wc_known k \<noteq> None)"

lemma prune_defs_filter: "prune_defs s c w k (filter P ds) = filter P (prune_defs s c w k ds)"
  by (simp add: prune_defs_def conj_commute)

lemma merge_defaults_found: "length (found_defs s c w) \<le> 5"
  by (cases s; cases c; cases w) (simp_all add: found_defs_def merge_defaults_def merge_def_def)

text \<open>
  What \<open>run_merge\<close> needs of a controller: difference is the complement of an
  equivalence, a positive quick comparison is right, the one of the selected and common
  versions is always positive, and where not all are (\<open>quick_total\<close>) comparing the files it
  prepares is right. \<open>holds co\<close> is
  the controller's invariant while \<open>co\<close> says what has been checked out, \<open>here\<close> says of
  which operands the laws speak.
\<close>

locale comparisons =
  fixes V :: "('s, 'm, 'n) MergeVirtual"
    and differs :: "'m \<Rightarrow> 'm \<Rightarrow> bool"
    and holds :: "'n MergeCo \<Rightarrow> 's \<Rightarrow> bool"
    and failed :: "'s \<Rightarrow> bool"
    and here :: "'m \<Rightarrow> bool"
    and quick_total :: bool
  assumes same_refl: "\<not> differs x x"
    and same_sym: "differs x y \<Longrightarrow> differs y x"
    and same_trans: "\<not> differs x y \<Longrightarrow> \<not> differs y z \<Longrightarrow> \<not> differs x z"
    and quick_wc: "here c \<Longrightarrow> here w \<Longrightarrow>
      hoare (holds co) (quick_cmp V None (Some c) (Some w))
        (\<lambda>r s. (r = None \<and> \<not> quick_total \<or> r = Some (differs w c)) \<and> holds co s) failed"
    and quick_ws: "here x \<Longrightarrow> here w \<Longrightarrow>
      hoare (holds co) (quick_cmp V (Some x) None (Some w))
        (\<lambda>r s. (r = None \<and> \<not> quick_total \<or> r = Some (differs w x)) \<and> holds co s) failed"
    and quick_sc: "here x \<Longrightarrow> here c \<Longrightarrow>
      hoare (holds co) (quick_cmp V (Some x) (Some c) None)
        (\<lambda>r s. r = Some (differs x c) \<and> holds co s) failed"
    and full_ws: "\<not> quick_total \<Longrightarrow> here x \<Longrightarrow> here w \<Longrightarrow>
      hoare (holds co) (cbind (prepare V (Some x) (Some (temp_name V temp_file_selected)) None None
                           (Some w) (Some (temp_name V temp_file_working)) co)
                   (\<lambda>co'. cbind (file_cmp V (temp_name V temp_file_selected) (temp_name V temp_file_working))
                     (\<lambda>d. creturn (d, co'))))
        (\<lambda>(d, co') s. d = differs w x \<and> holds co' s) failed"
    and full_wc: "\<not> quick_total \<Longrightarrow> here c \<Longrightarrow> here w \<Longrightarrow>
      hoare (holds co) (cbind (prepare V None None (Some c) (Some (temp_name V temp_file_common))
                           (Some w) (Some (temp_name V temp_file_working)) co)
                   (\<lambda>co'. cbind (file_cmp V (temp_name V temp_file_common) (temp_name V temp_file_working))
                     (\<lambda>d. creturn (d, co'))))
        (\<lambda>(d, co') s. d = differs w c \<and> holds co' s) failed"
begin

definition truth :: "'m option \<Rightarrow> 'm option \<Rightarrow> 'm option \<Rightarrow> Cmps" where
  "truth selected common working =
     \<lparr>wc_known = differ_opt differs working common, ws_known = differ_opt differs working selected,
      sc_known = differ_opt differs selected common\<rparr>"

lemma differs_cases:
  obtains "\<not> differs x y" "\<not> differs y z" "\<not> differs x z"
    | "differs x y" "differs y z" "differs x z"
    | "\<not> differs x y" "differs y z" "differs x z"
    | "differs x y" "\<not> differs y z" "differs x z"
    | "differs x y" "differs y z" "\<not> differs x z"
  using same_trans same_sym by metis

text \<open>Full knowledge leaves exactly one rule, the one the table of the documentation names.\<close>

lemma prune_truth:
  assumes "selected \<noteq> None \<or> common \<noteq> None \<or> working \<noteq> None"
  shows "\<exists>d. prune_defs selected common working (truth selected common working)
           (found_defs selected common working) = [d] \<and>
     Some (rule_no d) = rule_spec differs selected common working"
proof -
  note simps = prune_defs_def found_defs_def merge_defaults_def merge_def_def truth_def differ_opt_def
    contradicts_def rule_spec_def
  show ?thesis
  proof (cases "selected = None \<or> common = None \<or> working = None")
    case True
    then show ?thesis
      using assms by (cases selected; cases common; cases working) (auto simp: simps)
  next
    case False
    then obtain x c w where [simp]: "selected = Some x" "common = Some c" "working = Some w" by auto
    show ?thesis
      by (rule differs_cases [of w x c]) (use same_sym [of x c] same_sym [of c x] in \<open>auto simp: simps\<close>)
  qed
qed

lemma prune_complete:
  assumes "cmps_sound differs selected common working k" and "cmps_progress quick_total selected common working 4 k"
  shows "prune_defs selected common working k ds = prune_defs selected common working (truth selected common working) ds"
  using assms
  by (cases selected; cases common; cases working)
    (auto simp: prune_defs_def truth_def cmps_sound_def cmps_progress_def)

lemma prune_sound:
  assumes "cmps_sound differs selected common working k"
  shows "set (prune_defs selected common working (truth selected common working) ds)
    \<subseteq> set (prune_defs selected common working k ds)"
  using assms
  by (cases selected; cases common; cases working)
    (auto simp: cmps_sound_def prune_defs_def truth_def contradicts_def)

lemma quick_pass_ok:
  assumes "all_here here selected common working"
  shows "hoare (holds co) (quick_pass V selected common working)
    (\<lambda>k s. cmps_sound differs selected common working k \<and> cmps_progress quick_total selected common working 1 k \<and> holds co s)
    failed"
proof -
  note h = assms [unfolded all_here_def]
  have wc: "hoare (holds co) (if working \<noteq> None \<and> common \<noteq> None then quick_cmp V None common working else creturn None)
      (\<lambda>r s. (r = None \<and> (quick_total \<longrightarrow> working = None \<or> common = None) \<or> r = differ_opt differs working common) \<and> holds co s) failed"
    using h by (cases working; cases common) (auto simp: differ_opt_def intro!: hoare_return quick_wc)
  have ws: "hoare (holds co) (if selected \<noteq> None \<and> working \<noteq> None then quick_cmp V selected None working else creturn None)
      (\<lambda>r s. (r = None \<and> (quick_total \<longrightarrow> working = None \<or> selected = None) \<or> r = differ_opt differs working selected) \<and> holds co s) failed"
    using h by (cases working; cases selected) (auto simp: differ_opt_def intro!: hoare_return quick_ws)
  have sc: "hoare (holds co) (if common \<noteq> None \<and> selected \<noteq> None then quick_cmp V selected common None else creturn None)
      (\<lambda>r s. r = differ_opt differs selected common \<and> holds co s) failed"
    using h by (cases selected; cases common) (auto simp: differ_opt_def intro!: hoare_return quick_sc)
  show ?thesis
    unfolding quick_pass_def
    apply (rule hoare_bind [OF wc])
    apply (rule hoare_bind [OF hoare_pure [OF ws]])
    apply (rule hoare_bind [OF hoare_pre [OF hoare_pure [OF hoare_pure [OF sc]]]])
     apply assumption
    apply (rule hoare_return)
    apply (auto simp: cmps_sound_def cmps_progress_def differ_opt_def split: option.splits)
    done
qed

text \<open>What each pass knows afterwards.\<close>

lemma compare_pass_ok:
  assumes here: "all_here here selected common working" and "pass < 4"
    and snd: "cmps_sound differs selected common working k"
    and prog: "cmps_progress quick_total selected common working pass k"
  shows "hoare (holds co) (compare_pass V selected common working pass k co)
    (\<lambda>(k', co') s. cmps_sound differs selected common working k' \<and>
       cmps_progress quick_total selected common working (pass + 1) k' \<and> holds co' s) failed"
proof -
  note h = here [unfolded all_here_def]
  consider "pass = 0" | "pass = 1" | "pass = 2" | "pass = 3" using assms(2) by linarith
  then show ?thesis
  proof cases
    case 1
    show ?thesis
      unfolding compare_pass_def Let_def using 1
      by (simp add: hoare_bind [OF quick_pass_ok [OF here]] hoare_return)
  next
    case 2
    then show ?thesis
      using snd prog unfolding compare_pass_def Let_def
      by (auto intro!: hoare_then [where Q = "\<lambda>_. holds co"] hoare_assert hoare_return simp: cmps_progress_def)
  next
    case 3
    show ?thesis
    proof (cases "working \<noteq> None \<and> selected \<noteq> None \<and> ws_known k = None")
      case True
      then obtain w x where [simp]: "working = Some w" "selected = Some x" by auto
      have full: "hoare (holds co) (compare_pass V selected common working pass k co)
          (\<lambda>(k', co') s. k' = k\<lparr>ws_known := Some (differs w x)\<rparr> \<and> holds co' s) failed"
      proof -
        have eq: "compare_pass V selected common working pass k co =
            cbind (cbind (prepare V (Some x) (Some (temp_name V temp_file_selected)) None None
                     (Some w) (Some (temp_name V temp_file_working)) co)
                   (\<lambda>co'. cbind (file_cmp V (temp_name V temp_file_selected) (temp_name V temp_file_working))
                     (\<lambda>d. creturn (d, co'))))
              (\<lambda>(d, co'). creturn (k\<lparr>ws_known := Some d\<rparr>, co'))"
          using 3 True by (rule_tac ext) (simp add: compare_pass_def Let_def cmd_simps split: prod.split sum.split)
        show ?thesis
          unfolding eq
          by (rule hoare_bind [OF full_ws]) (use h 3 True prog in \<open>auto intro!: hoare_return simp: cmps_progress_def\<close>)
      qed
      show ?thesis
        by (rule hoare_post [OF full])
          (use 3 snd prog in \<open>auto simp: cmps_sound_def cmps_progress_def differ_opt_def\<close>)
    next
      case False
      then show ?thesis
        using 3 snd prog unfolding compare_pass_def Let_def
        by (auto intro!: hoare_return simp: cmps_progress_def)
    qed
  next
    case 4
    show ?thesis
    proof (cases "working \<noteq> None \<and> common \<noteq> None \<and> wc_known k = None")
      case True
      then obtain w c where [simp]: "working = Some w" "common = Some c" by auto
      have full: "hoare (holds co) (compare_pass V selected common working pass k co)
          (\<lambda>(k', co') s. k' = k\<lparr>wc_known := Some (differs w c)\<rparr> \<and> holds co' s) failed"
      proof -
        have eq: "compare_pass V selected common working pass k co =
            cbind (cbind (prepare V None None (Some c) (Some (temp_name V temp_file_common))
                     (Some w) (Some (temp_name V temp_file_working)) co)
                   (\<lambda>co'. cbind (file_cmp V (temp_name V temp_file_common) (temp_name V temp_file_working))
                     (\<lambda>d. creturn (d, co'))))
              (\<lambda>(d, co'). creturn (k\<lparr>wc_known := Some d\<rparr>, co'))"
          using 4 True by (rule_tac ext) (simp add: compare_pass_def Let_def cmd_simps split: prod.split sum.split)
        show ?thesis
          unfolding eq
          by (rule hoare_bind [OF full_wc]) (use h 4 True prog in \<open>auto intro!: hoare_return simp: cmps_progress_def\<close>)
      qed
      show ?thesis
        by (rule hoare_post [OF full])
          (use 4 snd prog in \<open>auto simp: cmps_sound_def cmps_progress_def differ_opt_def\<close>)
    next
      case False
      then show ?thesis
        using 4 snd prog unfolding compare_pass_def Let_def
        by (auto intro!: hoare_return simp: cmps_progress_def)
    qed
  qed
qed

text \<open>
  The loop from any pass on: what is left contains the right rule, and by the fourth pass
  nothing else, so that the assertion in that pass is never reached.
\<close>

lemma merge_loop_ok:
  assumes here: "all_here here selected common working"
    and right: "prune_defs selected common working (truth selected common working)
      (found_defs selected common working) = [d]"
  shows "pass \<le> 4 \<Longrightarrow> cmps_sound differs selected common working k \<Longrightarrow>
    cmps_progress quick_total selected common working pass k \<Longrightarrow> d \<in> set found \<Longrightarrow>
    found = filter P (prune_defs selected common working k (found_defs selected common working)) \<Longrightarrow>
    hoare (holds co) (merge_loop V selected common working pass found k co)
      (\<lambda>(found', co') s. found' = [d] \<and> holds co' s) failed"
proof (induction "4 - pass" arbitrary: pass k found P co)
  case 0
  then have p: "pass = 4" by simp
  have "set found \<subseteq> {d}" "length found \<le> 1"
    using 0(6) prune_complete [of selected common working k] 0(3,4) right p by simp_all
  then have "found = [d]" using 0(5) by (cases found) auto
  then show ?case
    using p by (subst merge_loop.simps) (simp add: hoare_return)
next
  case (Suc n)
  have p: "pass < 4" and n: "n = 4 - (pass + 1)" using Suc.hyps(2) by simp_all
  show ?case
  proof (cases "1 < length found \<or> pass = 0")
    case False
    then have "found = [d]" using Suc.prems(4) by (cases found) auto
    then show ?thesis using False by (subst merge_loop.simps) (simp add: hoare_return)
  next
    case True
    have rec: "hoare (\<lambda>s. cmps_sound differs selected common working k' \<and>
          cmps_progress quick_total selected common working (pass + 1) k' \<and> holds co' s)
        (merge_loop V selected common working (pass + 1) (prune_defs selected common working k' found) k' co')
        (\<lambda>(found', co') s. found' = [d] \<and> holds co' s) failed" for k' co'
    proof (cases "cmps_sound differs selected common working k' \<and>
        cmps_progress quick_total selected common working (pass + 1) k'")
      case False
      then show ?thesis by (blast intro: hoare_false)
    next
      case k': True
      have "d \<in> set (prune_defs selected common working k' found)"
      proof -
        have "d \<in> set (prune_defs selected common working (truth selected common working) found)"
          using right Suc.prems(4) unfolding prune_defs_def by (auto simp: filter_eq_Cons_iff)
        then show ?thesis using prune_sound k' by blast
      qed
      moreover have "prune_defs selected common working k' found =
          filter (\<lambda>x. P x \<and> x \<in> set (prune_defs selected common working k (found_defs selected common working)))
            (prune_defs selected common working k' (found_defs selected common working))"
        unfolding Suc.prems(5) by (simp add: prune_defs_def) (rule filter_cong, simp, auto)
      ultimately have "hoare (holds co')
          (merge_loop V selected common working (pass + 1) (prune_defs selected common working k' found) k' co')
          (\<lambda>(found', co') s. found' = [d] \<and> holds co' s) failed"
        using k' p by (intro Suc.hyps(1) [OF n]) auto
      then show ?thesis using k' by simp
    qed
    have eq: "merge_loop V selected common working pass found k co =
        cbind (compare_pass V selected common working pass k co) (\<lambda>(k', co').
          merge_loop V selected common working (pass + 1) (prune_defs selected common working k' found) k' co')"
      using True p by (subst merge_loop.simps) simp
    show ?thesis
      unfolding eq
    proof (rule hoare_bind [OF compare_pass_ok [OF here p Suc.prems(2,3)]])
      fix r :: "Cmps \<times> 'n MergeCo"
      obtain k' co' where "r = (k', co')" by (cases r)
      then show "hoare ((\<lambda>(k', co') s. cmps_sound differs selected common working k' \<and>
            cmps_progress quick_total selected common working (pass + 1) k' \<and> holds co' s) r)
          (case r of (k', co') \<Rightarrow>
            merge_loop V selected common working (pass + 1) (prune_defs selected common working k' found) k' co')
          (\<lambda>(found', co') s. found' = [d] \<and> holds co' s) failed"
        using rec [of k' co'] by (simp only: prod.case)
    qed
  qed
qed

lemma select_rule_ok:
  assumes here: "all_here here selected common working"
  shows "hoare (holds MergeCo_new) (select_rule V selected common working)
    (\<lambda>(d, co) s. Some (rule_no d) = rule_spec differs selected common working \<and> holds co s) failed"
proof -
  obtain d where right: "prune_defs selected common working (truth selected common working)
        (found_defs selected common working) = [d]"
    and spec: "Some (rule_no d) = rule_spec differs selected common working"
    using prune_truth here unfolding all_here_def by blast
  let ?k = "\<lparr>wc_known = None, ws_known = None, sc_known = None\<rparr>"
  have "d \<in> set (found_defs selected common working)"
    using right unfolding prune_defs_def by (auto simp: filter_eq_Cons_iff)
  moreover have "found_defs selected common working =
      filter (\<lambda>_. True) (prune_defs selected common working ?k (found_defs selected common working))"
    by (simp add: prune_defs_def contradicts_def)
  ultimately have "hoare (holds MergeCo_new)
      (merge_loop V selected common working 0 (found_defs selected common working) ?k MergeCo_new)
      (\<lambda>(found', co') s. found' = [d] \<and> holds co' s) failed"
    by (intro merge_loop_ok [OF here right, where P = "\<lambda>_. True"])
      (simp_all add: cmps_sound_def cmps_progress_def)
  then show ?thesis
    unfolding select_rule_def
    by (rule hoare_bind) (auto intro!: hoare_then [where Q = "\<lambda>_ s. fst a = [d] \<and> holds (snd a) s" for a]
      hoare_assert hoare_return simp: spec split_beta)
qed

end

section \<open>Properties\<close>

text \<open>
  The rules and the default actions fit together: the rule of a triple is one of the
  fourteen, and its default action merges or replaces only when the selected and working
  versions have the file, adds only a file the working version lacks and deletes only
  one it has.
\<close>

lemma default_action_has_operands:
  assumes "rule_spec differs sel com work = Some r"
  shows "1 \<le> r \<and> r \<le> 14 \<and>
    (default_merge_actions ! (r - 1) \<in> {Merge, Replace} \<longrightarrow> sel \<noteq> None \<and> work \<noteq> None) \<and>
    (default_merge_actions ! (r - 1) = Add \<longrightarrow> sel \<noteq> None \<and> work = None) \<and>
    (default_merge_actions ! (r - 1) = Delete \<longrightarrow> work \<noteq> None)"
  using assms by (auto simp: rule_spec_def default_merge_actions_def split: option.splits if_splits)

theorem default_action_has_operands_witness:
  "default_merge_actions ! 9 = Delete \<and> (Some ''w'' :: string option) \<noteq> None"
proof -
  have "rule_spec (\<noteq>) None (Some ''c'') (Some ''w'') = Some 10" by (simp add: rule_spec_def)
  from default_action_has_operands [OF this] show ?thesis by (simp add: default_merge_actions_def)
qed

text \<open>
  The candidate rules never overflow the array \<open>found_defs[5]\<close>, and a triple that
  has a file somewhere has at least one candidate.
\<close>

lemma found_defs_fit:
  "length (found_defs selected common working) \<le> 5 \<and>
   ((selected, common, working) = (None, None, None)) = (found_defs selected common working = [])"
  by (cases selected; cases common; cases working)
    (simp_all add: found_defs_def merge_defaults_def merge_def_def)

end
