(* ===== verification/MergeControl.thy ===== *)
theory MergeControl
  imports MergeRules
begin

text \<open>
  \<open>MergeControl::finish_merge\<close> and \<open>run_merge\<close> of \<open>src/src/merge.cc\<close>: the action a rule
  gives, what withdraws it, the menu in which the user changes it, and carrying it out.
  Messages are entries of two logs, the merge log and the standard output.
\<close>

section \<open>State\<close>

datatype 'm log_entry =
    LogAnnounce "'m option" "'m option" "'m option"
  | LogAction "'m option" "'m option" "'m option" MergeAction nat bool
  | LogCannotAdd "'m option" "'m option" "'m option"
  | LogCannotMerge "'m option" "'m option" "'m option"
  | LogExplain nat
  | LogHelp "char list"
  | LogObsolete string string
  | LogRenamed string string

text \<open>
  \<open>rule_bangs\<close> is \<open>static bool bang_flags[14]\<close> of \<open>finish_merge\<close>; \<open>world\<close> is what the
  virtual functions of the controller work on.
\<close>

record ('w, 'm) MergeState = QueryOstream +
  rule_bangs :: "bool list"
  merge_log :: "'m log_entry list"
  prcsoutput :: "'m log_entry list"
  all_conflicts :: "string list"
  world :: 'w

type_synonym ('w, 'm, 'n) Controller = "(('w, 'm) MergeState, 'm, 'n) MergeVirtual"
type_synonym ('w, 'm, 'a) merge_cmd = "(('w, 'm) MergeState, 'a) cmd"

definition to_log :: "'m log_entry \<Rightarrow> ('w, 'm, unit) merge_cmd" where
  "to_log e = cupd (\<lambda>s. s\<lparr>merge_log := merge_log s @ [e]\<rparr>)"

definition to_output :: "'m log_entry \<Rightarrow> ('w, 'm, unit) merge_cmd" where
  "to_output e = cupd (\<lambda>s. s\<lparr>prcsoutput := prcsoutput s @ [e]\<rparr>)"

section \<open>Logging\<close>

definition skip_output :: "Options \<Rightarrow> MergeAction \<Rightarrow> bool" where
  "skip_output o' action \<longleftrightarrow>
     (action = NoPrompt \<and> \<not> option_really_long_format o') \<or>
     (action = Nothing \<and> (option_force_resolution o' \<or> \<not> option_really_long_format o'))"

definition merge_announce ::
  "Options \<Rightarrow> 'm option \<Rightarrow> 'm option \<Rightarrow> 'm option \<Rightarrow> MergeAction \<Rightarrow> ('w, 'm, unit) merge_cmd" where
  "merge_announce o' selected common working action =
     cthen (to_log (LogAnnounce selected common working))
       (if \<not> skip_output o' action then to_output (LogAnnounce selected common working) else creturn ())"

definition merge_action_os ::
  "'m option \<Rightarrow> 'm option \<Rightarrow> 'm option \<Rightarrow> MergeAction \<Rightarrow> nat \<Rightarrow> bool
     \<Rightarrow> ('m log_entry \<Rightarrow> ('w, 'm, unit) merge_cmd) \<Rightarrow> ('w, 'm, unit) merge_cmd" where
  "merge_action_os selected common working action ruleno conflict os =
     cthen (cassert (ruleno \<noteq> 0)) (os (LogAction selected common working action ruleno conflict))"

definition merge_action ::
  "Options \<Rightarrow> 'm option \<Rightarrow> 'm option \<Rightarrow> 'm option \<Rightarrow> MergeAction \<Rightarrow> nat \<Rightarrow> bool \<Rightarrow> ('w, 'm, unit) merge_cmd" where
  "merge_action o' selected common working action ruleno conflict =
     cthen (merge_action_os selected common working action ruleno conflict to_log)
       (if \<not> skip_output o' action
        then merge_action_os selected common working action ruleno conflict to_output else creturn ())"

section \<open>The action of a rule\<close>

text \<open>The attributes of the working file count, else of the selected, else of the common one.\<close>

definition file_merge_action ::
  "('w, 'm, 'n) Controller \<Rightarrow> 'm option \<Rightarrow> 'm option \<Rightarrow> 'm option \<Rightarrow> nat \<Rightarrow> ('w, 'm, MergeAction) merge_cmd" where
  "file_merge_action V selected common working rule =
     (case working of
        Some w \<Rightarrow> merge_action_by_rule V w rule
      | None \<Rightarrow> (case selected of
          Some x \<Rightarrow> merge_action_by_rule V x rule
        | None \<Rightarrow> (case common of Some c \<Rightarrow> merge_action_by_rule V c rule | None \<Rightarrow> cthrow AssertFailed)))"

definition add_query :: "manip list" where
  "add_query =
     [Force ''Skipping this file'', Report ''Skip this file'', AllowBang ''finish_merge'',
      Opt (option_fail (CHR ''n'')),
      DefOpt (option_of (CHR ''y'') ''Do nothing (as if the merge action were `n')'')]"

text \<open>A file that is there already by name or descriptor is not added.\<close>

definition check_can_add ::
  "('w, 'm, 'n) Controller \<Rightarrow> Options \<Rightarrow> 'm option \<Rightarrow> 'm option \<Rightarrow> 'm option \<Rightarrow> MergeAction
     \<Rightarrow> ('w, 'm, MergeAction \<times> bool) merge_cmd" where
  "check_can_add V o' selected common working action =
     (case (working, selected) of
        (None, Some x) \<Rightarrow>
          cbind (can_add V x) (\<lambda>ok.
            if ok then creturn (action, True)
            else cbind (prcsquery o' add_query) (\<lambda>_.
                 cthen (to_log (LogCannotAdd selected common working))
                 (creturn (if action = Add then Nothing else action, False))))
      | _ \<Rightarrow> creturn (action, False))"

definition all_3way ::
  "('w, 'm, 'n) Controller \<Rightarrow> 'm \<Rightarrow> 'm \<Rightarrow> 'm option \<Rightarrow> ('w, 'm, bool) merge_cmd" where
  "all_3way V working selected common =
     cbind (will_3way V working) (\<lambda>w.
       if \<not> w then creturn False
       else cbind (will_3way V selected) (\<lambda>x.
         if \<not> x then creturn False
         else (case common of None \<Rightarrow> creturn True | Some c \<Rightarrow> will_3way V c)))"

definition check_3way ::
  "('w, 'm, 'n) Controller \<Rightarrow> 'm option \<Rightarrow> 'm option \<Rightarrow> 'm option \<Rightarrow> MergeAction
     \<Rightarrow> ('w, 'm, MergeAction \<times> bool) merge_cmd" where
  "check_3way V selected common working action =
     (case (selected, working) of
        (Some x, Some w) \<Rightarrow>
          cbind (all_3way V w x common) (\<lambda>ok.
            if ok then creturn (action, True)
            else if action = Merge then
              cthen (to_log (LogCannotMerge selected common working)) (creturn (Nothing, False))
            else creturn (action, False))
      | _ \<Rightarrow> creturn (action, False))"

section \<open>The menu\<close>

definition valid_actions :: "bool \<Rightarrow> bool \<Rightarrow> 'm option \<Rightarrow> 'm option \<Rightarrow> string" where
  "valid_actions may_add may_merge selected working =
     (if may_add then ''a'' else []) @ (if working \<noteq> None then ''d'' else []) @ ''n'' @
     (if may_merge then ''m'' else []) @ (if working \<noteq> None \<and> selected \<noteq> None then ''r'' else [])"

definition read_char :: "('z QueryOstream_scheme, char) cmd" where
  "read_char = cbind (cget (\<lambda>s. get_user_char (stdin s)))
     (\<lambda>(c, rest). cthen (cupd (\<lambda>s. s\<lparr>stdin := rest\<rparr>)) (creturn c))"

text \<open>
  The menu loop, with the number of characters it may read as fuel; every turn reads at
  least one. Running out of fuel is a failure of its own, \<open>Aborted\<close>.
\<close>

fun menu ::
  "nat \<Rightarrow> ('w, 'm, 'n) Controller \<Rightarrow> string \<Rightarrow> nat \<Rightarrow> 'm option \<Rightarrow> 'm option \<Rightarrow> 'm option \<Rightarrow> MergeAction
     \<Rightarrow> 'n MergeCo \<Rightarrow> ('w, 'm, MergeAction \<times> 'n MergeCo) merge_cmd" where
  "menu 0 V valid rule selected common working action co = cthrow Aborted"
| "menu (Suc n) V valid rule selected common working action co =
     cbind read_char (\<lambda>c.
       if c = NUL \<or> c = CHR ''q'' then cthrow (Err UserAbort)
       else if c = CHR ''?'' then
         cthen (to_output (LogHelp valid)) (menu n V valid rule selected common working action co)
       else if c = CHR ''h'' then
         cthen (to_output (LogExplain rule)) (menu n V valid rule selected common working action co)
       else if can_view V \<and> c = CHR ''v'' then
         cbind (view V selected common working co)
           (\<lambda>co'. menu n V valid rule selected common working action co')
       else if c = NEWLINE then creturn (action, co)
       else if c = CHR ''!'' then
         cthen (cupd (\<lambda>s. s\<lparr>rule_bangs := (rule_bangs s)[rule := True]\<rparr>)) (creturn (action, co))
       else if c \<in> set valid then
         (case char_action c of Some a \<Rightarrow> creturn (a, co) | None \<Rightarrow> cthrow AssertFailed)
       else menu n V valid rule selected common working action co)"

text \<open>The flag of the rule is read only when the options leave the choice to the user.\<close>

definition ask_action ::
  "('w, 'm, 'n) Controller \<Rightarrow> Options \<Rightarrow> MergeDef \<Rightarrow> string \<Rightarrow> 'm option \<Rightarrow> 'm option \<Rightarrow> 'm option
     \<Rightarrow> MergeAction \<Rightarrow> 'n MergeCo \<Rightarrow> ('w, 'm, MergeAction \<times> 'n MergeCo) merge_cmd" where
  "ask_action V o' d valid selected common working action co =
     (if option_report_actions o' \<or> option_force_resolution o' then creturn (action, co)
      else cbind (cget id) (\<lambda>s.
        cthen (cdefined (rule_no d < length (rule_bangs s)))
        (if rule_bangs s ! rule_no d then creturn (action, co)
         else menu (Suc (length (stdin s))) V valid (rule_no d) selected common working action co)))"

section \<open>Carrying the action out\<close>

definition do_action ::
  "('w, 'm, 'n) Controller \<Rightarrow> Options \<Rightarrow> 'm option \<Rightarrow> 'm option \<Rightarrow> 'm option \<Rightarrow> MergeAction
     \<Rightarrow> 'n MergeCo \<Rightarrow> ('w, 'm, bool) merge_cmd" where
  "do_action V o' selected common working action co =
     (if option_report_actions o' then creturn False
      else (case action of
          Merge \<Rightarrow> mergef V selected common working co
        | Replace \<Rightarrow> cthen (replacef V selected common working co) (creturn False)
        | Add \<Rightarrow> cthen (addf V selected common working co) (creturn False)
        | Delete \<Rightarrow> cthen (deletef V selected common working co) (creturn False)
        | Nothing \<Rightarrow> creturn False
        | NoPrompt \<Rightarrow> cthrow AssertFailed))"

text \<open>\<open>edit_conflict\<close> stands for running the editor \<open>PRCS_CONFLICT_EDITOR\<close> names.\<close>

definition note_conflict ::
  "('w, 'm, 'n) Controller \<Rightarrow> (string \<Rightarrow> ('w, 'm, unit) merge_cmd) \<Rightarrow> 'm option \<Rightarrow> bool \<Rightarrow> ('w, 'm, unit) merge_cmd" where
  "note_conflict V edit_conflict working conflict =
     (if conflict then
        (case working of
           None \<Rightarrow> cthrow Undefined
         | Some w \<Rightarrow> cbind (vname V w) (\<lambda>name.
             cthen (cupd (\<lambda>s. s\<lparr>all_conflicts := all_conflicts s @ [name]\<rparr>)) (edit_conflict name)))
      else creturn ())"

text \<open>
  The message about the action is printed after it was carried out: the three are read again. A file
  that was deleted is still there to be read, its entry is only marked; a keyword is not.
\<close>

definition finish_merge ::
  "('w, 'm, 'n) Controller \<Rightarrow> (string \<Rightarrow> ('w, 'm, unit) merge_cmd) \<Rightarrow> Options
     \<Rightarrow> 'm option \<Rightarrow> 'm option \<Rightarrow> 'm option \<Rightarrow> MergeDef \<Rightarrow> 'n MergeCo \<Rightarrow> ('w, 'm, unit) merge_cmd" where
  "finish_merge V edit_conflict o' selected common working d co =
     cbind (file_merge_action V selected common working (rule_no d)) (\<lambda>action0.
     cthen (merge_announce o' selected common working action0)
     (cbind (check_can_add V o' selected common working action0) (\<lambda>(action1, may_add).
      cbind (check_3way V selected common working action1) (\<lambda>(action2, may_merge).
      cbind (ask_action V o' d (valid_actions may_add may_merge selected working)
               selected common working action2 co) (\<lambda>(action, co').
      cbind (do_action V o' selected common working action co') (\<lambda>conflict.
      cthen (print3 V selected common working)
      (cthen (merge_action o' selected common working action (rule_no d) conflict)
      (cthen (notify V working common selected action)
      (note_conflict V edit_conflict working conflict)))))))))"

definition run_merge ::
  "('w, 'm, 'n) Controller \<Rightarrow> (string \<Rightarrow> ('w, 'm, unit) merge_cmd) \<Rightarrow> Options
     \<Rightarrow> 'm option \<Rightarrow> 'm option \<Rightarrow> 'm option \<Rightarrow> ('w, 'm, unit) merge_cmd" where
  "run_merge V edit_conflict o' selected common working =
     cbind (select_rule V selected common working) (\<lambda>(d, co).
     cbind (file_merge_action V selected common working (rule_no d)) (\<lambda>action.
       if action = NoPrompt then
         cthen (merge_announce o' selected common working NoPrompt)
           (merge_action o' selected common working NoPrompt (rule_no d) False)
       else finish_merge V edit_conflict o' selected common working d co))"

section \<open>What a query and a rule leave alone\<close>

lemma always_prcsquery_log:
  fixes o' :: Options
  shows "always (keeps (\<lambda>s. (world s, merge_log s))) (prcsquery o' ms :: ('w, 'm, char) merge_cmd)"
proof -
  let ?p = "\<lambda>s :: ('w, 'm) MergeState. (world s, merge_log s)"
  have upd: "always (keeps ?p) (cupd h :: ('w, 'm, unit) merge_cmd)" if "\<And>s. ?p (h s) = ?p s" for h
    by (rule kept.always_upd) (use that in \<open>simp add: keeps_def\<close>)
  have opt: "always (keeps ?p) (option_manip p :: ('w, 'm, unit) merge_cmd)" for p
    unfolding option_manip_def
    by (intro kept.always_bind kept.always_then kept.always_get kept.always_defined upd) simp
  have manip: "always (keeps ?p) (manip_cmd m :: ('w, 'm, unit) merge_cmd)" for m
    by (cases m) (auto simp: force_manip_def force_manip_different_def report_manip_def help_manip_def
      bang_def default_manip_def intro!: upd opt kept.always_then)
  have query: "always (keeps ?p) (query_manip o' :: ('w, 'm, unit) merge_cmd)"
    unfolding query_manip_def Let_def
    by (intro kept.always_bind kept.always_then kept.always_get kept.always_defined upd kept.always_if)
      (auto simp: query_reset_def intro!: upd split: prod.split)
  show ?thesis
    unfolding prcsquery_def result_def
    by (intro kept.always_then kept.always_foreach kept.always_bind kept.always_get manip query)
      (auto simp: lift_error_def intro: kept.always_intros split: sum.split)
qed

lemma always_prcsquery:
  fixes o' :: Options
  shows "always (keeps world) (prcsquery o' ms :: ('w, 'm, char) merge_cmd)"
  using always_prcsquery_log [of o' ms] by (auto simp: always_def keeps_def)

text \<open>Under \<open>-n\<close> nothing is carried out: only the comparisons and the notice touch the world.\<close>

lemma always_logs:
  "always (keeps world) (to_log e)" "always (keeps world) (to_output e)"
  by (simp_all add: always_def keeps_def to_log_def to_output_def cmd_simps)

lemma always_merge_announce: "always (keeps world) (merge_announce o' a b c act)"
  unfolding merge_announce_def by (intro kept.always_intros always_logs)

lemma always_merge_action: "always (keeps world) (merge_action o' a b c act r f)"
  unfolding merge_action_def merge_action_os_def by (intro kept.always_intros always_logs)

context step_rel
begin

lemma always_select_rule:
  assumes quick: "\<And>a b c. always R (quick_cmp V a b c)"
    and prepare: "\<And>a n b m c l co. always R (prepare V a n b m c l co)"
    and cmp: "\<And>n m. always R (file_cmp V n m)"
  shows "always R (select_rule V sel com work)"
proof -
  have quick_pass: "always R (quick_pass V sel com work)"
    unfolding quick_pass_def by (intro always_intros quick)
  have pass: "always R (compare_pass V sel com work p k co)" for p k co
    unfolding compare_pass_def Let_def by (intro always_intros quick_pass prepare cmp)
  have loop: "always R (merge_loop V sel com work p f k co)" for p f k co
  proof (induction "5 - p" arbitrary: p f k co)
    case 0
    then have "4 \<le> p" by simp
    then show ?case
      by (subst merge_loop.simps) (auto intro!: always_intros pass split: prod.split)
  next
    case (Suc n)
    have "always R (merge_loop V sel com work (p + 1) g k' co')" for g k' co'
      by (rule Suc.hyps(1)) (use Suc.hyps(2) in simp)
    then show ?case
      by (subst merge_loop.simps) (auto intro!: always_intros pass split: prod.split)
  qed
  show ?thesis
    unfolding select_rule_def by (auto intro!: always_intros loop split: prod.split)
qed

end

lemma always_file_merge_action:
  assumes "\<And>m r. always R (merge_action_by_rule V m r)" and "\<And>f. always R (cthrow f :: ('w, 'm, MergeAction) merge_cmd)"
  shows "always R (file_merge_action V selected common working r)"
  unfolding file_merge_action_def using assms by (auto split: option.split)

lemma report_keeps_world:
  assumes o': "option_report_actions o'"
    and act: "\<And>m r. always (keeps world) (merge_action_by_rule V m r)"
    and quick: "\<And>a b c. always (keeps world) (quick_cmp V a b c)"
    and prep: "\<And>a n b m c l co. always (keeps world) (prepare V a n b m c l co)"
    and cmp: "\<And>n m. always (keeps world) (file_cmp V n m)"
    and add: "\<And>m. always (keeps world) (can_add V m)"
    and way: "\<And>m. always (keeps world) (will_3way V m)"
    and printed: "\<And>a b c. always (keeps world) (print3 V a b c)"
    and notice: "\<And>a b c x. always (keeps world) (notify V a b c x)"
  shows "always (keeps world) (run_merge V edit o' selected common working)"
proof -
  have fa: "always (keeps world) (file_merge_action V selected common working r)" for r
    by (rule always_file_merge_action [OF act kept.always_throw])
  have ca: "always (keeps world) (check_can_add V o' selected common working a)" for a
    unfolding check_can_add_def
    by (auto intro!: kept.always_intros add always_prcsquery always_logs split: option.split)
  have c3: "always (keeps world) (check_3way V selected common working a)" for a
    unfolding check_3way_def all_3way_def
    by (auto intro!: kept.always_intros way always_logs split: option.split)
  have ask: "always (keeps world) (ask_action V o' d v selected common working a co)" for d v a co
    using o' by (simp add: ask_action_def kept.always_return)
  have act: "always (keeps world) (do_action V o' selected common working a co)" for a co
    using o' by (simp add: do_action_def kept.always_return)
  have nc: "always (keeps world) (note_conflict V edit working False)"
    by (simp add: note_conflict_def kept.always_return)
  have do: "do_action V o' selected common working a co = creturn False" for a co
    using o' by (simp add: do_action_def)
  have fin: "always (keeps world) (finish_merge V edit o' selected common working d co)" for d co
  proof -
    have eq: "cbind (do_action V o' selected common working a co') f = f False" for a co' f
      unfolding do by (rule ext) (simp add: cmd_simps)
    show ?thesis
      unfolding finish_merge_def eq split_beta
      by (intro kept.always_bind kept.always_then fa ca c3 ask printed notice nc always_merge_announce always_merge_action)
  qed
  show ?thesis
    unfolding run_merge_def split_beta
    by (intro kept.always_bind kept.always_then kept.always_if kept.always_select_rule fa fin quick prep cmp
      always_merge_announce always_merge_action)
qed

section \<open>The menu ends and chooses a valid action\<close>

definition shrinks :: "('w, 'm) MergeState \<Rightarrow> ('w, 'm) MergeState \<Rightarrow> bool" where
  "shrinks s t \<longleftrightarrow> length (stdin t) \<le> length (stdin s)"

interpretation shrinking: step_rel shrinks
  by unfold_locales (auto simp: shrinks_def)

lemma read_char_some:
  "stdin s \<noteq> [] \<Longrightarrow>
     read_char s = (Inr (fst (get_user_char (stdin s))), s\<lparr>stdin := snd (get_user_char (stdin s))\<rparr>)"
  by (simp add: read_char_def cmd_simps split_beta)

lemma read_char_none: "stdin s = [] \<Longrightarrow> read_char s = (Inr NUL, s)"
  by (simp add: read_char_def cmd_simps get_user_char_def)

lemma char_action_valid:
  "c \<in> set (valid_actions a m x w) \<Longrightarrow> \<exists>act. char_action c = Some act \<and> act \<noteq> NoPrompt \<and> action_char act = c"
  by (auto simp: valid_actions_def char_action_def split: if_splits)

text \<open>\<open>menu_result\<close>: the outcome is an abort by the user, an error of the viewer, or an action.\<close>

definition menu_result :: "string \<Rightarrow> MergeAction \<Rightarrow> failure + MergeAction \<times> 'n MergeCo \<Rightarrow> bool" where
  "menu_result valid action r =
     (case r of Inl f \<Rightarrow> \<exists>t. f = Err t | Inr (a, co) \<Rightarrow> a = action \<or> action_char a \<in> set valid)"

lemma menu_ends:
  assumes view: "\<And>co s. can_view V \<Longrightarrow> (\<exists>t. fst (view V x c w co s) = Inl (Err t)) \<or> (\<exists>co'. fst (view V x c w co s) = Inr co')"
    and shrink: "\<And>co. can_view V \<Longrightarrow> always shrinks (view V x c w co)"
    and valid: "valid = valid_actions may_add may_merge x' w'"
  shows "length (stdin s) < n \<Longrightarrow> menu_result valid action (fst (menu n V valid rule x c w action co s))"
proof (induction n arbitrary: s co)
  case 0
  then show ?case by simp
next
  case (Suc n)
  show ?case
  proof (cases "stdin s = []")
    case True
    then show ?thesis by (simp add: cmd_simps read_char_none menu_result_def)
  next
    case False
    let ?s = "s\<lparr>stdin := snd (get_user_char (stdin s))\<rparr>" and ?c = "fst (get_user_char (stdin s))"
    have len: "length (stdin ?s) < n" using Suc.prems get_user_char_shorter [OF False] by simp
    have IH: "menu_result valid action (fst (menu n V valid rule x c w action co' t))"
      if "length (stdin t) \<le> length (stdin ?s)" for t co'
      using Suc.IH [of t co'] len that by simp
    have out: "to_output e ?s = (Inr (), ?s\<lparr>prcsoutput := prcsoutput ?s @ [e]\<rparr>)" for e
      by (simp add: to_output_def cmd_simps)
    have v: "menu_result valid action (fst (cbind (view V x c w co)
        (\<lambda>co'. menu n V valid rule x c w action co') ?s))" if "can_view V"
    proof (cases "view V x c w co ?s")
      case (Pair r t)
      then have "length (stdin t) \<le> length (stdin ?s)"
        using shrink [OF that, of co] by (auto simp: always_def shrinks_def dest: spec [of _ ?s])
      then show ?thesis
        using IH view [OF that, of co ?s] Pair by (auto simp: cmd_simps menu_result_def)
    qed
    have pick: "menu_result valid action (fst ((case char_action ?c of Some a \<Rightarrow> creturn (a, co) | None \<Rightarrow> cthrow AssertFailed) ?s))"
      if c: "?c \<in> set valid"
    proof -
      obtain act where "char_action ?c = Some act" "action_char act = ?c"
        using char_action_valid c unfolding valid by metis
      then show ?thesis using c by (simp add: cmd_simps menu_result_def)
    qed
    show ?thesis
      apply (simp only: menu.simps cbind_apply [of read_char] read_char_some [OF False] prod.case sum.case)
      using v pick
      by (auto simp: cmd_simps out menu_result_def [of _ _ "Inl (Err _)"] menu_result_def [of _ _ "Inr (_, _)"]
        intro!: IH)
  qed
qed

end
