(* ===== verification/KeyPop.thy ===== *)
theory KeyPop
  imports MergeControl Containers
begin

text \<open>
  Merging the populate-ignore names and the keywords of a project: the controllers
  \<open>KeyPopMergeControl\<close>, \<open>PopulateMergeControl\<close> and \<open>KeywordMergeControl\<close> and the function
  \<open>merge_project_table\<close> of \<open>src/src/merge.cc\<close>, and the operations on the project's tables
  of \<open>src/src/projdesc.cc\<close>. A \<open>StringPair*\<close> is the pair it points to, a node of a hash table;
  removing a key from the table frees the node, and the pair can no longer be read.
\<close>

section \<open>The tables of the project\<close>

type_synonym StringTable = "(string, string) OrderedTable"

record KeyPopTables =
  alter_popkey :: bool
  populate_ignore :: StringTable
  project_keywords :: "(string, string) HashTable"
  project_keywords_extra :: StringTable

abbreviation st_lookup :: "StringTable \<Rightarrow> string \<Rightarrow> string option" where
  "st_lookup \<equiv> ot_lookup hash_string (=)"

text \<open>\<open>table()->lookup_pair(k)\<close>.\<close>

definition st_pair :: "StringTable \<Rightarrow> string \<Rightarrow> (string \<times> string) option" where
  "st_pair t k = ht_lookup_pair hash_string (=) (ot_table t) k"

text \<open>An operation on a table that may dereference null.\<close>

definition on_table ::
  "'t option \<Rightarrow> ('t \<Rightarrow> ('s, unit) cmd) \<Rightarrow> ('s, unit) cmd" where
  "on_table r k = (case r of None \<Rightarrow> cthrow Undefined | Some t \<Rightarrow> k t)"

definition set_alter_popkey :: "(KeyPopTables, unit) cmd" where
  "set_alter_popkey = cupd (\<lambda>p. p\<lparr>alter_popkey := True\<rparr>)"

definition insert_keyword :: "string \<Rightarrow> string \<Rightarrow> (KeyPopTables, unit) cmd" where
  "insert_keyword key v =
     cthen (cupd (\<lambda>p. p\<lparr>project_keywords := ht_insert hash_string (=) (project_keywords p) key v\<rparr>))
     (cbind (cget id) (\<lambda>p. on_table (ot_insert hash_string (=) (project_keywords_extra p) key v)
        (\<lambda>t. cupd (\<lambda>p. p\<lparr>project_keywords_extra := t\<rparr>))))"

definition add_keyword :: "string \<Rightarrow> string \<Rightarrow> (KeyPopTables, unit) cmd" where
  "add_keyword key v =
     cthen set_alter_popkey
     (cbind (cget id) (\<lambda>p. cthen (cassert (st_lookup (project_keywords_extra p) key = None))
        (insert_keyword key v)))"

definition rem_keyword :: "string \<Rightarrow> (KeyPopTables, unit) cmd" where
  "rem_keyword key =
     cthen set_alter_popkey
     (cbind (cget id) (\<lambda>p. cthen (cassert (st_lookup (project_keywords_extra p) key \<noteq> None))
        (cthen (on_table (ht_remove hash_string (=) (project_keywords p) key)
                  (\<lambda>t. cupd (\<lambda>p. p\<lparr>project_keywords := t\<rparr>)))
          (on_table (ot_remove hash_string (=) (project_keywords_extra p) key)
                  (\<lambda>t. cupd (\<lambda>p. p\<lparr>project_keywords_extra := t\<rparr>))))))"

definition set_keyword :: "string \<Rightarrow> string \<Rightarrow> (KeyPopTables, unit) cmd" where
  "set_keyword key v =
     cthen set_alter_popkey
     (cbind (cget id) (\<lambda>p. cthen (cassert (st_lookup (project_keywords_extra p) key \<noteq> None))
        (insert_keyword key v)))"

definition add_populate_ignore :: "string \<Rightarrow> (KeyPopTables, unit) cmd" where
  "add_populate_ignore key =
     cthen set_alter_popkey
     (cbind (cget id) (\<lambda>p. cthen (cassert (st_lookup (populate_ignore p) key = None))
        (on_table (ot_insert hash_string (=) (populate_ignore p) key key)
          (\<lambda>t. cupd (\<lambda>p. p\<lparr>populate_ignore := t\<rparr>)))))"

definition rem_populate_ignore :: "string \<Rightarrow> (KeyPopTables, unit) cmd" where
  "rem_populate_ignore key =
     cthen set_alter_popkey
     (cbind (cget id) (\<lambda>p. cthen (cassert (st_lookup (populate_ignore p) key \<noteq> None))
        (on_table (ot_remove hash_string (=) (populate_ignore p) key)
          (\<lambda>t. cupd (\<lambda>p. p\<lparr>populate_ignore := t\<rparr>)))))"

section \<open>The controllers\<close>

type_synonym StringPair = "string \<times> string"
type_synonym 'a kp_cmd = "(KeyPopTables, StringPair, 'a) merge_cmd"
type_synonym KPControl = "(KeyPopTables, StringPair, string) Controller"

text \<open>A method of the project, run on the world of the merge.\<close>

definition on_project :: "('w, 'a) cmd \<Rightarrow> ('w, 'm, 'a) merge_cmd" where
  "on_project m = (\<lambda>s. case m (world s) of (r, w) \<Rightarrow> (r, s\<lparr>world := w\<rparr>))"

definition kp_quick_cmp :: "StringPair option \<Rightarrow> StringPair option \<Rightarrow> StringPair option \<Rightarrow> bool" where
  "kp_quick_cmp sel com work =
     ((case (sel, com) of (Some a, Some b) \<Rightarrow> snd a \<noteq> snd b | _ \<Rightarrow> False) \<or>
      (case (sel, work) of (Some a, Some b) \<Rightarrow> snd a \<noteq> snd b | _ \<Rightarrow> False) \<or>
      (case (com, work) of (Some a, Some b) \<Rightarrow> snd a \<noteq> snd b | _ \<Rightarrow> False))"

text \<open>
  \<open>__omanip_popkey\<close> prints the name of the selected pair, else of the working one, else of the common
  one: the pairs reach it as \<open>FileTuple(sel, com, work)\<close>, though the parameters of a tuple are \<open>work\<close>,
  \<open>com\<close>, \<open>sel\<close>. Only the working table changes in a merge; the working pair is there to be read as long
  as its key is in that table.
\<close>

definition kp_print3 ::
  "(KeyPopTables \<Rightarrow> StringTable) \<Rightarrow> StringPair option \<Rightarrow> StringPair option \<Rightarrow> StringPair option \<Rightarrow> unit kp_cmd" where
  "kp_print3 tab sel com work =
     (case sel of
        Some _ \<Rightarrow> creturn ()
      | None \<Rightarrow> (case work of
          Some p \<Rightarrow> cbind (cget (\<lambda>s. st_pair (tab (world s)) (fst p))) (\<lambda>node. cdefined (node \<noteq> None))
        | None \<Rightarrow> cdefined (com \<noteq> None)))"

definition KeyPopMergeControl ::
  "(KeyPopTables \<Rightarrow> StringTable) \<Rightarrow> (StringPair option \<Rightarrow> StringPair option \<Rightarrow> unit kp_cmd) \<Rightarrow> (StringPair option \<Rightarrow> unit kp_cmd)
     \<Rightarrow> (StringPair option \<Rightarrow> unit kp_cmd) \<Rightarrow> KPControl" where
  "KeyPopMergeControl tab add del rep =
     \<lparr>merge_action_by_rule = (\<lambda>_ rule. cthen (cdefined (1 \<le> rule \<and> rule \<le> length default_merge_actions))
        (creturn (default_merge_actions ! (rule - 1)))),
      quick_cmp = (\<lambda>sel com work. creturn (Some (kp_quick_cmp sel com work))),
      prepare = (\<lambda>_ _ _ _ _ _ _. cthrow Aborted),
      file_cmp = (\<lambda>_ _. cthrow Aborted),
      temp_name = (\<lambda>t. case t of temp_file_working \<Rightarrow> ''work'' | temp_file_common \<Rightarrow> ''com''
                          | temp_file_selected \<Rightarrow> ''sel''),
      can_add = (\<lambda>_. creturn True),
      will_3way = (\<lambda>_. creturn False),
      can_view = False,
      view = (\<lambda>_ _ _ _. cthrow Aborted),
      mergef = (\<lambda>_ _ _ _. cthrow Aborted),
      addf = (\<lambda>sel com work _. add sel work),
      deletef = (\<lambda>sel com work _. del work),
      replacef = (\<lambda>sel com work _. rep sel),
      print3 = kp_print3 tab,
      notify = (\<lambda>_ _ _ _. creturn ()),
      vname = (\<lambda>p. creturn (fst p))\<rparr>"

definition PopulateMergeControl :: KPControl where
  "PopulateMergeControl = KeyPopMergeControl populate_ignore
     (\<lambda>sel work. case sel of None \<Rightarrow> cthrow AssertFailed | Some p \<Rightarrow> on_project (add_populate_ignore (fst p)))
     (\<lambda>work. case work of None \<Rightarrow> cthrow AssertFailed | Some p \<Rightarrow> on_project (rem_populate_ignore (fst p)))
     (\<lambda>sel. cthrow Aborted)"

definition KeywordMergeControl :: KPControl where
  "KeywordMergeControl = KeyPopMergeControl project_keywords_extra
     (\<lambda>sel work. case sel of None \<Rightarrow> cthrow AssertFailed | Some p \<Rightarrow> on_project (add_keyword (fst p) (snd p)))
     (\<lambda>work. case work of None \<Rightarrow> cthrow AssertFailed | Some p \<Rightarrow> on_project (rem_keyword (fst p)))
     (\<lambda>sel. case sel of None \<Rightarrow> cthrow AssertFailed | Some p \<Rightarrow> on_project (set_keyword (fst p) (snd p)))"

section \<open>Merging a table\<close>

text \<open>The merge of a key, on what the three tables say of it at that moment.\<close>

definition merge_key ::
  "KPControl \<Rightarrow> (string \<Rightarrow> unit kp_cmd) \<Rightarrow> Options \<Rightarrow> StringTable option \<Rightarrow> StringTable option
     \<Rightarrow> (KeyPopTables \<Rightarrow> StringTable option) \<Rightarrow> string \<Rightarrow> unit kp_cmd" where
  "merge_key V edit o' sel com work_of k =
     cbind (cget (\<lambda>s. work_of (world s))) (\<lambda>work.
       case (sel, com, work) of
         (Some ts, Some tc, Some tw) \<Rightarrow> run_merge V edit o' (st_pair ts k) (st_pair tc k) (st_pair tw k)
       | _ \<Rightarrow> cthrow Undefined)"

definition bound_in :: "StringTable option \<Rightarrow> string \<Rightarrow> bool" where
  "bound_in t k = (case t of None \<Rightarrow> False | Some t \<Rightarrow> st_lookup t k \<noteq> None)"

text \<open>One of the three loops: the keys of \<open>tables[i]\<close> that no earlier table has.\<close>

definition merge_keys_of ::
  "KPControl \<Rightarrow> (string \<Rightarrow> unit kp_cmd) \<Rightarrow> Options \<Rightarrow> StringTable option \<Rightarrow> StringTable option
     \<Rightarrow> (KeyPopTables \<Rightarrow> StringTable option) \<Rightarrow> StringTable option \<Rightarrow> StringTable option list \<Rightarrow> unit kp_cmd" where
  "merge_keys_of V edit o' sel com work_of tab earlier =
     (case tab of
        None \<Rightarrow> creturn ()
      | Some t \<Rightarrow> cforeach (ht_items (ot_table t)) (\<lambda>p.
          if \<exists>e \<in> set earlier. bound_in e (fst p) then creturn ()
          else merge_key V edit o' sel com work_of (fst p)))"

definition merge_project_table ::
  "KPControl \<Rightarrow> (string \<Rightarrow> unit kp_cmd) \<Rightarrow> Options \<Rightarrow> StringTable option \<Rightarrow> StringTable option
     \<Rightarrow> (KeyPopTables \<Rightarrow> StringTable option) \<Rightarrow> unit kp_cmd" where
  "merge_project_table V edit o' sel com work_of =
     cthen (merge_keys_of V edit o' sel com work_of sel [])
     (cthen (merge_keys_of V edit o' sel com work_of com [sel])
     (cbind (cget (\<lambda>s. work_of (world s))) (\<lambda>work.
        merge_keys_of V edit o' sel com work_of work [com, sel])))"

definition merge_projects ::
  "(string \<Rightarrow> unit kp_cmd) \<Rightarrow> Options \<Rightarrow> KeyPopTables \<Rightarrow> KeyPopTables \<Rightarrow> unit kp_cmd" where
  "merge_projects edit o' sel com =
     cthen (merge_project_table PopulateMergeControl edit o'
              (Some (populate_ignore sel)) (Some (populate_ignore com)) (\<lambda>w. Some (populate_ignore w)))
           (merge_project_table KeywordMergeControl edit o'
              (Some (project_keywords_extra sel)) (Some (project_keywords_extra com))
              (\<lambda>w. Some (project_keywords_extra w)))"

section \<open>The comparison laws hold\<close>

definition kp_differs :: "StringPair \<Rightarrow> StringPair \<Rightarrow> bool" where
  "kp_differs a b \<longleftrightarrow> snd a \<noteq> snd b"

lemma kp_control_simps [simp]:
  "quick_cmp (KeyPopMergeControl t a d r) = (\<lambda>sel com work. creturn (Some (kp_quick_cmp sel com work)))"
  "merge_action_by_rule (KeyPopMergeControl t a d r) = (\<lambda>_ rule.
     cthen (cdefined (1 \<le> rule \<and> rule \<le> length default_merge_actions))
       (creturn (default_merge_actions ! (rule - 1))))"
  "can_add (KeyPopMergeControl t a d r) = (\<lambda>_. creturn True)"
  "will_3way (KeyPopMergeControl t a d r) = (\<lambda>_. creturn False)"
  "addf (KeyPopMergeControl t a d r) = (\<lambda>sel com work _. a sel work)"
  "deletef (KeyPopMergeControl t a d r) = (\<lambda>sel com work _. d work)"
  "replacef (KeyPopMergeControl t a d r) = (\<lambda>sel com work _. r sel)"
  "print3 (KeyPopMergeControl t a d r) = kp_print3 t"
  "notify (KeyPopMergeControl t a d r) = (\<lambda>_ _ _ _. creturn ())"
  by (simp_all add: KeyPopMergeControl_def)

interpretation kp: comparisons "KeyPopMergeControl tab add del rep" kp_differs "\<lambda>_ s. s = s0" "\<lambda>_. False"
  "\<lambda>_. True" True
  for tab add del rep s0
  by unfold_locales (auto simp: kp_differs_def kp_quick_cmp_def intro!: hoare_return)

lemma kp_select:
  assumes "sel \<noteq> None \<or> com \<noteq> None \<or> work \<noteq> None"
  shows "\<exists>d co. select_rule (KeyPopMergeControl tab add del rep) sel com work s = (Inr (d, co), s) \<and>
    Some (rule_no d) = rule_spec kp_differs sel com work"
proof -
  have "all_here (\<lambda>_. True) sel com work" using assms by (simp add: all_here_def pred_option_def)
  note h = kp.select_rule_ok [OF this, of s tab add del rep]
  obtain r s' where r: "select_rule (KeyPopMergeControl tab add del rep) sel com work s = (r, s')"
    by (cases "select_rule (KeyPopMergeControl tab add del rep) sel com work s")
  show ?thesis
  proof (cases r)
    case (Inl f)
    then show ?thesis using hoare_errD [OF h refl] r by blast
  next
    case (Inr dc)
    then show ?thesis using hoareD [OF h refl] r by (cases dc) fastforce
  qed
qed

lemma rule_spec_range: "rule_spec differs sel com work = Some r \<Longrightarrow> 1 \<le> r \<and> r \<le> 14"
  by (auto simp: rule_spec_def split: option.splits if_splits)

lemma rule_spec_operands:
  "rule_spec differs sel com work = Some r \<Longrightarrow>
     (default_merge_actions ! (r - 1) = Merge \<longrightarrow> sel \<noteq> None \<and> work \<noteq> None) \<and>
     (default_merge_actions ! (r - 1) = Replace \<longrightarrow> sel \<noteq> None \<and> work \<noteq> None) \<and>
     (default_merge_actions ! (r - 1) = Add \<longrightarrow> sel \<noteq> None \<and> work = None) \<and>
     (default_merge_actions ! (r - 1) = Delete \<longrightarrow> work \<noteq> None)"
  by (auto simp: rule_spec_def default_merge_actions_def split: option.splits if_splits)

text \<open>What \<open>-f\<close> does with a key: the default action, with nothing in place of a merge.\<close>

definition kp_action :: "StringPair option \<Rightarrow> StringPair option \<Rightarrow> StringPair option \<Rightarrow> MergeAction" where
  "kp_action sel com work =
     (case rule_spec kp_differs sel com work of
        None \<Rightarrow> NoPrompt
      | Some r \<Rightarrow> (case default_merge_actions ! (r - 1) of Merge \<Rightarrow> Nothing | a \<Rightarrow> a))"

definition kp_do ::
  "(StringPair option \<Rightarrow> StringPair option \<Rightarrow> unit kp_cmd) \<Rightarrow> (StringPair option \<Rightarrow> unit kp_cmd)
     \<Rightarrow> (StringPair option \<Rightarrow> unit kp_cmd) \<Rightarrow> StringPair option \<Rightarrow> StringPair option \<Rightarrow> MergeAction \<Rightarrow> unit kp_cmd" where
  "kp_do add del rep sel work a =
     (case a of Add \<Rightarrow> add sel work | Delete \<Rightarrow> del work | Replace \<Rightarrow> rep sel | _ \<Rightarrow> creturn ())"

lemma to_log_world: "to_log e s = (Inr (), s\<lparr>merge_log := merge_log s @ [e]\<rparr>)"
  "to_output e s = (Inr (), s\<lparr>prcsoutput := prcsoutput s @ [e]\<rparr>)"
  by (simp_all add: to_log_def to_output_def cmd_simps)

lemma merge_announce_world:
  "\<exists>s'. merge_announce o' a b c act s = (Inr (), s') \<and> world s' = world s"
  by (simp add: merge_announce_def cmd_simps to_log_world)

lemma merge_action_world:
  "r \<noteq> 0 \<Longrightarrow> \<exists>s'. merge_action o' a b c act r f s = (Inr (), s') \<and> world s' = world s"
  by (simp add: merge_action_def merge_action_os_def cmd_simps to_log_world)

lemma kp_finish_merge:
  assumes o': "option_force_resolution o'" "\<not> option_report_actions o'"
    and spec: "rule_spec kp_differs sel com work = Some (rule_no d)"
    and act: "default_merge_actions ! (rule_no d - 1) \<noteq> NoPrompt"
    and do: "\<And>s2. world s2 = world s \<Longrightarrow>
      \<exists>s3. kp_do add del rep sel work (kp_action sel com work) s2 = (Inr (), s3) \<and> world s3 = w"
    and pr: "\<And>s3. world s3 = w \<Longrightarrow> kp_print3 tab sel com work s3 = (r, s3)"
  shows "\<exists>s'. finish_merge (KeyPopMergeControl tab add del rep) edit o' sel com work d co s = (r, s') \<and> world s' = w"
proof -
  let ?V = "KeyPopMergeControl tab add del rep"
  define a where "a = default_merge_actions ! (rule_no d - 1)"
  have rule: "1 \<le> rule_no d" "rule_no d \<le> 14" using rule_spec_range [OF spec] by simp_all
  note ops = rule_spec_operands [OF spec, folded a_def]
  have some: "sel \<noteq> None \<or> com \<noteq> None \<or> work \<noteq> None"
    using spec by (cases sel; cases com; cases work) (simp_all add: rule_spec_def)
  have fa: "file_merge_action ?V sel com work (rule_no d) t = (Inr a, t)" for t
    using rule some by (auto simp: a_def file_merge_action_def cmd_simps default_merge_actions_def split: option.split)
  obtain s1 where s1: "merge_announce o' sel com work a s = (Inr (), s1)" "world s1 = world s"
    using merge_announce_world by blast
  define m where "m = (work = None \<and> sel \<noteq> None)"
  have ca: "check_can_add ?V o' sel com work a t = (Inr (a, m), t)" for t
    by (auto simp: check_can_add_def m_def cmd_simps split: option.split)
  have kpa: "kp_action sel com work = (if a = Merge then Nothing else a)"
    using spec by (simp add: kp_action_def a_def split: MergeAction.split)
  obtain s2 where s2: "check_3way ?V sel com work a s1 = (Inr (kp_action sel com work, False), s2)"
    "world s2 = world s1"
  proof (cases "sel \<noteq> None \<and> work \<noteq> None")
    case True
    then obtain x w where xw: "sel = Some x" "work = Some w" by blast
    show thesis
    proof (cases "a = Merge")
      case True
      then show thesis
        using that [of "s1\<lparr>merge_log := merge_log s1 @ [LogCannotMerge sel com work]\<rparr>"] xw
        by (simp add: check_3way_def all_3way_def cmd_simps kpa [unfolded xw] to_log_world)
    next
      case False
      then show thesis
        using that [of s1] xw by (simp add: check_3way_def all_3way_def cmd_simps kpa [unfolded xw])
    qed
  next
    case False
    then have "a \<noteq> Merge" using ops by blast
    then have "check_3way ?V sel com work a s1 = (Inr (kp_action sel com work, False), s1)"
      using False kpa by (cases sel; cases work) (simp_all add: check_3way_def cmd_simps)
    then show thesis using that by simp
  qed
  let ?k = "kp_action sel com work"
  have ask: "ask_action ?V o' d v sel com work ?k co t = (Inr (?k, co), t)" for v t
    using o' by (simp add: ask_action_def cmd_simps)
  have k: "?k \<noteq> NoPrompt" "?k \<noteq> Merge" using act kpa by (auto simp: a_def)
  obtain s3 where s3: "kp_do add del rep sel work ?k s2 = (Inr (), s3)" "world s3 = w"
    using do s1(2) s2(2) by metis
  have "do_action ?V o' sel com work ?k co s2 = (Inr False, s3)"
    using s3(1) o' k by (cases ?k) (auto simp: do_action_def kp_do_def cmd_simps)
  moreover obtain s4 where "merge_action o' sel com work ?k (rule_no d) False s3 = (Inr (), s4)" "world s4 = w"
    using merge_action_world rule s3(2) by (metis not_one_le_zero)
  moreover have "kp_print3 tab sel com work s3 = (r, s3)" using pr s3(2) .
  ultimately show ?thesis
    unfolding finish_merge_def
    by (cases r) (simp_all add: cmd_simps fa s1(1) ca s2(1) ask note_conflict_def s3(2))
qed

lemma kp_run_merge:
  assumes o': "option_force_resolution o'" "\<not> option_report_actions o'"
    and some: "sel \<noteq> None \<or> com \<noteq> None \<or> work \<noteq> None"
    and do: "\<And>s2. world s2 = world s \<Longrightarrow>
      \<exists>s3. kp_do add del rep sel work (kp_action sel com work) s2 = (Inr (), s3) \<and> world s3 = w"
    and pr: "\<And>s3. world s3 = w \<Longrightarrow> kp_print3 tab sel com work s3 = (r, s3)"
    and kept: "kp_action sel com work = NoPrompt \<Longrightarrow> r = Inr ()"
  shows "\<exists>s'. run_merge (KeyPopMergeControl tab add del rep) edit o' sel com work s = (r, s') \<and> world s' = w"
proof -
  let ?V = "KeyPopMergeControl tab add del rep"
  obtain d co where sel: "select_rule ?V sel com work s = (Inr (d, co), s)"
    and spec: "rule_spec kp_differs sel com work = Some (rule_no d)"
    using kp_select [OF some] by metis
  have rule: "1 \<le> rule_no d" "rule_no d \<le> 14" using rule_spec_range [OF spec] by simp_all
  let ?a = "default_merge_actions ! (rule_no d - 1)"
  have fa: "file_merge_action ?V sel com work (rule_no d) t = (Inr ?a, t)" for t
    using rule some by (auto simp: file_merge_action_def cmd_simps default_merge_actions_def split: option.split)
  show ?thesis
  proof (cases "?a = NoPrompt")
    case True
    obtain s1 where s1: "merge_announce o' sel com work NoPrompt s = (Inr (), s1)" "world s1 = world s"
      using merge_announce_world by blast
    obtain s2 where s2: "merge_action o' sel com work NoPrompt (rule_no d) False s1 = (Inr (), s2)" "world s2 = world s1"
      using merge_action_world rule by (metis not_one_le_zero)
    have none: "kp_action sel com work = NoPrompt" using spec True by (simp add: kp_action_def)
    then have "world s2 = w" using do [of s2] s1(2) s2(2) by (auto simp: kp_do_def cmd_simps)
    then show ?thesis
      using True kept [OF none] by (simp add: run_merge_def cmd_simps sel fa s1(1) s2(1))
  next
    case False
    then show ?thesis
      using kp_finish_merge [OF o' spec False do pr] by (simp add: run_merge_def cmd_simps sel fa)
  qed
qed

section \<open>Keywords: the merge of two tables against a common one\<close>

lemma st_pair_lookup:
  assumes "ot_inv hash_string (=) t"
  shows "st_pair t k = map_option (\<lambda>v. (k, v)) (st_lookup t k)"
proof -
  have "ht_inv hash_string (=) (ot_table t)" using assms by (simp add: ot_inv_def)
  from str.ht_lookup_pair_iff [OF this, of k] show ?thesis
    by (cases "ht_lookup_pair hash_string (=) (ot_table t) k")
      (force simp: st_pair_def ot_lookup_def ht_lookup_def)+
qed

definition kw_inv :: "KeyPopTables \<Rightarrow> bool" where
  "kw_inv p \<longleftrightarrow>
     ot_inv hash_string (=) (project_keywords_extra p) \<and> ht_inv hash_string (=) (project_keywords p) \<and>
     (\<forall>k. st_lookup (project_keywords_extra p) k \<noteq> None \<longrightarrow>
        ht_lookup hash_string (=) (project_keywords p) k \<noteq> None)"

lemma insert_keyword_ok:
  assumes "kw_inv p"
  shows "\<exists>p'. insert_keyword key v p = (Inr (), p') \<and> kw_inv p' \<and>
    (\<forall>y. st_lookup (project_keywords_extra p') y =
       (if y = key then Some v else st_lookup (project_keywords_extra p) y))"
proof -
  have inv: "ot_inv hash_string (=) (project_keywords_extra p)" "ht_inv hash_string (=) (project_keywords p)"
    using assms by (simp_all add: kw_inv_def)
  obtain t where t: "ot_insert hash_string (=) (project_keywords_extra p) key v = Some t"
    "ot_inv hash_string (=) t"
    "\<forall>y. st_lookup t y = (if y = key then Some v else st_lookup (project_keywords_extra p) y)"
    using str.ot_insert_lookup [OF inv(1)] by blast
  then show ?thesis
    using assms str.ht.invar_insert [OF inv(2)] str.ht.lookup_insert [OF inv(2), of key v]
    by (simp add: insert_keyword_def cmd_simps on_table_def kw_inv_def)
qed

lemma add_keyword_ok:
  assumes "kw_inv p" and "st_lookup (project_keywords_extra p) key = None"
  shows "\<exists>p'. add_keyword key v p = (Inr (), p') \<and> kw_inv p' \<and>
    (\<forall>y. st_lookup (project_keywords_extra p') y =
       (if y = key then Some v else st_lookup (project_keywords_extra p) y))"
proof -
  have "kw_inv (p\<lparr>alter_popkey := True\<rparr>)" using assms(1) by (simp add: kw_inv_def)
  moreover have "project_keywords_extra (p\<lparr>alter_popkey := True\<rparr>) = project_keywords_extra p" by simp
  ultimately show ?thesis
    using insert_keyword_ok [of "p\<lparr>alter_popkey := True\<rparr>" key v] assms(2)
    by (simp only:) (simp add: add_keyword_def set_alter_popkey_def cmd_simps)
qed

lemma set_keyword_ok:
  assumes "kw_inv p" and "st_lookup (project_keywords_extra p) key \<noteq> None"
  shows "\<exists>p'. set_keyword key v p = (Inr (), p') \<and> kw_inv p' \<and>
    (\<forall>y. st_lookup (project_keywords_extra p') y =
       (if y = key then Some v else st_lookup (project_keywords_extra p) y))"
proof -
  have "kw_inv (p\<lparr>alter_popkey := True\<rparr>)" using assms(1) by (simp add: kw_inv_def)
  moreover have "project_keywords_extra (p\<lparr>alter_popkey := True\<rparr>) = project_keywords_extra p" by simp
  ultimately show ?thesis
    using insert_keyword_ok [of "p\<lparr>alter_popkey := True\<rparr>" key v] assms(2)
    by (simp only:) (simp add: set_keyword_def set_alter_popkey_def cmd_simps)
qed

lemma rem_keyword_ok:
  assumes "kw_inv p" and "st_lookup (project_keywords_extra p) key \<noteq> None"
  shows "\<exists>p'. rem_keyword key p = (Inr (), p') \<and> kw_inv p' \<and>
    (\<forall>y. st_lookup (project_keywords_extra p') y =
       (if y = key then None else st_lookup (project_keywords_extra p) y))"
proof -
  have inv: "ot_inv hash_string (=) (project_keywords_extra p)" "ht_inv hash_string (=) (project_keywords p)"
    "ht_lookup hash_string (=) (project_keywords p) key \<noteq> None"
    using assms by (simp_all add: kw_inv_def)
  obtain h where h: "ht_remove hash_string (=) (project_keywords p) key = Some h"
    using str.ht.remove_bound [OF inv(2,3)] by blast
  obtain t where t: "ot_remove hash_string (=) (project_keywords_extra p) key = Some t"
    "ot_inv hash_string (=) t"
    "\<forall>y. st_lookup t y = (if y = key then None else st_lookup (project_keywords_extra p) y)"
    using str.ot_remove_lookup [OF inv(1)] by blast
  then show ?thesis
    using assms h str.ht.invar_remove [OF inv(2) h] str.ht.lookup_remove [OF inv(2) h]
    by (simp add: rem_keyword_def set_alter_popkey_def cmd_simps on_table_def kw_inv_def)
qed

text \<open>The value a key has after a merge that asks no questions.\<close>

fun merge3 :: "'v option \<Rightarrow> 'v option \<Rightarrow> 'v option \<Rightarrow> 'v option" where
  "merge3 (Some s) None None = Some s"
| "merge3 None (Some c) (Some w) = None"
| "merge3 (Some s) (Some c) (Some w) = (if w = c then Some s else Some w)"
| "merge3 s c w = w"

definition kp_pair :: "string \<Rightarrow> string option \<Rightarrow> StringPair option" where
  "kp_pair k r = map_option (\<lambda>v. (k, v)) r"

lemma kp_action_pairs:
  "kp_action (kp_pair k s) (kp_pair k c) (kp_pair k w) =
     (case (s, c, w) of
        (Some x, None, None) \<Rightarrow> Add
      | (None, Some y, Some z) \<Rightarrow> Delete
      | (Some x, Some y, Some z) \<Rightarrow>
          if x = z then NoPrompt else if z = y then Replace else if x = y then NoPrompt else Nothing
      | (Some x, None, Some z) \<Rightarrow> if x = z then NoPrompt else Nothing
      | (Some x, Some y, None) \<Rightarrow> Nothing
      | _ \<Rightarrow> NoPrompt)"
  by (auto simp: kp_action_def kp_pair_def rule_spec_def kp_differs_def default_merge_actions_def
      split: option.split)

definition kw_do :: "StringPair option \<Rightarrow> StringPair option \<Rightarrow> MergeAction \<Rightarrow> unit kp_cmd" where
  "kw_do = kp_do
     (\<lambda>sel work. case sel of None \<Rightarrow> cthrow AssertFailed | Some p \<Rightarrow> on_project (add_keyword (fst p) (snd p)))
     (\<lambda>work. case work of None \<Rightarrow> cthrow AssertFailed | Some p \<Rightarrow> on_project (rem_keyword (fst p)))
     (\<lambda>sel. case sel of None \<Rightarrow> cthrow AssertFailed | Some p \<Rightarrow> on_project (set_keyword (fst p) (snd p)))"

lemma kw_do_ok:
  assumes inv: "kw_inv p" and w: "st_lookup (project_keywords_extra p) k = w"
    and some: "s \<noteq> None \<or> c \<noteq> None \<or> w \<noteq> None"
  shows "\<exists>p'. kw_inv p' \<and>
    (\<forall>y. st_lookup (project_keywords_extra p') y =
       (if y = k then merge3 s c w else st_lookup (project_keywords_extra p) y)) \<and>
    (\<forall>s2. world s2 = p \<longrightarrow>
       (\<exists>s3. kw_do (kp_pair k s) (kp_pair k w) (kp_action (kp_pair k s) (kp_pair k c) (kp_pair k w)) s2 =
          (Inr (), s3) \<and> world s3 = p'))"
proof -
  let ?a = "kp_action (kp_pair k s) (kp_pair k c) (kp_pair k w)"
  note a = kp_action_pairs [of k s c w]
  have keep: ?thesis if "?a = NoPrompt \<or> ?a = Nothing" "merge3 s c w = w"
  proof (intro exI [of _ p] conjI allI impI)
    show "kw_inv p" by (rule inv)
    show "st_lookup (project_keywords_extra p) y = (if y = k then merge3 s c w else st_lookup (project_keywords_extra p) y)" for y
      using w that(2) by simp
    show "\<exists>s3. kw_do (kp_pair k s) (kp_pair k w) ?a s2 = (Inr (), s3) \<and> world s3 = p" if "world s2 = p" for s2
      using that \<open>?a = NoPrompt \<or> ?a = Nothing\<close> by (auto simp: kw_do_def kp_do_def cmd_simps)
  qed
  consider (add) x where "s = Some x" "c = None" "w = None"
    | (del) y z where "s = None" "c = Some y" "w = Some z"
    | (rep) x y where "s = Some x" "c = Some y" "w = Some y" "x \<noteq> y"
    | (none) "?a = NoPrompt \<or> ?a = Nothing" "merge3 s c w = w"
    using a by (cases s; cases c; cases w) (auto split: if_splits)
  then show ?thesis
  proof cases
    case add
    then obtain p' where p': "add_keyword k x p = (Inr (), p')" "kw_inv p'"
      "\<forall>y. st_lookup (project_keywords_extra p') y = (if y = k then Some x else st_lookup (project_keywords_extra p) y)"
      using add_keyword_ok [OF inv, of k x] w by auto
    moreover have "?a = Add" using add a by simp
    ultimately show ?thesis
      using add by (intro exI [of _ p']) (simp add: kw_do_def kp_do_def kp_pair_def on_project_def)
  next
    case del
    then obtain p' where p': "rem_keyword k p = (Inr (), p')" "kw_inv p'"
      "\<forall>y. st_lookup (project_keywords_extra p') y = (if y = k then None else st_lookup (project_keywords_extra p) y)"
      using rem_keyword_ok [OF inv, of k] w by auto
    moreover have "?a = Delete" using del a by simp
    ultimately show ?thesis
      using del by (intro exI [of _ p']) (simp add: kw_do_def kp_do_def kp_pair_def on_project_def)
  next
    case rep
    then obtain p' where p': "set_keyword k x p = (Inr (), p')" "kw_inv p'"
      "\<forall>y. st_lookup (project_keywords_extra p') y = (if y = k then Some x else st_lookup (project_keywords_extra p) y)"
      using set_keyword_ok [OF inv, of k x] w by auto
    moreover have "?a = Replace" using rep a by simp
    ultimately show ?thesis
      using rep by (intro exI [of _ p']) (simp add: kw_do_def kp_do_def kp_pair_def on_project_def)
  next
    case none
    then show ?thesis by (rule keep)
  qed
qed

text \<open>The keys that the merge deletes: those that the selected version has removed.\<close>

definition key_removed :: "StringTable \<Rightarrow> StringTable \<Rightarrow> KeyPopTables \<Rightarrow> string \<Rightarrow> bool" where
  "key_removed sel com p k \<longleftrightarrow>
     st_lookup sel k = None \<and> st_lookup com k \<noteq> None \<and> st_lookup (project_keywords_extra p) k \<noteq> None"

lemma kw_merge_key:
  assumes o': "option_force_resolution o'" "\<not> option_report_actions o'"
    and sel: "ot_inv hash_string (=) sel" and com: "ot_inv hash_string (=) com"
    and inv: "kw_inv (world s)"
    and some: "st_lookup sel k \<noteq> None \<or> st_lookup com k \<noteq> None \<or> st_lookup (project_keywords_extra (world s)) k \<noteq> None"
  shows "\<exists>s'. merge_key KeywordMergeControl edit o' (Some sel) (Some com) (\<lambda>w. Some (project_keywords_extra w)) k s
      = (if key_removed sel com (world s) k then Inl Undefined else Inr (), s') \<and> kw_inv (world s') \<and>
    (\<forall>y. st_lookup (project_keywords_extra (world s')) y =
       (if y = k then merge3 (st_lookup sel k) (st_lookup com k) (st_lookup (project_keywords_extra (world s)) k)
        else st_lookup (project_keywords_extra (world s)) y))"
proof -
  let ?w = "st_lookup (project_keywords_extra (world s)) k"
  have work: "ot_inv hash_string (=) (project_keywords_extra (world s))" using inv by (simp add: kw_inv_def)
  obtain p' where p': "kw_inv p'"
    "\<forall>y. st_lookup (project_keywords_extra p') y =
       (if y = k then merge3 (st_lookup sel k) (st_lookup com k) ?w else st_lookup (project_keywords_extra (world s)) y)"
    "\<forall>s2. world s2 = world s \<longrightarrow>
       (\<exists>s3. kw_do (kp_pair k (st_lookup sel k)) (kp_pair k ?w)
          (kp_action (kp_pair k (st_lookup sel k)) (kp_pair k (st_lookup com k)) (kp_pair k ?w)) s2 =
          (Inr (), s3) \<and> world s3 = p')"
    using kw_do_ok [OF inv refl some] by blast
  let ?r = "if key_removed sel com (world s) k then Inl Undefined else Inr ()"
  have new: "ot_inv hash_string (=) (project_keywords_extra p')" using p'(1) by (simp add: kw_inv_def)
  have after: "st_lookup (project_keywords_extra p') k = merge3 (st_lookup sel k) (st_lookup com k) ?w"
    using p'(2) by simp
  have pr: "kp_print3 project_keywords_extra (kp_pair k (st_lookup sel k)) (kp_pair k (st_lookup com k)) (kp_pair k ?w) s3
      = (?r, s3)" if "world s3 = p'" for s3
    using that some st_pair_lookup [OF new, of k] after
    by (cases "st_lookup sel k"; cases "st_lookup com k"; cases ?w)
      (simp_all add: kp_print3_def kp_pair_def key_removed_def cmd_simps)
  have keep: "?r = Inr ()"
    if "kp_action (kp_pair k (st_lookup sel k)) (kp_pair k (st_lookup com k)) (kp_pair k ?w) = NoPrompt"
    using that unfolding kp_action_pairs by (auto simp: key_removed_def split: option.splits)
  have run: "\<exists>s'. run_merge KeywordMergeControl edit o' (kp_pair k (st_lookup sel k)) (kp_pair k (st_lookup com k))
      (kp_pair k ?w) s = (?r, s') \<and> world s' = p'"
    unfolding KeywordMergeControl_def
  proof (rule kp_run_merge [OF o'])
    show "kp_pair k (st_lookup sel k) \<noteq> None \<or> kp_pair k (st_lookup com k) \<noteq> None \<or> kp_pair k ?w \<noteq> None"
      using some by (auto simp: kp_pair_def)
  qed (use p'(3) pr keep in \<open>simp_all add: kw_do_def\<close>)
  have "merge_key KeywordMergeControl edit o' (Some sel) (Some com) (\<lambda>w. Some (project_keywords_extra w)) k s =
      run_merge KeywordMergeControl edit o' (kp_pair k (st_lookup sel k)) (kp_pair k (st_lookup com k)) (kp_pair k ?w) s"
    by (simp add: merge_key_def cmd_simps st_pair_lookup [OF sel] st_pair_lookup [OF com] st_pair_lookup [OF work] kp_pair_def)
  with run p'(1,2) show ?thesis by auto
qed

text \<open>A loop over distinct keys changes each of its keys once and no other.\<close>

lemma kw_merge_keys:
  assumes o': "option_force_resolution o'" "\<not> option_report_actions o'"
    and sel: "ot_inv hash_string (=) sel" and com: "ot_inv hash_string (=) com"
  shows "kw_inv (world s) \<Longrightarrow> distinct (map fst ps) \<Longrightarrow>
    (\<And>k. k \<in> set (map fst ps) \<Longrightarrow> \<not> skip k \<Longrightarrow>
       st_lookup sel k \<noteq> None \<or> st_lookup com k \<noteq> None \<or> st_lookup (project_keywords_extra (world s)) k \<noteq> None) \<Longrightarrow>
    (\<And>k. k \<in> set (map fst ps) \<Longrightarrow> \<not> skip k \<Longrightarrow> \<not> key_removed sel com (world s) k) \<Longrightarrow>
    \<exists>s'. cforeach ps (\<lambda>p. if skip (fst p) then creturn ()
        else merge_key KeywordMergeControl edit o' (Some sel) (Some com) (\<lambda>w. Some (project_keywords_extra w)) (fst p)) s
      = (Inr (), s') \<and> kw_inv (world s') \<and>
    (\<forall>y. st_lookup (project_keywords_extra (world s')) y =
       (if y \<in> set (map fst ps) \<and> \<not> skip y
        then merge3 (st_lookup sel y) (st_lookup com y) (st_lookup (project_keywords_extra (world s)) y)
        else st_lookup (project_keywords_extra (world s)) y))"
proof (induction ps arbitrary: s)
  case Nil
  then show ?case by (simp add: cmd_simps)
next
  case (Cons p ps)
  let ?k = "fst p"
  show ?case
  proof (cases "skip ?k")
    case True
    have "\<exists>s'. cforeach ps (\<lambda>p. if skip (fst p) then creturn ()
        else merge_key KeywordMergeControl edit o' (Some sel) (Some com) (\<lambda>w. Some (project_keywords_extra w)) (fst p)) s
      = (Inr (), s') \<and> kw_inv (world s') \<and>
      (\<forall>y. st_lookup (project_keywords_extra (world s')) y =
       (if y \<in> set (map fst ps) \<and> \<not> skip y
        then merge3 (st_lookup sel y) (st_lookup com y) (st_lookup (project_keywords_extra (world s)) y)
        else st_lookup (project_keywords_extra (world s)) y))"
      by (rule Cons.IH) (use Cons.prems in auto)
    then show ?thesis using True by (auto simp: cmd_simps)
  next
    case False
    have k: "?k \<notin> set (map fst ps)" using Cons.prems(2) by simp
    have some: "st_lookup sel ?k \<noteq> None \<or> st_lookup com ?k \<noteq> None \<or>
        st_lookup (project_keywords_extra (world s)) ?k \<noteq> None"
      using Cons.prems(3) [of ?k] False by simp
    obtain s1 where s1: "merge_key KeywordMergeControl edit o' (Some sel) (Some com)
        (\<lambda>w. Some (project_keywords_extra w)) ?k s = (Inr (), s1)" "kw_inv (world s1)"
      "\<forall>y. st_lookup (project_keywords_extra (world s1)) y =
       (if y = ?k then merge3 (st_lookup sel ?k) (st_lookup com ?k) (st_lookup (project_keywords_extra (world s)) ?k)
        else st_lookup (project_keywords_extra (world s)) y)"
      using kw_merge_key [OF o' sel com Cons.prems(1) some, of edit] Cons.prems(4) [of ?k] False by auto
    have "\<exists>s'. cforeach ps (\<lambda>p. if skip (fst p) then creturn ()
        else merge_key KeywordMergeControl edit o' (Some sel) (Some com) (\<lambda>w. Some (project_keywords_extra w)) (fst p)) s1
      = (Inr (), s') \<and> kw_inv (world s') \<and>
      (\<forall>y. st_lookup (project_keywords_extra (world s')) y =
       (if y \<in> set (map fst ps) \<and> \<not> skip y
        then merge3 (st_lookup sel y) (st_lookup com y) (st_lookup (project_keywords_extra (world s1)) y)
        else st_lookup (project_keywords_extra (world s1)) y))"
    proof (rule Cons.IH [OF s1(2)])
      show "distinct (map fst ps)" using Cons.prems(2) by simp
      fix y assume y: "y \<in> set (map fst ps)" "\<not> skip y"
      then have "y \<noteq> ?k" using k by blast
      then show "st_lookup sel y \<noteq> None \<or> st_lookup com y \<noteq> None \<or>
          st_lookup (project_keywords_extra (world s1)) y \<noteq> None"
        using Cons.prems(3) [of y] y s1(3) by simp
      show "\<not> key_removed sel com (world s1) y"
        using Cons.prems(4) [of y] y s1(3) \<open>y \<noteq> ?k\<close> by (simp add: key_removed_def)
    qed
    then obtain s' where s': "cforeach ps (\<lambda>p. if skip (fst p) then creturn ()
        else merge_key KeywordMergeControl edit o' (Some sel) (Some com) (\<lambda>w. Some (project_keywords_extra w)) (fst p)) s1
        = (Inr (), s')" "kw_inv (world s')"
      "\<forall>y. st_lookup (project_keywords_extra (world s')) y =
       (if y \<in> set (map fst ps) \<and> \<not> skip y
        then merge3 (st_lookup sel y) (st_lookup com y) (st_lookup (project_keywords_extra (world s1)) y)
        else st_lookup (project_keywords_extra (world s1)) y)" by blast
    show ?thesis
      using s'(1,2) s1(1) False k
      by (intro exI [of _ s']) (auto simp: cmd_simps s'(3) s1(3))
  qed
qed

text \<open>A loop over keys of which one is to be removed reads its freed pair.\<close>

lemma kw_merge_keys_undefined:
  assumes o': "option_force_resolution o'" "\<not> option_report_actions o'"
    and sel: "ot_inv hash_string (=) sel" and com: "ot_inv hash_string (=) com"
  shows "kw_inv (world s) \<Longrightarrow> distinct (map fst ps) \<Longrightarrow>
    (\<And>k. k \<in> set (map fst ps) \<Longrightarrow> \<not> skip k \<Longrightarrow>
       st_lookup sel k \<noteq> None \<or> st_lookup com k \<noteq> None \<or> st_lookup (project_keywords_extra (world s)) k \<noteq> None) \<Longrightarrow>
    k \<in> set (map fst ps) \<Longrightarrow> \<not> skip k \<Longrightarrow> key_removed sel com (world s) k \<Longrightarrow>
    fst (cforeach ps (\<lambda>p. if skip (fst p) then creturn ()
        else merge_key KeywordMergeControl edit o' (Some sel) (Some com) (\<lambda>w. Some (project_keywords_extra w)) (fst p)) s)
      = Inl Undefined"
proof (induction ps arbitrary: s)
  case (Cons p ps)
  let ?k = "fst p"
  show ?case
  proof (cases "skip ?k")
    case True
    have "k \<in> set (map fst ps)" using Cons.prems(4,5) True by auto
    from Cons.IH [OF Cons.prems(1) _ _ this Cons.prems(5,6)] Cons.prems(2,3) True show ?thesis
      by (simp add: cmd_simps)
  next
    case False
    have some: "st_lookup sel ?k \<noteq> None \<or> st_lookup com ?k \<noteq> None \<or>
        st_lookup (project_keywords_extra (world s)) ?k \<noteq> None"
      using Cons.prems(3) [of ?k] False by simp
    obtain s1 where s1: "merge_key KeywordMergeControl edit o' (Some sel) (Some com)
        (\<lambda>w. Some (project_keywords_extra w)) ?k s =
        (if key_removed sel com (world s) ?k then Inl Undefined else Inr (), s1)" "kw_inv (world s1)"
      "\<forall>y. st_lookup (project_keywords_extra (world s1)) y =
       (if y = ?k then merge3 (st_lookup sel ?k) (st_lookup com ?k) (st_lookup (project_keywords_extra (world s)) ?k)
        else st_lookup (project_keywords_extra (world s)) y)"
      using kw_merge_key [OF o' sel com Cons.prems(1) some, of edit] by blast
    show ?thesis
    proof (cases "key_removed sel com (world s) ?k")
      case True
      then show ?thesis using s1(1) False by (simp add: cmd_simps)
    next
      case ok: False
      have k: "k \<in> set (map fst ps)" using Cons.prems(4,6) ok by auto
      have other: "st_lookup (project_keywords_extra (world s1)) y = st_lookup (project_keywords_extra (world s)) y"
        if "y \<in> set (map fst ps)" for y
      proof -
        have "?k \<notin> set (map fst ps)" using Cons.prems(2) unfolding list.map distinct.simps by blast
        then have "y \<noteq> ?k" using that by blast
        then show ?thesis using s1(3) by simp
      qed
      have "key_removed sel com (world s1) k" using Cons.prems(6) other [OF k] by (simp add: key_removed_def)
      moreover have "st_lookup sel y \<noteq> None \<or> st_lookup com y \<noteq> None \<or>
          st_lookup (project_keywords_extra (world s1)) y \<noteq> None" if "y \<in> set (map fst ps)" "\<not> skip y" for y
        using Cons.prems(3) [of y] that other [OF that(1)] by simp
      ultimately have "fst (cforeach ps (\<lambda>p. if skip (fst p) then creturn ()
        else merge_key KeywordMergeControl edit o' (Some sel) (Some com) (\<lambda>w. Some (project_keywords_extra w)) (fst p)) s1)
        = Inl Undefined"
        using Cons.prems(2,5) k by (intro Cons.IH [OF s1(2)]) simp_all
      then show ?thesis using s1(1) False ok by (simp add: cmd_simps)
    qed
  qed
qed simp

lemma st_items:
  assumes "ot_inv hash_string (=) t"
  shows "distinct (map fst (ht_items (ot_table t)))"
    and "k \<in> set (map fst (ht_items (ot_table t))) \<longleftrightarrow> st_lookup t k \<noteq> None"
proof -
  have h: "ht_inv hash_string (=) (ot_table t)" using assms by (simp add: ot_inv_def)
  have "sorted_wrt (\<lambda>p q. fst p \<noteq> fst q) (ht_items (ot_table t))"
    using str.uniq_keys_items [OF h] unfolding uniq_keys_def by (rule sorted_wrt_mono_rel [rotated]) simp
  then show "distinct (map fst (ht_items (ot_table t)))"
    by (simp add: distinct_conv_nth sorted_wrt_iff_nth_less nth_eq_iff_index_eq) (metis linorder_neqE_nat)
  show "k \<in> set (map fst (ht_items (ot_table t))) \<longleftrightarrow> st_lookup t k \<noteq> None"
    using str.ht_lookup_pair_iff [OF h, of k] by (force simp: ot_lookup_def ht_lookup_def)
qed

lemma kw_merge_table:
  assumes o': "option_force_resolution o'" "\<not> option_report_actions o'"
    and sel: "ot_inv hash_string (=) sel" and com: "ot_inv hash_string (=) com"
    and inv: "kw_inv (world s)"
  shows "if \<exists>k. key_removed sel com (world s) k
    then fst (merge_project_table KeywordMergeControl edit o' (Some sel) (Some com)
      (\<lambda>w. Some (project_keywords_extra w)) s) = Inl Undefined
    else \<exists>s'. merge_project_table KeywordMergeControl edit o' (Some sel) (Some com)
      (\<lambda>w. Some (project_keywords_extra w)) s = (Inr (), s') \<and> kw_inv (world s') \<and>
    (\<forall>y. st_lookup (project_keywords_extra (world s')) y =
       merge3 (st_lookup sel y) (st_lookup com y) (st_lookup (project_keywords_extra (world s)) y))"
proof -
  let ?x = "\<lambda>s. project_keywords_extra (world s)" and ?of = "\<lambda>w. Some (project_keywords_extra w)"
  let ?loop = "\<lambda>t earlier. merge_keys_of KeywordMergeControl edit o' (Some sel) (Some com) ?of (Some t) earlier"
  have loop: "\<exists>s'. ?loop t earlier s = (Inr (), s') \<and> kw_inv (world s') \<and>
      (\<forall>y. st_lookup (?x s') y =
        (if st_lookup t y \<noteq> None \<and> \<not> (\<exists>e \<in> set earlier. bound_in e y)
         then merge3 (st_lookup sel y) (st_lookup com y) (st_lookup (?x s) y) else st_lookup (?x s) y))"
    if t: "ot_inv hash_string (=) t" and k: "kw_inv (world s)" and
      some: "\<And>y. st_lookup t y \<noteq> None \<Longrightarrow>
        st_lookup sel y \<noteq> None \<or> st_lookup com y \<noteq> None \<or> st_lookup (?x s) y \<noteq> None" and
      stay: "\<And>y. st_lookup t y \<noteq> None \<Longrightarrow> \<not> (\<exists>e \<in> set earlier. bound_in e y) \<Longrightarrow> \<not> key_removed sel com (world s) y"
    for t earlier s
    using kw_merge_keys [OF o' sel com k st_items(1) [OF t], of "\<lambda>y. \<exists>e \<in> set earlier. bound_in e y" edit]
      some stay st_items(2) [OF t]
    by (simp add: merge_keys_of_def)
  obtain s1 where s1: "?loop sel [] s = (Inr (), s1)" "kw_inv (world s1)"
    "\<forall>y. st_lookup (?x s1) y = (if st_lookup sel y \<noteq> None
       then merge3 (st_lookup sel y) (st_lookup com y) (st_lookup (?x s) y) else st_lookup (?x s) y)"
    using loop [OF sel inv, of "[]"] by (auto simp: key_removed_def)
  have same: "key_removed sel com (world s1) y \<longleftrightarrow> key_removed sel com (world s) y" for y
    using s1(3) by (auto simp: key_removed_def)
  show ?thesis
  proof (cases "\<exists>k. key_removed sel com (world s) k")
    case True
    then obtain k where k: "key_removed sel com (world s1) k" using same by blast
    have kc: "k \<in> set (map fst (ht_items (ot_table com)))" "\<not> (\<exists>e \<in> set [Some sel]. bound_in e k)"
      using k unfolding st_items(2) [OF com] by (simp_all add: key_removed_def bound_in_def)
    have "fst (?loop com [Some sel] s1) = Inl Undefined"
      using kw_merge_keys_undefined [OF o' sel com s1(2) st_items(1) [OF com], of "\<lambda>y. \<exists>e \<in> set [Some sel]. bound_in e y" k edit]
        k kc st_items(2) [OF com]
      by (simp add: merge_keys_of_def)
    then have "fst (merge_project_table KeywordMergeControl edit o' (Some sel) (Some com) ?of s) = Inl Undefined"
      by (cases "?loop com [Some sel] s1") (simp add: merge_project_table_def cmd_simps s1(1))
    then show ?thesis using True by simp
  next
    case False
    obtain s2 where s2: "?loop com [Some sel] s1 = (Inr (), s2)" "kw_inv (world s2)"
      "\<forall>y. st_lookup (?x s2) y = (if st_lookup com y \<noteq> None \<and> st_lookup sel y = None
         then merge3 (st_lookup sel y) (st_lookup com y) (st_lookup (?x s1) y) else st_lookup (?x s1) y)"
      using loop [OF com s1(2), of "[Some sel]"] False same by (auto simp: bound_in_def)
    have x2: "ot_inv hash_string (=) (?x s2)" using s2(2) by (simp add: kw_inv_def)
    obtain s3 where s3: "?loop (?x s2) [Some com, Some sel] s2 = (Inr (), s3)" "kw_inv (world s3)"
      "\<forall>y. st_lookup (?x s3) y = (if st_lookup (?x s2) y \<noteq> None \<and> st_lookup com y = None \<and> st_lookup sel y = None
         then merge3 (st_lookup sel y) (st_lookup com y) (st_lookup (?x s2) y) else st_lookup (?x s2) y)"
      using loop [OF x2 s2(2), of "[Some com, Some sel]"] by (auto simp: bound_in_def key_removed_def)
    have "st_lookup (?x s3) y = merge3 (st_lookup sel y) (st_lookup com y) (st_lookup (?x s) y)" for y
      using s1(3) [rule_format, of y] s2(3) [rule_format, of y] s3(3) [rule_format, of y]
      by (cases "st_lookup sel y"; cases "st_lookup com y"; cases "st_lookup (?x s) y") simp_all
    with s3(2) False show ?thesis
      by (simp add: merge_project_table_def cmd_simps s1(1) s2(1) s3(1))
  qed
qed

section \<open>A state to try things on\<close>

definition kw_example :: "(KeyPopTables, StringPair) MergeState" where
  "kw_example = QueryOstream.extend (query_fresh [])
     (MergeState.fields (replicate 14 False) [] [] []
       \<lparr>alter_popkey = False, populate_ignore = ot_empty, project_keywords = ht_empty,
        project_keywords_extra = ot_empty\<rparr>)"

section \<open>Properties\<close>

text \<open>
  C12. For a keyword or an ignored name that at least one version has, the loop of
  \<open>run_merge\<close> selects the rule of the documentation after one pass and changes nothing:
  no assertion fails and no file is checked out.
\<close>

theorem keypop_rule_selected:
  assumes "sel \<noteq> None \<or> com \<noteq> None \<or> work \<noteq> None"
  shows "(\<exists>d co. select_rule KeywordMergeControl sel com work s = (Inr (d, co), s) \<and>
      Some (rule_no d) = rule_spec kp_differs sel com work) \<and>
    (\<exists>d co. select_rule PopulateMergeControl sel com work s = (Inr (d, co), s) \<and>
      Some (rule_no d) = rule_spec kp_differs sel com work)"
  unfolding KeywordMergeControl_def PopulateMergeControl_def
  by (intro conjI kp_select [OF assms])

theorem keypop_rule_selected_witness:
  "\<exists>d co. select_rule KeywordMergeControl (Some (''A'', ''2'')) (Some (''A'', ''1'')) None kw_example =
      (Inr (d, co), kw_example) \<and> rule_no d = 9"
proof -
  have "Some (''A'', ''2'') \<noteq> None \<or> Some (''A'', ''1'') \<noteq> None \<or> (None :: StringPair option) \<noteq> None" by simp
  from keypop_rule_selected [OF this, of kw_example] show ?thesis
    by (auto simp: rule_spec_def kp_differs_def)
qed

text \<open>
  C1. Under \<open>-f\<close>, merging the keywords of a project is a three-way merge, as long as the selected version
  has removed no key: the command then succeeds, whatever the tables, and the working value of every key
  becomes the selected one where the working version has not changed it or lacks it from the start, and
  stays otherwise. When a key of the common version that the working version has is gone from the selected
  version, the key is removed and the message about it reads the pair of the key, which the removal has
  freed: the merge has undefined behaviour.
\<close>

theorem keyword_merge_three_way:
  assumes "option_force_resolution o'" and "\<not> option_report_actions o'"
    and "ot_inv hash_string (=) sel" and "ot_inv hash_string (=) com" and "kw_inv (world s)"
  shows "if \<exists>k. key_removed sel com (world s) k
    then fst (merge_project_table KeywordMergeControl edit o' (Some sel) (Some com)
      (\<lambda>w. Some (project_keywords_extra w)) s) = Inl Undefined
    else \<exists>s'. merge_project_table KeywordMergeControl edit o' (Some sel) (Some com)
      (\<lambda>w. Some (project_keywords_extra w)) s = (Inr (), s') \<and> kw_inv (world s') \<and>
    (\<forall>y. st_lookup (project_keywords_extra (world s')) y =
       merge3 (st_lookup sel y) (st_lookup com y) (st_lookup (project_keywords_extra (world s)) y))"
  by (rule kw_merge_table [OF assms])

definition kw_forced :: Options where
  "kw_forced = interactive\<lparr>option_force_resolution := True\<rparr>"

lemma kw_forced_options [simp]: "option_force_resolution kw_forced" "\<not> option_report_actions kw_forced"
  by (simp_all add: kw_forced_def interactive_def)

lemma kw_example_world:
  "world kw_example = \<lparr>alter_popkey = False, populate_ignore = ot_empty, project_keywords = ht_empty,
      project_keywords_extra = ot_empty\<rparr>"
  by (simp add: kw_example_def QueryOstream.defs MergeState.defs query_fresh_def)

lemma st_empty: "ot_inv hash_string (=) (ot_empty :: StringTable)" "st_lookup ot_empty y = None"
  using str.ot_inv_empty str.ht.lookup_empty by (simp_all add: ot_lookup_def ot_empty_def)

lemma kw_example_inv: "kw_inv (world kw_example)"
  using st_empty ht_inv_empty by (simp add: kw_inv_def kw_example_world)

theorem keyword_merge_three_way_witness:
  "(\<exists>t s'. ot_run hash_string (=) [Insert ''Author'' ''jmacd''] ot_empty = Some t \<and>
     merge_project_table KeywordMergeControl (\<lambda>_. creturn ()) kw_forced
       (Some t) (Some ot_empty) (\<lambda>w. Some (project_keywords_extra w)) kw_example = (Inr (), s') \<and>
     st_lookup (project_keywords_extra (world s')) ''Author'' = Some ''jmacd'') \<and>
   (\<exists>t s. st_lookup t ''Author'' = Some ''jmacd'' \<and> st_lookup (project_keywords_extra (world s)) ''Author'' = Some ''pt'' \<and>
     fst (merge_project_table KeywordMergeControl (\<lambda>_. creturn ()) kw_forced
       (Some ot_empty) (Some t) (\<lambda>w. Some (project_keywords_extra w)) s) = Inl Undefined)"
proof
  obtain t :: StringTable where t: "ot_run hash_string (=) [Insert ''Author'' ''jmacd''] ot_empty = Some t"
    "ot_inv hash_string (=) t" "ot_entries t = fold list_step [Insert ''Author'' ''jmacd''] (ot_entries ot_empty)"
    using ot_run_str [OF st_empty(1)] by blast
  have "ot_entries t = [(''Author'', ''jmacd'')]"
    using t(3) by (simp add: ot_entries_def ot_empty_def)
  then have lk: "st_lookup t ''Author'' = Some ''jmacd''"
    using t(2) by (simp add: ot_inv_def)
  have "\<nexists>k. key_removed t ot_empty (world kw_example) k"
    by (simp add: key_removed_def st_empty)
  with keyword_merge_three_way [OF kw_forced_options t(2) st_empty(1) kw_example_inv, of "\<lambda>_. creturn ()"]
  obtain s' where "merge_project_table KeywordMergeControl (\<lambda>_. creturn ()) kw_forced (Some t) (Some ot_empty)
      (\<lambda>w. Some (project_keywords_extra w)) kw_example = (Inr (), s')"
    "st_lookup (project_keywords_extra (world s')) ''Author'' =
       merge3 (st_lookup t ''Author'') (st_lookup ot_empty ''Author'') (st_lookup ot_empty ''Author'')"
    by (auto simp: kw_example_world)
  with lk st_empty t(1) show "\<exists>t s'. ot_run hash_string (=) [Insert ''Author'' ''jmacd''] ot_empty = Some t \<and>
     merge_project_table KeywordMergeControl (\<lambda>_. creturn ()) kw_forced
       (Some t) (Some ot_empty) (\<lambda>w. Some (project_keywords_extra w)) kw_example = (Inr (), s') \<and>
     st_lookup (project_keywords_extra (world s')) ''Author'' = Some ''jmacd''" by auto
  have "st_lookup (project_keywords_extra (world kw_example)) ''Author'' = None"
    by (simp add: kw_example_world st_empty)
  then obtain p where p: "kw_inv p" "st_lookup (project_keywords_extra p) ''Author'' = Some ''pt''"
    using add_keyword_ok [OF kw_example_inv, of "''Author''" "''pt''"] by auto
  have "\<exists>k. key_removed ot_empty t (world (kw_example\<lparr>world := p\<rparr>)) k"
    using p(2) lk by (intro exI [of _ "''Author''"]) (simp add: key_removed_def st_empty)
  moreover have "kw_inv (world (kw_example\<lparr>world := p\<rparr>))" using p(1) by simp
  ultimately have "fst (merge_project_table KeywordMergeControl (\<lambda>_. creturn ()) kw_forced
       (Some ot_empty) (Some t) (\<lambda>w. Some (project_keywords_extra w)) (kw_example\<lparr>world := p\<rparr>)) = Inl Undefined"
    using keyword_merge_three_way [OF kw_forced_options st_empty(1) t(2), of "kw_example\<lparr>world := p\<rparr>" "\<lambda>_. creturn ()"]
    by simp
  with lk p(2) show "\<exists>t s. st_lookup t ''Author'' = Some ''jmacd'' \<and>
     st_lookup (project_keywords_extra (world s)) ''Author'' = Some ''pt'' \<and>
     fst (merge_project_table KeywordMergeControl (\<lambda>_. creturn ()) kw_forced
       (Some ot_empty) (Some t) (\<lambda>w. Some (project_keywords_extra w)) s) = Inl Undefined"
    by (intro exI [of _ t] exI [of _ "kw_example\<lparr>world := p\<rparr>"]) simp
qed

text \<open>
  C13. Under \<open>-n\<close> merging a keyword or an ignored name changes neither table, whatever
  the rule and whatever the user's default.
\<close>

theorem keypop_report_only:
  assumes "option_report_actions o'"
  shows "world (snd (run_merge (KeyPopMergeControl tab add del rep) edit o' sel com work s)) = world s"
proof -
  have "always (keeps world) (run_merge (KeyPopMergeControl tab add del rep) edit o' sel com work)"
    by (rule report_keeps_world [OF assms])
      (auto simp: KeyPopMergeControl_def kp_print3_def intro!: kept.always_intros split: option.split)
  then show ?thesis by (simp add: always_def keeps_def)
qed

theorem keypop_report_only_witness:
  "world (snd (run_merge (KeyPopMergeControl project_keywords_extra (\<lambda>_ _. creturn ()) (\<lambda>_. creturn ()) (\<lambda>_. creturn ()))
     (\<lambda>_. creturn ()) (interactive\<lparr>option_report_actions := True\<rparr>)
     (Some (''A'', ''1'')) None None kw_example)) = world kw_example"
  by (rule keypop_report_only) simp

text \<open>
  The menu always ends, on any input and with any viewer that reads but never adds input: it aborts on
  the user's request or at the end of the input, or returns the default action, which a newline keeps
  whether or not it is valid, or one of the actions that are valid for the files at hand. The fuel, one
  more than the length of the input, is never used up.
\<close>

lemma menu_terminates:
  assumes "\<And>co s. can_view V \<Longrightarrow> (\<exists>t. fst (view V x c w co s) = Inl (Err t)) \<or> (\<exists>co'. fst (view V x c w co s) = Inr co')"
    and "\<And>co. can_view V \<Longrightarrow> always shrinks (view V x c w co)"
  shows "case fst (menu (Suc (length (stdin s))) V (valid_actions may_add may_merge x w) rule x c w action co s) of
      Inl f \<Rightarrow> \<exists>t. f = Err t
    | Inr (a, co') \<Rightarrow> a = action \<or> action_char a \<in> set (valid_actions may_add may_merge x w)"
  using menu_ends [OF assms refl, where s = s and n = "Suc (length (stdin s))" and rule = rule and
      action = action and co = co and may_add = may_add and may_merge = may_merge and x' = x and w' = w]
  by (simp add: menu_result_def)

text \<open>
  The flags of the rules are an array of fourteen, indexed by the number of the rule:
  for rule 14, the file that only the selected version has, an interactive merge reads
  past the end of the array before it asks.
\<close>

lemma ask_action_rule_14:
  assumes "\<not> option_report_actions o'" and "\<not> option_force_resolution o'"
    and "length (rule_bangs s) = 14" and "d \<in> set merge_defaults"
  shows "(fst (ask_action V o' d valid x c w action co s) = Inl Undefined \<and> rule_no d = 14) \<or>
    (rule_no d < 14 \<and> ask_action V o' d valid x c w action co s =
       (if rule_bangs s ! rule_no d then (Inr (action, co), s)
        else menu (Suc (length (stdin s))) V valid (rule_no d) x c w action co s))"
proof -
  have "rule_no d \<le> 14"
    using assms(4) by (auto simp: merge_defaults_def merge_def_def)
  then show ?thesis using assms(1-3) by (auto simp: ask_action_def cmd_simps)
qed

theorem ask_action_rule_14_witness:
  "fst (ask_action KeywordMergeControl interactive (merge_defaults ! 2) ''an''
     (Some (''A'', ''1'')) None None Add MergeCo_new kw_example) = Inl Undefined"
proof -
  have "length (rule_bangs kw_example) = 14"
    by (simp add: kw_example_def QueryOstream.defs MergeState.defs query_fresh_def)
  moreover have "merge_defaults ! 2 \<in> set merge_defaults" "rule_no (merge_defaults ! 2) = 14"
    by (simp_all add: merge_defaults_def merge_def_def)
  ultimately show ?thesis
    using ask_action_rule_14 [of interactive kw_example "merge_defaults ! 2" KeywordMergeControl "''an''"
        "Some (''A'', ''1'')" None None Add MergeCo_new]
    by (simp add: interactive_def)
qed


end
