(* ===== verification/Attrs.thy ===== *)
theory Attrs
  imports Effects Containers MergeRules
begin

text \<open>
  The perfect hash functions of the project file, the file attributes and the keywords
  (\<open>src/src/attrs.cc\<close>, \<open>src/src/prcs-keys.c\<close>, \<open>src/src/prj-names.h\<close>), and the attribute sets of
  files: \<open>PrcsAttrs\<close>, \<open>validate_attrs\<close>, \<open>init_attrs\<close> and \<open>intern_attrs\<close> of
  \<open>src/src/projdesc.cc\<close>. A read of a 128-entry table at a \<open>char\<close> outside ASCII is undefined.
\<close>

section \<open>Perfect hash functions\<close>

definition char_entry :: "nat list \<Rightarrow> char \<Rightarrow> nat option" where
  "char_entry tbl c = (let n = (of_char c :: nat) in if n < length tbl then Some (tbl ! n) else None)"

definition add_entries :: "nat \<Rightarrow> nat option \<Rightarrow> nat option \<Rightarrow> nat option" where
  "add_entries n a b = (case (a, b) of (Some x, Some y) \<Rightarrow> Some (n + x + y) | _ \<Rightarrow> None)"

text \<open>
  The body the three lookup functions share, with the bounds \<open>MIN_WORD_LENGTH\<close>,
  \<open>MAX_WORD_LENGTH\<close>, \<open>MIN_HASH_VALUE\<close> and \<open>MAX_HASH_VALUE\<close>. The outer option is undefined
  behaviour, the inner one the null pointer; a hit is the index of the word.
\<close>

definition gperf_find ::
  "nat \<Rightarrow> nat \<Rightarrow> nat \<Rightarrow> nat \<Rightarrow> string list \<Rightarrow> (string \<Rightarrow> nat option) \<Rightarrow> string \<Rightarrow> nat option option" where
  "gperf_find minlen maxlen minhash maxhash words hashf str =
     (if length str \<le> maxlen \<and> minlen \<le> length str then
        (case hashf str of
           None \<Rightarrow> None
         | Some key \<Rightarrow>
             Some (if key \<le> maxhash \<and> minhash \<le> key \<and> words ! key = str then Some key else None))
      else Some None)"

definition ascii :: "string \<Rightarrow> bool" where
  "ascii s = list_all (\<lambda>c. (of_char c :: nat) < 128) s"

locale gperf =
  fixes minlen maxlen minhash maxhash :: nat and words :: "string list"
    and hashf :: "string \<Rightarrow> nat option"
  assumes perfect: "list_all (\<lambda>i. words ! i = [] \<or>
        hashf (words ! i) = Some i \<and> minhash \<le> i \<and> minlen \<le> length (words ! i) \<and> length (words ! i) \<le> maxlen)
      [0..<length words]"
    and size_words: "length words = maxhash + 1"
    and pos: "0 < minlen"
    and hash_defined: "ascii s \<Longrightarrow> minlen \<le> length s \<Longrightarrow> hashf s \<noteq> None"
begin

lemma find_defined: "ascii s \<Longrightarrow> gperf_find minlen maxlen minhash maxhash words hashf s \<noteq> None"
  using hash_defined [of s] by (auto simp: gperf_find_def split: option.split)

lemma find_hit:
  assumes "gperf_find minlen maxlen minhash maxhash words hashf s = Some (Some i)"
  shows "i < length words \<and> words ! i = s \<and> s \<noteq> []"
  using assms pos size_words by (auto simp: gperf_find_def split: if_splits option.splits)

lemma find_word:
  assumes "i < length words" and "words ! i = s" and "s \<noteq> []"
  shows "gperf_find minlen maxlen minhash maxhash words hashf s = Some (Some i)"
proof -
  have "hashf s = Some i \<and> minhash \<le> i \<and> minlen \<le> length s \<and> length s \<le> maxlen"
    using perfect assms by (auto simp: list_all_iff)
  then show ?thesis using assms size_words by (simp add: gperf_find_def)
qed

lemma find_iff:
  assumes "ascii s"
  shows "gperf_find minlen maxlen minhash maxhash words hashf s = Some r \<longleftrightarrow>
    (case r of Some i \<Rightarrow> i < length words \<and> words ! i = s \<and> s \<noteq> []
       | None \<Rightarrow> s = [] \<or> s \<notin> set words)"
proof (cases "gperf_find minlen maxlen minhash maxhash words hashf s")
  case None
  then show ?thesis using find_defined [OF assms] by simp
next
  case (Some q)
  show ?thesis
  proof (cases q)
    case None
    have "s = [] \<or> s \<notin> set words"
      using find_word [of _ s] Some None by (force simp: in_set_conv_nth)
    then show ?thesis using Some None find_word [of _ s] by (cases r) auto
  next
    case (Some j)
    have j: "j < length words \<and> words ! j = s \<and> s \<noteq> []"
      using find_hit \<open>gperf_find minlen maxlen minhash maxhash words hashf s = Some q\<close> Some by simp
    have "i = j" if "i < length words" "words ! i = s" for i
      using find_word [OF that] j find_word [of j s] by simp
    then show ?thesis
      using j \<open>gperf_find minlen maxlen minhash maxhash words hashf s = Some q\<close> Some
      by (cases r) (auto simp: in_set_conv_nth)
  qed
qed

end

section \<open>The names of file attributes\<close>

datatype AttrType =
    RealFileAttr | NoKeywordAttr | DirectoryAttr | SymlinkAttr | ImplicitDirectoryAttr
  | ProjectFileAttr | TagAttr | MergetoolAttr | DifftoolAttr
  | Mergerule1Attr | Mergerule2Attr | Mergerule3Attr | Mergerule4Attr | Mergerule5Attr
  | Mergerule6Attr | Mergerule7Attr | Mergerule8Attr | Mergerule9Attr | Mergerule10Attr
  | Mergerule11Attr | Mergerule12Attr | Mergerule13Attr | Mergerule14Attr

definition attr_hash_table :: "nat list" where
  "attr_hash_table =
    [41, 41, 41, 41, 41, 41, 41, 41, 41, 41, 41, 41, 41, 41, 41, 41,
     41, 41, 41, 41, 41, 41, 41, 41, 41, 41, 41, 41, 41, 41, 41, 41,
     41, 41, 41, 41, 41, 41, 41, 41, 41, 41, 41, 41, 41, 41, 41, 41,
     20, 5, 10, 15, 0, 20, 25, 30, 3, 18, 0, 41, 41, 41, 41, 41,
     41, 41, 41, 41, 41, 41, 41, 41, 41, 41, 41, 41, 41, 41, 41, 41,
     41, 41, 41, 41, 41, 41, 41, 41, 41, 41, 41, 41, 41, 41, 41, 41,
     41, 41, 41, 41, 41, 5, 41, 0, 41, 41, 41, 0, 15, 41, 41, 41,
     41, 41, 41, 25, 41, 41, 41, 41, 41, 0, 41, 41, 41, 41, 41, 41]"

definition attr_wordlist :: "(string \<times> AttrType) list" where
  "attr_wordlist =
    [([], RealFileAttr), ([], RealFileAttr), ([], RealFileAttr), ([], RealFileAttr),
     ('':tag'', TagAttr), ([], RealFileAttr), ([], RealFileAttr), ([], RealFileAttr),
     ('':symlink'', SymlinkAttr), ([], RealFileAttr), ('':directory'', DirectoryAttr),
     ('':mergerule4'', Mergerule4Attr), ('':mergerule14'', Mergerule14Attr),
     ([], RealFileAttr), ('':mergerule8'', Mergerule8Attr), ('':real-file'', RealFileAttr),
     ('':mergerule1'', Mergerule1Attr), ('':mergerule11'', Mergerule11Attr),
     ('':project-file'', ProjectFileAttr), ('':implicit-directory'', ImplicitDirectoryAttr),
     ([], RealFileAttr), ('':mergerule2'', Mergerule2Attr),
     ('':mergerule12'', Mergerule12Attr), ([], RealFileAttr), ('':difftool'', DifftoolAttr),
     ('':mergetool'', MergetoolAttr), ('':mergerule3'', Mergerule3Attr),
     ('':mergerule13'', Mergerule13Attr), ([], RealFileAttr),
     ('':mergerule9'', Mergerule9Attr), ([], RealFileAttr), ('':mergerule5'', Mergerule5Attr),
     ('':mergerule10'', Mergerule10Attr), ([], RealFileAttr), ([], RealFileAttr),
     ([], RealFileAttr), ('':mergerule6'', Mergerule6Attr), ('':no-keywords'', NoKeywordAttr),
     ([], RealFileAttr), ([], RealFileAttr), ([], RealFileAttr),
     ('':mergerule7'', Mergerule7Attr)]"

definition is_file_attribute_hash :: "string \<Rightarrow> nat option" where
  "is_file_attribute_hash str =
     add_entries (length str) (char_entry attr_hash_table (last str)) (char_entry attr_hash_table (hd str))"

definition is_file_attribute :: "string \<Rightarrow> AttrType option option" where
  "is_file_attribute str =
     map_option (map_option (\<lambda>key. snd (attr_wordlist ! key)))
       (gperf_find 4 19 4 41 (map fst attr_wordlist) is_file_attribute_hash str)"

section \<open>The built-in keywords\<close>

definition keyword_hash_table :: "nat list" where
  "keyword_hash_table =
    [26, 26, 26, 26, 26, 26, 26, 26, 26, 26, 26, 26, 26, 26, 26, 26,
     26, 26, 26, 26, 26, 26, 26, 26, 26, 26, 26, 26, 26, 26, 26, 26,
     26, 26, 26, 26, 26, 26, 26, 26, 26, 26, 26, 26, 26, 26, 26, 26,
     26, 26, 26, 26, 26, 26, 26, 26, 26, 26, 26, 26, 26, 26, 26, 26,
     26, 14, 11, 26, 8, 26, 12, 26, 26, 2, 26, 26, 26, 26, 26, 26,
     4, 26, 2, 3, 26, 26, 26, 26, 26, 26, 26, 26, 26, 26, 26, 26,
     26, 1, 26, 26, 26, 8, 26, 26, 26, 0, 26, 26, 26, 26, 26, 26,
     26, 26, 26, 26, 26, 4, 26, 26, 26, 26, 26, 26, 26, 26, 26, 26]"

definition keyword_wordlist :: "string list" where
  "keyword_wordlist =
    [[], [], [], [], ''Id'', [], [], [], [], ''Source'', ''Revision'', ''Project'', ''Date'', [],
     [], [], ''ProjectDate'', [], ''Format'', ''Basename'', ''Author'', ''ProjectAuthor'', [],
     ''ProjectMinorVersion'', ''ProjectMajorVersion'', ''ProjectHeader'', ''ProjectVersion'']"

definition is_builtin_keyword_hash :: "string \<Rightarrow> nat option" where
  "is_builtin_keyword_hash str =
     add_entries (length str)
       (if 9 \<le> length str then char_entry keyword_hash_table (str ! 8) else Some 0)
       (char_entry keyword_hash_table (hd str))"

definition is_builtin_keyword :: "string \<Rightarrow> string option option" where
  "is_builtin_keyword str =
     map_option (map_option (\<lambda>key. keyword_wordlist ! key))
       (gperf_find 2 19 4 26 keyword_wordlist is_builtin_keyword_hash str)"

section \<open>The entries of the project file\<close>

definition prj_hash_table :: "nat list" where
  "prj_hash_table =
    [32, 32, 32, 32, 32, 32, 32, 32, 32, 32, 32, 32, 32, 32, 32, 32,
     32, 32, 32, 32, 32, 32, 32, 32, 32, 32, 32, 32, 32, 32, 32, 32,
     32, 32, 32, 32, 32, 32, 32, 32, 32, 32, 32, 32, 32, 32, 32, 32,
     32, 32, 32, 32, 32, 32, 32, 32, 32, 32, 32, 32, 32, 32, 32, 32,
     32, 32, 32, 0, 5, 32, 0, 32, 32, 32, 32, 32, 32, 15, 15, 32,
     0, 32, 32, 32, 32, 32, 0, 32, 32, 32, 32, 32, 32, 32, 32, 32,
     32, 32, 32, 32, 32, 10, 32, 0, 32, 32, 32, 32, 32, 0, 0, 32,
     32, 32, 32, 0, 32, 32, 32, 32, 32, 32, 32, 32, 32, 32, 32, 32]"

definition pftable :: "string list" where
  "pftable =
    [[], [], [], [], [], ''Files'', [], [], [], [], [], ''Version-Log'', [], ''Checkin-Login'',
     ''Parent-Version'', ''Project-Version'', ''Project-Keywords'', [], ''Descends-From'',
     ''Project-Description'', [], [], ''Checkin-Time'', ''Created-By-Prcs-Version'', [],
     ''Populate-Ignore'', [], [], ''Merge-Parents'', [], ''New-Version-Log'', [],
     ''New-Merge-Parents'']"

definition prj_lookup_hash :: "string \<Rightarrow> nat option" where
  "prj_lookup_hash str =
     add_entries (length str) (char_entry prj_hash_table (last str)) (char_entry prj_hash_table (hd str))"

definition prj_lookup_func :: "string \<Rightarrow> nat option option" where
  "prj_lookup_func str = gperf_find 5 23 5 32 pftable prj_lookup_hash str"

lemma char_entry_ascii: "ascii s \<Longrightarrow> c \<in> set s \<Longrightarrow> length tbl = 128 \<Longrightarrow> char_entry tbl c \<noteq> None"
  by (auto simp: ascii_def list_all_iff char_entry_def Let_def)

lemma add_entries_defined: "a \<noteq> None \<Longrightarrow> b \<noteq> None \<Longrightarrow> add_entries n a b \<noteq> None"
  by (auto simp: add_entries_def)

lemma hash_table_lengths:
  "length attr_hash_table = 128" "length keyword_hash_table = 128" "length prj_hash_table = 128"
  by (simp_all add: attr_hash_table_def keyword_hash_table_def prj_hash_table_def)

interpretation attr: gperf 4 19 4 41 "map fst attr_wordlist" is_file_attribute_hash
proof
  show "list_all (\<lambda>i. map fst attr_wordlist ! i = [] \<or>
      is_file_attribute_hash (map fst attr_wordlist ! i) = Some i \<and> 4 \<le> i \<and>
      4 \<le> length (map fst attr_wordlist ! i) \<and> length (map fst attr_wordlist ! i) \<le> 19)
    [0..<length (map fst attr_wordlist)]"
    by code_simp
  show "length (map fst attr_wordlist) = 41 + 1" by code_simp
  show "is_file_attribute_hash s \<noteq> None" if "ascii s" and "4 \<le> length s" for s
  proof -
    have "s \<noteq> []" using that(2) by auto
    then show ?thesis
      using that(1) by (auto simp: is_file_attribute_hash_def hash_table_lengths
        intro!: add_entries_defined [THEN not_None_eq [THEN iffD1]] char_entry_ascii [THEN not_None_eq [THEN iffD1]])
  qed
qed simp

interpretation kwd: gperf 2 19 4 26 keyword_wordlist is_builtin_keyword_hash
proof
  show "list_all (\<lambda>i. keyword_wordlist ! i = [] \<or>
      is_builtin_keyword_hash (keyword_wordlist ! i) = Some i \<and> 4 \<le> i \<and>
      2 \<le> length (keyword_wordlist ! i) \<and> length (keyword_wordlist ! i) \<le> 19)
    [0..<length keyword_wordlist]"
    by code_simp
  show "length keyword_wordlist = 26 + 1" by code_simp
  show "is_builtin_keyword_hash s \<noteq> None" if "ascii s" and "2 \<le> length s" for s
  proof -
    have "s \<noteq> []" using that(2) by auto
    then show ?thesis
      using that(1) by (auto simp: is_builtin_keyword_hash_def hash_table_lengths
        intro!: add_entries_defined [THEN not_None_eq [THEN iffD1]] char_entry_ascii [THEN not_None_eq [THEN iffD1]])
  qed
qed simp

interpretation prj: gperf 5 23 5 32 pftable prj_lookup_hash
proof
  show "list_all (\<lambda>i. pftable ! i = [] \<or>
      prj_lookup_hash (pftable ! i) = Some i \<and> 5 \<le> i \<and>
      5 \<le> length (pftable ! i) \<and> length (pftable ! i) \<le> 23)
    [0..<length pftable]"
    by code_simp
  show "length pftable = 32 + 1" by code_simp
  show "prj_lookup_hash s \<noteq> None" if "ascii s" and "5 \<le> length s" for s
  proof -
    have "s \<noteq> []" using that(2) by auto
    then show ?thesis
      using that(1) by (auto simp: prj_lookup_hash_def hash_table_lengths
        intro!: add_entries_defined [THEN not_None_eq [THEN iffD1]] char_entry_ascii [THEN not_None_eq [THEN iffD1]])
  qed
qed simp

section \<open>Attribute sets\<close>

text \<open>\<open>default_merge_descs\<close> of \<open>src/src/merge.cc\<close>.\<close>

definition default_merge_descs :: "string option list" where
  "default_merge_descs = [
     None,
     Some (''There are no equivalent files among the three files in each version.  '' @
       ''It is assumed that you are interested in merging the selected '' @
       ''version's changes with your changes.  Therefore, the default action is '' @
       ''merge''),
     Some (''Your version of the file is unchanged from the common version, yet '' @
       ''the selected version has been modified.  It is assumed then, that the '' @
       ''selected version of the file is more up to date, and the default '' @
       ''action is to replace your file with the file from the selected '' @
       ''version''),
     None,
     None,
     Some (''The file has been deleted from your working version of the project, '' @
       ''and still exists in the selected version.  The selected version has '' @
       ''not been modified, so it is assumed that the file is obsolete''),
     Some (''The file has been deleted from the selected of the project, and still '' @
       ''exists in your version.  You have not modified the file, so your version '' @
       ''is assumed to be obsolete.  Therefore, the default action is delete''),
     None,
     Some (''The file has been deleted from your working version of the project, '' @
       ''and still exists in the selected version.  The selected version has '' @
       ''been modified, but it is still assumed that the file is obsolete''),
     Some (''The file has been deleted from the selected of the project, and still '' @
       ''exists in your version.  You have modified the file, so it is not clear '' @
       ''what to do.  The default action is delete''),
     Some (''The file exists in both the selected version and your version, but '' @
       ''not in the common version.  The files differ.  The default action is '' @
       ''to merge, with an empty file used as the common version.  This is '' @
       ''likely to produce serious conflicts''),
     None,
     None,
     Some (''The file exists only in the selected version.  Niether the common '' @
       ''version nor your working version of the project contain the file.  The '' @
       ''default action is to add the file'')]"

text \<open>
  The fields of \<open>PrcsAttrs\<close>, without the pointer back to the project descriptor whose table
  holds the set.
\<close>

record PrcsAttrs =
  vals :: "string list"
  ngroup :: nat
  attrs_type :: FileType
  keyword_sub :: bool
  mergetool :: string
  difftool :: string
  merge_actions :: "MergeAction list"
  merge_descs :: "string option list"

text \<open>
  The constructor: the tools come from the environment variables \<open>PRCS_MERGE_COMMAND\<close> and
  \<open>PRCS_DIFF_COMMAND\<close>, which are arguments here.
\<close>

record ToolEnv =
  env_merge :: "string option"
  env_diff :: "string option"

definition new_PrcsAttrs :: "ToolEnv \<Rightarrow> string list \<Rightarrow> nat \<Rightarrow> PrcsAttrs" where
  "new_PrcsAttrs env vals0 ngroup0 =
     \<lparr>vals = vals0, ngroup = ngroup0, attrs_type = RealFile, keyword_sub = True,
      mergetool = (case env_merge env of None \<Rightarrow> [] | Some e \<Rightarrow> e),
      difftool = (case env_diff env of None \<Rightarrow> [] | Some e \<Rightarrow> e),
      merge_actions = default_merge_actions, merge_descs = default_merge_descs\<rparr>"

text \<open>The two halves of an attribute at its first equal sign.\<close>

definition attr_split :: "string \<Rightarrow> string \<times> string" where
  "attr_split tv =
     (case strchr tv (CHR ''='') of
        None \<Rightarrow> (tv, [])
      | Some equal_ptr \<Rightarrow> (take (length tv - length equal_ptr) tv, tl equal_ptr))"

definition mergerule_of :: "AttrType \<Rightarrow> nat option" where
  "mergerule_of t = (case t of
      Mergerule1Attr \<Rightarrow> Some 0 | Mergerule2Attr \<Rightarrow> Some 1 | Mergerule3Attr \<Rightarrow> Some 2
    | Mergerule4Attr \<Rightarrow> Some 3 | Mergerule5Attr \<Rightarrow> Some 4 | Mergerule6Attr \<Rightarrow> Some 5
    | Mergerule7Attr \<Rightarrow> Some 6 | Mergerule8Attr \<Rightarrow> Some 7 | Mergerule9Attr \<Rightarrow> Some 8
    | Mergerule10Attr \<Rightarrow> Some 9 | Mergerule11Attr \<Rightarrow> Some 10 | Mergerule12Attr \<Rightarrow> Some 11
    | Mergerule13Attr \<Rightarrow> Some 12 | Mergerule14Attr \<Rightarrow> Some 13 | _ \<Rightarrow> None)"

definition seen_type_attr :: "AttrType \<Rightarrow> bool" where
  "seen_type_attr t \<longleftrightarrow> t \<in> {RealFileAttr, DirectoryAttr, SymlinkAttr}"

text \<open>The character at index 0 of a \<open>Dstring\<close>, its terminating NUL when it is empty.\<close>

definition index0 :: "string \<Rightarrow> char" where
  "index0 s = (case s of [] \<Rightarrow> NUL | c # _ \<Rightarrow> c)"

text \<open>One turn of the loop of \<open>validate_attrs\<close>; the state is \<open>seen_type\<close>.\<close>

definition validate_attr :: "bool \<Rightarrow> string \<Rightarrow> failure + bool" where
  "validate_attr seen_type tv =
     (let (an, av) = attr_split tv
      in case is_file_attribute an of
           None \<Rightarrow> Inl Undefined
         | Some None \<Rightarrow> Inl (Err NonFatalError)
         | Some (Some t) \<Rightarrow>
             if seen_type_attr t then
               (if seen_type then Inl (Err NonFatalError) else Inr True)
             else if mergerule_of t \<noteq> None then
               (if length av \<noteq> 1 \<or> strchr ''andrm'' (index0 av) = None then Inl (Err NonFatalError)
                else Inr seen_type)
             else if t = MergetoolAttr \<or> t = DifftoolAttr then
               (if length av < 1 then Inl (Err NonFatalError) else Inr seen_type)
             else Inr seen_type)"

definition validate_attrs :: "string list \<Rightarrow> failure + unit" where
  "validate_attrs vs = ebind (efold validate_attr False vs) (\<lambda>_. Inr ())"

text \<open>
  One turn of the loop of \<open>init_attrs\<close>. An attribute that is not recognised is a null
  dereference. A letter outside the enumeration cannot be represented and counts as undefined.
\<close>

definition init_attr :: "PrcsAttrs \<Rightarrow> string \<Rightarrow> failure + PrcsAttrs" where
  "init_attr a tv =
     (let (an, av) = attr_split tv
      in case is_file_attribute an of
           None \<Rightarrow> Inl Undefined
         | Some None \<Rightarrow> Inl Undefined
         | Some (Some t) \<Rightarrow>
             (case mergerule_of t of
                Some mergerule \<Rightarrow>
                  (case char_action (index0 av) of
                     None \<Rightarrow> Inl Undefined
                   | Some act \<Rightarrow>
                       Inr (a\<lparr>merge_descs := (merge_descs a)[mergerule :=
                                Some ''User supplied action, no help available''],
                              merge_actions := (merge_actions a)[mergerule := act]\<rparr>))
              | None \<Rightarrow>
                  Inr (if t \<in> {RealFileAttr, ProjectFileAttr} then a\<lparr>attrs_type := RealFile\<rparr>
                       else if t \<in> {DirectoryAttr, ImplicitDirectoryAttr} then a\<lparr>attrs_type := Directory\<rparr>
                       else if t = SymlinkAttr then a\<lparr>attrs_type := SymLink\<rparr>
                       else if t = NoKeywordAttr then a\<lparr>keyword_sub := False\<rparr>
                       else if t = MergetoolAttr then a\<lparr>mergetool := av\<rparr>
                       else if t = DifftoolAttr then a\<lparr>difftool := av\<rparr>
                       else a)))"

definition init_attrs :: "PrcsAttrs \<Rightarrow> failure + PrcsAttrs" where
  "init_attrs a = efold init_attr a (vals a)"

text \<open>Accessors; \<open>merge_action\<close> counts rules from 0.\<close>

definition merge_tool :: "PrcsAttrs \<Rightarrow> string option" where
  "merge_tool a = (if 0 < length (mergetool a) then Some (mergetool a) else None)"

definition diff_tool :: "PrcsAttrs \<Rightarrow> string option" where
  "diff_tool a = (if 0 < length (difftool a) then Some (difftool a) else None)"

section \<open>Interning\<close>

fun same_vals :: "string list \<Rightarrow> string list \<Rightarrow> bool" where
  "same_vals (x # xs) (y # ys) = (x = y \<and> same_vals xs ys)"
| "same_vals _ _ = True"

definition attrs_equal :: "PrcsAttrs \<Rightarrow> PrcsAttrs \<Rightarrow> bool" where
  "attrs_equal x y =
     (if ngroup x \<noteq> ngroup y \<or> length (vals x) \<noteq> length (vals y) then False
      else same_vals (vals x) (vals y))"

definition attrs_hash :: "PrcsAttrs \<Rightarrow> nat \<Rightarrow> nat" where
  "attrs_hash s M = foldl (\<lambda>h p. h + hash_string p M) 0 (vals s) mod M"

type_synonym AttrsTable = "(PrcsAttrs, PrcsAttrs) HashTable"

definition intern_attrs ::
  "ToolEnv \<Rightarrow> AttrsTable \<Rightarrow> string list \<Rightarrow> nat \<Rightarrow> bool \<Rightarrow> failure + PrcsAttrs \<times> AttrsTable" where
  "intern_attrs env attrs_table tagvals ngroup0 validate =
     (let it = new_PrcsAttrs env tagvals ngroup0
      in case ht_lookup attrs_hash attrs_equal attrs_table it of
           Some lu \<Rightarrow> Inr (lu, attrs_table)
         | None \<Rightarrow>
             ebind (if validate then validate_attrs (vals it) else Inr ())
               (\<lambda>_. ebind (init_attrs it)
                  (\<lambda>it'. Inr (it', ht_insert attrs_hash attrs_equal attrs_table it' it'))))"

text \<open>\<open>print_to_string\<close>: the attributes that are not those of the enclosing group.\<close>

fun join_vals :: "string list \<Rightarrow> string" where
  "join_vals [] = []"
| "join_vals [v] = v"
| "join_vals (v # vs) = v @ '' '' @ join_vals vs"

definition print_to_string :: "PrcsAttrs \<Rightarrow> string \<Rightarrow> bool \<Rightarrow> string" where
  "print_to_string a str lead_if =
     str @ (if lead_if \<and> length (vals a) > ngroup a then '' '' else []) @ join_vals (drop (ngroup a) (vals a))"

section \<open>The lookup functions are exact\<close>

lemma attr_word_at:
  assumes "is_file_attribute s = Some (Some t)"
  shows "(s, t) \<in> set attr_wordlist \<and> s \<noteq> []"
proof -
  obtain i where i: "gperf_find 4 19 4 41 (map fst attr_wordlist) is_file_attribute_hash s = Some (Some i)"
    "t = snd (attr_wordlist ! i)"
    using assms by (auto simp: is_file_attribute_def)
  then have "i < length (map fst attr_wordlist) \<and> map fst attr_wordlist ! i = s \<and> s \<noteq> []"
    by (blast dest: attr.find_hit)
  then show ?thesis using i(2) by (auto simp: in_set_conv_nth intro!: exI [of _ i] prod_eqI)
qed

lemma attr_word_found:
  assumes "(s, t) \<in> set attr_wordlist" and "s \<noteq> []"
  shows "is_file_attribute s = Some (Some t)"
proof -
  obtain i where i: "i < length attr_wordlist" "attr_wordlist ! i = (s, t)"
    using assms(1) by (auto simp: in_set_conv_nth)
  then have "gperf_find 4 19 4 41 (map fst attr_wordlist) is_file_attribute_hash s = Some (Some i)"
    by (intro attr.find_word) (auto simp: assms(2))
  then show ?thesis using i(2) by (simp add: is_file_attribute_def)
qed

lemma is_file_attribute_defined: "ascii s \<Longrightarrow> is_file_attribute s \<noteq> None"
  using attr.find_defined [of s] by (simp add: is_file_attribute_def)

lemma is_file_attribute_map_of:
  assumes "ascii s" and "s \<noteq> []"
  shows "is_file_attribute s = Some (map_of attr_wordlist s)"
proof (cases "map_of attr_wordlist s")
  case (Some t)
  then show ?thesis using attr_word_found [OF map_of_SomeD assms(2)] by simp
next
  case None
  obtain r where r: "is_file_attribute s = Some r"
    using is_file_attribute_defined [OF assms(1)] by blast
  have "r = None"
  proof (cases r)
    case (Some t)
    then have "(s, t) \<in> set attr_wordlist" using attr_word_at r by simp
    with None show ?thesis by (auto simp: map_of_eq_None_iff image_iff)
  qed simp
  with r None show ?thesis by simp
qed

text \<open>
  C7. The three generated lookup functions are exact: on ASCII names each is defined, and it
  answers the entry of its table with exactly that name, or null when there is none. In
  particular no keyword of a table is hidden by a collision of the hash values.
\<close>
theorem perfect_hash_exact:
  assumes "ascii s" and "s \<noteq> []"
  shows "is_file_attribute s = Some (map_of attr_wordlist s) \<and>
    is_builtin_keyword s = Some (if s \<in> set keyword_wordlist then Some s else None) \<and>
    (\<forall>r. prj_lookup_func s = Some r \<longleftrightarrow>
       (case r of Some i \<Rightarrow> i < length pftable \<and> pftable ! i = s | None \<Rightarrow> s \<notin> set pftable))"
proof -
  have "is_builtin_keyword s = Some (if s \<in> set keyword_wordlist then Some s else None)"
  proof (cases "s \<in> set keyword_wordlist")
    case True
    then obtain i where "i < length keyword_wordlist" "keyword_wordlist ! i = s"
      by (auto simp: in_set_conv_nth)
    then show ?thesis using kwd.find_word [of i s] assms(2) True by (simp add: is_builtin_keyword_def)
  next
    case False
    then have "gperf_find 2 19 4 26 keyword_wordlist is_builtin_keyword_hash s = Some None"
      by (simp add: kwd.find_iff [OF assms(1)])
    then show ?thesis using False by (simp add: is_builtin_keyword_def)
  qed
  moreover have "prj_lookup_func s = Some r \<longleftrightarrow>
      (case r of Some i \<Rightarrow> i < length pftable \<and> pftable ! i = s | None \<Rightarrow> s \<notin> set pftable)" for r
    using assms(2) by (simp add: prj_lookup_func_def prj.find_iff [OF assms(1)] split: option.split)
  ultimately show ?thesis using is_file_attribute_map_of [OF assms] by simp
qed

theorem perfect_hash_exact_witness:
  "is_file_attribute '':mergerule7'' = Some (Some Mergerule7Attr) \<and>
   is_builtin_keyword ''ProjectHeader'' = Some (Some ''ProjectHeader'') \<and>
   prj_lookup_func ''Merge-Parents'' = Some (Some 28)"
proof -
  have a: "ascii '':mergerule7''" "ascii ''ProjectHeader''" "ascii ''Merge-Parents''" by code_simp+
  have "map_of attr_wordlist '':mergerule7'' = Some Mergerule7Attr"
    "''ProjectHeader'' \<in> set keyword_wordlist" "28 < length pftable" "pftable ! 28 = ''Merge-Parents''"
    by code_simp+
  then show ?thesis
    using perfect_hash_exact [OF a(1)] perfect_hash_exact [OF a(2)] perfect_hash_exact [OF a(3)] by simp
qed

section \<open>What the attributes of a file set\<close>

text \<open>The value of the last list element on which \<open>f\<close> gives one.\<close>

definition last_setting :: "('a \<Rightarrow> 'b option) \<Rightarrow> 'a list \<Rightarrow> 'b option" where
  "last_setting f vs = foldl (\<lambda>r v. case f v of None \<Rightarrow> r | Some x \<Rightarrow> Some x) None vs"

lemma last_setting_Nil [simp]: "last_setting f [] = None"
  by (simp add: last_setting_def)

lemma last_setting_snoc [simp]:
  "last_setting f (vs @ [v]) = (case f v of None \<Rightarrow> last_setting f vs | Some x \<Rightarrow> Some x)"
  by (cases "f v") (simp_all add: last_setting_def)

definition rule_names :: "string list" where
  "rule_names = ['':mergerule1'', '':mergerule2'', '':mergerule3'', '':mergerule4'', '':mergerule5'',
     '':mergerule6'', '':mergerule7'', '':mergerule8'', '':mergerule9'', '':mergerule10'',
     '':mergerule11'', '':mergerule12'', '':mergerule13'', '':mergerule14'']"

definition rule_setting :: "nat \<Rightarrow> string \<Rightarrow> MergeAction option" where
  "rule_setting k v = (if fst (attr_split v) = rule_names ! k then char_action (index0 (snd (attr_split v))) else None)"

definition type_names :: "(string \<times> FileType) list" where
  "type_names =
     [('':real-file'', RealFile), ('':project-file'', RealFile), ('':directory'', Directory),
      ('':implicit-directory'', Directory), ('':symlink'', SymLink)]"

definition type_setting :: "string \<Rightarrow> FileType option" where
  "type_setting v =
     map_of type_names (fst (attr_split v))"

definition tool_setting :: "string \<Rightarrow> string \<Rightarrow> string option" where
  "tool_setting name v = (if fst (attr_split v) = name then Some (snd (attr_split v)) else None)"

definition set_by :: "ToolEnv \<Rightarrow> string list \<Rightarrow> PrcsAttrs \<Rightarrow> bool" where
  "set_by env vs a \<longleftrightarrow>
     attrs_type a = case_option RealFile id (last_setting type_setting vs) \<and>
     keyword_sub a = ('':no-keywords'' \<notin> fst ` attr_split ` set vs) \<and>
     mergetool a = case_option (case_option [] id (env_merge env)) id (last_setting (tool_setting '':mergetool'') vs) \<and>
     difftool a = case_option (case_option [] id (env_diff env)) id (last_setting (tool_setting '':difftool'') vs) \<and>
     length (merge_actions a) = 14 \<and>
     (\<forall>k < 14. merge_actions a ! k = case_option (default_merge_actions ! k) id (last_setting (rule_setting k) vs))"

lemma rule_word:
  assumes "(n, t) \<in> set attr_wordlist" and "n \<noteq> []"
  shows "case mergerule_of t of Some k \<Rightarrow> k < 14 \<and> n = rule_names ! k | None \<Rightarrow> n \<notin> set rule_names"
proof -
  have "list_all (\<lambda>(n, t). n = [] \<or>
      (case mergerule_of t of Some k \<Rightarrow> k < 14 \<and> n = rule_names ! k | None \<Rightarrow> n \<notin> set rule_names)) attr_wordlist"
    by code_simp
  then show ?thesis using assms by (auto simp: list_all_iff)
qed

definition plain_word :: "string \<Rightarrow> AttrType \<Rightarrow> bool" where
  "plain_word n t \<longleftrightarrow>
     (n = '':no-keywords'' \<longleftrightarrow> t = NoKeywordAttr) \<and> (n = '':mergetool'' \<longleftrightarrow> t = MergetoolAttr) \<and>
     (n = '':difftool'' \<longleftrightarrow> t = DifftoolAttr) \<and>
     map_of type_names n =
       (if t = RealFileAttr \<or> t = ProjectFileAttr then Some RealFile
        else if t = DirectoryAttr \<or> t = ImplicitDirectoryAttr then Some Directory
        else if t = SymlinkAttr then Some SymLink else None)"

lemma plain_word:
  assumes "(n, t) \<in> set attr_wordlist" and "n \<noteq> []"
  shows "plain_word n t"
proof -
  have "list_all (\<lambda>(n, t). n = [] \<or> plain_word n t) attr_wordlist"
    by code_simp
  then show ?thesis using assms by (auto simp: list_all_iff)
qed

lemma length_rule_names: "length rule_names = 14"
  by (simp add: rule_names_def)

lemma rule_names_inj: "i < 14 \<Longrightarrow> j < 14 \<Longrightarrow> rule_names ! i = rule_names ! j \<Longrightarrow> i = j"
proof -
  have "distinct rule_names" by code_simp
  moreover have "length rule_names = 14" by code_simp
  ultimately show "i < 14 \<Longrightarrow> j < 14 \<Longrightarrow> rule_names ! i = rule_names ! j \<Longrightarrow> i = j"
    by (simp add: nth_eq_iff_index_eq)
qed

lemma set_by_new: "set_by env [] (new_PrcsAttrs env vs n)"
  by (simp add: set_by_def new_PrcsAttrs_def default_merge_actions_def option.case_eq_if)

lemma init_attr_step:
  assumes a: "set_by env vs a" and a': "init_attr a v = Inr a'"
  shows "set_by env (vs @ [v]) a'" and "vals a' = vals a" and "ngroup a' = ngroup a"
proof -
  obtain an av where v: "attr_split v = (an, av)" by (cases "attr_split v")
  obtain t where t: "is_file_attribute an = Some (Some t)"
    using a' by (auto simp: init_attr_def v split: option.splits)
  note w = attr_word_at [OF t, THEN conjunct1] attr_word_at [OF t, THEN conjunct2]
  show "vals a' = vals a" "ngroup a' = ngroup a"
    using a' by (auto simp: init_attr_def v t split: option.splits if_splits)
  have p: "(an = '':no-keywords'') = (t = NoKeywordAttr)"
    "tool_setting '':mergetool'' v = (if t = MergetoolAttr then Some av else None)"
    "tool_setting '':difftool'' v = (if t = DifftoolAttr then Some av else None)"
    "type_setting v = (if t = RealFileAttr \<or> t = ProjectFileAttr then Some RealFile
      else if t = DirectoryAttr \<or> t = ImplicitDirectoryAttr then Some Directory
      else if t = SymlinkAttr then Some SymLink else None)"
    using plain_word [OF w] by (simp_all add: plain_word_def tool_setting_def type_setting_def v)
  have img: "('':no-keywords'' \<notin> fst ` attr_split ` set (vs @ [v])) =
      ('':no-keywords'' \<notin> fst ` attr_split ` set vs \<and> t \<noteq> NoKeywordAttr)"
    using p(1) by (auto simp: v)
  show "set_by env (vs @ [v]) a'"
  proof (cases "mergerule_of t")
    case None
    have r: "rule_setting k v = None" if "k < 14" for k
      using rule_word [OF w] None that by (auto simp: rule_setting_def v in_set_conv_nth length_rule_names)
    have "a' = (if t \<in> {RealFileAttr, ProjectFileAttr} then a\<lparr>attrs_type := RealFile\<rparr>
       else if t \<in> {DirectoryAttr, ImplicitDirectoryAttr} then a\<lparr>attrs_type := Directory\<rparr>
       else if t = SymlinkAttr then a\<lparr>attrs_type := SymLink\<rparr>
       else if t = NoKeywordAttr then a\<lparr>keyword_sub := False\<rparr>
       else if t = MergetoolAttr then a\<lparr>mergetool := av\<rparr>
       else if t = DifftoolAttr then a\<lparr>difftool := av\<rparr>
       else a)"
      using a' None by (simp add: init_attr_def v t)
    then show ?thesis
      using a r unfolding set_by_def img last_setting_snoc p(2-)
      by (cases t) simp_all
  next
    case (Some k)
    then obtain act where act: "char_action (index0 av) = Some act"
      using a' by (auto simp: init_attr_def v t split: option.splits)
    have k: "k < 14" "an = rule_names ! k" using rule_word [OF w] Some by auto
    have r: "rule_setting j v = (if j = k then Some act else None)" if "j < 14" for j
      using k rule_names_inj [OF that k(1)] act by (auto simp: rule_setting_def v)
    have a'': "a' = a\<lparr>merge_descs := (merge_descs a)[k :=
        Some ''User supplied action, no help available''], merge_actions := (merge_actions a)[k := act]\<rparr>"
      using a' Some act by (simp add: init_attr_def v t)
    have "t \<notin> {RealFileAttr, NoKeywordAttr, DirectoryAttr, SymlinkAttr, ImplicitDirectoryAttr,
      ProjectFileAttr, TagAttr, MergetoolAttr, DifftoolAttr}"
      using Some by (auto simp: mergerule_of_def)
    then show ?thesis
      using a k(1) r unfolding set_by_def img last_setting_snoc p(2-) a''
      by (simp add: nth_list_update)
  qed
qed

lemma efold_init:
  "efold init_attr a ws = Inr a' \<Longrightarrow> set_by env vs a \<Longrightarrow>
     set_by env (vs @ ws) a' \<and> vals a' = vals a \<and> ngroup a' = ngroup a"
proof (induction ws arbitrary: a vs)
  case Nil
  then show ?case by simp
next
  case (Cons w ws)
  then obtain b where b: "init_attr a w = Inr b" "efold init_attr b ws = Inr a'"
    by (auto simp: ebind_eq_Inr)
  show ?case
    using Cons.IH [OF b(2) init_attr_step(1) [OF Cons.prems(2) b(1)]]
      init_attr_step(2,3) [OF Cons.prems(2) b(1)] by simp
qed

lemma init_attrs_set_by:
  assumes "init_attrs (new_PrcsAttrs env vs n) = Inr a"
  shows "vals a = vs \<and> ngroup a = n \<and> set_by env vs a"
  using efold_init [OF assms [unfolded init_attrs_def] set_by_new]
  by (simp add: new_PrcsAttrs_def)

lemma andrm_action: "strchr ''andrm'' c \<noteq> None \<Longrightarrow> char_action c \<noteq> None"
  by (auto simp: char_action_def)

lemma validated_init_attr: "validate_attr b v = Inr b' \<Longrightarrow> \<exists>a'. init_attr a v = Inr a'"
proof -
  assume ok: "validate_attr b v = Inr b'"
  obtain an av where v: "attr_split v = (an, av)" by (cases "attr_split v")
  obtain t where t: "is_file_attribute an = Some (Some t)"
    using ok by (auto simp: validate_attr_def v split: option.splits)
  show ?thesis
  proof (cases "mergerule_of t")
    case None
    then show ?thesis by (simp add: init_attr_def v t)
  next
    case (Some k)
    then have "\<not> seen_type_attr t" by (auto simp: seen_type_attr_def mergerule_of_def)
    with ok Some have "strchr ''andrm'' (index0 av) \<noteq> None"
      by (auto simp: validate_attr_def v t simp del: strchr.simps strchr_None split: if_splits)
    with andrm_action obtain act where "char_action (index0 av) = Some act" by fastforce
    then show ?thesis using Some by (simp add: init_attr_def v t)
  qed
qed

lemma validated_init: "efold validate_attr b vs = Inr b' \<Longrightarrow> \<exists>a'. efold init_attr a vs = Inr a'"
proof (induction vs arbitrary: a b)
  case Nil
  then show ?case by simp
next
  case (Cons v vs)
  then obtain c where c: "validate_attr b v = Inr c" "efold validate_attr c vs = Inr b'"
    by (auto simp: ebind_eq_Inr)
  obtain d where "init_attr a v = Inr d" using validated_init_attr [OF c(1)] by blast
  then show ?case using Cons.IH [OF c(2)] by simp
qed

text \<open>
  C5. Attributes that passed \<open>validate_attrs\<close> are initialised without undefined behaviour, and
  the initialised set says what the list says: the action of rule \<open>k\<close> is the one of the last
  \<open>:mergerule\<close> attribute for \<open>k\<close> and the default action when there is none, the file type is the
  one of the last attribute that names a type and \<open>RealFile\<close> otherwise, keywords are substituted
  unless \<open>:no-keywords\<close> is present, and the tools are those of the last \<open>:mergetool\<close> and
  \<open>:difftool\<close> and of the environment otherwise. So the code takes lists that the documentation calls
  errors: \<open>NEWS\<close> says that no attribute but \<open>:tag\<close> may be repeated and that a rule takes only the actions
  that fit the files it is for, and the manual that \<open>:no-keywords\<close> may not stand with \<open>:symlink\<close> or
  \<open>:directory\<close>.
\<close>

theorem validated_attrs_initialised:
  assumes "validate_attrs vs = Inr ()"
  shows "\<exists>a. init_attrs (new_PrcsAttrs env vs n) = Inr a \<and> vals a = vs \<and> ngroup a = n \<and> set_by env vs a"
proof -
  obtain b where "efold validate_attr False vs = Inr b"
    using assms by (auto simp: validate_attrs_def ebind_eq_Inr)
  then obtain a where "efold init_attr (new_PrcsAttrs env vs n) vs = Inr a"
    using validated_init by blast
  then have "init_attrs (new_PrcsAttrs env vs n) = Inr a"
    by (simp add: init_attrs_def new_PrcsAttrs_def)
  then show ?thesis using init_attrs_set_by by blast
qed

theorem validated_attrs_initialised_witness:
  "\<exists>a. init_attrs (new_PrcsAttrs \<lparr>env_merge = None, env_diff = Some ''diff''\<rparr>
      ['':mergerule4=m'', '':symlink''] 0) = Inr a \<and> attrs_type a = SymLink \<and>
    merge_actions a ! 3 = Merge \<and> merge_actions a ! 13 = Add \<and> keyword_sub a \<and> difftool a = ''diff''"
proof -
  let ?vs = "['':mergerule4=m'', '':symlink'']" and ?env = "\<lparr>env_merge = None, env_diff = Some ''diff''\<rparr>"
  have "validate_attrs ?vs = Inr ()" by code_simp
  then obtain a where a: "init_attrs (new_PrcsAttrs ?env ?vs 0) = Inr a" "set_by ?env ?vs a"
    using validated_attrs_initialised [of ?vs ?env 0] by blast
  have "last_setting type_setting ?vs = Some SymLink" "last_setting (rule_setting 3) ?vs = Some Merge"
    "last_setting (rule_setting 13) ?vs = None" "default_merge_actions ! 13 = Add"
    "'':no-keywords'' \<notin> fst ` attr_split ` set ?vs" "last_setting (tool_setting '':difftool'') ?vs = None"
    by code_simp+
  then have "attrs_type a = SymLink \<and> merge_actions a ! 3 = Merge \<and> merge_actions a ! 13 = Add \<and>
      keyword_sub a \<and> difftool a = ''diff''"
    using a(2) unfolding set_by_def by simp
  with a(1) show ?thesis by blast
qed

section \<open>Interned attribute sets\<close>

lemma same_vals_eq: "length xs = length ys \<Longrightarrow> same_vals xs ys \<longleftrightarrow> xs = ys"
  by (induction xs ys rule: list_induct2) auto

lemma attrs_equal_iff: "attrs_equal x y \<longleftrightarrow> ngroup x = ngroup y \<and> vals x = vals y"
  by (auto simp: attrs_equal_def same_vals_eq)

interpretation attrs: key_hash attrs_hash attrs_equal
  by unfold_locales (auto simp: attrs_equal_iff attrs_hash_def)

text \<open>A set in the table was initialised from its own list.\<close>

definition attrs_inv :: "ToolEnv \<Rightarrow> AttrsTable \<Rightarrow> bool" where
  "attrs_inv env t \<longleftrightarrow>
     ht_inv attrs_hash attrs_equal t \<and>
     (\<forall>x a. ht_lookup attrs_hash attrs_equal t x = Some a \<longrightarrow>
        init_attrs (new_PrcsAttrs env (vals x) (ngroup x)) = Inr a)"

lemma attrs_inv_empty: "attrs_inv env ht_empty"
  by (simp add: attrs_inv_def attrs.ht.invar_empty attrs.ht.lookup_empty)

lemma intern_attrs_cases:
  assumes t: "attrs_inv env t" and r: "intern_attrs env t vs n v = Inr (a, t')"
  shows "init_attrs (new_PrcsAttrs env vs n) = Inr a" and "attrs_inv env t'"
    and "ht_lookup attrs_hash attrs_equal t' (new_PrcsAttrs env vs n) = Some a"
proof -
  let ?it = "new_PrcsAttrs env vs n"
  have inv: "ht_inv attrs_hash attrs_equal t"
    and own: "ht_lookup attrs_hash attrs_equal t x = Some b \<Longrightarrow>
      init_attrs (new_PrcsAttrs env (vals x) (ngroup x)) = Inr b" for x b
    using t by (auto simp: attrs_inv_def)
  have it: "vals ?it = vs" "ngroup ?it = n" by (simp_all add: new_PrcsAttrs_def)
  show init: "init_attrs ?it = Inr a"
  proof (cases "ht_lookup attrs_hash attrs_equal t ?it")
    case None
    then show ?thesis using r by (auto simp: intern_attrs_def Let_def ebind_eq_Inr)
  next
    case (Some lu)
    then show ?thesis using r own [of ?it lu] by (simp add: intern_attrs_def Let_def it)
  qed
  have a: "vals a = vs" "ngroup a = n" using init_attrs_set_by [OF init] by auto
  have "attrs_inv env t' \<and> ht_lookup attrs_hash attrs_equal t' ?it = Some a"
  proof (cases "ht_lookup attrs_hash attrs_equal t ?it")
    case None
    then have t': "t' = ht_insert attrs_hash attrs_equal t a a"
      using r by (auto simp: intern_attrs_def Let_def ebind_eq_Inr)
    have lu: "ht_lookup attrs_hash attrs_equal t' y =
        (if attrs_equal y a then Some a else ht_lookup attrs_hash attrs_equal t y)" for y
      unfolding t' by (rule attrs.ht.lookup_insert [OF inv])
    have "ht_inv attrs_hash attrs_equal t'" unfolding t' by (rule attrs.ht.invar_insert [OF inv])
    moreover have "init_attrs (new_PrcsAttrs env (vals x) (ngroup x)) = Inr b"
      if "ht_lookup attrs_hash attrs_equal t' x = Some b" for x b
      using that lu [of x] own [of x b] init a by (auto simp: attrs_equal_iff split: if_splits)
    ultimately show ?thesis using lu [of ?it] a it by (auto simp: attrs_inv_def attrs_equal_iff)
  next
    case (Some lu)
    then show ?thesis using r t by (auto simp: intern_attrs_def Let_def)
  qed
  then show "attrs_inv env t'" "ht_lookup attrs_hash attrs_equal t' ?it = Some a" by auto
qed

text \<open>
  C6. \<open>intern_attrs\<close> answers the set initialised from the list it is given, whatever was interned
  before; the table stays one whose sets were initialised from their own lists; asking again
  answers the same set and leaves the table alone; and copying the attributes of an entry into
  any other project (\<open>FileEntry::set\<close>, without validation) succeeds, which is what the
  \<open>ASSERT\<close> there relies on.
\<close>
theorem intern_attrs_canonical:
  assumes "attrs_inv env t" and "intern_attrs env t vs n v = Inr (a, t')"
  shows "init_attrs (new_PrcsAttrs env vs n) = Inr a \<and> attrs_inv env t' \<and>
    (\<forall>v'. intern_attrs env t' vs n v' = Inr (a, t')) \<and>
    (\<forall>t2. attrs_inv env t2 \<longrightarrow> (\<exists>t3. intern_attrs env t2 vs n False = Inr (a, t3)))"
proof -
  note c = intern_attrs_cases [OF assms]
  have "\<exists>t3. intern_attrs env t2 vs n False = Inr (a, t3)" if "attrs_inv env t2" for t2
  proof (cases "ht_lookup attrs_hash attrs_equal t2 (new_PrcsAttrs env vs n)")
    case None
    then show ?thesis using c(1) by (simp add: intern_attrs_def Let_def)
  next
    case (Some lu)
    have "init_attrs (new_PrcsAttrs env (vals (new_PrcsAttrs env vs n)) (ngroup (new_PrcsAttrs env vs n))) = Inr lu"
      using that Some by (simp add: attrs_inv_def del: init_attrs_def)
    then have "lu = a" using c(1) by (simp add: new_PrcsAttrs_def)
    then show ?thesis using Some by (simp add: intern_attrs_def Let_def)
  qed
  moreover have "intern_attrs env t' vs n v' = Inr (a, t')" for v'
    using c(3) by (simp add: intern_attrs_def Let_def)
  ultimately show ?thesis using c(1,2) by blast
qed

theorem intern_attrs_canonical_witness:
  "\<exists>a t. intern_attrs \<lparr>env_merge = None, env_diff = None\<rparr> ht_empty ['':directory''] 0 True = Inr (a, t) \<and>
    attrs_inv \<lparr>env_merge = None, env_diff = None\<rparr> t \<and>
    intern_attrs \<lparr>env_merge = None, env_diff = None\<rparr> t ['':directory''] 0 False = Inr (a, t)"
proof -
  let ?env = "\<lparr>env_merge = None, env_diff = None\<rparr>" and ?vs = "['':directory'']"
  have ok: "validate_attrs ?vs = Inr ()" "\<not> Option.is_none (case init_attrs (new_PrcsAttrs ?env ?vs 0) of Inl _ \<Rightarrow> None | Inr a \<Rightarrow> Some a)"
    by code_simp+
  then obtain a where "init_attrs (new_PrcsAttrs ?env ?vs 0) = Inr a"
    by (auto split: sum.splits)
  then have "intern_attrs ?env ht_empty ?vs 0 True =
      Inr (a, ht_insert attrs_hash attrs_equal ht_empty a a)"
    using ok(1) by (simp add: intern_attrs_def Let_def attrs.ht.lookup_empty) (simp add: new_PrcsAttrs_def)
  then show ?thesis using intern_attrs_canonical [OF attrs_inv_empty] by blast
qed

end
