(* ===== verification/Lock.thy ===== *)
theory Lock
  imports Effects
begin

text \<open>
  The advisory lock of a repository, \<open>src/src/lock.cc\<close> and \<open>src/src/include/lock.h\<close>.
  A lock is two files, \<open>.writers\<close>, created exclusively by whoever writes or is about
  to change the readers, and \<open>.readers\<close>, with one banner per reader. Any number of
  processes run the code; every call that touches a file is one step, so that the steps
  of several processes interleave, and every call may fail where the code checks it.
\<close>

section \<open>How old a lock is\<close>

datatype lock_result = LOCK_SUCCESS | LOCK_FAIL | LOCK_TRY_AGAIN | LOCK_TRY_STEAL | LOCK_AVAILABLE

definition STALE_LOCK_TIMEOUT :: int where
  "STALE_LOCK_TIMEOUT = 600"

text \<open>The text after the fifth space of a line.\<close>

fun after_spaces :: "nat \<Rightarrow> string \<Rightarrow> string option" where
  "after_spaces n [] = None"
| "after_spaces n (c # cs) =
     (if c = CHR '' '' then (if n = 1 then Some cs else after_spaces (n - 1) cs) else after_spaces n cs)"

text \<open>
  \<open>get_file_age\<close>: the file is its lines, \<open>None\<close> when it cannot be opened. The first
  line, the header, is skipped, and so is a line that begins with a space, a banner that
  was blanked. \<open>str2time\<close> reads a date.
\<close>

fun youngest_banner :: "(string \<Rightarrow> int) \<Rightarrow> int \<Rightarrow> string list \<Rightarrow> int" where
  "youngest_banner str2time y [] = y"
| "youngest_banner str2time y (l # ls) =
     (if l \<noteq> [] \<and> hd l = CHR '' '' then youngest_banner str2time y ls
      else (case after_spaces 5 l of
              None \<Rightarrow> youngest_banner str2time y ls
            | Some date \<Rightarrow> youngest_banner str2time (max y (str2time date)) ls))"

definition get_file_age :: "(string \<Rightarrow> int) \<Rightarrow> int \<Rightarrow> string list option \<Rightarrow> int" where
  "get_file_age str2time now file =
     now - (case file of None \<Rightarrow> 0 | Some [] \<Rightarrow> 0 | Some (header # ls) \<Rightarrow> youngest_banner str2time 0 ls)"

text \<open>
  The wait: \<open>sleep i\<close> is what the \<open>i\<close>-th call of \<open>sleep\<close> returns, the part of its one second that
  was left when a signal interrupted it, and \<open>stat_fails i\<close> says that the look after it finds the file
  gone. It may go on for ever when every sleep is interrupted: the value is then \<open>None\<close>.
\<close>

partial_function (option) wait_gone :: "(nat \<Rightarrow> nat) \<Rightarrow> (nat \<Rightarrow> bool) \<Rightarrow> nat \<Rightarrow> int \<Rightarrow> bool option" where
  "wait_gone sleep stat_fails i sleeptime =
     (if sleeptime > 0 then
        (if stat_fails i then Some True
         else wait_gone sleep stat_fails (i + 1) (sleeptime - (1 - int (sleep i))))
      else Some False)"

declare wait_gone.simps [code]

definition chilling_out :: "int \<Rightarrow> bool \<Rightarrow> (nat \<Rightarrow> nat) \<Rightarrow> (nat \<Rightarrow> bool) \<Rightarrow> lock_result option" where
  "chilling_out age wait sleep stat_fails =
     (if age < 0 then Some LOCK_AVAILABLE
      else if age > STALE_LOCK_TIMEOUT then Some LOCK_TRY_STEAL
      else if wait then
        map_option (\<lambda>gone. if gone then LOCK_AVAILABLE else LOCK_TRY_STEAL)
          (wait_gone sleep stat_fails 0 (STALE_LOCK_TIMEOUT - age))
      else Some LOCK_TRY_AGAIN)"

lemma wait_gone_uninterrupted:
  "(\<And>i. sleep i = 0) \<Longrightarrow> wait_gone sleep stat_fails i (int n) = Some (\<exists>j < n. stat_fails (i + j))"
proof (induction n arbitrary: i)
  case 0
  show ?case by (simp add: wait_gone.simps)
next
  case (Suc n)
  have split: "(\<exists>j < Suc n. stat_fails (i + j)) \<longleftrightarrow> stat_fails i \<or> (\<exists>j < n. stat_fails (i + 1 + j))"
    by (simp add: Ex_less_Suc2)
  show ?case
    unfolding split by (subst wait_gone.simps) (simp add: Suc.prems Suc.IH [OF Suc.prems, of "i + 1", simplified])
qed

section \<open>The protocol\<close>

text \<open>
  Where a process is. \<open>W\<close>: in \<open>write_lock\<close>, before the exclusive open, the look for the
  readers file, giving the writers file back, and the owner notice. \<open>R\<close>: in \<open>read_lock\<close>,
  the same for the writers file, then opening the readers file, writing the banner, and
  removing the writers file. \<open>U\<close>: in \<open>unlock\<close> of a reader. \<open>MaySteal\<close>: the call has returned
  \<open>LOCK_TRY_STEAL\<close>, which is when the caller may steal; \<open>S\<close>: in \<open>steal_lock\<close>. \<open>Broken\<close>
  is a process whose unlock returned false.
\<close>

datatype lock_pc =
    NoLock
  | WOpen | WCheck | WClose | WNotice | Writing
  | ROpenW | RNoticeW | ROpenR | RNotice | RUnlinkW | Reading
  | UOpenW | UNoticeW | UOpenR | UBlank | UScan | UUnlinkR | UUnlinkW
  | MaySteal | SUnlinkW
  | Broken

text \<open>
  \<open>wr\<close>: the writers file exists. \<open>rd\<close>: the readers file, as the list of its banners,
  false for one that was blanked. \<open>offset\<close> is \<open>rd_lock_banner_offset\<close>, counted in banners.
\<close>

record LockState =
  wr :: bool
  rd :: "bool list option"
  offset :: "nat \<Rightarrow> nat"
  pcs :: "nat \<Rightarrow> lock_pc"

definition goto :: "nat \<Rightarrow> lock_pc \<Rightarrow> LockState \<Rightarrow> LockState" where
  "goto p c s = s\<lparr>pcs := (pcs s)(p := c)\<rparr>"

text \<open>
  What may go wrong beyond a call that fails with a checked error: \<open>steals\<close>, a process
  that removes the lock of another, and \<open>read_errors\<close>, an error of the \<open>read\<close> in \<open>unlock\<close> or of the
  \<open>stat\<close> of the readers file in \<open>write_lock\<close>, which the code takes for the end of the file and for
  a file that is not there.
\<close>

record LockFaults =
  steals :: bool
  read_errors :: bool

inductive lock_step :: "LockFaults \<Rightarrow> LockState \<Rightarrow> LockState \<Rightarrow> bool" for F where
  call_write: "pcs s p = NoLock \<Longrightarrow> lock_step F s (goto p WOpen s)"
| call_read: "pcs s p = NoLock \<Longrightarrow> lock_step F s (goto p ROpenW s)"
| w_open: "pcs s p = WOpen \<Longrightarrow> \<not> wr s \<Longrightarrow> lock_step F s (goto p WCheck (s\<lparr>wr := True\<rparr>))"
| w_give_up: "pcs s p = WOpen \<Longrightarrow> lock_step F s (goto p NoLock s)"
| w_try_steal: "pcs s p = WOpen \<Longrightarrow> wr s \<Longrightarrow> lock_step F s (goto p MaySteal s)"
| w_free: "pcs s p = WCheck \<Longrightarrow> rd s = None \<Longrightarrow> lock_step F s (goto p WNotice s)"
| w_look_error: "pcs s p = WCheck \<Longrightarrow> read_errors F \<Longrightarrow> lock_step F s (goto p WNotice s)"
| w_readers: "pcs s p = WCheck \<Longrightarrow> rd s \<noteq> None \<Longrightarrow> lock_step F s (goto p WClose s)"
| w_close_fails: "pcs s p = WClose \<Longrightarrow> lock_step F s (goto p NoLock s)"
| w_unlink_retry: "pcs s p = WClose \<Longrightarrow> lock_step F s (goto p WOpen (s\<lparr>wr := False\<rparr>))"
| w_unlink_give_up: "pcs s p = WClose \<Longrightarrow> lock_step F s (goto p NoLock (s\<lparr>wr := False\<rparr>))"
| w_unlink_try_steal: "pcs s p = WClose \<Longrightarrow> lock_step F s (goto p MaySteal (s\<lparr>wr := False\<rparr>))"
| w_notice: "pcs s p = WNotice \<Longrightarrow> lock_step F s (goto p Writing s)"
| w_notice_fails: "pcs s p = WNotice \<Longrightarrow> lock_step F s (goto p NoLock s)"
| w_unlock: "pcs s p = Writing \<Longrightarrow> lock_step F s (goto p NoLock (s\<lparr>wr := False\<rparr>))"
| r_open_w: "pcs s p = ROpenW \<Longrightarrow> \<not> wr s \<Longrightarrow> lock_step F s (goto p RNoticeW (s\<lparr>wr := True\<rparr>))"
| r_give_up: "pcs s p = ROpenW \<Longrightarrow> lock_step F s (goto p NoLock s)"
| r_try_steal: "pcs s p = ROpenW \<Longrightarrow> wr s \<Longrightarrow> lock_step F s (goto p MaySteal s)"
| r_notice_w: "pcs s p = RNoticeW \<Longrightarrow> lock_step F s (goto p ROpenR s)"
| r_notice_w_fails: "pcs s p = RNoticeW \<Longrightarrow> lock_step F s (goto p NoLock s)"
| r_create: "pcs s p = ROpenR \<Longrightarrow> rd s = None \<Longrightarrow> lock_step F s (goto p RNotice (s\<lparr>rd := Some []\<rparr>))"
| r_open: "pcs s p = ROpenR \<Longrightarrow> rd s = Some bs \<Longrightarrow> lock_step F s (goto p RNotice s)"
| r_open_fails: "pcs s p = ROpenR \<Longrightarrow> lock_step F s (goto p NoLock s)"
| r_header_fails: "pcs s p = ROpenR \<Longrightarrow> rd s = None \<Longrightarrow> lock_step F s (goto p NoLock (s\<lparr>rd := Some []\<rparr>))"
| r_notice: "pcs s p = RNotice \<Longrightarrow> rd s = Some bs \<Longrightarrow>
    lock_step F s (goto p RUnlinkW (s\<lparr>rd := Some (bs @ [True]), offset := (offset s)(p := length bs)\<rparr>))"
| r_notice_fails: "pcs s p = RNotice \<Longrightarrow> lock_step F s (goto p NoLock s)"
| r_unlink_w: "pcs s p = RUnlinkW \<Longrightarrow> lock_step F s (goto p Reading (s\<lparr>wr := False\<rparr>))"
| r_unlink_w_fails: "pcs s p = RUnlinkW \<Longrightarrow> lock_step F s (goto p NoLock s)"
| r_close_fails: "pcs s p = RUnlinkW \<Longrightarrow> lock_step F s (goto p NoLock (s\<lparr>wr := False\<rparr>))"
| call_unlock: "pcs s p = Reading \<Longrightarrow> lock_step F s (goto p UOpenW s)"
| u_open_w: "pcs s p = UOpenW \<Longrightarrow> \<not> wr s \<Longrightarrow> lock_step F s (goto p UNoticeW (s\<lparr>wr := True\<rparr>))"
| u_give_up: "pcs s p = UOpenW \<Longrightarrow> lock_step F s (goto p Broken s)"
| u_notice_w: "pcs s p = UNoticeW \<Longrightarrow> lock_step F s (goto p UOpenR s)"
| u_notice_w_fails: "pcs s p = UNoticeW \<Longrightarrow> lock_step F s (goto p Broken s)"
| u_open_r: "pcs s p = UOpenR \<Longrightarrow> rd s = Some bs \<Longrightarrow> lock_step F s (goto p UBlank s)"
| u_fails: "pcs s p \<in> {UOpenR, UBlank, UScan, UUnlinkR, UUnlinkW} \<Longrightarrow>
    lock_step F s (goto p Broken (s\<lparr>wr := False\<rparr>))"
| u_fails_keep: "pcs s p \<in> {UOpenR, UBlank, UScan, UUnlinkR, UUnlinkW} \<Longrightarrow>
    lock_step F s (goto p Broken s)"
| u_blank: "pcs s p = UBlank \<Longrightarrow> rd s = Some bs \<Longrightarrow>
    lock_step F s (goto p UScan (s\<lparr>rd := Some (bs[offset s p := False])\<rparr>))"
| u_scan_last: "pcs s p = UScan \<Longrightarrow> rd s = Some bs \<Longrightarrow> True \<notin> set bs \<Longrightarrow> lock_step F s (goto p UUnlinkR s)"
| u_scan_more: "pcs s p = UScan \<Longrightarrow> rd s = Some bs \<Longrightarrow> True \<in> set bs \<Longrightarrow> lock_step F s (goto p UUnlinkW s)"
| u_scan_error: "pcs s p = UScan \<Longrightarrow> read_errors F \<Longrightarrow> lock_step F s (goto p UUnlinkR s)"
| u_unlink_r: "pcs s p = UUnlinkR \<Longrightarrow> lock_step F s (goto p UUnlinkW (s\<lparr>rd := None\<rparr>))"
| u_unlink_w: "pcs s p = UUnlinkW \<Longrightarrow> lock_step F s (goto p NoLock (s\<lparr>wr := False\<rparr>))"
| steal_declined: "pcs s p = MaySteal \<Longrightarrow> lock_step F s (goto p NoLock s)"
| steal_r: "steals F \<Longrightarrow> pcs s p = MaySteal \<Longrightarrow> lock_step F s (goto p SUnlinkW (s\<lparr>rd := None\<rparr>))"
| steal_w: "pcs s p = SUnlinkW \<Longrightarrow> lock_step F s (goto p NoLock (s\<lparr>wr := False\<rparr>))"
| steal_w_fails: "pcs s p = SUnlinkW \<Longrightarrow> lock_step F s (goto p NoLock s)"

definition lock_init :: LockState where
  "lock_init = \<lparr>wr = False, rd = None, offset = (\<lambda>_. 0), pcs = (\<lambda>_. NoLock)\<rparr>"

definition lock_reachable :: "LockFaults \<Rightarrow> LockState \<Rightarrow> bool" where
  "lock_reachable F s \<longleftrightarrow> (lock_step F)\<^sup>*\<^sup>* lock_init s"

section \<open>The invariant\<close>

text \<open>A process that has created the writers file, and one whose banner stands.\<close>

fun holds_wr :: "lock_pc \<Rightarrow> bool" where
  "holds_wr c \<longleftrightarrow> c \<in> {WCheck, WClose, WNotice, Writing, RNoticeW, ROpenR, RNotice, RUnlinkW,
     UNoticeW, UOpenR, UBlank, UScan, UUnlinkR, UUnlinkW}"

fun has_banner :: "lock_pc \<Rightarrow> bool" where
  "has_banner c \<longleftrightarrow> c \<in> {RUnlinkW, Reading, UOpenW, UNoticeW, UOpenR, UBlank}"

definition banner_ok :: "bool list option \<Rightarrow> nat \<Rightarrow> bool" where
  "banner_ok r i \<longleftrightarrow> (\<exists>bs. r = Some bs \<and> i < length bs \<and> bs ! i)"

definition lock_ok :: "bool \<Rightarrow> bool list option \<Rightarrow> (nat \<Rightarrow> nat) \<Rightarrow> (nat \<Rightarrow> lock_pc) \<Rightarrow> bool" where
  "lock_ok w r off pc \<longleftrightarrow>
     (\<forall>p q. holds_wr (pc p) \<longrightarrow> holds_wr (pc q) \<longrightarrow> p = q) \<and>
     (\<forall>p. holds_wr (pc p) \<longrightarrow> w) \<and>
     (\<forall>p. has_banner (pc p) \<longrightarrow> banner_ok r (off p)) \<and>
     (\<forall>p q. has_banner (pc p) \<longrightarrow> has_banner (pc q) \<longrightarrow> off p = off q \<longrightarrow> p = q) \<and>
     (\<forall>p. pc p \<in> {WNotice, Writing} \<longrightarrow> r = None) \<and>
     (\<forall>p. pc p = UUnlinkR \<longrightarrow> (\<forall>q. \<not> has_banner (pc q))) \<and>
     (\<forall>p. pc p \<noteq> SUnlinkW)"

definition lock_inv :: "LockState \<Rightarrow> bool" where
  "lock_inv s \<longleftrightarrow> lock_ok (wr s) (rd s) (offset s) (pcs s)"

declare holds_wr.simps [simp del] has_banner.simps [simp del]

lemma lock_okI:
  assumes "\<And>p q. holds_wr (pc p) \<Longrightarrow> holds_wr (pc q) \<Longrightarrow> p = q"
    and "\<And>p. holds_wr (pc p) \<Longrightarrow> w"
    and "\<And>p. has_banner (pc p) \<Longrightarrow> banner_ok r (off p)"
    and "\<And>p q. has_banner (pc p) \<Longrightarrow> has_banner (pc q) \<Longrightarrow> off p = off q \<Longrightarrow> p = q"
    and "\<And>p. pc p \<in> {WNotice, Writing} \<Longrightarrow> r = None"
    and "\<And>p q. pc p = UUnlinkR \<Longrightarrow> \<not> has_banner (pc q)"
    and "\<And>p. pc p \<noteq> SUnlinkW"
  shows "lock_ok w r off pc"
  using assms unfolding lock_ok_def by blast

lemma lock_okD:
  assumes "lock_ok w r off pc"
  shows "holds_wr (pc p) \<Longrightarrow> holds_wr (pc q) \<Longrightarrow> p = q"
    and "holds_wr (pc p) \<Longrightarrow> w"
    and "has_banner (pc p) \<Longrightarrow> banner_ok r (off p)"
    and "has_banner (pc p) \<Longrightarrow> has_banner (pc q) \<Longrightarrow> off p = off q \<Longrightarrow> p = q"
    and "pc p \<in> {WNotice, Writing} \<Longrightarrow> r = None"
    and "pc p = UUnlinkR \<Longrightarrow> \<not> has_banner (pc q)"
    and "pc p \<noteq> SUnlinkW"
  using assms unfolding lock_ok_def by blast+

lemma lock_inv_init: "lock_inv lock_init"
  unfolding lock_inv_def by (rule lock_okI) (simp_all add: lock_init_def holds_wr.simps has_banner.simps)

text \<open>One lemma per kind of step: changing the place only, taking and giving back the writers file.\<close>

lemma ok_goto:
  assumes ok: "lock_ok w r off pc" and "holds_wr c \<Longrightarrow> holds_wr (pc p)" and "has_banner c \<Longrightarrow> has_banner (pc p)"
    and "c \<in> {WNotice, Writing} \<Longrightarrow> r = None"
    and "c = UUnlinkR \<Longrightarrow> \<forall>q. \<not> has_banner (pc q)" and "c \<noteq> SUnlinkW"
  shows "lock_ok w r off (pc(p := c))"
proof (rule lock_okI)
  have h: "holds_wr ((pc(p := c)) x) \<Longrightarrow> holds_wr (pc x)" for x using assms(2) by (cases "x = p") simp_all
  have b: "has_banner ((pc(p := c)) x) \<Longrightarrow> has_banner (pc x)" for x using assms(3) by (cases "x = p") simp_all
  show "x = q" if "holds_wr ((pc(p := c)) x)" "holds_wr ((pc(p := c)) q)" for x q
    using lock_okD(1) [OF ok h [OF that(1)] h [OF that(2)]] .
  show w if "holds_wr ((pc(p := c)) x)" for x
    using lock_okD(2) [OF ok h [OF that]] .
  show "banner_ok r (off x)" if "has_banner ((pc(p := c)) x)" for x
    using lock_okD(3) [OF ok b [OF that]] .
  show "x = q" if "has_banner ((pc(p := c)) x)" "has_banner ((pc(p := c)) q)" "off x = off q" for x q
    using lock_okD(4) [OF ok b [OF that(1)] b [OF that(2)] that(3)] .
  show "r = None" if "(pc(p := c)) x \<in> {WNotice, Writing}" for x
    using that lock_okD(5) [OF ok, of x] assms(4) by (cases "x = p") simp_all
  show "\<not> has_banner ((pc(p := c)) q)" if "(pc(p := c)) x = UUnlinkR" for x q
    using that b [of q] lock_okD(6) [OF ok, of x q] assms(5) by (cases "x = p") auto
  show "(pc(p := c)) x \<noteq> SUnlinkW" for x
    using lock_okD(7) [OF ok, of x] assms(6) by (cases "x = p") simp_all
qed

lemma ok_wr_free: "lock_ok w r off pc \<Longrightarrow> (\<And>q. \<not> holds_wr (pc q)) \<Longrightarrow> lock_ok b r off pc"
  unfolding lock_ok_def by blast

lemma ok_acquire:
  assumes ok: "lock_ok False r off pc" and "holds_wr c" and "has_banner c = has_banner (pc p)"
    and "c \<notin> {WNotice, Writing, UUnlinkR, SUnlinkW}"
  shows "lock_ok True r off (pc(p := c))"
proof (rule lock_okI)
  have none: "\<not> holds_wr (pc q)" for q using lock_okD(2) [OF ok] by blast
  have h: "x = p" if "holds_wr ((pc(p := c)) x)" for x using none [of x] that by (cases "x = p") simp_all
  have b: "has_banner (pc x)" if "has_banner ((pc(p := c)) x)" for x using that assms(3) by (cases "x = p") simp_all
  show "x = q" if "holds_wr ((pc(p := c)) x)" "holds_wr ((pc(p := c)) q)" for x q
    using h [OF that(1)] h [OF that(2)] by simp
  show "banner_ok r (off x)" if "has_banner ((pc(p := c)) x)" for x
    using lock_okD(3) [OF ok b [OF that]] .
  show "x = q" if "has_banner ((pc(p := c)) x)" "has_banner ((pc(p := c)) q)" "off x = off q" for x q
    using lock_okD(4) [OF ok b [OF that(1)] b [OF that(2)] that(3)] .
  show "r = None" if "(pc(p := c)) x \<in> {WNotice, Writing}" for x
    using that lock_okD(5) [OF ok, of x] assms(4) by (cases "x = p") simp_all
  show "\<not> has_banner ((pc(p := c)) q)" if "(pc(p := c)) x = UUnlinkR" for x q
    using that b [of q] lock_okD(6) [OF ok, of x q] assms(4) by (cases "x = p") auto
  show "(pc(p := c)) x \<noteq> SUnlinkW" for x
    using lock_okD(7) [OF ok, of x] assms(4) by (cases "x = p") simp_all
qed simp_all

lemma ok_release:
  assumes ok: "lock_ok w r off pc" and "holds_wr (pc p)" and "\<not> holds_wr c" and "has_banner c \<Longrightarrow> has_banner (pc p)"
    and "c \<notin> {WNotice, Writing, UUnlinkR, SUnlinkW}"
  shows "lock_ok b r off (pc(p := c))"
proof (rule ok_wr_free)
  show "lock_ok w r off (pc(p := c))"
    by (rule ok_goto [OF ok]) (use assms(3-) in auto)
  show "\<not> holds_wr ((pc(p := c)) q)" for q
    using lock_okD(1) [OF ok _ assms(2), of q] assms(3) by (cases "q = p") auto
qed

text \<open>Changing the readers file while holding the writers file.\<close>

lemma ok_readers:
  assumes ok: "lock_ok w r off pc" and holds: "holds_wr (pc p)" and "pc p \<notin> {WNotice, Writing}"
    and banners: "\<And>q. has_banner ((pc(p := c)) q) \<Longrightarrow> banner_ok r' (off' q)"
    and apart: "\<And>q x. has_banner ((pc(p := c)) q) \<Longrightarrow> has_banner ((pc(p := c)) x) \<Longrightarrow> off' q = off' x \<Longrightarrow> q = x"
    and c: "c \<notin> {WNotice, Writing, UUnlinkR, SUnlinkW}"
  shows "lock_ok w r' off' (pc(p := c))"
proof (rule lock_okI)
  have other: "holds_wr (pc q) \<Longrightarrow> q = p" for q using lock_okD(1) [OF ok _ holds] .
  have h: "x = p" if "holds_wr ((pc(p := c)) x)" for x using other [of x] that by (cases "x = p") simp_all
  show "x = q" if "holds_wr ((pc(p := c)) x)" "holds_wr ((pc(p := c)) q)" for x q
    using h [OF that(1)] h [OF that(2)] by simp
  show w if "holds_wr ((pc(p := c)) x)" for x
    using lock_okD(2) [OF ok holds] .
  have not: "x \<noteq> p \<Longrightarrow> pc x \<notin> {WNotice, Writing, UUnlinkR}" for x
    using other [of x] by (auto simp: holds_wr.simps)
  show "r' = None" if "(pc(p := c)) x \<in> {WNotice, Writing}" for x
    using that not [of x] c by (cases "x = p") auto
  show "\<not> has_banner ((pc(p := c)) q)" if "(pc(p := c)) x = UUnlinkR" for x q
    using that not [of x] c by (cases "x = p") auto
  show "(pc(p := c)) x \<noteq> SUnlinkW" for x
    using lock_okD(7) [OF ok, of x] c by (cases "x = p") simp_all
qed (use banners apart in blast)+

lemmas lock_places = holds_wr.simps has_banner.simps

lemma goto_simps [simp]:
  "wr (goto p c s) = wr s" "rd (goto p c s) = rd s" "offset (goto p c s) = offset s"
  "pcs (goto p c s) = (pcs s)(p := c)"
  by (simp_all add: goto_def)

lemma lock_inv_step:
  assumes "lock_step F s t" and "lock_inv s" and "\<not> steals F" and "\<not> read_errors F"
  shows "lock_inv t"
proof -
  have ok: "lock_ok (wr s) (rd s) (offset s) (pcs s)" using assms(2) by (simp add: lock_inv_def)
  note move = ok_goto [OF ok] and release = ok_release [OF ok]
  show ?thesis
    using assms(1)
  proof cases
    case (r_create p)
    have "\<not> has_banner (pcs s q)" for q
      using lock_okD(3) [OF ok, of q] r_create(3) by (auto simp: banner_ok_def)
    then have "lock_ok (wr s) (Some []) (offset s) ((pcs s)(p := RNotice))"
      using r_create(2) by (intro ok_readers [OF ok]) (auto simp: lock_places split: if_splits)
    then show ?thesis using r_create(1) by (simp add: lock_inv_def)
  next
    case (r_header_fails p)
    have nb: "\<not> has_banner (pcs s q)" for q
      using lock_okD(3) [OF ok, of q] r_header_fails(3) by (auto simp: banner_ok_def)
    have nw: "pcs s q \<notin> {WNotice, Writing}" for q
      using lock_okD(1) [OF ok, of q p] r_header_fails(2) by (auto simp: lock_places)
    have "lock_ok (wr s) (Some []) (offset s) (pcs s)"
      using nb nw lock_okD [OF ok] by (intro lock_okI) blast+
    then have "lock_ok (wr s) (Some []) (offset s) ((pcs s)(p := NoLock))"
      by (rule ok_goto) (simp_all add: lock_places)
    then show ?thesis using r_header_fails(1) by (simp add: lock_inv_def)
  next
    case (r_notice p bs)
    have old: "banner_ok (Some bs) (offset s q)" if "has_banner (pcs s q)" for q
      using lock_okD(3) [OF ok that] r_notice(3) by simp
    have np: "\<not> has_banner (pcs s p)" using r_notice(2) by (simp add: lock_places)
    have "lock_ok (wr s) (Some (bs @ [True])) ((offset s)(p := length bs)) ((pcs s)(p := RUnlinkW))"
    proof (rule ok_readers [OF ok])
      show "banner_ok (Some (bs @ [True])) (((offset s)(p := length bs)) q)"
        if "has_banner (((pcs s)(p := RUnlinkW)) q)" for q
        using that old [of q] by (cases "q = p") (auto simp: banner_ok_def nth_append)
      show "q = x" if "has_banner (((pcs s)(p := RUnlinkW)) q)" "has_banner (((pcs s)(p := RUnlinkW)) x)"
        "((offset s)(p := length bs)) q = ((offset s)(p := length bs)) x" for q x
        using that old [of q] old [of x] lock_okD(4) [OF ok, of q x]
        by (cases "q = p"; cases "x = p") (auto simp: banner_ok_def)
    qed (use r_notice(2) in \<open>simp_all add: lock_places\<close>)
    then show ?thesis using r_notice(1) by (simp add: lock_inv_def)
  next
    case (u_blank p bs)
    have hp: "has_banner (pcs s p)" using u_blank(2) by (simp add: lock_places)
    have "lock_ok (wr s) (Some (bs[offset s p := False])) (offset s) ((pcs s)(p := UScan))"
    proof (rule ok_readers [OF ok])
      show "banner_ok (Some (bs[offset s p := False])) (offset s q)"
        if "has_banner (((pcs s)(p := UScan)) q)" for q
      proof -
        have q: "q \<noteq> p" "has_banner (pcs s q)" using that by (auto simp: lock_places split: if_splits)
        then have "offset s q \<noteq> offset s p" using lock_okD(4) [OF ok q(2) hp] by blast
        then show ?thesis using lock_okD(3) [OF ok q(2)] u_blank(3) by (simp add: banner_ok_def)
      qed
      show "q = x" if "has_banner (((pcs s)(p := UScan)) q)" "has_banner (((pcs s)(p := UScan)) x)"
        "offset s q = offset s x" for q x
        using that lock_okD(4) [OF ok, of q x] by (cases "q = p"; cases "x = p") (auto simp: lock_places)
    qed (use u_blank(2) in \<open>simp_all add: lock_places\<close>)
    then show ?thesis using u_blank(1) by (simp add: lock_inv_def)
  next
    case (u_unlink_r p)
    have nb: "\<not> has_banner (pcs s q)" for q using lock_okD(6) [OF ok u_unlink_r(2)] .
    have "lock_ok (wr s) (rd s) (offset s) ((pcs s)(p := UUnlinkW))"
      using u_unlink_r(2) by (intro ok_goto [OF ok]) (simp_all add: lock_places)
    note ok' = this
    have "\<not> has_banner (((pcs s)(p := UUnlinkW)) q)" for q
      using nb [of q] by (simp add: lock_places)
    then have "lock_ok (wr s) None (offset s) ((pcs s)(p := UUnlinkW))"
      using lock_okD [OF ok'] by (intro lock_okI) blast+
    then show ?thesis using u_unlink_r(1) by (simp add: lock_inv_def)
  next
    case (u_scan_last p bs)
    have "\<not> has_banner (pcs s q)" for q
      using lock_okD(3) [OF ok, of q] u_scan_last(3,4) by (auto simp: banner_ok_def in_set_conv_nth)
    then show ?thesis
      using u_scan_last(1,2) by (auto simp: lock_inv_def lock_places intro!: move)
  next
    case (u_fails p)
    then have "lock_ok False (rd s) (offset s) ((pcs s)(p := Broken))"
      by (intro release) (auto simp: lock_places)
    then show ?thesis using u_fails(1) by (simp add: lock_inv_def)
  next
    case (u_fails_keep p)
    then show ?thesis by (auto simp: lock_inv_def lock_places intro!: move)
  next
    case (w_open p)
    then show ?thesis
      using ok by (auto simp: lock_inv_def lock_places intro!: ok_acquire)
  next
    case (r_open_w p)
    then show ?thesis
      using ok by (auto simp: lock_inv_def lock_places intro!: ok_acquire)
  next
    case (u_open_w p)
    then show ?thesis
      using ok by (auto simp: lock_inv_def lock_places intro!: ok_acquire)
  next
    case (w_unlink_retry p)
    then show ?thesis by (auto simp: lock_inv_def lock_places intro!: release)
  next
    case (w_unlink_give_up p)
    then show ?thesis by (auto simp: lock_inv_def lock_places intro!: release)
  next
    case (w_unlink_try_steal p)
    then show ?thesis by (auto simp: lock_inv_def lock_places intro!: release)
  next
    case (w_try_steal p)
    then have "lock_ok (wr s) (rd s) (offset s) ((pcs s)(p := MaySteal))"
      by (intro move) (auto simp: lock_places)
    then show ?thesis using w_try_steal(1) by (simp add: lock_inv_def)
  next
    case (r_try_steal p)
    then have "lock_ok (wr s) (rd s) (offset s) ((pcs s)(p := MaySteal))"
      by (intro move) (auto simp: lock_places)
    then show ?thesis using r_try_steal(1) by (simp add: lock_inv_def)
  next
    case (w_unlock p)
    then show ?thesis by (auto simp: lock_inv_def lock_places intro!: release)
  next
    case (r_unlink_w p)
    then show ?thesis by (auto simp: lock_inv_def lock_places intro!: release)
  next
    case (r_close_fails p)
    then show ?thesis by (auto simp: lock_inv_def lock_places intro!: release)
  next
    case (u_unlink_w p)
    then show ?thesis by (auto simp: lock_inv_def lock_places intro!: release)
  next
    case (w_free p)
    then have "lock_ok (wr s) (rd s) (offset s) ((pcs s)(p := WNotice))"
      by (intro move) (auto simp: lock_places)
    then show ?thesis using w_free(1) by (simp add: lock_inv_def)
  next
    case (w_notice p)
    then have "lock_ok (wr s) (rd s) (offset s) ((pcs s)(p := Writing))"
      using lock_okD(5) [OF ok, of p] by (intro move) (auto simp: lock_places)
    then show ?thesis using w_notice(1) by (simp add: lock_inv_def)
  next
    case (r_open p bs)
    then have "lock_ok (wr s) (rd s) (offset s) ((pcs s)(p := RNotice))"
      by (intro move) (auto simp: lock_places)
    then show ?thesis using r_open(1) by (simp add: lock_inv_def)
  next
    case (u_open_r p bs)
    then have "lock_ok (wr s) (rd s) (offset s) ((pcs s)(p := UBlank))"
      by (intro move) (auto simp: lock_places)
    then show ?thesis using u_open_r(1) by (simp add: lock_inv_def)
  next
    case (u_scan_more p bs)
    then have "lock_ok (wr s) (rd s) (offset s) ((pcs s)(p := UUnlinkW))"
      by (intro move) (auto simp: lock_places)
    then show ?thesis using u_scan_more(1) by (simp add: lock_inv_def)
  next
    case (steal_w p)
    then show ?thesis using lock_okD(7) [OF ok, of p] by blast
  qed (use assms(3,4) in \<open>auto simp: lock_inv_def lock_places intro!: move\<close>)
qed

lemma lock_init_simps [simp]:
  "wr lock_init = False" "rd lock_init = None" "pcs lock_init p = NoLock"
  by (simp_all add: lock_init_def)

lemma lock_reachable_init: "lock_reachable F lock_init"
  by (simp add: lock_reachable_def)

lemma lock_reachable_step: "lock_reachable F s \<Longrightarrow> lock_step F s t \<Longrightarrow> lock_reachable F t"
  unfolding lock_reachable_def by (rule rtranclp.rtrancl_into_rtrancl)

lemma lock_reachable_inv:
  assumes "lock_reachable F s" and "\<not> steals F" and "\<not> read_errors F"
  shows "lock_inv s"
  using assms(1) unfolding lock_reachable_def
proof (induction rule: rtranclp_induct)
  case base
  show ?case by (rule lock_inv_init)
next
  case (step y z)
  then show ?case using lock_inv_step assms(2,3) by blast
qed

section \<open>Runs\<close>

text \<open>Process \<open>p\<close> takes the write lock of a free repository, and the read lock.\<close>

lemma run_write:
  assumes r: "lock_reachable F s" and "pcs s p = NoLock" and "\<not> wr s" and "rd s = None"
  shows "lock_reachable F (s\<lparr>wr := True, pcs := (pcs s)(p := Writing)\<rparr>)"
proof -
  let ?s1 = "goto p WOpen s"
  let ?s2 = "goto p WCheck (?s1\<lparr>wr := True\<rparr>)"
  let ?s3 = "goto p WNotice ?s2"
  have "lock_reachable F ?s1" using lock_reachable_step [OF r call_write] assms(2) by simp
  then have "lock_reachable F ?s2" using lock_reachable_step [OF _ w_open] assms(3) by simp
  then have "lock_reachable F ?s3" using lock_reachable_step [OF _ w_free] assms(4) by simp
  then have "lock_reachable F (goto p Writing ?s3)" using lock_reachable_step [OF _ w_notice] by simp
  then show ?thesis by (simp add: goto_def)
qed

lemma run_read:
  assumes r: "lock_reachable F s" and "pcs s p = NoLock" and "\<not> wr s" and "rd s = Some bs"
  shows "lock_reachable F (s\<lparr>rd := Some (bs @ [True]), offset := (offset s)(p := length bs), wr := False,
    pcs := (pcs s)(p := Reading)\<rparr>)"
proof -
  let ?s1 = "goto p ROpenW s"
  let ?s2 = "goto p RNoticeW (?s1\<lparr>wr := True\<rparr>)"
  let ?s3 = "goto p ROpenR ?s2"
  let ?s4 = "goto p RNotice ?s3"
  let ?s5 = "goto p RUnlinkW (?s4\<lparr>rd := Some (bs @ [True]), offset := (offset ?s4)(p := length bs)\<rparr>)"
  have "lock_reachable F ?s1" using lock_reachable_step [OF r call_read] assms(2) by simp
  then have "lock_reachable F ?s2" using lock_reachable_step [OF _ r_open_w] assms(3) by simp
  then have "lock_reachable F ?s3" using lock_reachable_step [OF _ r_notice_w] by simp
  then have "lock_reachable F ?s4" using lock_reachable_step [OF _ r_open] assms(4) by simp
  then have "lock_reachable F ?s5" using lock_reachable_step [OF _ r_notice [of ?s4 p bs]] assms(4) by simp
  then have "lock_reachable F (goto p Reading (?s5\<lparr>wr := False\<rparr>))"
    using lock_reachable_step [OF _ r_unlink_w] by simp
  then show ?thesis using assms(3) by (simp add: goto_def)
qed

section \<open>Properties\<close>

text \<open>
  C4. Mutual exclusion: in every run of any number of processes, whatever calls fail
  with an error the code checks, a process that holds the write lock is alone, neither
  reader nor writer beside it; it holds as long as no lock is stolen and no read of the
  readers file fails.
\<close>

theorem lock_mutual_exclusion:
  assumes "lock_reachable F s" and "\<not> steals F" and "\<not> read_errors F"
    and "pcs s p = Writing" and "pcs s q \<in> {Writing, Reading, UOpenW}"
  shows "p = q"
proof -
  have ok: "lock_ok (wr s) (rd s) (offset s) (pcs s)"
    using lock_reachable_inv [OF assms(1-3)] by (simp add: lock_inv_def)
  have "rd s = None" using lock_okD(5) [OF ok, of p] assms(4) by simp
  then have "\<not> has_banner (pcs s q)" using lock_okD(3) [OF ok, of q] by (auto simp: banner_ok_def)
  then have "pcs s q = Writing" using assms(5) by (auto simp: lock_places)
  then show ?thesis using lock_okD(1) [OF ok, of p q] assms(4) by (simp add: lock_places)
qed

definition no_faults :: LockFaults where
  "no_faults = \<lparr>steals = False, read_errors = False\<rparr>"

theorem lock_mutual_exclusion_witness:
  "\<exists>s. lock_reachable no_faults s \<and> pcs s 3 = Writing \<and> (\<forall>q. pcs s q = Writing \<longrightarrow> 3 = q)"
proof -
  let ?s = "lock_init\<lparr>wr := True, pcs := (pcs lock_init)(3 := Writing)\<rparr>"
  have r: "lock_reachable no_faults ?s"
    by (rule run_write [OF lock_reachable_init, of 3 no_faults]) simp_all
  have one: "\<forall>q. pcs ?s q = Writing \<longrightarrow> 3 = q"
  proof (intro allI impI)
    fix q assume that: "pcs ?s q = Writing"
    show "3 = q"
    by (rule lock_mutual_exclusion [OF r]) (use that in \<open>simp_all add: no_faults_def\<close>)
  qed
  have "pcs ?s 3 = Writing" by simp
  then show ?thesis by (intro exI [where x = ?s] conjI r one)
qed

text \<open>
  C18. While a process holds the read lock its banner stands in the readers file: no
  other process, reader or writer, removes the file or blanks the banner, and the writer
  that looks at the file sees it.
\<close>

theorem reader_keeps_banner:
  assumes "lock_reachable F s" and "\<not> steals F" and "\<not> read_errors F" and "pcs s p = Reading"
  shows "\<exists>bs. rd s = Some bs \<and> offset s p < length bs \<and> bs ! offset s p"
proof -
  have ok: "lock_ok (wr s) (rd s) (offset s) (pcs s)"
    using lock_reachable_inv [OF assms(1-3)] by (simp add: lock_inv_def)
  show ?thesis
    using lock_okD(3) [OF ok, of p] assms(4) by (simp add: lock_places banner_ok_def)
qed

lemma run_first_read:
  assumes r: "lock_reachable F s" and "pcs s p = NoLock" and "\<not> wr s" and "rd s = None"
  shows "\<exists>t. lock_reachable F t \<and> pcs t = (pcs s)(p := Reading) \<and> rd t = Some [True] \<and> \<not> wr t"
proof -
  let ?s1 = "goto p ROpenW s"
  let ?s2 = "goto p RNoticeW (?s1\<lparr>wr := True\<rparr>)"
  let ?s3 = "goto p ROpenR ?s2"
  let ?s4 = "goto p RNotice (?s3\<lparr>rd := Some []\<rparr>)"
  let ?s5 = "goto p RUnlinkW (?s4\<lparr>rd := Some ([] @ [True]), offset := (offset ?s4)(p := length ([] :: bool list))\<rparr>)"
  have "lock_reachable F ?s1" using lock_reachable_step [OF r call_read] assms(2) by simp
  then have "lock_reachable F ?s2" using lock_reachable_step [OF _ r_open_w] assms(3) by simp
  then have "lock_reachable F ?s3" using lock_reachable_step [OF _ r_notice_w] by simp
  then have "lock_reachable F ?s4" using lock_reachable_step [OF _ r_create] assms(4) by simp
  then have "lock_reachable F ?s5" using lock_reachable_step [OF _ r_notice [of ?s4 p "[]"]] by simp
  then have "lock_reachable F (goto p Reading (?s5\<lparr>wr := False\<rparr>))"
    using lock_reachable_step [OF _ r_unlink_w] by simp
  then show ?thesis by (rule_tac exI, rule_tac conjI, assumption) simp
qed

theorem reader_keeps_banner_witness:
  "\<exists>s bs. lock_reachable no_faults s \<and> rd s = Some bs \<and> offset s 5 < length bs \<and> bs ! offset s 5"
proof -
  obtain t where "lock_reachable no_faults t" "pcs t = (pcs lock_init)(5 := Reading)"
    using run_first_read [OF lock_reachable_init, of 5] by (auto simp: lock_init_def)
  moreover from this have "\<exists>bs. rd t = Some bs \<and> offset t 5 < length bs \<and> bs ! offset t 5"
    using reader_keeps_banner [of no_faults t 5] by (simp add: no_faults_def)
  ultimately show ?thesis by blast
qed

text \<open>
  C19. A lock whose owner has not yet written its notice, and one that was released
  between the failed open and the look at its age, count as stale: \<open>get_file_age\<close> takes
  the time since 1970 for the age of a file without a banner, so the caller is told to
  steal a lock that is being taken or free.
\<close>

theorem fresh_lock_looks_stale:
  assumes "now > STALE_LOCK_TIMEOUT" and "file = None \<or> file = Some [] \<or> file = Some [header]"
  shows "chilling_out (get_file_age str2time now file) wait sleep stat_fails = Some LOCK_TRY_STEAL"
proof -
  have "get_file_age str2time now file = now" using assms(2) by (auto simp: get_file_age_def)
  then show ?thesis using assms(1) by (simp add: chilling_out_def STALE_LOCK_TIMEOUT_def)
qed

theorem fresh_lock_looks_stale_witness:
  "chilling_out (get_file_age (\<lambda>_. 0) 1000000000 None) True (\<lambda>_. 1) (\<lambda>_. True) = Some LOCK_TRY_STEAL"
  by (rule fresh_lock_looks_stale) (simp_all add: STALE_LOCK_TIMEOUT_def)

end
