(* ===== verification/ProjLex.thy ===== *)
theory ProjLex
  imports Effects Misc
begin

text \<open>
  The scanner of project files, \<open>src/src/prjlex.l\<close>: the patterns of its rules, the choice
  of the longest match and of the first rule on a tie, and the two indices that every match
  moves. The scanner reads the mapped file; the characters it has not matched yet are a
  list, and a position in the file is the number of characters before it. Line numbers
  only occur in messages and are left out.
\<close>

section \<open>The patterns\<close>

definition space_char :: "char \<Rightarrow> bool" where
  "space_char c \<longleftrightarrow> c = CHR 0x0B \<or> c = CHR 0x0C \<or> c = CHR 0x0D \<or> c = CHR 0x09 \<or> c = NEWLINE \<or> c = CHR '' ''"

text \<open>\<open>({space}|{comment})+\<close>, the flag says that a comment is open: the length of the longest match.\<close>

fun ws_len :: "bool \<Rightarrow> string \<Rightarrow> nat" where
  "ws_len comment [] = 0"
| "ws_len comment (c # cs) =
     (if space_char c then Suc (ws_len (comment \<and> c \<noteq> NEWLINE) cs)
      else if c = CHR '';'' \<or> comment \<and> c \<noteq> NUL then Suc (ws_len True cs)
      else 0)"

definition name_char :: "char \<Rightarrow> bool" where
  "name_char c \<longleftrightarrow>
     \<not> (c = NUL \<or> c = CHR 0x0D \<or> c = CHR 0x0B \<or> c = CHR 0x0C \<or> c = NEWLINE \<or> c = CHR 0x09 \<or>
        c = CHR '' '' \<or> c = BACKSLASH \<or> c = DQUOTE \<or> c = CHR ''('' \<or> c = CHR '')'')"

text \<open>\<open>{name}\<close> and the characters of a string; an escape is a backslash and a character other than NUL.\<close>

fun name_len :: "string \<Rightarrow> nat" where
  "name_len [] = 0"
| "name_len [c] = (if name_char c then 1 else 0)"
| "name_len (c # d # cs) =
     (if name_char c then Suc (name_len (d # cs))
      else if c = BACKSLASH \<and> d \<noteq> NUL then Suc (Suc (name_len cs))
      else 0)"

definition string_char :: "char \<Rightarrow> bool" where
  "string_char c \<longleftrightarrow> \<not> (c = NUL \<or> c = BACKSLASH \<or> c = DQUOTE)"

fun string_len :: "string \<Rightarrow> nat" where
  "string_len [] = 0"
| "string_len [c] = (if string_char c then 1 else 0)"
| "string_len (c # d # cs) =
     (if string_char c then Suc (string_len (d # cs))
      else if c = BACKSLASH \<and> d \<noteq> NUL then Suc (Suc (string_len cs))
      else 0)"

section \<open>The rules\<close>

datatype PrjTokenType = PrjNull | PrjString | PrjBadString | PrjName | PrjOpen | PrjClose | PrjEof

text \<open>
  The rule that matches at the start of a nonempty input and how much it matches. The rules
  for white space and comments and the default rule, which copies one character to the
  output, return no token. White space stands before names in the file, so it wins a tie.
\<close>

definition lex_rule :: "string \<Rightarrow> PrjTokenType option \<times> nat" where
  "lex_rule s =
     (let c = hd s; n = string_len (tl s)
      in if c = NUL then (Some PrjNull, 1)
         else if c = DQUOTE then
           (case drop (Suc n) s of
              [] \<Rightarrow> (Some PrjBadString, Suc n)
            | q # _ \<Rightarrow> if q = DQUOTE then (Some PrjString, Suc (Suc n)) else (Some PrjBadString, Suc n))
         else if c = CHR ''('' then (Some PrjOpen, 1)
         else if c = CHR '')'' then (Some PrjClose, 1)
         else if 0 < ws_len False s \<and> name_len s \<le> ws_len False s then (None, ws_len False s)
         else if 0 < name_len s then (Some PrjName, name_len s)
         else (None, 1))"

record Lexer =
  lex_input :: string
  prj_lex_this_index :: nat
  prj_lex_cur_index :: nat
  prjtext :: string

text \<open>\<open>YY_USER_ACTION\<close> and the text of the match.\<close>

definition lex_match :: "nat \<Rightarrow> Lexer \<Rightarrow> Lexer" where
  "lex_match n l =
     \<lparr>lex_input = drop n (lex_input l), prj_lex_this_index = prj_lex_cur_index l,
      prj_lex_cur_index = prj_lex_cur_index l + n, prjtext = take n (lex_input l)\<rparr>"

lemma lex_rule_pos: "s \<noteq> [] \<Longrightarrow> 0 < snd (lex_rule s)"
  by (auto simp: lex_rule_def Let_def split: list.split)

function prjlex :: "Lexer \<Rightarrow> PrjTokenType \<times> Lexer" where
  "prjlex l =
     (if lex_input l = [] then (PrjEof, l)
      else case lex_rule (lex_input l) of
             (Some t, n) \<Rightarrow> (t, lex_match n l)
           | (None, n) \<Rightarrow> prjlex (lex_match n l))"
  by pat_completeness auto
termination
  by (relation "measure (\<lambda>l. length (lex_input l))")
    (auto simp: lex_match_def, metis lex_rule_pos snd_conv length_greater_0_conv diff_less)

declare prjlex.simps [simp del]

section \<open>What the scanner hands over\<close>

lemma name_len_le: "name_len s \<le> length s"
  by (induction s rule: name_len.induct) auto

lemma string_len_le: "string_len s \<le> length s"
  by (induction s rule: string_len.induct) auto

lemma ws_len_le: "ws_len b s \<le> length s"
  by (induction b s rule: ws_len.induct) auto

lemma name_char_not_backslash: "name_char c \<Longrightarrow> c \<noteq> BACKSLASH"
  by (auto simp: name_char_def)

lemma string_char_not_backslash: "string_char c \<Longrightarrow> c \<noteq> BACKSLASH"
  by (auto simp: string_char_def)

text \<open>The escapes of a token are complete, so it can be unquoted.\<close>

lemma correct_path_name: "correct_path (take (name_len s) s) inp \<noteq> None"
  by (induction s arbitrary: inp rule: name_len.induct) (auto dest: name_char_not_backslash)

lemma correct_path_string: "correct_path (take (string_len s) s) inp \<noteq> None"
  by (induction s arbitrary: inp rule: string_len.induct) (auto dest: string_char_not_backslash)

lemma correct_path_chars: "correct_path s inp = Some t \<Longrightarrow> set t \<subseteq> set inp \<union> set s"
proof (induction s inp rule: correct_path.induct)
  case (1 inp)
  then show ?case by simp
next
  case (2 c cs inp)
  show ?case
  proof (cases cs)
    case Nil
    then show ?thesis using "2.prems" by (auto split: if_splits)
  next
    case (Cons d ds)
    show ?thesis
    proof (cases "c = BACKSLASH")
      case True
      have "correct_path ds (inp @ [d]) = Some t" using "2.prems" True Cons by simp
      then show ?thesis using "2.IH"(1) [OF True Cons] Cons by auto
    next
      case False
      then show ?thesis using "2.prems" "2.IH"(2) by auto
    qed
  qed
qed

text \<open>The scanner stands at its index in the text.\<close>

definition lexer_at :: "string \<Rightarrow> Lexer \<Rightarrow> bool" where
  "lexer_at seg l \<longleftrightarrow>
     prj_lex_cur_index l \<le> length seg \<and> lex_input l = drop (prj_lex_cur_index l) seg"

definition token_text :: "PrjTokenType \<Rightarrow> string \<Rightarrow> Lexer \<Rightarrow> string" where
  "token_text tok seg l =
     (let q = (if tok = PrjString then 1 else 0)
      in take (prj_lex_cur_index l - q - (prj_lex_this_index l + q)) (drop (prj_lex_this_index l + q) seg))"

definition token_ok :: "PrjTokenType \<Rightarrow> string \<Rightarrow> Lexer \<Rightarrow> bool" where
  "token_ok tok seg l \<longleftrightarrow>
     (tok = PrjName \<or> tok = PrjString \<longrightarrow> correct_path (token_text tok seg l) [] \<noteq> None) \<and>
     (tok \<noteq> PrjEof \<longrightarrow> prjtext l \<noteq> [] \<and> set (prjtext l) \<subseteq> set seg)"

lemma lex_rule_le:
  assumes "s \<noteq> []" shows "snd (lex_rule s) \<le> length s"
proof -
  obtain c cs where s: "s = c # cs" using assms by (cases s) auto
  have "string_len cs \<le> length cs" "name_len s \<le> length s" "ws_len False s \<le> length s"
    by (rule string_len_le name_len_le ws_len_le)+
  then show ?thesis
    by (auto simp: lex_rule_def Let_def s split: list.split)
qed

lemma lex_rule_token:
  assumes "s \<noteq> []" and "lex_rule s = (Some t, n)"
  shows "t \<noteq> PrjEof" and "t = PrjName \<longrightarrow> n = name_len s"
    and "t = PrjString \<longrightarrow> n = Suc (Suc (string_len (tl s)))"
  using assms by (auto simp: lex_rule_def Let_def split: list.splits if_splits)

lemma lexer_at_match:
  assumes at: "lexer_at seg l" and n: "n \<le> length (lex_input l)"
  shows "lexer_at seg (lex_match n l)" and "prj_lex_this_index (lex_match n l) = prj_lex_cur_index l"
    and "prj_lex_cur_index (lex_match n l) = prj_lex_cur_index l + n"
  using assms by (auto simp: lexer_at_def lex_match_def add.commute)

lemma prjlex_spec:
  "lexer_at seg l \<Longrightarrow> prjlex l = (t, l') \<Longrightarrow>
     lexer_at seg l' \<and> token_ok t seg l' \<and> length (lex_input l') \<le> length (lex_input l) \<and>
     (t \<noteq> PrjEof \<longrightarrow> length (lex_input l') < length (lex_input l))"
proof (induction l rule: prjlex.induct)
  case (1 l)
  note at = "1.prems"(1)
  show ?case
  proof (cases "lex_input l = []")
    case True
    then have "t = PrjEof" "l' = l" using "1.prems"(2) by (simp_all add: prjlex.simps)
    then show ?thesis using at by (simp add: token_ok_def)
  next
    case False
    obtain r n where r: "lex_rule (lex_input l) = (r, n)" by (cases "lex_rule (lex_input l)")
    have n: "0 < n" "n \<le> length (lex_input l)"
      using lex_rule_pos [OF False] lex_rule_le [OF False] by (simp_all add: r)
    note m = lexer_at_match [OF at n(2)]
    have less: "length (lex_input (lex_match n l)) < length (lex_input l)"
      using n by (simp add: lex_match_def)
    show ?thesis
    proof (cases r)
      case None
      then have "prjlex (lex_match n l) = (t, l')"
        using "1.prems"(2) False r by (simp add: prjlex.simps [of l])
      then show ?thesis using "1.IH" [OF False r [symmetric] None m(1)] less by auto
    next
      case (Some u)
      then have u: "u = t" "l' = lex_match n l"
        using "1.prems"(2) False r by (simp_all add: prjlex.simps [of l])
      have inp: "lex_input l = drop (prj_lex_cur_index l) seg" using at by (simp add: lexer_at_def)
      have tt: "token_text t seg l' = (if t = PrjString then take (n - 2) (tl (lex_input l)) else take n (lex_input l))"
        by (simp add: token_text_def u(2) m(2,3) inp drop_Suc tl_drop numeral_2_eq_2)
      have "token_ok t seg l'"
        unfolding token_ok_def
      proof (intro conjI impI)
        assume t: "t = PrjName \<or> t = PrjString"
        show "correct_path (token_text t seg l') [] \<noteq> None"
          using t lex_rule_token(2,3) [OF False, of t n] r Some u(1)
            correct_path_name [of "lex_input l" "[]"] correct_path_string [of "tl (lex_input l)" "[]"]
          unfolding tt by auto
      next
        show "prjtext l' \<noteq> []" using n False by (simp add: u(2) lex_match_def)
        show "set (prjtext l') \<subseteq> set seg"
          by (auto simp: u(2) lex_match_def inp dest: in_set_takeD in_set_dropD)
      qed
      then show ?thesis using m(1) less u(2) by simp
    qed
  qed
qed

end
