(* ===== verification/ProjRead.thy ===== *)
theory ProjRead
  imports ProjLex Attrs KeyPop Versions
begin

text \<open>
  Reading a project file, the parser of \<open>src/src/projdesc.cc\<close> and the s-expressions of
  \<open>src/src/sexp.cc\<close>: from the tokens of the scanner to the fields of \<open>ProjectDescriptor\<close>.
  A \<open>Dstring*\<close> of the descriptor that points to a string of the file is the index of that
  string in \<open>_all_estrings\<close>, a pointer to a marker its name. Messages, line numbers and the
  release of memory are left out; every message is thrown with the token of the error stream.
\<close>

section \<open>Strings of the file and s-expressions\<close>

datatype EstringType = EsStringLiteral | EsNameLiteral | EsUnProtected

record Estring =
  es_id :: nat
  es_text :: string
  es_offset :: nat
  es_len :: nat
  es_type :: EstringType

record ListMarker =
  marker_start :: nat
  marker_stop :: nat

text \<open>
  \<open>Sexp\<close>: a string, a pair with the indices of its list, or the empty list. The second part
  of a pair that the parser builds is never a string, so its elements are a list.
\<close>

datatype Sexp = Atom Estring | Pair Sexp Sexp nat nat | Empty nat nat

fun sexp_is_pair :: "Sexp \<Rightarrow> bool" where
  "sexp_is_pair (Atom e) = False"
| "sexp_is_pair (Pair a d i j) = True"
| "sexp_is_pair (Empty i j) = True"

fun sexp_is_empty :: "Sexp \<Rightarrow> bool" where
  "sexp_is_empty (Empty i j) = True"
| "sexp_is_empty _ = False"

fun sexp_list :: "Sexp \<Rightarrow> Sexp list" where
  "sexp_list (Pair a d i j) = a # sexp_list d"
| "sexp_list _ = []"

definition sexp_length :: "Sexp \<Rightarrow> nat" where
  "sexp_length s = length (sexp_list s)"

fun start_index :: "Sexp \<Rightarrow> nat" where
  "start_index (Pair a d i j) = i"
| "start_index (Empty i j) = i"
| "start_index (Atom e) = 0"

fun end_index :: "Sexp \<Rightarrow> nat" where
  "end_index (Pair a d i j) = j"
| "end_index (Empty i j) = j"
| "end_index (Atom e) = 0"

definition sexp_marker :: "Sexp \<Rightarrow> ListMarker" where
  "sexp_marker s = \<lparr>marker_start = start_index s, marker_stop = end_index s\<rparr>"

section \<open>The project descriptor\<close>

datatype MergeParentState = MergeStateIncomplete | MergeStateParent | MergeStateIncompleteParent

record MergeParentFile =
  mpf_working :: "string option"
  mpf_common :: "string option"
  mpf_selected :: "string option"
  mpf_action :: MergeAction

type_synonym MergeParentTable = "(string, MergeParentFile) HashTable"

record MergeParentEntry =
  selected_version :: string
  project_data :: "ProjectVersionData option"
  mpe_state :: MergeParentState
  working_table :: "MergeParentTable option"
  common_table :: "MergeParentTable option"
  selected_table :: "MergeParentTable option"
  all_files :: "MergeParentFile list"

definition new_MergeParentEntry :: "string \<Rightarrow> MergeParentState \<Rightarrow> MergeParentEntry" where
  "new_MergeParentEntry v st =
     \<lparr>selected_version = v, project_data = None, mpe_state = st, working_table = None, common_table = None,
      selected_table = None, all_files = []\<rparr>"

text \<open>The fields of \<open>FileEntry\<close> that reading, matching and writing use.\<close>

record FileEntry =
  fe_working_path :: string
  fe_ent_marker :: ListMarker
  fe_attrs :: PrcsAttrs
  fe_version :: "string option"
  fe_descriptor :: "string option"
  fe_link :: "string option"
  fe_mode :: nat
  fe_present :: bool
  fe_on_command_line :: bool
  fe_unmodified :: bool

definition file_type :: "FileEntry \<Rightarrow> FileType" where
  "file_type fe = attrs_type (fe_attrs fe)"

datatype marker_name =
    MergeParentsMarker | NewMergeParentsMarker | DescendsFromMarker
  | ProjectKeywordsMarker | PopulateIgnoreMarker | FileMarker nat

record ProjectDescriptor = KeyPopTables +
  segment :: string
  lexer :: Lexer
  finish_me :: "marker_name option"
  all_estrings :: "Estring list"
  nullified_chars :: string
  markers :: "marker_name \<Rightarrow> ListMarker"
  deleted_markers :: "marker_name list"
  prj_entry_found :: "bool list"
  tool_env :: ToolEnv
  project_name :: string
  project_full_name :: string
  project_file_path :: string
  project_path :: string
  project_aux_path :: string
  files_insertion_point :: "nat option"
  project_version_point :: "nat option"
  end_of_buffer_point :: "nat option"
  project_keywords_point :: "nat option"
  populate_ignore_point :: "nat option"
  project_version_name :: "nat option"
  project_version_major :: "nat option"
  project_version_minor :: "nat option"
  parent_version_name :: "nat option"
  parent_version_major :: "nat option"
  parent_version_minor :: "nat option"
  project_description :: "nat option"
  version_log :: "nat option"
  new_version_log :: "nat option"
  checkin_time :: "nat option"
  checkin_login :: "nat option"
  created_by_major :: "nat option"
  created_by_minor :: "nat option"
  created_by_micro :: "nat option"
  merge_parents :: "MergeParentEntry list option"
  new_merge_parents :: "MergeParentEntry list option"
  append_merge_parents :: bool
  file_entries :: "FileEntry list"
  attrs_table :: AttrsTable

type_synonym 'a prj = "(ProjectDescriptor, 'a) cmd"

text \<open>\<open>bad_project_file\<close> and the other messages.\<close>

definition bad_project_file :: "'a prj" where
  "bad_project_file = cthrow (Err NonFatalError)"

section \<open>Tokens\<close>

definition set_marker_stop :: "marker_name \<Rightarrow> nat \<Rightarrow> ProjectDescriptor \<Rightarrow> ProjectDescriptor" where
  "set_marker_stop m i p = p\<lparr>markers := (markers p)(m := (markers p m)\<lparr>marker_stop := i\<rparr>)\<rparr>"

definition set_marker :: "marker_name \<Rightarrow> ListMarker \<Rightarrow> ProjectDescriptor \<Rightarrow> ProjectDescriptor" where
  "set_marker m k p = p\<lparr>markers := (markers p)(m := k)\<rparr>"

definition prj_lex_state :: "ProjectDescriptor \<Rightarrow> PrjTokenType \<times> ProjectDescriptor" where
  "prj_lex_state p =
     (let (val, l) = prjlex (lexer p); p1 = p\<lparr>lexer := l\<rparr>
      in (val,
          case finish_me p1 of
            None \<Rightarrow> p1
          | Some m \<Rightarrow>
              (set_marker_stop m (prj_lex_this_index l + (if val = PrjEof then 1 else 0)) p1)
                \<lparr>finish_me := None\<rparr>))"

definition prj_lex :: "PrjTokenType prj" where
  "prj_lex = (\<lambda>p. let (val, p') = prj_lex_state p in (Inr val, p'))"

definition this_index :: "nat prj" where
  "this_index = cget (\<lambda>p. prj_lex_this_index (lexer p))"

definition cur_index :: "nat prj" where
  "cur_index = cget (\<lambda>p. prj_lex_cur_index (lexer p))"

text \<open>\<open>read_parse_bad_token\<close> has a message for every token.\<close>

definition read_parse_bad_token :: "PrjTokenType \<Rightarrow> 'a prj" where
  "read_parse_bad_token tok = cthrow (Err NonFatalError)"

text \<open>
  \<open>register_estring\<close>, with the character that the constructor replaces by NUL. The
  characters of the file stay in \<open>segment\<close>.
\<close>

definition register_estring :: "string \<Rightarrow> nat \<Rightarrow> nat \<Rightarrow> EstringType \<Rightarrow> char \<Rightarrow> Estring prj" where
  "register_estring t off len ty missing =
     (\<lambda>p. let e = \<lparr>es_id = length (all_estrings p), es_text = t, es_offset = off, es_len = len, es_type = ty\<rparr>
          in (Inr e, p\<lparr>all_estrings := all_estrings p @ [e], nullified_chars := nullified_chars p @ [missing]\<rparr>))"

text \<open>\<open>Estring(project, position)\<close>: an empty string to which text to be inserted is appended.\<close>

definition new_insertion_point :: "nat \<Rightarrow> Estring prj" where
  "new_insertion_point position = register_estring [] position 0 EsUnProtected NUL"

text \<open>The character at \<open>i\<close> of the segment, which ends in an added NUL.\<close>

definition segment_char :: "string \<Rightarrow> nat \<Rightarrow> char" where
  "segment_char seg i = (if i < length seg then seg ! i else NUL)"

definition read_new_estring :: "PrjTokenType \<Rightarrow> Estring prj" where
  "read_new_estring tok =
     (\<lambda>p. let l = lexer p; q = (if tok = PrjString then 1 else 0);
              start_index = prj_lex_this_index l + q; stop_index = prj_lex_cur_index l - q;
              str = take (stop_index - start_index) (drop start_index (segment p));
              ty = (if tok = PrjName then EsNameLiteral else EsStringLiteral)
          in case (if strchr str BACKSLASH \<noteq> None then correct_path str [] else Some str) of
               None \<Rightarrow> (Inl Undefined, p)
             | Some t \<Rightarrow>
                 register_estring t start_index (stop_index - start_index) ty (segment_char (segment p) stop_index) p)"

section \<open>Lists\<close>

text \<open>
  \<open>read_list_token\<close> and \<open>read_list\<close>, with a bound on the depth of the recursion. Every call
  consumes a token, so two more than the number of characters left is enough; a call that
  runs out is \<open>Aborted\<close>.
\<close>

fun read_list_token :: "nat \<Rightarrow> PrjTokenType \<Rightarrow> nat \<Rightarrow> Sexp prj" where
  "read_list_token 0 tok start = cthrow Aborted"
| "read_list_token (Suc n) tok start =
     (if tok = PrjEof \<or> tok = PrjNull \<or> tok = PrjBadString then read_parse_bad_token tok
      else if tok = PrjString \<or> tok = PrjName then
        cbind (read_new_estring tok) (\<lambda>s2.
        cbind (cbind prj_lex (\<lambda>t. read_list_token n t start)) (\<lambda>s1.
        cbind cur_index (\<lambda>e. creturn (Pair (Atom s2) s1 start e))))
      else if tok = PrjClose then
        cbind cur_index (\<lambda>e. creturn (Empty start e))
      else
        cbind this_index (\<lambda>i.
        cbind (cbind prj_lex (\<lambda>t. read_list_token n t i)) (\<lambda>s1.
        cbind (cbind prj_lex (\<lambda>t. read_list_token n t start)) (\<lambda>s2.
        cbind cur_index (\<lambda>e. creturn (Pair s1 s2 start e))))))"

definition input_left :: "ProjectDescriptor \<Rightarrow> nat" where
  "input_left p = length (lex_input (lexer p))"

definition read_list :: "nat \<Rightarrow> Sexp prj" where
  "read_list offset =
     cbind prj_lex (\<lambda>t. cbind (cget input_left) (\<lambda>n. read_list_token (n + 2) t offset))"

definition read_list_elt :: "Sexp prj" where
  "read_list_elt =
     cbind prj_lex (\<lambda>tok.
       if tok = PrjEof \<or> tok = PrjNull \<or> tok = PrjBadString then read_parse_bad_token tok
       else if tok = PrjString \<or> tok = PrjName then
         cbind (read_new_estring tok) (\<lambda>e. creturn (Atom e))
       else if tok = PrjClose then creturn (Empty 0 0)
       else cbind this_index read_list)"

section \<open>Checking the shape of an entry\<close>

text \<open>The patterns \<open>label\<close> and \<open>login\<close> of \<open>src/src/vclex.l\<close>, which must match the whole token.\<close>

definition alpha_char :: "char \<Rightarrow> bool" where
  "alpha_char c \<longleftrightarrow> c \<in> set ''abcdefghijklmnopqrstuvwxyzABCDEFGHIJKLMNOPQRSTUVWXYZ''"

definition digit_char :: "char \<Rightarrow> bool" where
  "digit_char c \<longleftrightarrow> c \<in> set ''0123456789''"

fun label_match :: "string \<Rightarrow> bool" where
  "label_match [] = False"
| "label_match (c # cs) =
     ((alpha_char c \<or> digit_char c \<or> c \<in> set ''#^_+,'') \<and>
      list_all (\<lambda>d. alpha_char d \<or> digit_char d \<or> d \<in> set ''#^-_+=,.'') cs)"

definition idchar :: "char \<Rightarrow> bool" where
  "idchar c \<longleftrightarrow> alpha_char c \<or> c \<in> set ''-_+#^''"

definition login_match :: "string \<Rightarrow> bool" where
  "login_match s \<longleftrightarrow> list_all (\<lambda>c. digit_char c \<or> idchar c) s \<and> list_ex idchar s"

definition number_match :: "string \<Rightarrow> bool" where
  "number_match s \<longleftrightarrow> \<not> (1 < length s \<and> hd s = CHR ''0'') \<and> list_all digit_char s"

datatype token_class = LoginClass | LabelClass | NumberClass | AnyClass

text \<open>\<open>VC_check_token_match(token, type) > 0\<close> for the types that the callers name.\<close>

fun VC_check_token_match :: "string \<Rightarrow> token_class \<Rightarrow> bool" where
  "VC_check_token_match t LoginClass = login_match t"
| "VC_check_token_match t LabelClass = label_match t"
| "VC_check_token_match t NumberClass = number_match t"
| "VC_check_token_match t AnyClass = True"

definition scan_class :: "char \<Rightarrow> token_class" where
  "scan_class c =
     (if c = CHR ''N'' then NumberClass else if c = CHR ''L'' then LabelClass
      else if c = CHR ''U'' then LoginClass else AnyClass)"

text \<open>
  \<open>sexp_scan\<close>: the strings of the list in order, when the list has the form of the format.
  No caller uses the flag that would allow empty lists, and the test for it dereferences
  the element before it compares the element with null, so it never accepts one.
\<close>

fun sexp_scan_loop :: "bool \<Rightarrow> string \<Rightarrow> Sexp \<Rightarrow> Estring list option" where
  "sexp_scan_loop ast [] list = (if sexp_length list = 0 then Some [] else None)"
| "sexp_scan_loop ast (c # format) list =
     (case list of
        Pair (Atom key) rest i j \<Rightarrow>
          if (VC_check_token_match (es_text key) (scan_class c) \<or> ast \<and> es_text key = ''-*-'') \<and>
             \<not> (c = CHR ''S'' \<and> es_type key \<noteq> EsStringLiteral)
          then map_option ((#) key) (sexp_scan_loop ast format rest)
          else None
      | _ \<Rightarrow> None)"

definition sexp_scan :: "Sexp \<Rightarrow> string \<Rightarrow> Estring list option" where
  "sexp_scan list format =
     (if hd format = CHR ''*'' then sexp_scan_loop True (tl format) list
      else sexp_scan_loop False format list)"

section \<open>The entries of the project file\<close>

text \<open>Storing the strings after the first in the given fields.\<close>

definition scan_entry :: "Sexp \<Rightarrow> string \<Rightarrow> (nat list \<Rightarrow> ProjectDescriptor \<Rightarrow> ProjectDescriptor) \<Rightarrow> unit prj" where
  "scan_entry s format store =
     (case sexp_scan s format of
        None \<Rightarrow> bad_project_file
      | Some keys \<Rightarrow> cupd (store (map es_id (tl keys))))"

definition created_by_prj_entry_func :: "Sexp \<Rightarrow> unit prj" where
  "created_by_prj_entry_func s =
     scan_entry s ''LNNN'' (\<lambda>k p. p\<lparr>created_by_major := Some (k ! 0), created_by_minor := Some (k ! 1),
       created_by_micro := Some (k ! 2)\<rparr>)"

definition project_ver_prj_entry_func :: "Sexp \<Rightarrow> unit prj" where
  "project_ver_prj_entry_func s =
     cthen (scan_entry s ''LLLN'' (\<lambda>k p. p\<lparr>project_version_name := Some (k ! 0),
              project_version_major := Some (k ! 1), project_version_minor := Some (k ! 2)\<rparr>))
     (cbind (new_insertion_point (end_index s)) (\<lambda>e.
        cupd (\<lambda>p. p\<lparr>project_version_point := Some (es_id e)\<rparr>)))"

definition parent_ver_prj_entry_func :: "Sexp \<Rightarrow> unit prj" where
  "parent_ver_prj_entry_func s =
     (case sexp_scan s ''*LLLN'' of
        None \<Rightarrow> bad_project_file
      | Some keys \<Rightarrow>
          let absent = (\<lambda>i. es_text (keys ! i) = ''-*-'') in
          cthen (cupd (\<lambda>p. p\<lparr>parent_version_name := Some (es_id (keys ! 1)),
                   parent_version_major := Some (es_id (keys ! 2)),
                   parent_version_minor := Some (es_id (keys ! 3))\<rparr>))
          (if absent 1 \<noteq> absent 2 \<or> absent 1 \<noteq> absent 3 \<or> absent 3 \<noteq> absent 2
           then bad_project_file else creturn ()))"

definition project_desc_prj_entry_func :: "Sexp \<Rightarrow> unit prj" where
  "project_desc_prj_entry_func s = scan_entry s ''LS'' (\<lambda>k p. p\<lparr>project_description := Some (k ! 0)\<rparr>)"

definition version_log_prj_entry_func :: "Sexp \<Rightarrow> unit prj" where
  "version_log_prj_entry_func s = scan_entry s ''LS'' (\<lambda>k p. p\<lparr>version_log := Some (k ! 0)\<rparr>)"

definition new_version_log_prj_entry_func :: "Sexp \<Rightarrow> unit prj" where
  "new_version_log_prj_entry_func s = scan_entry s ''LS'' (\<lambda>k p. p\<lparr>new_version_log := Some (k ! 0)\<rparr>)"

definition checkin_time_prj_entry_func :: "Sexp \<Rightarrow> unit prj" where
  "checkin_time_prj_entry_func s = scan_entry s ''LS'' (\<lambda>k p. p\<lparr>checkin_time := Some (k ! 0)\<rparr>)"

definition checkin_login_prj_entry_func :: "Sexp \<Rightarrow> unit prj" where
  "checkin_login_prj_entry_func s = scan_entry s ''LU'' (\<lambda>k p. p\<lparr>checkin_login := Some (k ! 0)\<rparr>)"

definition descends_from_prj_entry_func :: "Sexp \<Rightarrow> unit prj" where
  "descends_from_prj_entry_func s =
     cupd (\<lambda>p. (set_marker DescendsFromMarker (sexp_marker s) p)
       \<lparr>deleted_markers := deleted_markers p @ [DescendsFromMarker]\<rparr>)"

fun string_literal :: "Sexp \<Rightarrow> bool" where
  "string_literal (Atom e) = (es_type e = EsStringLiteral)"
| "string_literal _ = False"

fun sexp_text :: "Sexp \<Rightarrow> string" where
  "sexp_text (Atom e) = es_text e"
| "sexp_text _ = []"

definition insert_ignore :: "string \<Rightarrow> unit prj" where
  "insert_ignore t =
     cbind (cget populate_ignore) (\<lambda>tab. on_table (ot_insert hash_string (=) tab t t)
       (\<lambda>tab'. cupd (\<lambda>p. p\<lparr>populate_ignore := tab'\<rparr>)))"

definition populate_ignore_prj_entry_func :: "Sexp \<Rightarrow> unit prj" where
  "populate_ignore_prj_entry_func s =
     cthen (cupd (set_marker PopulateIgnoreMarker (sexp_marker s)))
     (cbind (new_insertion_point (end_index s)) (\<lambda>e.
      cthen (cupd (\<lambda>p. p\<lparr>populate_ignore_point := Some (es_id e)\<rparr>))
      (if sexp_length s \<noteq> 2 \<or> \<not> sexp_is_pair (sexp_list s ! 1) then bad_project_file
       else if \<not> list_all string_literal (sexp_list (sexp_list s ! 1)) then bad_project_file
       else cforeach (sexp_list (sexp_list s ! 1)) (\<lambda>t. insert_ignore (sexp_text t)))))"

text \<open>One turn of the loop of \<open>project_keywords_prj_entry_func\<close>.\<close>

definition read_keyword :: "Sexp \<Rightarrow> unit prj" where
  "read_keyword t =
     (case sexp_list t of
        [Atom k, Atom v] \<Rightarrow>
          if es_type k \<noteq> EsNameLiteral then bad_project_file
          else (case is_builtin_keyword (es_text k) of
                  None \<Rightarrow> cthrow Undefined
                | Some (Some _) \<Rightarrow> bad_project_file
                | Some None \<Rightarrow>
                    cbind (cget id) (\<lambda>p.
                      if ht_isdefined hash_string (=) (project_keywords p) (es_text k) then bad_project_file
                      else if strchr (es_text v) NEWLINE \<noteq> None then bad_project_file
                      else
                        cthen (cupd (\<lambda>p. p\<lparr>project_keywords :=
                                 ht_insert hash_string (=) (project_keywords p) (es_text k) (es_text v)\<rparr>))
                        (on_table (ot_insert hash_string (=) (project_keywords_extra p) (es_text k) (es_text v))
                           (\<lambda>tab. cupd (\<lambda>p. p\<lparr>project_keywords_extra := tab\<rparr>)))))
      | _ \<Rightarrow> bad_project_file)"

definition project_keywords_prj_entry_func :: "Sexp \<Rightarrow> unit prj" where
  "project_keywords_prj_entry_func s =
     cthen (cupd (set_marker ProjectKeywordsMarker (sexp_marker s)))
     (cbind (new_insertion_point (end_index s)) (\<lambda>e.
      cthen (cupd (\<lambda>p. p\<lparr>project_keywords_point := Some (es_id e)\<rparr>))
      (cforeach (tl (sexp_list s)) read_keyword)))"

section \<open>Merge parents\<close>

text \<open>The two arrays; they exist when the merge parents are kept.\<close>

definition get_parents :: "bool \<Rightarrow> ProjectDescriptor \<Rightarrow> MergeParentEntry list option" where
  "get_parents new p = (if new then new_merge_parents p else merge_parents p)"

definition set_parents :: "bool \<Rightarrow> MergeParentEntry list option \<Rightarrow> ProjectDescriptor \<Rightarrow> ProjectDescriptor" where
  "set_parents new a p = (if new then p\<lparr>new_merge_parents := a\<rparr> else p\<lparr>merge_parents := a\<rparr>)"

definition append_parent :: "bool \<Rightarrow> MergeParentEntry \<Rightarrow> unit prj" where
  "append_parent new e =
     cupd (\<lambda>p. set_parents new (map_option (\<lambda>a. a @ [e]) (get_parents new p)) p)"

text \<open>Appending to the files of the entry that was appended last.\<close>

definition add_parent_file :: "MergeParentFile \<Rightarrow> MergeParentEntry list \<Rightarrow> MergeParentEntry list" where
  "add_parent_file f a = butlast a @ [(last a)\<lparr>all_files := all_files (last a) @ [f]\<rparr>]"

definition append_parent_file :: "bool \<Rightarrow> MergeParentFile \<Rightarrow> unit prj" where
  "append_parent_file new f =
     cupd (\<lambda>p. set_parents new (map_option (add_parent_file f) (get_parents new p)) p)"

definition read_merge_parents_file_name :: "Sexp \<Rightarrow> string option prj" where
  "read_merge_parents_file_name s =
     (if sexp_is_pair s \<and> sexp_length s = 0 then creturn None
      else case s of Atom e \<Rightarrow> creturn (Some (es_text e)) | _ \<Rightarrow> bad_project_file)"

definition read_parent_file :: "bool \<Rightarrow> Sexp \<Rightarrow> unit prj" where
  "read_parent_file new s =
     (case sexp_list s of
        [w, c, sel, a] \<Rightarrow>
          cbind (read_merge_parents_file_name w) (\<lambda>working.
          cbind (read_merge_parents_file_name c) (\<lambda>common.
          cbind (read_merge_parents_file_name sel) (\<lambda>selected.
            if sexp_is_pair a \<or> length (sexp_text a) \<noteq> 1 then bad_project_file
            else if hd (sexp_text a) \<notin> set ''adnmr'' then bad_project_file
            else (case char_action (hd (sexp_text a)) of
                    None \<Rightarrow> bad_project_file
                  | Some action \<Rightarrow>
                      append_parent_file new \<lparr>mpf_working = working, mpf_common = common,
                        mpf_selected = selected, mpf_action = action\<rparr>))))
      | _ \<Rightarrow> bad_project_file)"

text \<open>
  The loop over the files of an entry, bounded by the number of characters left: every turn
  reads a token.
\<close>

fun read_parent_files :: "nat \<Rightarrow> bool \<Rightarrow> Sexp \<Rightarrow> unit prj" where
  "read_parent_files 0 new s = cthrow Aborted"
| "read_parent_files (Suc n) new s =
     (if sexp_is_empty s then creturn ()
      else cthen (read_parent_file new s) (cbind read_list_elt (read_parent_files n new)))"

definition state_1_2 :: "string \<Rightarrow> MergeParentState option" where
  "state_1_2 t =
     (if t = ''complete'' then Some MergeStateParent
      else if t = ''incomplete-parent'' then Some MergeStateIncompleteParent
      else if t = ''incomplete'' then Some MergeStateIncomplete
      else None)"

definition state_1_1 :: "string \<Rightarrow> MergeParentState option" where
  "state_1_1 t =
     (if t = ''complete'' then Some MergeStateParent
      else if t = ''incomplete'' then Some MergeStateIncomplete
      else None)"

text \<open>
  The state of an entry and the element after it, in the three formats: 1.0 and earlier has
  no state, 1.2 has one string before the files, 1.1 has two.
\<close>

definition read_parent_state :: "(MergeParentState \<times> Sexp) prj" where
  "read_parent_state =
     cbind read_list_elt (\<lambda>s.
       if sexp_is_pair s then creturn (MergeStateParent, s)
       else cbind read_list_elt (\<lambda>elt_3.
         if sexp_is_pair elt_3 then
           (case state_1_2 (sexp_text s) of None \<Rightarrow> bad_project_file | Some st \<Rightarrow> creturn (st, elt_3))
         else
           (case state_1_1 (sexp_text elt_3) of
              None \<Rightarrow> bad_project_file
            | Some st \<Rightarrow> cbind read_list_elt (\<lambda>s'. creturn (st, s')))))"

definition read_merge_parents_entry :: "bool \<Rightarrow> unit prj" where
  "read_merge_parents_entry new =
     cbind read_list_elt (\<lambda>s.
       if sexp_is_pair s \<or> strchr (sexp_text s) DOT = None then bad_project_file
       else cbind read_parent_state (\<lambda>(st, elt).
         cthen (append_parent new (new_MergeParentEntry (sexp_text s) st))
           (cbind (cget input_left) (\<lambda>n. read_parent_files (n + 2) new elt))))"

fun read_merge_parents_loop :: "nat \<Rightarrow> bool \<Rightarrow> unit prj" where
  "read_merge_parents_loop 0 new = cthrow Aborted"
| "read_merge_parents_loop (Suc n) new =
     cbind prj_lex (\<lambda>tok.
       if tok = PrjClose then
         cupd (\<lambda>p. p\<lparr>finish_me := Some (if new then NewMergeParentsMarker else MergeParentsMarker)\<rparr>)
       else if tok = PrjOpen then cthen (read_merge_parents_entry new) (read_merge_parents_loop n new)
       else read_parse_bad_token tok)"

definition read_merge_parents :: "bool \<Rightarrow> unit prj" where
  "read_merge_parents new = cbind (cget input_left) (\<lambda>n. read_merge_parents_loop (n + 2) new)"

definition merge_parents_prj_entry_read :: "bool \<Rightarrow> nat \<Rightarrow> unit prj" where
  "merge_parents_prj_entry_read new offset =
     cthen (cupd (\<lambda>p.
        let m = (if new then NewMergeParentsMarker else MergeParentsMarker)
        in set_marker m ((markers p m)\<lparr>marker_start := offset\<rparr>) p))
     (read_merge_parents new)"

section \<open>The files\<close>

text \<open>The three octal digits of a mode.\<close>

fun mode_digits :: "string \<Rightarrow> nat \<Rightarrow> nat option" where
  "mode_digits [] file_mode = Some file_mode"
| "mode_digits (c # cs) file_mode =
     (let n = of_char c :: nat in
      if 48 \<le> n \<and> n < 56 then
        mode_digits cs (if cs = [] then file_mode + (n - 48) else (file_mode + (n - 48)) * 8)
      else None)"

definition read_mode :: "string \<Rightarrow> nat option" where
  "read_mode s = (if length s \<noteq> 3 then None else mode_digits s 0)"

text \<open>
  The internal descriptor of a real file: the version number, the name after the first slash
  and the mode, 644 octal in the old format without one. The descriptor name is a string of
  its own at the end of the one it is a part of.
\<close>

definition read_real_file :: "Estring list \<Rightarrow> (string option \<times> string option \<times> nat) prj" where
  "read_real_file descriptor =
     (if descriptor = [] then creturn (None, None, 420)
      else if length descriptor \<noteq> 2 \<and> length descriptor \<noteq> 3 then bad_project_file
      else
        (case (if length descriptor = 3 then read_mode (es_text (descriptor ! 2)) else Some 420) of
           None \<Rightarrow> bad_project_file
         | Some file_mode \<Rightarrow>
             let version_num = es_text (descriptor ! 1); int_desc = descriptor ! 0 in
             if \<not> strncmp_eq ''1.'' version_num then bad_project_file
             else
               (case strchr (es_text int_desc) SLASH of
                  None \<Rightarrow> bad_project_file
                | Some first_slash \<Rightarrow>
                    if length first_slash < 4 then bad_project_file
                    else
                      let diff = length (es_text int_desc) - length first_slash + 1 in
                      cbind (register_estring (tl first_slash) (es_offset int_desc + diff)
                               (es_len int_desc - diff) EsNameLiteral NUL)
                        (\<lambda>e. creturn (Some version_num, Some (es_text e), file_mode)))))"

fun atom_estring :: "Sexp \<Rightarrow> Estring option" where
  "atom_estring (Atom e) = Some e"
| "atom_estring _ = None"

definition atom_list :: "Sexp list \<Rightarrow> Estring list" where
  "atom_list ss = map (\<lambda>s. the (atom_estring s)) ss"

definition is_attribute_tag :: "Sexp \<Rightarrow> bool" where
  "is_attribute_tag s \<longleftrightarrow> \<not> sexp_is_pair s \<and> index0 (sexp_text s) = CHR '':''"

definition intern_tags :: "string list \<Rightarrow> nat \<Rightarrow> PrcsAttrs prj" where
  "intern_tags tags ng =
     (\<lambda>p. case intern_attrs (tool_env p) (attrs_table p) tags ng True of
            Inl e \<Rightarrow> (Inl e, p)
          | Inr (a, t) \<Rightarrow> (Inr a, p\<lparr>attrs_table := t\<rparr>))"

definition new_FileEntry ::
  "string \<Rightarrow> ListMarker \<Rightarrow> PrcsAttrs \<Rightarrow> string option \<Rightarrow> string option \<Rightarrow> string option \<Rightarrow> nat \<Rightarrow> FileEntry" where
  "new_FileEntry working_path ent_marker attrs desc_ver desc_name link_name mode =
     \<lparr>fe_working_path = working_path, fe_ent_marker = ent_marker, fe_attrs = attrs,
      fe_version = desc_ver, fe_descriptor = desc_name, fe_link = link_name, fe_mode = mode,
      fe_present = False, fe_on_command_line = True, fe_unmodified = False\<rparr>"

definition individual_insert_fileent :: "Sexp \<Rightarrow> string list \<Rightarrow> unit prj" where
  "individual_insert_fileent file gtags =
     (let elts = sexp_list file in
      if \<not> sexp_is_pair file \<or> length elts < 2 \<or> sexp_is_pair (elts ! 0) \<or> \<not> sexp_is_pair (elts ! 1)
      then bad_project_file
      else if weird_pathname (sexp_text (elts ! 0)) then bad_project_file
      else cbind (cget project_path) (\<lambda>dir.
        let working_path = dir @ sexp_text (elts ! 0); descriptor = sexp_list (elts ! 1) in
        if list_ex sexp_is_pair descriptor then bad_project_file
        else if \<not> list_all is_attribute_tag (drop 2 elts) then bad_project_file
        else cbind (intern_tags (gtags @ map sexp_text (drop 2 elts)) (length gtags)) (\<lambda>attrs.
          cbind
            (case attrs_type attrs of
               Directory \<Rightarrow>
                 if 0 < length descriptor then bad_project_file else creturn (None, None, None, 420)
             | SymLink \<Rightarrow>
                 if 1 < length descriptor then bad_project_file
                 else creturn (None, None, map_option sexp_text (if descriptor = [] then None else Some (hd descriptor)), 420)
             | RealFile \<Rightarrow>
                 cbind (read_real_file (atom_list descriptor))
                   (\<lambda>(version_num, desc_name, file_mode). creturn (version_num, desc_name, None, file_mode)))
            (\<lambda>(version_num, desc_name, link_name, file_mode).
               cupd (\<lambda>p. p\<lparr>file_entries := file_entries p @
                 [new_FileEntry working_path (sexp_marker file) attrs version_num desc_name link_name file_mode]\<rparr>)))))"

section \<open>Checking the files against each other\<close>

type_synonym PathTable = "(string, FileType) HashTable"

abbreviation path_insert :: "PathTable \<Rightarrow> string \<Rightarrow> FileType \<Rightarrow> PathTable" where
  "path_insert \<equiv> ht_insert pathname_hash pathname_equal"

abbreviation path_lookup :: "PathTable \<Rightarrow> string \<Rightarrow> FileType option" where
  "path_lookup \<equiv> ht_lookup pathname_hash pathname_equal"

text \<open>The first loop of \<open>verify_project_file\<close>; the state is the two tables.\<close>

definition verify_names :: "PathTable \<times> PathTable \<Rightarrow> FileEntry \<Rightarrow> failure + PathTable \<times> PathTable" where
  "verify_names st fe =
     (let (filenames, descriptors) = st; fe_name = fe_working_path fe in
      if path_lookup filenames fe_name \<noteq> None then Inl (Err NonFatalError)
      else
        let filenames' = path_insert filenames fe_name (file_type fe) in
        if file_type fe \<noteq> RealFile then Inr (filenames', descriptors)
        else (case fe_descriptor fe of
                None \<Rightarrow> Inr (filenames', descriptors)
              | Some fe_desc \<Rightarrow>
                  if path_lookup descriptors fe_desc \<noteq> None then Inl (Err NonFatalError)
                  else Inr (filenames', path_insert descriptors fe_desc RealFile)))"

text \<open>
  The second loop looks at every prefix of the name that ends before a slash, from the
  longest, except the empty one.
\<close>

fun verify_prefixes :: "PathTable \<Rightarrow> string \<Rightarrow> nat \<Rightarrow> failure + unit" where
  "verify_prefixes filenames name 0 = Inr ()"
| "verify_prefixes filenames name (Suc i) =
     (if Suc i < length name \<and> name ! Suc i = SLASH then
        (case path_lookup filenames (take (Suc i) name) of
           Some ft \<Rightarrow> if ft \<noteq> Directory then Inl (Err NonFatalError) else verify_prefixes filenames name i
         | None \<Rightarrow> verify_prefixes filenames name i)
      else verify_prefixes filenames name i)"

definition verify_files ::
  "string \<Rightarrow> string \<Rightarrow> string \<Rightarrow> FileEntry list \<Rightarrow> failure + unit" where
  "verify_files project_descriptor project_file_name project_aux_name files =
     ebind
       (efold verify_names
          (path_insert (path_insert ht_empty project_file_name RealFile) project_aux_name RealFile,
           path_insert ht_empty project_descriptor RealFile) files)
       (\<lambda>(filenames, descriptors).
          efold (\<lambda>_ fe. verify_prefixes filenames (fe_working_path fe) (length (fe_working_path fe) - 1))
            () files)"

definition verify_project_file :: "unit prj" where
  "verify_project_file =
     (\<lambda>p. (verify_files (project_name p @ ''.prj'') (project_file_path p) (project_aux_path p) (file_entries p), p))"

section \<open>The whole file\<close>

fun read_files_loop :: "nat \<Rightarrow> string list \<Rightarrow> bool \<Rightarrow> Sexp \<Rightarrow> unit prj" where
  "read_files_loop 0 gtags allow_tags s = cthrow Aborted"
| "read_files_loop (Suc n) gtags allow_tags s =
     (if sexp_is_empty s then creturn ()
      else if sexp_is_pair s then
        cthen (individual_insert_fileent s gtags)
          (cbind read_list_elt (read_files_loop n gtags False))
      else if allow_tags \<and> index0 (sexp_text s) = CHR '':'' then
        cbind read_list_elt (read_files_loop n (gtags @ [sexp_text s]) allow_tags)
      else bad_project_file)"

definition files_prj_entry_read :: "unit prj" where
  "files_prj_entry_read =
     cbind read_list_elt (\<lambda>s.
     cthen (cbind (cget input_left) (\<lambda>n. read_files_loop (n + 2) [] True s))
     (cbind this_index (\<lambda>i.
      cbind (new_insertion_point i) (\<lambda>e.
      cthen (cupd (\<lambda>p. p\<lparr>files_insertion_point := Some (es_id e)\<rparr>))
      verify_project_file))))"

text \<open>The function that the table names for an entry, and the entries that must be there.\<close>

definition read_entry :: "string \<Rightarrow> nat \<Rightarrow> unit prj" where
  "read_entry name offset =
     (if name = ''Files'' then files_prj_entry_read
      else if name = ''Merge-Parents'' then merge_parents_prj_entry_read False offset
      else if name = ''New-Merge-Parents'' then merge_parents_prj_entry_read True offset
      else cbind (cbind (cget input_left) (\<lambda>n. read_list_token (n + 2) PrjName offset)) (\<lambda>s.
        if name = ''Version-Log'' then version_log_prj_entry_func s
        else if name = ''Checkin-Login'' then checkin_login_prj_entry_func s
        else if name = ''Parent-Version'' then parent_ver_prj_entry_func s
        else if name = ''Project-Version'' then project_ver_prj_entry_func s
        else if name = ''Project-Keywords'' then project_keywords_prj_entry_func s
        else if name = ''Descends-From'' then descends_from_prj_entry_func s
        else if name = ''Project-Description'' then project_desc_prj_entry_func s
        else if name = ''Checkin-Time'' then checkin_time_prj_entry_func s
        else if name = ''Created-By-Prcs-Version'' then created_by_prj_entry_func s
        else if name = ''Populate-Ignore'' then populate_ignore_prj_entry_func s
        else new_version_log_prj_entry_func s))"

definition must_have :: "string \<Rightarrow> bool" where
  "must_have name \<longleftrightarrow> name \<in> set [''Files'', ''Version-Log'', ''Checkin-Login'', ''Parent-Version'',
     ''Project-Version'', ''Project-Description'', ''Checkin-Time'', ''Created-By-Prcs-Version'',
     ''New-Version-Log'']"

definition read_list_checked :: "nat \<Rightarrow> unit prj" where
  "read_list_checked offset =
     cbind prj_lex (\<lambda>tok.
     cbind (cget id) (\<lambda>p.
       let name = prjtext (lexer p) in
       if tok \<noteq> PrjName then cthrow (Err NonFatalError)
       else (case (prj_lookup_func name, prj_lookup_hash name) of
               (Some (Some key), Some h) \<Rightarrow>
                 if prj_entry_found p ! h \<and> Some h \<noteq> prj_lookup_hash ''Files'' then cthrow (Err NonFatalError)
                 else cthen (cupd (\<lambda>p. p\<lparr>prj_entry_found := (prj_entry_found p)[h := True]\<rparr>))
                        (read_entry (pftable ! key) offset)
             | (Some None, Some h) \<Rightarrow> cthrow (Err NonFatalError)
             | _ \<Rightarrow> cthrow Undefined)))"

fun parse_entries :: "nat \<Rightarrow> unit prj" where
  "parse_entries 0 = cthrow Aborted"
| "parse_entries (Suc n) =
     cbind prj_lex (\<lambda>tok.
       if tok = PrjOpen then cthen (cbind this_index read_list_checked) (parse_entries n)
       else if tok = PrjEof then
         cbind (cget id) (\<lambda>p.
           if \<exists>i \<in> set [0..<length pftable]. must_have (pftable ! i) \<and> \<not> prj_entry_found p ! i
           then cthrow (Err NonFatalError)
           else cbind cur_index (\<lambda>i. cbind (new_insertion_point i) (\<lambda>e.
             cupd (\<lambda>p. p\<lparr>end_of_buffer_point := Some (es_id e)\<rparr>))))
       else read_parse_bad_token tok)"

definition parse_prj_file :: "string \<Rightarrow> unit prj" where
  "parse_prj_file text =
     cthen (cupd (\<lambda>p. p\<lparr>segment := text,
              lexer := \<lparr>lex_input = text, prj_lex_this_index = 0, prj_lex_cur_index = 0, prjtext = []\<rparr>,
              prj_entry_found := replicate (length pftable) False\<rparr>))
     (cbind (cget input_left) (\<lambda>n. parse_entries (n + 2)))"

section \<open>Opening a project\<close>

text \<open>
  The constructor and \<open>init_from_file\<close>, the latter from the contents of the file. The names
  of the project are parts of the name it is opened by.
\<close>

definition new_ProjectDescriptor :: "ToolEnv \<Rightarrow> string \<Rightarrow> bool \<Rightarrow> ProjectDescriptor" where
  "new_ProjectDescriptor env full_name keep =
     (let name = strip_leading_path full_name;
          path = (case strrchr full_name SLASH of
                    None \<Rightarrow> [] | Some r \<Rightarrow> take (length full_name - length r + 1) full_name)
      in \<lparr>alter_popkey = False, populate_ignore = ot_empty, project_keywords = ht_empty,
          project_keywords_extra = ot_empty, segment = [],
          lexer = \<lparr>lex_input = [], prj_lex_this_index = 0, prj_lex_cur_index = 0, prjtext = []\<rparr>,
          finish_me = None, all_estrings = [], nullified_chars = [],
          markers = (\<lambda>_. \<lparr>marker_start = 0, marker_stop = 0\<rparr>), deleted_markers = [],
          prj_entry_found = [], tool_env = env, project_name = name, project_full_name = full_name,
          project_file_path = full_name @ ''.prj'', project_path = path,
          project_aux_path = path @ ''.'' @ name @ ''.prcs_aux'',
          files_insertion_point = None, project_version_point = None, end_of_buffer_point = None,
          project_keywords_point = None, populate_ignore_point = None,
          project_version_name = None, project_version_major = None, project_version_minor = None,
          parent_version_name = None, parent_version_major = None, parent_version_minor = None,
          project_description = None, version_log = None, new_version_log = None,
          checkin_time = None, checkin_login = None, created_by_major = None,
          created_by_minor = None, created_by_micro = None,
          merge_parents = (if keep then Some [] else None),
          new_merge_parents = (if keep then Some [] else None),
          append_merge_parents = False, file_entries = [], attrs_table = ht_empty\<rparr>)"

definition init_from_file :: "ToolEnv \<Rightarrow> string \<Rightarrow> bool \<Rightarrow> string \<Rightarrow> (failure + unit) \<times> ProjectDescriptor" where
  "init_from_file env full_name keep text = parse_prj_file text (new_ProjectDescriptor env full_name keep)"

end
