(* ===== verification/ReadSafe.thy ===== *)
theory ReadSafe
  imports ProjRead
begin

text \<open>
  Reading a project file of ASCII characters is safe: every operation of the parser returns,
  with a value or an error, and none has undefined behaviour or runs out of the bound on its
  loops. The lemmas are triples over the descriptor, one for each function of \<open>ProjRead\<close>.
\<close>

section \<open>The invariant\<close>

text \<open>
  What holds of the descriptor while a file of ASCII characters is read: the scanner stands
  at its index in the segment, and the tables satisfy their invariants.
\<close>

definition reading :: "nat \<Rightarrow> ProjectDescriptor \<Rightarrow> bool" where
  "reading m p \<longleftrightarrow>
     lexer_at (segment p) (lexer p) \<and> ascii (segment p) \<and> input_left p \<le> m \<and>
     length (prj_entry_found p) = length pftable \<and>
     ot_inv hash_string (=) (populate_ignore p) \<and>
     ht_inv hash_string (=) (project_keywords p) \<and>
     ot_inv hash_string (=) (project_keywords_extra p) \<and>
     attrs_inv (tool_env p) (attrs_table p)"

definition any_error :: "ProjectDescriptor \<Rightarrow> bool" where
  "any_error p \<longleftrightarrow> True"

text \<open>The strings of an s-expression are ASCII, and its second parts are lists.\<close>

fun sexp_ok :: "Sexp \<Rightarrow> bool" where
  "sexp_ok (Atom e) = ascii (es_text e)"
| "sexp_ok (Pair a d i j) = (sexp_ok a \<and> sexp_ok d \<and> sexp_is_pair d)"
| "sexp_ok (Empty i j) = True"

lemma ascii_subset: "ascii s \<Longrightarrow> set t \<subseteq> set s \<Longrightarrow> ascii t"
  by (auto simp: ascii_def list_all_iff)

lemma sexp_list_ok: "sexp_ok s \<Longrightarrow> t \<in> set (sexp_list s) \<Longrightarrow> sexp_ok t"
  by (induction s) auto

lemma ascii_sexp_text: "sexp_ok s \<Longrightarrow> ascii (sexp_text s)"
  by (cases s) (auto simp: ascii_def)

section \<open>Tokens\<close>

definition tok_ready :: "nat \<Rightarrow> PrjTokenType \<Rightarrow> ProjectDescriptor \<Rightarrow> bool" where
  "tok_ready m tok p \<longleftrightarrow>
     reading m p \<and> token_ok tok (segment p) (lexer p) \<and> (tok \<noteq> PrjEof \<longrightarrow> input_left p < m)"

lemma prj_lex_ready: "hoare (reading m) prj_lex (tok_ready m) any_error"
proof (rule hoare_intro)
  fix p t p'
  assume p: "reading m p" and r: "prj_lex p = (Inr t, p')"
  obtain u l where u: "prjlex (lexer p) = (u, l)" by (cases "prjlex (lexer p)")
  have t: "t = u" "lexer p' = l" "segment p' = segment p" "prj_entry_found p' = prj_entry_found p"
    "populate_ignore p' = populate_ignore p" "project_keywords p' = project_keywords p"
    "project_keywords_extra p' = project_keywords_extra p" "attrs_table p' = attrs_table p"
    "tool_env p' = tool_env p"
    using r by (auto simp: prj_lex_def prj_lex_state_def u Let_def set_marker_stop_def split: option.splits)
  have l: "lexer_at (segment p) l \<and> token_ok u (segment p) l \<and> length (lex_input l) \<le> length (lex_input (lexer p)) \<and>
      (u \<noteq> PrjEof \<longrightarrow> length (lex_input l) < length (lex_input (lexer p)))"
    using prjlex_spec [of "segment p", OF _ u] p by (simp add: reading_def)
  then show "tok_ready m t p'"
    using p by (auto simp: tok_ready_def reading_def t input_left_def)
qed (auto simp: prj_lex_def any_error_def split: prod.splits)

lemma hoare_bad: "hoare P bad_project_file Q any_error"
  unfolding bad_project_file_def by (rule hoare_err) (simp add: any_error_def)

lemma hoare_bad_token: "hoare P (read_parse_bad_token t) Q any_error"
  unfolding read_parse_bad_token_def by (rule hoare_err) (simp add: any_error_def)

lemma reading_frame:
  "segment q = segment p \<Longrightarrow> lexer q = lexer p \<Longrightarrow> prj_entry_found q = prj_entry_found p \<Longrightarrow>
   populate_ignore q = populate_ignore p \<Longrightarrow> project_keywords q = project_keywords p \<Longrightarrow>
   project_keywords_extra q = project_keywords_extra p \<Longrightarrow> attrs_table q = attrs_table p \<Longrightarrow>
   tool_env q = tool_env p \<Longrightarrow> reading m p \<Longrightarrow> reading m q"
  by (simp add: reading_def input_left_def)

lemma register_estring_ready:
  "hoare (reading m) (register_estring t off len ty c) (\<lambda>e p. es_text e = t \<and> reading m p) any_error"
proof (rule hoare_intro)
  fix p e p'
  assume p: "reading m p" and r: "register_estring t off len ty c p = (Inr e, p')"
  have "reading m p'"
    by (rule reading_frame [OF _ _ _ _ _ _ _ _ p]) (use r in \<open>auto simp: register_estring_def Let_def\<close>)
  then show "es_text e = t \<and> reading m p'" using r by (auto simp: register_estring_def Let_def)
qed (simp add: register_estring_def Let_def)

lemma reading_mono: "reading k p \<Longrightarrow> k \<le> m \<Longrightarrow> reading m p"
  by (simp add: reading_def)

lemma read_new_estring_ready:
  assumes tok: "tok = PrjName \<or> tok = PrjString"
  shows "hoare (tok_ready m tok) (read_new_estring tok)
    (\<lambda>e p. ascii (es_text e) \<and> reading m p \<and> input_left p < m) any_error"
proof (rule hoareI)
  fix p assume p: "tok_ready m tok p"
  let ?str = "token_text tok (segment p) (lexer p)"
  have ok: "correct_path ?str [] \<noteq> None" using p tok by (simp add: tok_ready_def token_ok_def)
  have asc: "ascii (segment p)" using p by (simp add: tok_ready_def reading_def)
  have str: "set ?str \<subseteq> set (segment p)"
    by (auto simp: token_text_def Let_def dest: in_set_takeD in_set_dropD)
  obtain t where t: "(if strchr ?str BACKSLASH \<noteq> None then correct_path ?str [] else Some ?str) = Some t"
    and sub: "set t \<subseteq> set ?str"
    using ok correct_path_chars [of ?str "[]"] by (cases "strchr ?str BACKSLASH \<noteq> None") auto
  have rd: "reading m p \<and> input_left p < m" using p tok by (auto simp: tok_ready_def)
  define q where "q = (if tok = PrjString then 1 else 0 :: nat)"
  define off where "off = prj_lex_this_index (lexer p) + q"
  define len where "len = prj_lex_cur_index (lexer p) - q - off"
  define ty where "ty = (if tok = PrjName then EsNameLiteral else EsStringLiteral)"
  define c where "c = segment_char (segment p) (prj_lex_cur_index (lexer p) - q)"
  have r: "read_new_estring tok p = register_estring t off len ty c p"
    using t unfolding read_new_estring_def token_text_def Let_def c_def len_def off_def q_def ty_def
    by (simp only: option.case)
  have "case register_estring t off len ty c p of (Inr e, s') \<Rightarrow> es_text e = t \<and> reading m s' \<and> input_left s' = input_left p | _ \<Rightarrow> False"
    using rd by (auto simp: register_estring_def Let_def input_left_def intro: reading_frame)
  then show "case read_new_estring tok p of (Inl (Err t), s') \<Rightarrow> any_error s' | (Inl _, _) \<Rightarrow> False
      | (Inr e, s') \<Rightarrow> ascii (es_text e) \<and> reading m s' \<and> input_left s' < m"
    using ascii_subset [OF asc] sub str rd
    by (auto simp: r split: sum.splits prod.splits)
qed

section \<open>Lists\<close>

definition got_sexp :: "nat \<Rightarrow> Sexp \<Rightarrow> ProjectDescriptor \<Rightarrow> bool" where
  "got_sexp m s p \<longleftrightarrow> sexp_ok s \<and> reading m p \<and> input_left p < m"

definition got_list :: "nat \<Rightarrow> Sexp \<Rightarrow> ProjectDescriptor \<Rightarrow> bool" where
  "got_list m s p \<longleftrightarrow> sexp_ok s \<and> sexp_is_pair s \<and> reading m p \<and> input_left p < m"

lemma read_list_token_ready:
  "m < n \<Longrightarrow> hoare (tok_ready m tok) (read_list_token n tok start) (got_list m) any_error"
proof (induction n arbitrary: m tok start)
  case 0
  then show ?case by simp
next
  case (Suc n)
  have next_list: "hoare (\<lambda>p. C \<and> (reading m p \<and> input_left p < m))
      (cbind prj_lex (\<lambda>t. read_list_token n t i))
      (\<lambda>s p. C \<and> got_list m s p) any_error" for C i
  proof (rule hoare_pure)
    show "hoare (\<lambda>p. reading m p \<and> input_left p < m) (cbind prj_lex (\<lambda>t. read_list_token n t i)) (got_list m) any_error"
    proof (cases m)
      case 0
      then show ?thesis by (intro hoare_false) simp
    next
      case (Suc k)
      have "hoare (reading k) (cbind prj_lex (\<lambda>t. read_list_token n t i)) (got_list k) any_error"
        by (rule hoare_bind [OF prj_lex_ready Suc.IH]) (use Suc.prems Suc in simp)
      then show ?thesis
        by (rule hoare_post [OF hoare_pre]) (auto simp: Suc reading_def got_list_def)
    qed
  qed
  have done_list: "hoare (\<lambda>p. P \<and> (reading m p \<and> input_left p < m)) (cbind cur_index (\<lambda>e. creturn (f e))) (got_list m) any_error"
    if "\<And>e. P \<Longrightarrow> sexp_ok (f e) \<and> sexp_is_pair (f e)" for P f
    by (rule hoareI) (auto simp: cur_index_def cmd_simps got_list_def dest: that)
  consider "tok \<in> {PrjEof, PrjNull, PrjBadString}" | "tok \<in> {PrjString, PrjName}" | "tok = PrjClose" | "tok = PrjOpen"
    by (cases tok) auto
  then show ?case
  proof cases
    case 1
    then show ?thesis by (auto simp: hoare_bad_token)
  next
    case 2
    then have "hoare (tok_ready m tok)
      (cbind (read_new_estring tok) (\<lambda>s2. cbind (cbind prj_lex (\<lambda>t. read_list_token n t start))
        (\<lambda>s1. cbind cur_index (\<lambda>e. creturn (Pair (Atom s2) s1 start e))))) (got_list m) any_error"
    proof (intro hoare_bind [OF read_new_estring_ready])
      show "hoare (\<lambda>p. ascii (es_text s2) \<and> reading m p \<and> input_left p < m)
          (cbind (cbind prj_lex (\<lambda>t. read_list_token n t start))
             (\<lambda>s1. cbind cur_index (\<lambda>e. creturn (Pair (Atom s2) s1 start e)))) (got_list m) any_error" for s2
        by (rule hoare_bind [OF next_list], rule hoare_pre, rule done_list [where P = "ascii (es_text s2) \<and> sexp_ok s1 \<and> sexp_is_pair s1" for s1])
          (auto simp: got_list_def)
    qed auto
    then show ?thesis using 2 by auto
  next
    case 3
    then show ?thesis
      by (simp, intro hoare_pre [OF done_list [where P = True]]) (auto simp: tok_ready_def)
  next
    case 4
    have ti: "hoare (tok_ready m tok) this_index (\<lambda>i p. True \<and> (reading m p \<and> input_left p < m)) any_error"
      by (rule hoareI) (use 4 in \<open>auto simp: this_index_def cmd_simps tok_ready_def\<close>)
    have l2: "hoare (got_list m s1) (cbind (cbind prj_lex (\<lambda>t. read_list_token n t start))
        (\<lambda>s2. cbind cur_index (\<lambda>e. creturn (Pair s1 s2 start e)))) (got_list m) any_error" for s1
      by (rule hoare_bind [OF hoare_pre [OF next_list [where C = "sexp_ok s1"]]], simp add: got_list_def,
          rule hoare_pre, rule done_list [where P = "sexp_ok s1 \<and> sexp_ok s2 \<and> sexp_is_pair s2" for s2])
        (auto simp: got_list_def)
    have l1: "hoare (\<lambda>p. True \<and> (reading m p \<and> input_left p < m)) (cbind prj_lex (\<lambda>t. read_list_token n t i))
        (got_list m) any_error" for i
      by (rule hoare_post [OF next_list]) auto
    have "hoare (tok_ready m tok) (cbind this_index (\<lambda>i. cbind (cbind prj_lex (\<lambda>t. read_list_token n t i))
        (\<lambda>s1. cbind (cbind prj_lex (\<lambda>t. read_list_token n t start))
          (\<lambda>s2. cbind cur_index (\<lambda>e. creturn (Pair s1 s2 start e)))))) (got_list m) any_error"
      by (rule hoare_bind [OF ti hoare_bind [OF l1 l2]])
    then show ?thesis using 4 by simp
  qed
qed

lemma list_token_ready:
  "hoare (tok_ready m t) (cbind (cget input_left) (\<lambda>n. read_list_token (n + 2) t offset)) (got_list m) any_error"
proof (rule hoare_intro)
    fix p s p' assume p: "tok_ready m t p"
      and r: "cbind (cget input_left) (\<lambda>n. read_list_token (n + 2) t offset) p = (Inr s, p')"
    have r': "read_list_token (input_left p + 2) t offset p = (Inr s, p')"
      using r by (simp add: cmd_simps)
    have "t \<noteq> PrjEof" using r' by (auto simp: read_parse_bad_token_def cmd_simps)
    then have "tok_ready (input_left p + 1) t p" "input_left p < m"
      using p by (auto simp: tok_ready_def reading_def)
    from hoareD [OF read_list_token_ready this(1) r'] this(2)
    show "got_list m s p'" by (auto simp: got_list_def reading_def)
  next
    fix p f p' assume p: "tok_ready m t p"
      and r: "cbind (cget input_left) (\<lambda>n. read_list_token (n + 2) t offset) p = (Inl f, p')"
    have r': "read_list_token (input_left p + 2) t offset p = (Inl f, p')"
      using r by (simp add: cmd_simps)
    have "tok_ready (input_left p + 1) t p" using p by (auto simp: tok_ready_def reading_def)
    from hoare_errD [OF read_list_token_ready this r'] show "(\<exists>e. f = Err e) \<and> any_error p'" by simp
qed

lemma read_list_ready: "hoare (reading m) (read_list offset) (got_list m) any_error"
  unfolding read_list_def by (rule hoare_bind [OF prj_lex_ready list_token_ready])

lemma read_list_elt_ready: "hoare (reading m) read_list_elt (got_sexp m) any_error"
  unfolding read_list_elt_def
proof (rule hoare_bind [OF prj_lex_ready])
  fix tok
  have open_list: "hoare (\<lambda>p. reading m p \<and> input_left p < m) (cbind this_index read_list) (got_sexp m) any_error"
  proof (rule hoare_bind [where Q = "\<lambda>i. reading m"])
    show "hoare (\<lambda>p. reading m p \<and> input_left p < m) this_index (\<lambda>i. reading m) any_error"
      by (rule hoareI) (auto simp: this_index_def cmd_simps)
    show "hoare (reading m) (read_list i) (got_sexp m) any_error" for i
      by (rule hoare_post [OF read_list_ready]) (auto simp: got_list_def got_sexp_def)
  qed
  have atom: "hoare (tok_ready m tok) (cbind (read_new_estring tok) (\<lambda>e. creturn (Atom e))) (got_sexp m) any_error"
    if "tok = PrjName \<or> tok = PrjString"
    by (rule hoare_bind [OF read_new_estring_ready [OF that]], rule hoare_return) (simp add: got_sexp_def)
  consider "tok \<in> {PrjEof, PrjNull, PrjBadString}" | "tok \<in> {PrjString, PrjName}" | "tok = PrjClose" | "tok = PrjOpen"
    by (cases tok) auto
  then show "hoare (tok_ready m tok)
     (if tok = PrjEof \<or> tok = PrjNull \<or> tok = PrjBadString then read_parse_bad_token tok
      else if tok = PrjString \<or> tok = PrjName then cbind (read_new_estring tok) (\<lambda>e. creturn (Atom e))
      else if tok = PrjClose then creturn (Empty 0 0) else cbind this_index read_list)
     (got_sexp m) any_error"
  proof cases
    case 1
    then show ?thesis by (auto simp: hoare_bad_token)
  next
    case 2
    then show ?thesis using atom by auto
  next
    case 3
    then show ?thesis by (auto intro!: hoare_return simp: got_sexp_def tok_ready_def)
  next
    case 4
    then show ?thesis by (auto intro!: hoare_pre [OF open_list] simp: tok_ready_def)
  qed
qed

section \<open>Entries\<close>

lemma ready_upd:
  assumes "\<And>p. segment (f p) = segment p \<and> lexer (f p) = lexer p \<and> prj_entry_found (f p) = prj_entry_found p \<and>
    populate_ignore (f p) = populate_ignore p \<and> project_keywords (f p) = project_keywords p \<and>
    project_keywords_extra (f p) = project_keywords_extra p \<and> attrs_table (f p) = attrs_table p \<and>
    tool_env (f p) = tool_env p"
  shows "hoare (reading m) (cupd f) (\<lambda>_. reading m) any_error"
  by (rule hoare_upd) (rule reading_frame, use assms in simp_all)

lemma ready_then:
  "hoare (reading m) a (\<lambda>_. reading m) any_error \<Longrightarrow> hoare (reading m) b Q any_error \<Longrightarrow>
   hoare (reading m) (cthen a b) Q any_error"
  for a :: "unit prj"
  by (rule hoare_then)

lemma ready_return: "hoare (reading m) (creturn ()) (\<lambda>_. reading m) any_error"
  by (rule hoare_return)

lemma ready_error: "hoare P (cthrow (Err t)) Q any_error"
  by (rule hoare_err) (simp add: any_error_def)

lemma new_insertion_point_ready:
  "hoare (reading m) (new_insertion_point i) (\<lambda>_. reading m) any_error"
  unfolding new_insertion_point_def by (rule hoare_post [OF register_estring_ready]) simp_all

lemma ready_point:
  "(\<And>e. hoare (reading m) (k e) Q any_error) \<Longrightarrow> hoare (reading m) (cbind (new_insertion_point i) k) Q any_error"
  by (rule hoare_bind [OF new_insertion_point_ready])

lemmas ready_get = hoare_get_at [where P = "reading m" for m]

lemmas ready_intros = ready_then ready_return ready_error hoare_bad ready_point

lemma scan_entry_ready:
  assumes "\<And>k p. segment (store k p) = segment p \<and> lexer (store k p) = lexer p \<and>
    prj_entry_found (store k p) = prj_entry_found p \<and>
    populate_ignore (store k p) = populate_ignore p \<and> project_keywords (store k p) = project_keywords p \<and>
    project_keywords_extra (store k p) = project_keywords_extra p \<and> attrs_table (store k p) = attrs_table p \<and>
    tool_env (store k p) = tool_env p"
  shows "hoare (reading m) (scan_entry s format store) (\<lambda>_. reading m) any_error"
proof (cases "sexp_scan s format")
  case None
  then show ?thesis by (simp add: scan_entry_def hoare_bad)
next
  case (Some keys)
  then show ?thesis using assms by (simp add: scan_entry_def ready_upd)
qed

lemma simple_entries_ready:
  "hoare (reading m) (created_by_prj_entry_func s) (\<lambda>_. reading m) any_error"
  "hoare (reading m) (project_ver_prj_entry_func s) (\<lambda>_. reading m) any_error"
  "hoare (reading m) (project_desc_prj_entry_func s) (\<lambda>_. reading m) any_error"
  "hoare (reading m) (version_log_prj_entry_func s) (\<lambda>_. reading m) any_error"
  "hoare (reading m) (new_version_log_prj_entry_func s) (\<lambda>_. reading m) any_error"
  "hoare (reading m) (checkin_time_prj_entry_func s) (\<lambda>_. reading m) any_error"
  "hoare (reading m) (checkin_login_prj_entry_func s) (\<lambda>_. reading m) any_error"
  "hoare (reading m) (descends_from_prj_entry_func s) (\<lambda>_. reading m) any_error"
  unfolding created_by_prj_entry_func_def project_ver_prj_entry_func_def project_desc_prj_entry_func_def
    version_log_prj_entry_func_def new_version_log_prj_entry_func_def checkin_time_prj_entry_func_def
    checkin_login_prj_entry_func_def descends_from_prj_entry_func_def
  by (intro ready_intros scan_entry_ready ready_upd; simp add: set_marker_def)+

lemma parent_ver_ready: "hoare (reading m) (parent_ver_prj_entry_func s) (\<lambda>_. reading m) any_error"
  unfolding parent_ver_prj_entry_func_def Let_def
  by (cases "sexp_scan s ''*LLLN''") (auto intro!: ready_intros ready_upd)

lemma hoare_at:
  assumes "hoare P m Q E" and "P p"
  shows "hoare (\<lambda>q. q = p) m Q E"
  by (rule hoare_pre [OF assms(1)]) (simp add: assms(2))

lemma insert_ignore_ready: "hoare (reading m) (insert_ignore t) (\<lambda>_. reading m) any_error"
  unfolding insert_ignore_def
proof (rule ready_get)
  fix p assume p: "reading m p"
  obtain tab where "ot_insert hash_string (=) (populate_ignore p) t t = Some tab" "ot_inv hash_string (=) tab"
    using str.ot_insert_ok [of "populate_ignore p" t t] p by (auto simp: reading_def)
  then show "hoare (\<lambda>q. q = p) (on_table (ot_insert hash_string (=) (populate_ignore p) t t)
      (\<lambda>tab'. cupd (\<lambda>p. p\<lparr>populate_ignore := tab'\<rparr>))) (\<lambda>_. reading m) any_error"
    using p by (auto simp: on_table_def reading_def input_left_def intro!: hoare_upd)
qed

lemma populate_ignore_ready: "hoare (reading m) (populate_ignore_prj_entry_func s) (\<lambda>_. reading m) any_error"
  unfolding populate_ignore_prj_entry_func_def
  by (intro ready_intros hoare_if hoare_foreach insert_ignore_ready ready_upd) (simp_all add: set_marker_def)

lemma is_builtin_keyword_defined: "ascii s \<Longrightarrow> is_builtin_keyword s \<noteq> None"
  using kwd.find_defined [of s] by (simp add: is_builtin_keyword_def)

lemma read_keyword_ready:
  assumes "sexp_ok t"
  shows "hoare (reading m) (read_keyword t) (\<lambda>_. reading m) any_error"
proof (cases "\<exists>k v. sexp_list t = [Atom k, Atom v] \<and> es_type k = EsNameLiteral")
  case False
  then show ?thesis
    by (auto simp: read_keyword_def hoare_bad split: list.split Sexp.split)
next
  case True
  then obtain k v where kv: "sexp_list t = [Atom k, Atom v]" "es_type k = EsNameLiteral" by blast
  have "ascii (es_text k)" using sexp_list_ok [OF assms, of "Atom k"] kv by simp
  then obtain r where r: "is_builtin_keyword (es_text k) = Some r"
    using is_builtin_keyword_defined by blast
  show ?thesis
  proof (cases r)
    case (Some x)
    then show ?thesis by (simp add: read_keyword_def kv r hoare_bad)
  next
    case None
    define ins :: "ProjectDescriptor \<Rightarrow> unit prj" where "ins = (\<lambda>p. cthen (cupd (\<lambda>p. p\<lparr>project_keywords :=
          ht_insert hash_string (=) (project_keywords p) (es_text k) (es_text v)\<rparr>))
        (on_table (ot_insert hash_string (=) (project_keywords_extra p) (es_text k) (es_text v))
          (\<lambda>tab. cupd (\<lambda>p. p\<lparr>project_keywords_extra := tab\<rparr>))))"
    have eq: "read_keyword t = cbind (cget id) (\<lambda>p.
        if ht_isdefined hash_string (=) (project_keywords p) (es_text k) then bad_project_file
        else if strchr (es_text v) NEWLINE \<noteq> None then bad_project_file else ins p)"
      unfolding ins_def read_keyword_def using kv r None by (simp del: strchr_None)
    have "hoare (\<lambda>q. q = p) (ins p) (\<lambda>_. reading m) any_error" if p: "reading m p" for p
    proof -
      obtain tab where tab: "ot_insert hash_string (=) (project_keywords_extra p) (es_text k) (es_text v) = Some tab"
        "ot_inv hash_string (=) tab"
        using str.ot_insert_ok [of "project_keywords_extra p"] p by (auto simp: reading_def)
      have "ht_inv hash_string (=) (ht_insert hash_string (=) (project_keywords p) (es_text k) (es_text v))"
        using p by (simp add: reading_def str.ht.invar_insert)
      then show ?thesis
        unfolding ins_def using p tab by (auto simp: on_table_def reading_def input_left_def cmd_simps intro!: hoareI)
    qed
    then show ?thesis
      unfolding eq by (intro ready_get hoare_if hoare_bad) simp
  qed
qed

lemma project_keywords_ready:
  assumes "sexp_ok s"
  shows "hoare (reading m) (project_keywords_prj_entry_func s) (\<lambda>_. reading m) any_error"
proof -
  have elts: "sexp_ok t" if "t \<in> set (tl (sexp_list s))" for t
    using sexp_list_ok [OF assms] that by (cases "sexp_list s") auto
  show ?thesis
  unfolding project_keywords_prj_entry_func_def
    by (intro ready_intros hoare_foreach read_keyword_ready ready_upd) (simp_all add: set_marker_def elts)
qed

section \<open>Loops over the elements of a list\<close>

lemma ready_next_elt:
  assumes "\<And>s k. sexp_ok s \<Longrightarrow> k < m \<Longrightarrow> hoare (reading k) (f s) Q any_error"
  shows "hoare (reading m) (cbind read_list_elt f) Q any_error"
proof (rule hoare_bind [OF read_list_elt_ready])
  fix s
  show "hoare (got_sexp m s) (f s) Q any_error"
  proof (cases "sexp_ok s \<and> 0 < m")
    case False
    then show ?thesis by (intro hoare_false) (auto simp: got_sexp_def)
  next
    case True
    then have "hoare (reading (m - 1)) (f s) Q any_error" by (intro assms) auto
    then show ?thesis by (rule hoare_pre) (auto simp: got_sexp_def reading_def)
  qed
qed

lemma ready_up: "hoare P f (\<lambda>_. reading k) any_error \<Longrightarrow> k \<le> m \<Longrightarrow> hoare P f (\<lambda>_. reading m) any_error"
  by (erule hoare_post) (auto intro: reading_mono)

lemma ready_fuel:
  assumes "\<And>k. hoare (reading k) (f (k + 2)) (\<lambda>_. reading k) any_error"
  shows "hoare (reading m) (cbind (cget input_left) (\<lambda>n. f (n + 2))) (\<lambda>_. reading m) any_error"
proof (rule ready_get)
  fix p assume p: "reading m p"
  then have "reading (input_left p) p" by (simp add: reading_def)
  then have "hoare (\<lambda>q. q = p) (f (input_left p + 2)) (\<lambda>_. reading (input_left p)) any_error"
    by (rule hoare_at [OF assms])
  then show "hoare (\<lambda>q. q = p) (f (input_left p + 2)) (\<lambda>_. reading m) any_error"
    by (rule ready_up) (use p in \<open>simp add: reading_def\<close>)
qed

section \<open>Merge parents\<close>

lemma file_name_ready:
  "(\<And>r. hoare (reading m) (k r) Q any_error) \<Longrightarrow>
   hoare (reading m) (cbind (read_merge_parents_file_name s) k) Q any_error"
  by (rule hoare_bind [where Q = "\<lambda>_. reading m"])
    (auto simp: read_merge_parents_file_name_def split: Sexp.split intro: hoare_return hoare_bad)

lemma set_parents_frame:
  "segment (set_parents new a p) = segment p \<and> lexer (set_parents new a p) = lexer p \<and>
   prj_entry_found (set_parents new a p) = prj_entry_found p \<and>
   populate_ignore (set_parents new a p) = populate_ignore p \<and>
   project_keywords (set_parents new a p) = project_keywords p \<and>
   project_keywords_extra (set_parents new a p) = project_keywords_extra p \<and>
   attrs_table (set_parents new a p) = attrs_table p \<and> tool_env (set_parents new a p) = tool_env p"
  by (simp add: set_parents_def)

lemma append_parent_ready: "hoare (reading m) (append_parent new e) (\<lambda>_. reading m) any_error"
  unfolding append_parent_def by (rule ready_upd) (rule set_parents_frame)

lemma read_parent_file_ready: "hoare (reading m) (read_parent_file new s) (\<lambda>_. reading m) any_error"
  unfolding read_parent_file_def append_parent_file_def
  by (auto split: list.split option.split intro!: file_name_ready hoare_bad ready_upd set_parents_frame)

lemma read_parent_files_ready:
  "m < n \<Longrightarrow> sexp_ok s \<Longrightarrow> hoare (reading m) (read_parent_files n new s) (\<lambda>_. reading m) any_error"
proof (induction n arbitrary: m s)
  case 0
  then show ?case by simp
next
  case (Suc n)
  have "hoare (reading m) (cbind read_list_elt (read_parent_files n new)) (\<lambda>_. reading m) any_error"
  proof (rule ready_next_elt)
    fix s' k assume "sexp_ok s'" "k < m"
    then show "hoare (reading k) (read_parent_files n new s') (\<lambda>_. reading m) any_error"
      using ready_up [OF Suc.IH, of k s' m] Suc.prems by simp
  qed
  then show ?case by (auto intro!: ready_intros read_parent_file_ready)
qed

lemma ready_bind_state:
  assumes "\<And>st s k. sexp_ok s \<Longrightarrow> k \<le> m \<Longrightarrow> hoare (reading k) (f (st, s)) Q any_error"
  shows "hoare (reading m) (cbind read_parent_state f) Q any_error"
proof (rule hoare_bind)
  show "hoare (reading m) read_parent_state (\<lambda>(st, s) p. sexp_ok s \<and> reading m p) any_error"
    unfolding read_parent_state_def
    by (intro ready_next_elt hoare_if)
      (auto split: option.split intro!: ready_next_elt hoare_return hoare_bad intro: reading_mono)
  show "hoare (case a of (st, s) \<Rightarrow> \<lambda>p. sexp_ok s \<and> reading m p) (f a) Q any_error" for a
    by (cases a; cases "sexp_ok (snd a)") (auto intro: assms hoare_false)
qed

lemma read_merge_parents_entry_ready:
  "hoare (reading m) (read_merge_parents_entry new) (\<lambda>_. reading m) any_error"
  unfolding read_merge_parents_entry_def
proof (rule ready_next_elt, rule hoare_if [OF hoare_bad], rule ready_bind_state, simp only: case_prod_conv)
  fix s :: Sexp and k j :: nat and st elt assume "k < m" "sexp_ok elt" "j \<le> k"
  then show "hoare (reading j) (cthen (append_parent new (new_MergeParentEntry (sexp_text s) st))
      (cbind (cget input_left) (\<lambda>n. read_parent_files (n + 2) new elt))) (\<lambda>_. reading m) any_error"
    by (intro ready_then append_parent_ready ready_up [OF ready_fuel] read_parent_files_ready) auto
qed

lemma read_merge_parents_loop_ready:
  "m < n \<Longrightarrow> hoare (reading m) (read_merge_parents_loop n new) (\<lambda>_. reading m) any_error"
proof (induction n arbitrary: m)
  case 0
  then show ?case by simp
next
  case (Suc n)
  show ?case
    unfolding read_merge_parents_loop.simps
  proof (rule hoare_bind [OF prj_lex_ready])
    fix tok
    have "hoare (tok_ready m tok) (cthen (read_merge_parents_entry new) (read_merge_parents_loop n new))
        (\<lambda>_. reading m) any_error" if tok: "tok = PrjOpen"
    proof (cases m)
      case 0
      then show ?thesis using tok by (intro hoare_false) (simp add: tok_ready_def)
    next
      case (Suc k)
      have "hoare (reading k) (cthen (read_merge_parents_entry new) (read_merge_parents_loop n new))
          (\<lambda>_. reading k) any_error"
        by (intro ready_then read_merge_parents_entry_ready Suc.IH) (use Suc.prems Suc in simp)
      then show ?thesis
        by (rule hoare_pre [OF ready_up]) (use tok Suc in \<open>auto simp: tok_ready_def reading_def\<close>)
    qed
    moreover have "hoare (tok_ready m tok) (cupd (\<lambda>p. p\<lparr>finish_me := c\<rparr>)) (\<lambda>_. reading m) any_error" for c
      by (rule hoare_pre [OF ready_upd]) (auto simp: tok_ready_def)
    ultimately show "hoare (tok_ready m tok)
       (if tok = PrjClose then cupd (\<lambda>p. p\<lparr>finish_me := Some (if new then NewMergeParentsMarker else MergeParentsMarker)\<rparr>)
        else if tok = PrjOpen then cthen (read_merge_parents_entry new) (read_merge_parents_loop n new)
        else read_parse_bad_token tok)
       (\<lambda>_. reading m) any_error"
      by (intro hoare_if hoare_bad_token) auto
  qed
qed

lemma merge_parents_read_ready:
  "hoare (reading m) (merge_parents_prj_entry_read new offset) (\<lambda>_. reading m) any_error"
  unfolding merge_parents_prj_entry_read_def read_merge_parents_def
  by (intro ready_then ready_fuel read_merge_parents_loop_ready ready_upd) (simp_all add: set_marker_def Let_def)

section \<open>Files\<close>

lemma efold_errors:
  assumes "\<And>s x e. x \<in> set xs \<Longrightarrow> f s x = Inl e \<Longrightarrow> P e"
  shows "efold f s xs = Inl e \<Longrightarrow> P e"
  using assms by (induction xs arbitrary: s) (auto simp: ebind_eq_Inl)

lemma attr_split_subset: "set (fst (attr_split v)) \<subseteq> set v"
  by (auto simp: attr_split_def split: option.splits dest: in_set_takeD)

lemma validate_attr_errors:
  assumes "ascii v" and "validate_attr b v = Inl e"
  shows "e = Err NonFatalError"
proof -
  have "is_file_attribute (fst (attr_split v)) \<noteq> None"
    by (rule is_file_attribute_defined, rule ascii_subset [OF assms(1) attr_split_subset])
  then show ?thesis
    using assms(2) by (auto simp: validate_attr_def Let_def split: prod.splits option.splits if_splits)
qed

lemma intern_attrs_errors:
  assumes "list_all ascii vs" and "intern_attrs env t vs n True = Inl e"
  shows "e = Err NonFatalError"
proof -
  let ?it = "new_PrcsAttrs env vs n"
  have it: "vals ?it = vs" by (simp add: new_PrcsAttrs_def)
  have v: "validate_attrs vs = Inl e \<or> validate_attrs vs = Inr () \<and> init_attrs ?it = Inl e"
    using assms(2) by (auto simp: intern_attrs_def Let_def it ebind_eq_Inl split: option.splits)
  then show ?thesis
  proof
    assume "validate_attrs vs = Inl e"
    then have "efold validate_attr False vs = Inl e" by (auto simp: validate_attrs_def ebind_eq_Inl)
    then show ?thesis
      by (rule efold_errors [rotated]) (use assms(1) validate_attr_errors in \<open>auto simp: list_all_iff\<close>)
  next
    assume "validate_attrs vs = Inr () \<and> init_attrs ?it = Inl e"
    then obtain b where "efold validate_attr False vs = Inr b" "efold init_attr ?it vs = Inl e"
      by (auto simp: validate_attrs_def init_attrs_def it ebind_eq_Inr)
    then show ?thesis using validated_init [of False vs b ?it] by simp
  qed
qed

lemma intern_tags_ready:
  assumes "list_all ascii tags"
  shows "hoare (reading m) (intern_tags tags n) (\<lambda>_. reading m) any_error"
proof (rule hoareI)
  fix p assume p: "reading m p"
  show "case intern_tags tags n p of (Inl (Err t), s') \<Rightarrow> any_error s' | (Inl _, _) \<Rightarrow> False | (Inr a, s') \<Rightarrow> reading m s'"
  proof (cases "intern_attrs (tool_env p) (attrs_table p) tags n True")
    case (Inl e)
    then show ?thesis using intern_attrs_errors [OF assms Inl] by (simp add: intern_tags_def any_error_def)
  next
    case (Inr r)
    obtain a t where r: "r = (a, t)" by (cases r)
    have "attrs_inv (tool_env p) t"
      by (rule intern_attrs_cases(2) [OF _ Inr [unfolded r]]) (use p in \<open>simp add: reading_def\<close>)
    then show ?thesis using p Inr by (simp add: intern_tags_def r reading_def input_left_def)
  qed
qed

lemma read_real_file_ready:
  "(\<And>r. hoare (reading m) (k r) Q any_error) \<Longrightarrow>
   hoare (reading m) (cbind (read_real_file ds) k) Q any_error"
proof (rule hoare_bind [where Q = "\<lambda>_. reading m"])
  have reg: "hoare (reading m) (cbind (register_estring a b c d e) (\<lambda>e. creturn (g e))) (\<lambda>_. reading m) any_error"
    for a b c d e and g :: "Estring \<Rightarrow> string option \<times> string option \<times> nat"
    by (rule hoare_bind [OF register_estring_ready], rule hoare_return) simp
  show "hoare (reading m) (read_real_file ds) (\<lambda>_. reading m) any_error"
    unfolding read_real_file_def Let_def
    by (auto split: option.split intro!: hoare_bad hoare_return reg)
qed

lemma individual_insert_fileent_ready:
  assumes f: "sexp_ok file" and g: "list_all ascii gtags"
  shows "hoare (reading m) (individual_insert_fileent file gtags) (\<lambda>_. reading m) any_error"
proof -
  have tags: "list_all ascii (gtags @ map sexp_text (drop 2 (sexp_list file)))"
    using g sexp_list_ok [OF f] by (auto simp: list_all_iff intro: ascii_sexp_text dest: in_set_dropD)
  have app: "hoare (reading m) (case r of (v, d, l, md) \<Rightarrow>
      cupd (\<lambda>p. p\<lparr>file_entries := file_entries p @ [new_FileEntry w mk a v d l md]\<rparr>)) (\<lambda>_. reading m) any_error"
    for r w mk a
    by (cases r) (auto intro!: ready_upd)
  have kinds: "hoare (reading m) (cbind (case attrs_type a of
               Directory \<Rightarrow> if 0 < length descriptor then bad_project_file else creturn (None, None, None, 420)
             | SymLink \<Rightarrow>
                 if 1 < length descriptor then bad_project_file
                 else creturn (None, None, map_option sexp_text (if descriptor = [] then None else Some (hd descriptor)), 420)
             | RealFile \<Rightarrow>
                 cbind (read_real_file (atom_list descriptor))
                   (\<lambda>(version_num, desc_name, file_mode). creturn (version_num, desc_name, None, file_mode)))
            (\<lambda>r. case r of (v, d, l, md) \<Rightarrow>
      cupd (\<lambda>p. p\<lparr>file_entries := file_entries p @ [new_FileEntry w mk a v d l md]\<rparr>))) (\<lambda>_. reading m) any_error"
    for a descriptor w mk
    by (rule hoare_bind [OF _ app])
      (auto split: FileType.split intro!: hoare_bad hoare_return read_real_file_ready)
  have rest: "hoare (\<lambda>q. q = p) (cbind (intern_tags (gtags @ map sexp_text (drop 2 (sexp_list file))) (length gtags)) k)
      (\<lambda>_. reading m) any_error"
    if "reading m p" and "\<And>a. hoare (reading m) (k a) (\<lambda>_. reading m) any_error" for p k
    by (rule hoare_at [OF hoare_bind [OF intern_tags_ready [OF tags]]]) (use that in auto)
  show ?thesis
    unfolding individual_insert_fileent_def Let_def
    by (intro hoare_if hoare_bad ready_get rest kinds)
qed

lemma verify_prefixes_errors: "verify_prefixes t name i = Inl e \<Longrightarrow> e = Err NonFatalError"
  by (induction t name i rule: verify_prefixes.induct) (auto split: if_splits option.splits)

lemma verify_files_errors:
  assumes "verify_files d f a files = Inl e"
  shows "e = Err NonFatalError"
proof -
  have 1: "e = Err NonFatalError" if "efold verify_names st files = Inl e" for st
    using that by (rule efold_errors [rotated])
      (auto simp: verify_names_def Let_def split: prod.splits if_splits option.splits)
  have 2: "e = Err NonFatalError"
    if "efold (\<lambda>_ fe. verify_prefixes t (fe_working_path fe) (length (fe_working_path fe) - 1)) u files = Inl e" for t u
    using that by (rule efold_errors [rotated]) (rule verify_prefixes_errors)
  show ?thesis
    using assms by (auto simp: verify_files_def ebind_eq_Inl intro: 1 2)
qed

lemma verify_project_file_ready: "hoare (reading m) verify_project_file (\<lambda>_. reading m) any_error"
proof (rule hoare_intro)
  fix p f p' assume "verify_project_file p = (Inl f, p')"
  then show "(\<exists>t. f = Err t) \<and> any_error p'"
    by (auto simp: verify_project_file_def any_error_def dest!: verify_files_errors)
qed (auto simp: verify_project_file_def)

lemma read_files_loop_ready:
  "m < n \<Longrightarrow> sexp_ok s \<Longrightarrow> list_all ascii gtags \<Longrightarrow>
   hoare (reading m) (read_files_loop n gtags allow s) (\<lambda>_. reading m) any_error"
proof (induction n arbitrary: m s gtags allow)
  case 0
  then show ?case by simp
next
  case (Suc n)
  have next_file: "hoare (reading m) (cbind read_list_elt (read_files_loop n g b)) (\<lambda>_. reading m) any_error"
    if "list_all ascii g" for g b
  proof (rule ready_next_elt)
    fix s' k assume "sexp_ok s'" "k < m"
    then show "hoare (reading k) (read_files_loop n g b s') (\<lambda>_. reading m) any_error"
      using ready_up [OF Suc.IH [of k s' g b], of m] Suc.prems that by simp
  qed
  have "ascii (sexp_text s)" by (rule ascii_sexp_text [OF Suc.prems(2)])
  then show ?case
    unfolding read_files_loop.simps
    by (intro hoare_if ready_return ready_then individual_insert_fileent_ready hoare_bad next_file Suc.prems) (use Suc.prems in simp)
qed

lemma files_prj_entry_read_ready: "hoare (reading m) files_prj_entry_read (\<lambda>_. reading m) any_error"
  unfolding files_prj_entry_read_def
proof (rule ready_next_elt, rule ready_then)
  fix s :: Sexp and k assume s: "sexp_ok s" "k < m"
  show "hoare (reading k) (cbind (cget input_left) (\<lambda>n. read_files_loop (n + 2) [] True s)) (\<lambda>_. reading k) any_error"
    by (rule ready_fuel, rule read_files_loop_ready) (use s in simp_all)
  show "hoare (reading k) (cbind this_index (\<lambda>i. cbind (new_insertion_point i) (\<lambda>e.
      cthen (cupd (\<lambda>p. p\<lparr>files_insertion_point := Some (es_id e)\<rparr>)) verify_project_file))) (\<lambda>_. reading m) any_error"
    unfolding this_index_def
    by (rule ready_up [OF ready_get]) (auto intro!: hoare_at ready_point ready_then ready_upd verify_project_file_ready simp: s(2) less_imp_le)
qed

section \<open>The whole file\<close>

lemma read_entry_ready: "hoare (tok_ready m PrjName) (read_entry name offset) (\<lambda>_. reading m) any_error"
proof -
  have t: "tok_ready m PrjName p \<Longrightarrow> reading m p" for p by (simp add: tok_ready_def)
  have funcs: "hoare (got_list m s)
     (if name = ''Version-Log'' then version_log_prj_entry_func s
        else if name = ''Checkin-Login'' then checkin_login_prj_entry_func s
        else if name = ''Parent-Version'' then parent_ver_prj_entry_func s
        else if name = ''Project-Version'' then project_ver_prj_entry_func s
        else if name = ''Project-Keywords'' then project_keywords_prj_entry_func s
        else if name = ''Descends-From'' then descends_from_prj_entry_func s
        else if name = ''Project-Description'' then project_desc_prj_entry_func s
        else if name = ''Checkin-Time'' then checkin_time_prj_entry_func s
        else if name = ''Created-By-Prcs-Version'' then created_by_prj_entry_func s
        else if name = ''Populate-Ignore'' then populate_ignore_prj_entry_func s
        else new_version_log_prj_entry_func s) (\<lambda>_. reading m) any_error" for s
  proof (cases "sexp_ok s")
    case False
    then show ?thesis by (intro hoare_false) (simp add: got_list_def)
  next
    case True
    note kw = project_keywords_ready [OF True]
    show ?thesis
      by (intro hoare_if; rule hoare_pre, (rule simple_entries_ready parent_ver_ready populate_ignore_ready kw)+)
        (simp_all add: got_list_def)
  qed
  show ?thesis
    unfolding read_entry_def
    by (intro hoare_if hoare_bind [OF list_token_ready funcs]
        hoare_pre [OF files_prj_entry_read_ready t] hoare_pre [OF merge_parents_read_ready t])
qed

lemma prj_lookup_hash_defined: "ascii s \<Longrightarrow> s \<noteq> [] \<Longrightarrow> prj_lookup_hash s \<noteq> None"
  unfolding prj_lookup_hash_def
  by (intro add_entries_defined char_entry_ascii) (auto simp: hash_table_lengths)

lemma read_list_checked_ready: "hoare (reading m) (read_list_checked offset) (\<lambda>_. reading m) any_error"
  unfolding read_list_checked_def
proof (rule hoare_bind [OF prj_lex_ready])
  fix tok
  have go: "hoare (\<lambda>q. q = p) (cthen (cupd (\<lambda>p. p\<lparr>prj_entry_found := (prj_entry_found p)[h := True]\<rparr>))
      (read_entry name offset)) (\<lambda>_. reading m) any_error"
    if "tok_ready m PrjName p" for p h name
    by (rule hoare_then [OF _ read_entry_ready], rule hoare_upd)
      (use that in \<open>auto simp: tok_ready_def reading_def input_left_def\<close>)
  have "hoare (\<lambda>q. q = p) (let name = prjtext (lexer p) in
       if tok \<noteq> PrjName then cthrow (Err NonFatalError)
       else (case (prj_lookup_func name, prj_lookup_hash name) of
               (Some (Some key), Some h) \<Rightarrow>
                 if prj_entry_found p ! h \<and> Some h \<noteq> prj_lookup_hash ''Files'' then cthrow (Err NonFatalError)
                 else cthen (cupd (\<lambda>p. p\<lparr>prj_entry_found := (prj_entry_found p)[h := True]\<rparr>))
                        (read_entry (pftable ! key) offset)
             | (Some None, Some h) \<Rightarrow> cthrow (Err NonFatalError)
             | _ \<Rightarrow> cthrow Undefined)) (\<lambda>_. reading m) any_error"
    if p: "tok_ready m tok p" for p
  proof (cases "tok = PrjName")
    case False
    then show ?thesis by (simp add: ready_error)
  next
    case True
    let ?name = "prjtext (lexer p)"
    have "?name \<noteq> []" "ascii ?name"
      using p True ascii_subset [of "segment p" ?name] by (auto simp: tok_ready_def token_ok_def reading_def)
    then obtain f h where f: "prj_lookup_func ?name = Some f" "prj_lookup_hash ?name = Some h"
      using prj.find_defined [of ?name] prj_lookup_hash_defined [of ?name] by (auto simp: prj_lookup_func_def)
    show ?thesis
      using go [of p] p by (cases f) (simp_all add: f True ready_error)
  qed
  then show "hoare (tok_ready m tok) (cbind (cget id) (\<lambda>p. let name = prjtext (lexer p) in
       if tok \<noteq> PrjName then cthrow (Err NonFatalError)
       else (case (prj_lookup_func name, prj_lookup_hash name) of
               (Some (Some key), Some h) \<Rightarrow>
                 if prj_entry_found p ! h \<and> Some h \<noteq> prj_lookup_hash ''Files'' then cthrow (Err NonFatalError)
                 else cthen (cupd (\<lambda>p. p\<lparr>prj_entry_found := (prj_entry_found p)[h := True]\<rparr>))
                        (read_entry (pftable ! key) offset)
             | (Some None, Some h) \<Rightarrow> cthrow (Err NonFatalError)
             | _ \<Rightarrow> cthrow Undefined))) (\<lambda>_. reading m) any_error"
    by (intro hoare_get_at) (simp only: id_apply)
qed

lemma parse_entries_ready:
  "m < n \<Longrightarrow> hoare (reading m) (parse_entries n) (\<lambda>_. reading m) any_error"
proof (induction n arbitrary: m)
  case 0
  then show ?case by simp
next
  case (Suc n)
  show ?case
    unfolding parse_entries.simps
  proof (rule hoare_bind [OF prj_lex_ready], intro hoare_if hoare_bad_token)
    fix tok assume tok: "tok = PrjOpen"
    show "hoare (tok_ready m tok) (cthen (cbind this_index read_list_checked) (parse_entries n)) (\<lambda>_. reading m) any_error"
    proof (cases m)
      case 0
      then show ?thesis using tok by (intro hoare_false) (simp add: tok_ready_def)
    next
      case (Suc k)
      have "hoare (reading k) (cthen (cbind this_index read_list_checked) (parse_entries n)) (\<lambda>_. reading k) any_error"
        unfolding this_index_def
        by (intro ready_then Suc.IH ready_get)
          (use Suc.prems Suc in \<open>auto intro: hoare_at read_list_checked_ready\<close>)
      then show ?thesis
        by (rule hoare_pre [OF ready_up]) (use tok Suc in \<open>auto simp: tok_ready_def reading_def\<close>)
    qed
  next
    fix tok
    have "hoare (reading m) (cbind (cget id) (\<lambda>p.
        if \<exists>i \<in> set [0..<length pftable]. must_have (pftable ! i) \<and> \<not> prj_entry_found p ! i
        then cthrow (Err NonFatalError)
        else cbind cur_index (\<lambda>i. cbind (new_insertion_point i) (\<lambda>e.
             cupd (\<lambda>p. p\<lparr>end_of_buffer_point := Some (es_id e)\<rparr>))))) (\<lambda>_. reading m) any_error"
      unfolding cur_index_def
      by (intro ready_get hoare_if ready_error hoare_at [OF ready_get])
        (auto intro: hoare_at [OF ready_point [OF ready_upd]])
    then show "hoare (tok_ready m tok) (cbind (cget id) (\<lambda>p.
        if \<exists>i \<in> set [0..<length pftable]. must_have (pftable ! i) \<and> \<not> prj_entry_found p ! i
        then cthrow (Err NonFatalError)
        else cbind cur_index (\<lambda>i. cbind (new_insertion_point i) (\<lambda>e.
             cupd (\<lambda>p. p\<lparr>end_of_buffer_point := Some (es_id e)\<rparr>))))) (\<lambda>_. reading m) any_error"
      by (rule hoare_pre) (simp add: tok_ready_def)
  qed
qed

lemma init_from_file_reading:
  assumes "ascii text"
  shows "hoare (\<lambda>p. p = new_ProjectDescriptor env full_name keep) (parse_prj_file text)
    (\<lambda>_. reading (length text)) any_error"
  unfolding parse_prj_file_def
proof (rule hoare_then [where Q = "\<lambda>_. reading (length text)"])
  show "hoare (\<lambda>p. p = new_ProjectDescriptor env full_name keep) (cupd (\<lambda>p. p\<lparr>segment := text,
      lexer := \<lparr>lex_input = text, prj_lex_this_index = 0, prj_lex_cur_index = 0, prjtext = []\<rparr>,
      prj_entry_found := replicate (length pftable) False\<rparr>)) (\<lambda>_. reading (length text)) any_error"
    by (rule hoare_upd) (use assms in \<open>auto simp: reading_def new_ProjectDescriptor_def lexer_at_def input_left_def Let_def
      str.ot_inv_empty str.ht.invar_empty attrs_inv_empty\<close>)
  show "hoare (reading (length text)) (cbind (cget input_left) (\<lambda>n. parse_entries (n + 2))) (\<lambda>_. reading (length text)) any_error"
    by (rule ready_fuel, rule parse_entries_ready) simp
qed

text \<open>
  C20. Reading a project file is total and safe: for every ASCII input, \<open>init_from_file\<close> returns,
  either with a descriptor or with an error token; it never dereferences null, reads outside a
  table or a string, unquotes an incomplete escape, violates an assertion, or runs out of the
  bounds on the depth of the lists and the number of turns of its loops.
\<close>
theorem read_project_safe:
  assumes "ascii text"
  shows "case fst (init_from_file env full_name keep text) of
      Inr _ \<Rightarrow> True | Inl f \<Rightarrow> (\<exists>t. f = Err t)"
proof (cases "init_from_file env full_name keep text")
  case (Pair r p)
  then show ?thesis
    using hoare_errD [OF init_from_file_reading [OF assms], of _ env full_name keep]
    by (cases r) (auto simp: init_from_file_def)
qed

theorem read_project_safe_witness:
  "case fst (init_from_file \<lparr>env_merge = None, env_diff = None\<rparr> ''p'' True ''(Files (a () :tag=x'') of
      Inr _ \<Rightarrow> True | Inl f \<Rightarrow> (\<exists>t. f = Err t)"
  by (rule read_project_safe) code_simp

end
