(* ===== verification/ProjVerify.thy ===== *)
theory ProjVerify
  imports ReadSafe
begin

text \<open>
  What \<open>verify_project_file\<close> checks: the files that a project file names, against each other
  and against the files that belong to the project itself.
\<close>

section \<open>The first loop\<close>

definition real_descriptors :: "FileEntry list \<Rightarrow> string list" where
  "real_descriptors files =
     concat (map (\<lambda>fe. if file_type fe = RealFile then case_option [] (\<lambda>d. [d]) (fe_descriptor fe) else []) files)"

lemma real_descriptors_simps [simp]:
  "real_descriptors [] = []"
  "real_descriptors (fe # files) =
     (if file_type fe = RealFile then case_option [] (\<lambda>d. [d]) (fe_descriptor fe) else []) @ real_descriptors files"
  by (simp_all add: real_descriptors_def)

abbreviation path_inv :: "PathTable \<Rightarrow> bool" where
  "path_inv \<equiv> ht_inv pathname_hash pathname_equal"

fun fresh_names :: "PathTable \<Rightarrow> (string \<times> FileType) list \<Rightarrow> bool" where
  "fresh_names t [] = True"
| "fresh_names t ((x, ft) # xs) = (path_lookup t x = None \<and> fresh_names (path_insert t x ft) xs)"

definition named :: "FileEntry list \<Rightarrow> (string \<times> FileType) list" where
  "named files = map (\<lambda>fe. (fe_working_path fe, file_type fe)) files"

definition described :: "FileEntry list \<Rightarrow> (string \<times> FileType) list" where
  "described files = map (\<lambda>d. (d, RealFile)) (real_descriptors files)"

lemma verify_names_all:
  "efold verify_names (F, D) files =
     (if fresh_names F (named files) \<and> fresh_names D (described files)
      then Inr (path.ht.insert_all F (named files), path.ht.insert_all D (described files))
      else Inl (Err NonFatalError))"
proof (induction files arbitrary: F D)
  case Nil
  then show ?case by (simp add: named_def described_def)
next
  case (Cons fe files)
  define F' where "F' = path_insert F (fe_working_path fe) (file_type fe)"
  define ds where "ds = (if file_type fe = RealFile then case_option [] (\<lambda>d. [(d, RealFile)]) (fe_descriptor fe) else [])"
  have step: "verify_names (F, D) fe =
      (if path_lookup F (fe_working_path fe) \<noteq> None \<or> \<not> fresh_names D ds then Inl (Err NonFatalError)
       else Inr (F', path.ht.insert_all D ds))"
    by (simp add: verify_names_def Let_def F'_def ds_def split: option.split)
  have named: "fresh_names F (named (fe # files)) \<longleftrightarrow> path_lookup F (fe_working_path fe) = None \<and> fresh_names F' (named files)"
    "path.ht.insert_all F (named (fe # files)) = path.ht.insert_all F' (named files)"
    by (simp_all add: named_def F'_def)
  have desc: "fresh_names D (described (fe # files)) \<longleftrightarrow>
      fresh_names D ds \<and> fresh_names (path.ht.insert_all D ds) (described files)"
    "path.ht.insert_all D (described (fe # files)) = path.ht.insert_all (path.ht.insert_all D ds) (described files)"
    by (simp_all add: described_def ds_def split: option.split)
  show ?case
    unfolding efold.simps step named desc by (simp add: Cons.IH)
qed

lemma fresh_names_iff:
  "path_inv t \<Longrightarrow> fresh_names t xs \<longleftrightarrow>
     (\<forall>p \<in> set xs. path_lookup t (fst p) = None) \<and>
     sorted_wrt (\<lambda>p q. \<not> pathname_equal (fst p) (fst q)) xs"
proof (induction xs arbitrary: t)
  case Nil
  then show ?case by simp
next
  case (Cons p xs)
  obtain x ft where p: "p = (x, ft)" by (cases p)
  have "fresh_names (path_insert t x ft) xs \<longleftrightarrow>
     (\<forall>q \<in> set xs. path_lookup (path_insert t x ft) (fst q) = None) \<and>
     sorted_wrt (\<lambda>p q. \<not> pathname_equal (fst p) (fst q)) xs"
    by (rule Cons.IH [OF path.ht.invar_insert [OF Cons.prems]])
  then show ?case
    by (auto simp: p path.ht.lookup_insert [OF Cons.prems] dest: path.eq_sym)
qed

section \<open>The second loop\<close>

lemma verify_prefixes_iff:
  "verify_prefixes t name i =
     (if \<forall>j. 0 < j \<and> j \<le> i \<and> j < length name \<and> name ! j = SLASH \<longrightarrow>
           (case path_lookup t (take j name) of Some ft \<Rightarrow> ft = Directory | None \<Rightarrow> True)
      then Inr () else Inl (Err NonFatalError))"
proof (induction i)
  case 0
  then show ?case by simp
next
  case (Suc i)
  have split: "(\<forall>j. 0 < j \<and> j \<le> Suc i \<and> j < length name \<and> name ! j = SLASH \<longrightarrow> P j) \<longleftrightarrow>
      (\<forall>j. 0 < j \<and> j \<le> i \<and> j < length name \<and> name ! j = SLASH \<longrightarrow> P j) \<and>
      (Suc i < length name \<and> name ! Suc i = SLASH \<longrightarrow> P (Suc i))" for P
    by (auto simp: le_Suc_eq)
  show ?case
    unfolding split by (auto simp: Suc split: option.split)
qed

lemma efold_unit:
  "(\<And>x. x \<in> set xs \<Longrightarrow> f () x = (if P x then Inr () else Inl e)) \<Longrightarrow>
   efold f () xs = (if \<forall>x \<in> set xs. P x then Inr () else Inl e)"
  by (induction xs) auto

section \<open>The check\<close>

text \<open>
  The names of a project: no file has the name of the project file or of its auxiliary file,
  no two files have the same name, up to repeated slashes, no two real files have the same
  descriptor and none has that of the project file, and whatever is a prefix of a file up to
  a slash is a directory when it is named at all.
\<close>

definition names_ok :: "string \<Rightarrow> string \<Rightarrow> string \<Rightarrow> FileEntry list \<Rightarrow> bool" where
  "names_ok project_descriptor project_file project_aux files \<longleftrightarrow>
     (\<forall>fe \<in> set files. \<not> pathname_equal (fe_working_path fe) project_file \<and>
        \<not> pathname_equal (fe_working_path fe) project_aux) \<and>
     sorted_wrt (\<lambda>x y. \<not> pathname_equal (fe_working_path x) (fe_working_path y)) files \<and>
     (\<forall>d \<in> set (real_descriptors files). \<not> pathname_equal d project_descriptor) \<and>
     sorted_wrt (\<lambda>x y. \<not> pathname_equal x y) (real_descriptors files) \<and>
     (\<forall>fe \<in> set files. \<forall>j. 0 < j \<and> j < length (fe_working_path fe) \<and> fe_working_path fe ! j = SLASH \<longrightarrow>
        \<not> pathname_equal (take j (fe_working_path fe)) project_file \<and>
        \<not> pathname_equal (take j (fe_working_path fe)) project_aux \<and>
        (\<forall>dir \<in> set files. pathname_equal (take j (fe_working_path fe)) (fe_working_path dir) \<longrightarrow>
           file_type dir = Directory))"

lemma lookup_own:
  "path_lookup (path_insert (path_insert ht_empty f RealFile) a RealFile) x =
     (if pathname_equal x a \<or> pathname_equal x f then Some RealFile else None)"
proof -
  have 1: "path_inv (ht_empty :: PathTable)" by (rule path.ht.invar_empty)
  note 2 = path.ht.invar_insert [OF 1, of f RealFile]
  show ?thesis
    by (simp add: path.ht.lookup_insert [OF 2] path.ht.lookup_insert [OF 1] path.ht.lookup_empty)
qed

lemma lookup_named:
  assumes inv: "path_inv t" and distinct: "sorted_wrt (\<lambda>p q. \<not> pathname_equal (fst p) (fst q)) xs"
    and none: "\<forall>p \<in> set xs. path_lookup t (fst p) = None"
  shows "path_lookup (path.ht.insert_all t xs) x = Some ft \<longleftrightarrow>
    path_lookup t x = Some ft \<or> (\<exists>p \<in> set xs. pathname_equal x (fst p) \<and> snd p = ft)"
  using assms
proof (induction xs arbitrary: t)
  case Nil
  then show ?case by simp
next
  case (Cons p xs)
  obtain y g where p: "p = (y, g)" by (cases p)
  have inv': "path_inv (path_insert t y g)" by (rule path.ht.invar_insert [OF Cons.prems(1)])
  have lu: "path_lookup (path_insert t y g) z = (if pathname_equal z y then Some g else path_lookup t z)" for z
    by (rule path.ht.lookup_insert [OF Cons.prems(1)])
  have "\<forall>q \<in> set xs. path_lookup (path_insert t y g) (fst q) = None"
    using Cons.prems(2,3) by (auto simp: p lu dest: path.eq_sym)
  then have IH: "path_lookup (path.ht.insert_all (path_insert t y g) xs) x = Some ft \<longleftrightarrow>
      path_lookup (path_insert t y g) x = Some ft \<or> (\<exists>p \<in> set xs. pathname_equal x (fst p) \<and> snd p = ft)"
    using Cons.IH [OF inv'] Cons.prems(2) by simp
  have other: "path_lookup t x = None" if "pathname_equal x y"
  proof -
    have "path_lookup t y = None" using Cons.prems(3) by (simp add: p)
    moreover have "path_lookup t x = path_lookup t y" by (rule path.lookup_cong [OF that])
    ultimately show ?thesis by simp
  qed
  show ?case using IH other by (auto simp: p lu)
qed

definition own_names :: "string \<Rightarrow> string \<Rightarrow> PathTable" where
  "own_names f a = path_insert (path_insert ht_empty f RealFile) a RealFile"

lemma own_names_inv: "path_inv (own_names f a)"
  by (simp add: own_names_def path.ht.invar_insert path.ht.invar_empty)

text \<open>
  C21. \<open>verify_project_file\<close> accepts a list of files exactly when their names are in order: it is
  equivalent to the specification \<open>names_ok\<close>, which speaks about the list and not about the
  path tables that the code fills and searches.
\<close>
theorem verify_files_iff:
  "verify_files d f a files = (if names_ok d f a files then Inr () else Inl (Err NonFatalError))"
proof -
  let ?D = "path_insert ht_empty d RealFile :: PathTable"
  have D: "path_inv ?D" by (rule path.ht.invar_insert [OF path.ht.invar_empty])
  have luD: "path_lookup ?D x = None \<longleftrightarrow> \<not> pathname_equal x d" for x
    by (simp add: path.ht.lookup_insert [OF path.ht.invar_empty] path.ht.lookup_empty)
  have luF: "path_lookup (own_names f a) x = (if pathname_equal x a \<or> pathname_equal x f then Some RealFile else None)" for x
    unfolding own_names_def by (rule lookup_own)
  have freshF: "fresh_names (own_names f a) (named files) \<longleftrightarrow>
      (\<forall>fe \<in> set files. \<not> pathname_equal (fe_working_path fe) f \<and> \<not> pathname_equal (fe_working_path fe) a) \<and>
      sorted_wrt (\<lambda>x y. \<not> pathname_equal (fe_working_path x) (fe_working_path y)) files"
    unfolding fresh_names_iff [OF own_names_inv] named_def by (auto simp: luF sorted_wrt_map)
  have freshD: "fresh_names ?D (described files) \<longleftrightarrow>
      (\<forall>x \<in> set (real_descriptors files). \<not> pathname_equal x d) \<and>
      sorted_wrt (\<lambda>x y. \<not> pathname_equal x y) (real_descriptors files)"
    unfolding fresh_names_iff [OF D] described_def by (simp add: luD sorted_wrt_map)
  show ?thesis
  proof (cases "fresh_names (own_names f a) (named files) \<and> fresh_names ?D (described files)")
    case False
    then have "verify_files d f a files = Inl (Err NonFatalError)"
      by (auto simp: verify_files_def verify_names_all own_names_def)
    moreover have "\<not> names_ok d f a files"
      using False unfolding freshF freshD names_ok_def by blast
    ultimately show ?thesis by simp
  next
    case True
    let ?T = "path.ht.insert_all (own_names f a) (named files)"
    have lu: "path_lookup ?T x = Some ft \<longleftrightarrow>
        (pathname_equal x a \<or> pathname_equal x f) \<and> ft = RealFile \<or>
        (\<exists>fe \<in> set files. pathname_equal x (fe_working_path fe) \<and> file_type fe = ft)" for x ft
      using True unfolding fresh_names_iff [OF own_names_inv]
      using lookup_named [OF own_names_inv, of "named files" f a x ft] by (auto simp: luF named_def)
    define ok :: "FileEntry \<Rightarrow> bool" where "ok fe \<longleftrightarrow> (\<forall>j. 0 < j \<and> j < length (fe_working_path fe) \<and> fe_working_path fe ! j = SLASH \<longrightarrow>
        (case path_lookup ?T (take j (fe_working_path fe)) of Some ft \<Rightarrow> ft = Directory | None \<Rightarrow> True))" for fe
    have v1: "verify_files d f a files = efold (\<lambda>_ fe. verify_prefixes ?T (fe_working_path fe)
        (length (fe_working_path fe) - 1)) () files"
      using True by (simp add: verify_files_def verify_names_all own_names_def)
    have v2: "efold (\<lambda>_ fe. verify_prefixes ?T (fe_working_path fe) (length (fe_working_path fe) - 1)) () files =
        (if \<forall>fe \<in> set files. ok fe then Inr () else Inl (Err NonFatalError))"
      by (rule efold_unit) (auto simp: verify_prefixes_iff ok_def)
    have v3: "ok fe \<longleftrightarrow> (\<forall>j. 0 < j \<and> j < length (fe_working_path fe) \<and> fe_working_path fe ! j = SLASH \<longrightarrow>
        \<not> pathname_equal (take j (fe_working_path fe)) f \<and> \<not> pathname_equal (take j (fe_working_path fe)) a \<and>
        (\<forall>dir \<in> set files. pathname_equal (take j (fe_working_path fe)) (fe_working_path dir) \<longrightarrow> file_type dir = Directory))"
      for fe
    proof -
      have "(case path_lookup ?T x of Some ft \<Rightarrow> ft = Directory | None \<Rightarrow> True) \<longleftrightarrow>
          \<not> pathname_equal x f \<and> \<not> pathname_equal x a \<and>
          (\<forall>dir \<in> set files. pathname_equal x (fe_working_path dir) \<longrightarrow> file_type dir = Directory)" for x
      proof (cases "path_lookup ?T x")
        case None
        then show ?thesis using lu [of x] by auto
      next
        case (Some g)
        have g: "ft = g" if "(pathname_equal x a \<or> pathname_equal x f) \<and> ft = RealFile \<or>
            (\<exists>fe \<in> set files. pathname_equal x (fe_working_path fe) \<and> file_type fe = ft)" for ft
          using lu [of x ft] Some that by auto
        have "file_type dir = g" if "dir \<in> set files" "pathname_equal x (fe_working_path dir)" for dir
          using g that by blast
        moreover have "g = RealFile" if "pathname_equal x a \<or> pathname_equal x f"
          using g that by blast
        moreover have "(pathname_equal x a \<or> pathname_equal x f) \<and> g = RealFile \<or>
            (\<exists>fe \<in> set files. pathname_equal x (fe_working_path fe) \<and> file_type fe = g)"
          using lu [of x g] Some by simp
        ultimately show ?thesis using Some by auto
      qed
      then show ?thesis by (simp add: ok_def)
    qed
    show ?thesis using True unfolding v1 v2 v3 freshF freshD names_ok_def by simp
  qed
qed

section \<open>What the other entries leave alone\<close>

definition files_view ::
  "ProjectDescriptor \<Rightarrow> FileEntry list \<times> string \<times> string \<times> string \<times> string \<times> bool list" where
  "files_view p = (file_entries p, project_name p, project_file_path p, project_aux_path p, project_path p,
     prj_entry_found p)"

abbreviation frames :: "'a prj \<Rightarrow> bool" where
  "frames m \<equiv> always (keeps files_view) m"

lemma frames_upd: "(\<And>p. files_view (f p) = files_view p) \<Longrightarrow> frames (cupd f)"
  by (rule kept.always_upd) (rule keeps_upd)

lemma frames_state: "(\<And>p. files_view (snd (m p)) = files_view p) \<Longrightarrow> frames m"
  by (simp add: always_def keeps_def)

lemma prj_lex_frames: "frames prj_lex"
  by (rule frames_state)
    (simp add: prj_lex_def prj_lex_state_def Let_def set_marker_stop_def files_view_def split: prod.split option.split)

lemma register_estring_frames: "frames (register_estring t off len ty c)"
  by (rule frames_state) (simp add: register_estring_def Let_def files_view_def)

lemma read_new_estring_frames: "frames (read_new_estring tok)"
  by (rule frames_state)
    (simp add: read_new_estring_def Let_def register_estring_def files_view_def split: option.split)

lemma bad_frames: "frames bad_project_file" "frames (read_parse_bad_token t)" "frames (cthrow f)"
  by (simp_all add: bad_project_file_def read_parse_bad_token_def kept.always_throw)

lemma index_frames: "frames this_index" "frames cur_index"
  by (simp_all add: this_index_def cur_index_def kept.always_get)

lemma new_insertion_point_frames: "frames (new_insertion_point i)"
  by (simp add: new_insertion_point_def register_estring_frames)

lemmas frames_intros =
  kept.always_return kept.always_get kept.always_bind kept.always_then kept.always_if kept.always_foreach
  prj_lex_frames register_estring_frames read_new_estring_frames bad_frames index_frames
  new_insertion_point_frames

lemma read_list_token_frames: "frames (read_list_token n tok start)"
proof (induction n arbitrary: tok start)
  case 0
  show ?case by (simp add: bad_frames)
next
  case (Suc n)
  show ?case unfolding read_list_token.simps by (intro frames_intros Suc.IH)
qed

lemma read_list_elt_frames: "frames read_list_elt"
  unfolding read_list_elt_def read_list_def by (intro frames_intros read_list_token_frames)

lemma on_table_frames: "(\<And>t. frames (k t)) \<Longrightarrow> frames (on_table r k)"
  by (simp add: on_table_def bad_frames split: option.split)

lemma scan_entry_frames: "(\<And>k p. files_view (store k p) = files_view p) \<Longrightarrow> frames (scan_entry s f store)"
  by (auto simp: scan_entry_def split: option.split intro: bad_frames frames_upd)

lemma read_keyword_frames: "frames (read_keyword t)"
  by (auto simp: read_keyword_def split: list.split Sexp.split option.split
      intro!: frames_intros on_table_frames frames_upd simp: files_view_def)

lemma entry_frames:
  "frames (version_log_prj_entry_func s)" "frames (checkin_login_prj_entry_func s)"
  "frames (parent_ver_prj_entry_func s)" "frames (project_ver_prj_entry_func s)"
  "frames (project_keywords_prj_entry_func s)" "frames (descends_from_prj_entry_func s)"
  "frames (project_desc_prj_entry_func s)" "frames (checkin_time_prj_entry_func s)"
  "frames (created_by_prj_entry_func s)" "frames (populate_ignore_prj_entry_func s)"
  "frames (new_version_log_prj_entry_func s)"
  by (auto simp: version_log_prj_entry_func_def checkin_login_prj_entry_func_def parent_ver_prj_entry_func_def
      project_ver_prj_entry_func_def project_keywords_prj_entry_func_def descends_from_prj_entry_func_def
      project_desc_prj_entry_func_def checkin_time_prj_entry_func_def created_by_prj_entry_func_def
      populate_ignore_prj_entry_func_def new_version_log_prj_entry_func_def Let_def insert_ignore_def
      files_view_def set_marker_def split: option.split
      intro!: frames_intros scan_entry_frames frames_upd on_table_frames read_keyword_frames)

section \<open>Merge parents\<close>

lemma set_parents_view: "files_view (set_parents new a p) = files_view p"
  by (simp add: set_parents_def files_view_def)

lemma file_name_frames: "frames (read_merge_parents_file_name s)"
  by (cases s) (auto simp: read_merge_parents_file_name_def intro: frames_intros)

lemma append_parent_frames: "frames (append_parent new e)" "frames (append_parent_file new f)"
  unfolding append_parent_def append_parent_file_def by (rule frames_upd, rule set_parents_view)+

lemma frames_option: "frames m \<Longrightarrow> (\<And>x. frames (k x)) \<Longrightarrow> frames (case r of None \<Rightarrow> m | Some x \<Rightarrow> k x)"
  by (cases r) simp_all

lemma frames_list4:
  "frames m \<Longrightarrow> (\<And>a b c d. frames (f a b c d)) \<Longrightarrow> frames (case xs of [a, b, c, d] \<Rightarrow> f a b c d | _ \<Rightarrow> m)"
  by (simp split: list.split)

lemma read_parent_file_frames: "frames (read_parent_file new s)"
  unfolding read_parent_file_def
  by (intro frames_list4 frames_intros frames_option file_name_frames append_parent_frames)

lemma read_parent_files_frames: "frames (read_parent_files n new s)"
proof (induction n arbitrary: s)
  case 0
  show ?case by (simp add: bad_frames)
next
  case (Suc n)
  show ?case
    unfolding read_parent_files.simps by (intro frames_intros read_parent_file_frames read_list_elt_frames Suc.IH)
qed

lemma read_parent_state_frames: "frames read_parent_state"
  unfolding read_parent_state_def by (intro frames_option frames_intros read_list_elt_frames)

lemma read_merge_parents_entry_frames: "frames (read_merge_parents_entry new)"
  unfolding read_merge_parents_entry_def case_prod_beta
  by (intro frames_intros read_list_elt_frames read_parent_state_frames append_parent_frames
      read_parent_files_frames)

lemma read_merge_parents_loop_frames: "frames (read_merge_parents_loop n new)"
proof (induction n)
  case 0
  show ?case by (simp add: bad_frames)
next
  case (Suc n)
  show ?case
    unfolding read_merge_parents_loop.simps
    by (intro frames_intros read_merge_parents_entry_frames Suc.IH frames_upd) (simp add: files_view_def)
qed

lemma merge_parents_frames: "frames (merge_parents_prj_entry_read new offset)"
  unfolding merge_parents_prj_entry_read_def read_merge_parents_def
  by (intro frames_intros read_merge_parents_loop_frames frames_upd)
    (simp add: files_view_def set_marker_def Let_def)

lemma read_entry_frames: "name \<noteq> ''Files'' \<Longrightarrow> frames (read_entry name offset)"
  unfolding read_entry_def
  by (simp only: if_False) (intro frames_intros merge_parents_frames read_list_token_frames entry_frames)

section \<open>The files\<close>

definition inside :: "string \<Rightarrow> FileEntry \<Rightarrow> bool" where
  "inside dir fe \<longleftrightarrow> (\<exists>n. fe_working_path fe = dir @ n \<and> \<not> weird_pathname n)"

text \<open>Adding files below the project's directory, and nothing else.\<close>

definition grow :: "string \<Rightarrow> ProjectDescriptor \<Rightarrow> ProjectDescriptor \<Rightarrow> bool" where
  "grow dir p q \<longleftrightarrow>
     snd (files_view q) = snd (files_view p) \<and>
     (\<forall>fe \<in> set (file_entries q). fe \<in> set (file_entries p) \<or> inside dir fe)"

interpretation grown: step_rel "grow dir"
  for dir
  by unfold_locales (auto simp: grow_def)

lemma frames_grow: "frames m \<Longrightarrow> always (grow dir) m"
  by (auto simp: always_def keeps_def grow_def files_view_def)

lemmas grow_intros =
  grown.always_return grown.always_bind grown.always_then grown.always_if bad_frames [THEN frames_grow]

lemma intern_tags_frames: "frames (intern_tags tags n)"
  by (rule frames_state) (simp add: intern_tags_def files_view_def split: sum.split prod.split)

lemma read_real_file_frames: "frames (read_real_file ds)"
  unfolding read_real_file_def Let_def
  by (intro frames_intros frames_option)

lemma kinds_frames:
  "frames (case ty of
      Directory \<Rightarrow> if 0 < length descriptor then bad_project_file else creturn (None, None, None, 420)
    | SymLink \<Rightarrow> if 1 < length descriptor then bad_project_file else creturn (None, None, l, 420)
    | RealFile \<Rightarrow> cbind (read_real_file ds) (\<lambda>(v, d, md). creturn (v, d, None, md)))"
  by (cases ty) (auto intro!: frames_intros read_real_file_frames simp: case_prod_beta)

lemma individual_insert_fileent_grow: "grow (project_path p) p (snd (individual_insert_fileent file gtags p))"
proof -
  let ?n = "sexp_text (sexp_list file ! 0)"
  have app: "always (grow dir) (case r of (v, d, l, md) \<Rightarrow>
      cupd (\<lambda>p. p\<lparr>file_entries := file_entries p @ [new_FileEntry (dir @ ?n) mk a v d l md]\<rparr>))"
    if "\<not> weird_pathname ?n" for r mk a dir
    by (cases r) (use that in \<open>auto intro!: grown.always_upd
        simp: grow_def files_view_def inside_def new_FileEntry_def\<close>)
  have rest: "grow dir p (snd (cbind (cget project_path) k p))"
    if "dir = project_path p" "always (grow dir) (k dir)" for dir k
    using that by (simp add: cbind_apply cget_def always_def)
  have view: "snd (individual_insert_fileent file gtags p) = p" if "weird_pathname ?n"
    using that by (simp add: individual_insert_fileent_def Let_def bad_project_file_def cmd_simps)
  show ?thesis
  proof (cases "weird_pathname ?n")
    case True
    then show ?thesis using view by (simp add: grown.R_refl)
  next
    case False
    let ?guard = "\<not> sexp_is_pair file \<or> length (sexp_list file) < 2 \<or> sexp_is_pair (sexp_list file ! 0) \<or>
      \<not> sexp_is_pair (sexp_list file ! 1)"
    show ?thesis
    proof (cases ?guard)
      case True
      then have "snd (individual_insert_fileent file gtags p) = p"
        by (auto simp: individual_insert_fileent_def Let_def bad_project_file_def cmd_simps)
      then show ?thesis by (simp add: grown.R_refl)
    next
      case guard: False
      show ?thesis
        unfolding individual_insert_fileent_def Let_def
        using guard False
        by (simp only: if_False de_Morgan_disj simp_thms)
          (intro rest refl grown.always_if bad_frames [THEN frames_grow] grown.always_bind
            intern_tags_frames [THEN frames_grow] kinds_frames [THEN frames_grow] app; simp)
    qed
  qed
qed

lemma read_files_loop_grow: "grow (project_path p) p (snd (read_files_loop n gtags allow s p))"
proof (induction n arbitrary: p s gtags allow)
  case 0
  show ?case by (simp add: cmd_simps grown.R_refl)
next
  case (Suc n)
  have then_next: "grow (project_path p) p (snd (cbind read_list_elt (read_files_loop n g b) q))"
    if q: "grow (project_path p) p q" for g b q
  proof -
    obtain r q' where r: "read_list_elt q = (r, q')" by (cases "read_list_elt q")
    have q': "grow (project_path p) p q'"
      using alwaysD [OF frames_grow [OF read_list_elt_frames] r] q grown.R_trans by blast
    have "project_path q' = project_path p" using q' by (simp add: grow_def files_view_def)
    then show ?thesis
      using Suc.IH [of q'] q' grown.R_trans by (cases r) (auto simp: cbind_apply r)
  qed
  show ?case
  proof (cases "sexp_is_empty s \<or> \<not> sexp_is_pair s")
    case True
    then show ?thesis
      using then_next [OF grown.R_refl] by (auto simp: cmd_simps bad_project_file_def grown.R_refl)
  next
    case False
    obtain r q where r: "individual_insert_fileent s gtags p = (r, q)" by (cases "individual_insert_fileent s gtags p")
    have q: "grow (project_path p) p q" using individual_insert_fileent_grow [of p s gtags] r by simp
    then show ?thesis
      using False then_next [OF q] by (cases r) (auto simp: cthen_apply r)
  qed
qed

text \<open>What holds between the entries of a successful reading.\<close>

definition checked_names :: "ProjectDescriptor \<Rightarrow> bool" where
  "checked_names p \<longleftrightarrow> names_ok (project_name p @ ''.prj'') (project_file_path p) (project_aux_path p) (file_entries p)"

definition files_checked :: "ProjectDescriptor \<Rightarrow> bool" where
  "files_checked p \<longleftrightarrow>
     (prj_entry_found p ! 5 \<longrightarrow> checked_names p) \<and> (\<forall>fe \<in> set (file_entries p). inside (project_path p) fe)"

lemma files_prj_entry_read_checked:
  assumes r: "files_prj_entry_read p = (Inr (), q)" and p: "\<forall>fe \<in> set (file_entries p). inside (project_path p) fe"
  shows "files_checked q"
proof -
  obtain s p1 where p1: "read_list_elt p = (Inr s, p1)"
    and r1: "cthen (cbind (cget input_left) (\<lambda>n. read_files_loop (n + 2) [] True s))
      (cbind this_index (\<lambda>i. cbind (new_insertion_point i) (\<lambda>e.
        cthen (cupd (\<lambda>p. p\<lparr>files_insertion_point := Some (es_id e)\<rparr>)) verify_project_file))) p1 = (Inr (), q)"
    using r unfolding files_prj_entry_read_def cbind_Inr_iff by blast
  obtain u p2 where u: "cbind (cget input_left) (\<lambda>n. read_files_loop (n + 2) [] True s) p1 = (Inr u, p2)"
    and r2: "cbind this_index (\<lambda>i. cbind (new_insertion_point i) (\<lambda>e.
      cthen (cupd (\<lambda>p. p\<lparr>files_insertion_point := Some (es_id e)\<rparr>)) verify_project_file)) p2 = (Inr (), q)"
    using r1 unfolding cthen_Inr_iff [of "cbind (cget input_left) m" for m] by blast
  have p2: "read_files_loop (input_left p1 + 2) [] True s p1 = (Inr (), p2)"
    using u by (simp add: cbind_apply cget_def)
  have g1: "keeps files_view p p1" by (rule alwaysD [OF read_list_elt_frames p1])
  have g2: "grow (project_path p1) p1 p2" using read_files_loop_grow [of p1 "input_left p1 + 2" "[]" True s] p2 by simp
  obtain p3 where p3: "verify_project_file p3 = (Inr (), q)" and g3: "files_view p3 = files_view p2"
    using r2 by (auto simp: this_index_def new_insertion_point_def register_estring_def Let_def cmd_simps files_view_def)
  have "q = p3" and v: "verify_files (project_name p3 @ ''.prj'') (project_file_path p3) (project_aux_path p3) (file_entries p3) = Inr ()"
    using p3 by (auto simp: verify_project_file_def)
  then have "checked_names q" by (simp add: checked_names_def verify_files_iff split: if_splits)
  moreover have "\<forall>fe \<in> set (file_entries q). inside (project_path q) fe"
    using p g1 g2 g3 \<open>q = p3\<close> by (auto simp: keeps_def grow_def files_view_def)
  ultimately show ?thesis by (simp add: files_checked_def)
qed

section \<open>A successful reading\<close>

interpretation found_kept: step_rel "\<lambda>p q. prj_entry_found q = prj_entry_found p"
  by unfold_locales simp_all

lemma verify_frames: "frames verify_project_file"
  by (rule frames_state) (simp add: verify_project_file_def)

lemma files_prj_entry_read_found: "prj_entry_found (snd (files_prj_entry_read p)) = prj_entry_found p"
proof -
  have tail: "frames (cbind this_index (\<lambda>i. cbind (new_insertion_point i) (\<lambda>e.
      cthen (cupd (\<lambda>p. p\<lparr>files_insertion_point := Some (es_id e)\<rparr>)) verify_project_file)))"
    by (intro frames_intros frames_upd verify_frames) (simp add: files_view_def)
  have found: "always (\<lambda>p q. prj_entry_found q = prj_entry_found p) m" if "frames m" for m :: "'a prj"
    using that by (simp add: always_def keeps_def files_view_def)
  have loop: "always (\<lambda>p q. prj_entry_found q = prj_entry_found p) (read_files_loop n [] True s)" for n s
    using read_files_loop_grow by (auto simp: always_def grow_def files_view_def)
  have "always (\<lambda>p q. prj_entry_found q = prj_entry_found p) files_prj_entry_read"
    unfolding files_prj_entry_read_def
    by (intro found_kept.always_bind found_kept.always_then found_kept.always_get loop
        found [OF read_list_elt_frames] found [OF tail])
  then show ?thesis by (simp add: always_def)
qed

lemma prj_word_5: "pftable ! key = ''Files'' \<Longrightarrow> prj_lookup_func s = Some (Some key) \<Longrightarrow> prj_lookup_hash s = Some 5"
proof -
  assume k: "pftable ! key = ''Files''" and s: "prj_lookup_func s = Some (Some key)"
  have "s = ''Files''" using prj.find_hit [of s key] s k by (simp add: prj_lookup_func_def)
  moreover have "prj_lookup_hash ''Files'' = Some 5" by code_simp
  ultimately show ?thesis by simp
qed

lemma prj_hash_5: "prj_lookup_func s = Some (Some key) \<Longrightarrow> prj_lookup_hash s = Some 5 \<Longrightarrow> pftable ! key = ''Files''"
proof -
  assume s: "prj_lookup_func s = Some (Some key)" and h: "prj_lookup_hash s = Some 5"
  have "key = 5" using s h by (auto simp: prj_lookup_func_def gperf_find_def split: if_splits)
  moreover have "pftable ! 5 = ''Files''" by code_simp
  ultimately show ?thesis by simp
qed

lemma read_list_checked_files:
  assumes p: "files_checked p" and r: "read_list_checked offset p = (Inr (), q)"
    and len: "5 < length (prj_entry_found p)"
  shows "files_checked q \<and> length (prj_entry_found q) = length (prj_entry_found p)"
proof -
  obtain tok p1 where p1: "prj_lex p = (Inr tok, p1)" and g1: "keeps files_view p p1"
    and r1: "(let name = prjtext (lexer p1) in
       if tok \<noteq> PrjName then cthrow (Err NonFatalError)
       else (case (prj_lookup_func name, prj_lookup_hash name) of
               (Some (Some key), Some h) \<Rightarrow>
                 if prj_entry_found p1 ! h \<and> Some h \<noteq> prj_lookup_hash ''Files'' then cthrow (Err NonFatalError)
                 else cthen (cupd (\<lambda>p. p\<lparr>prj_entry_found := (prj_entry_found p)[h := True]\<rparr>))
                        (read_entry (pftable ! key) offset)
             | (Some None, Some h) \<Rightarrow> cthrow (Err NonFatalError)
             | _ \<Rightarrow> cthrow Undefined)) p1 = (Inr (), q)"
  proof -
    obtain tok p1 where p1: "prj_lex p = (Inr tok, p1)"
      and r1: "cbind (cget id) (\<lambda>p1. let name = prjtext (lexer p1) in
       if tok \<noteq> PrjName then cthrow (Err NonFatalError)
       else (case (prj_lookup_func name, prj_lookup_hash name) of
               (Some (Some key), Some h) \<Rightarrow>
                 if prj_entry_found p1 ! h \<and> Some h \<noteq> prj_lookup_hash ''Files'' then cthrow (Err NonFatalError)
                 else cthen (cupd (\<lambda>p. p\<lparr>prj_entry_found := (prj_entry_found p)[h := True]\<rparr>))
                        (read_entry (pftable ! key) offset)
             | (Some None, Some h) \<Rightarrow> cthrow (Err NonFatalError)
             | _ \<Rightarrow> cthrow Undefined)) p1 = (Inr (), q)"
      using r unfolding read_list_checked_def cbind_Inr_iff [of prj_lex] by blast
    show thesis
      by (rule that [OF p1 alwaysD [OF prj_lex_frames p1]]) (use r1 in \<open>simp only: cget_bind id_apply\<close>)
  qed
  let ?name = "prjtext (lexer p1)"
  obtain key h where k: "prj_lookup_func ?name = Some (Some key)" "prj_lookup_hash ?name = Some h"
    and r2: "read_entry (pftable ! key) offset (p1\<lparr>prj_entry_found := (prj_entry_found p1)[h := True]\<rparr>) = (Inr (), q)"
    using r1 by (auto simp: Let_def cmd_simps split: option.splits if_splits)
  let ?p2 = "p1\<lparr>prj_entry_found := (prj_entry_found p1)[h := True]\<rparr>"
  have ins: "\<forall>fe \<in> set (file_entries ?p2). inside (project_path ?p2) fe"
    using p g1 by (simp add: files_checked_def keeps_def files_view_def)
  have len1: "prj_entry_found p1 = prj_entry_found p" using g1 by (simp add: keeps_def files_view_def)
  show ?thesis
  proof (cases "pftable ! key = ''Files''")
    case True
    have "files_prj_entry_read ?p2 = (Inr (), q)" using r2 True by (simp add: read_entry_def)
    then have c: "files_checked q" by (rule files_prj_entry_read_checked [OF _ ins])
    have "prj_entry_found q = prj_entry_found ?p2"
      using files_prj_entry_read_found [of ?p2] \<open>files_prj_entry_read ?p2 = (Inr (), q)\<close> by simp
    then show ?thesis using c len1 by simp
  next
    case False
    then have "h \<noteq> 5" using prj_hash_5 k by auto
    moreover have "keeps files_view ?p2 q" by (rule alwaysD [OF read_entry_frames [OF False] r2])
    ultimately show ?thesis
      using p g1 by (auto simp: files_checked_def checked_names_def keeps_def files_view_def)
  qed
qed

lemma parse_entries_files:
  "parse_entries n p = (Inr (), q) \<Longrightarrow> files_checked p \<Longrightarrow> length (prj_entry_found p) = length pftable \<Longrightarrow>
   files_checked q \<and> prj_entry_found q ! 5"
proof (induction n arbitrary: p)
  case 0
  then show ?case by (simp add: cmd_simps)
next
  case (Suc n)
  have len: "5 < length pftable" by (simp add: pftable_def)
  obtain tok p1 where p1: "prj_lex p = (Inr tok, p1)"
    and r: "(if tok = PrjOpen then cthen (cbind this_index read_list_checked) (parse_entries n)
       else if tok = PrjEof then
         cbind (cget id) (\<lambda>p.
           if \<exists>i \<in> set [0..<length pftable]. must_have (pftable ! i) \<and> \<not> prj_entry_found p ! i
           then cthrow (Err NonFatalError)
           else cbind cur_index (\<lambda>i. cbind (new_insertion_point i) (\<lambda>e.
             cupd (\<lambda>p. p\<lparr>end_of_buffer_point := Some (es_id e)\<rparr>))))
       else read_parse_bad_token tok) p1 = (Inr (), q)"
    using Suc.prems(1) unfolding parse_entries.simps cbind_Inr_iff [of prj_lex] by blast
  have g1: "keeps files_view p p1" by (rule alwaysD [OF prj_lex_frames p1])
  have p1_ok: "files_checked p1" "length (prj_entry_found p1) = length pftable"
    using Suc.prems(2,3) g1 by (auto simp: files_checked_def checked_names_def keeps_def files_view_def)
  consider "tok = PrjOpen" | "tok = PrjEof"
    using r by (auto simp: read_parse_bad_token_def cmd_simps split: if_splits)
  then show ?case
  proof cases
    case 1
    obtain p2 where p2: "read_list_checked (prj_lex_this_index (lexer p1)) p1 = (Inr (), p2)"
      and r2: "parse_entries n p2 = (Inr (), q)"
      using r 1 by (auto simp: cthen_Inr_iff this_index_def cget_bind)
    show ?thesis
      using Suc.IH [OF r2] read_list_checked_files [OF p1_ok(1) p2] p1_ok(2) len by simp
  next
    case 2
    define add_end :: "unit prj" where "add_end = cbind cur_index (\<lambda>i. cbind (new_insertion_point i) (\<lambda>e.
        cupd (\<lambda>p. p\<lparr>end_of_buffer_point := Some (es_id e)\<rparr>)))"
    have r2: "\<not> (\<exists>i \<in> set [0..<length pftable]. must_have (pftable ! i) \<and> \<not> prj_entry_found p1 ! i)"
      "add_end p1 = (Inr (), q)"
      using r 2 unfolding add_end_def [symmetric]
      by (auto simp: cget_bind cmd_simps split: if_splits)
    have "frames add_end"
      unfolding add_end_def by (intro frames_intros frames_upd) (simp add: files_view_def)
    from alwaysD [OF this r2(2)] have g: "keeps files_view p1 q" .
    have "must_have (pftable ! 5)" by code_simp
    then have "prj_entry_found p1 ! 5" using r2(1) len by auto
    then show ?thesis
      using g p1_ok(1) by (auto simp: files_checked_def checked_names_def keeps_def files_view_def)
  qed
qed

text \<open>
  C22. The files of a project that was read are in order: whatever the text, when
  \<open>init_from_file\<close> succeeds every file lies below the directory of the project by a name that
  is not weird, and the names and descriptors satisfy the specification \<open>names_ok\<close> with
  respect to each other and to the project file and its auxiliary file.
\<close>
theorem read_project_files:
  "case init_from_file env full_name keep text of
     (Inl _, p) \<Rightarrow> True
   | (Inr _, p) \<Rightarrow>
       list_all (inside (project_path p)) (file_entries p) \<and>
       names_ok (project_name p @ ''.prj'') (project_file_path p) (project_aux_path p) (file_entries p)"
proof -
  have "list_all (inside (project_path p)) (file_entries p) \<and>
       names_ok (project_name p @ ''.prj'') (project_file_path p) (project_aux_path p) (file_entries p)"
    if assms: "init_from_file env full_name keep text = (Inr (), p)" for p
  proof -
  define p0 where "p0 = (new_ProjectDescriptor env full_name keep)\<lparr>segment := text,
              lexer := \<lparr>lex_input = text, prj_lex_this_index = 0, prj_lex_cur_index = 0, prjtext = []\<rparr>,
              prj_entry_found := replicate (length pftable) False\<rparr>"
  have r: "parse_entries (input_left p0 + 2) p0 = (Inr (), p)"
    using assms by (simp only: init_from_file_def parse_prj_file_def cthen_apply cmd_apply p0_def cget_bind split: sum.splits)
       (simp add: cget_bind)
  have "files_checked p0"
    by (simp add: files_checked_def p0_def new_ProjectDescriptor_def Let_def nth_replicate pftable_def)
  moreover have "length (prj_entry_found p0) = length pftable" by (simp add: p0_def)
  ultimately show ?thesis
    using parse_entries_files [OF r] by (simp add: files_checked_def checked_names_def list_all_iff)
  qed
  then show ?thesis by (simp split: prod.split sum.split)
qed

end
