(* ===== verification/MergeParents.thy ===== *)
theory MergeParents
  imports ProjVerify
begin

text \<open>
  The record of merges in a project file, \<open>Merge-Parents\<close> and \<open>New-Merge-Parents\<close>: how
  \<open>src/src/projdesc.cc\<close> writes it, and how a merge consults and extends it.
\<close>

section \<open>Writing\<close>

definition state_text :: "MergeParentState \<Rightarrow> string" where
  "state_text st = (case st of
      MergeStateIncomplete \<Rightarrow> ''incomplete''
    | MergeStateParent \<Rightarrow> ''complete''
    | MergeStateIncompleteParent \<Rightarrow> ''incomplete-parent'')"

definition name_or_none :: "string option \<Rightarrow> string" where
  "name_or_none s = (case s of Some n \<Rightarrow> print_protected n | None \<Rightarrow> ''()'')"

definition write_parent_file :: "nat \<Rightarrow> MergeParentFile \<Rightarrow> string" where
  "write_parent_file j f =
     (if j mod 2 = 0 then NEWLINE # ''    '' else []) @
     ''('' @ name_or_none (mpf_working f) @ '' '' @ name_or_none (mpf_common f) @ '' '' @
     name_or_none (mpf_selected f) @ '' '' @ [action_char (mpf_action f)] @ '')'' @
     (if j mod 2 = 0 then '' '' else [])"

fun write_parent_files :: "nat \<Rightarrow> MergeParentFile list \<Rightarrow> string" where
  "write_parent_files j [] = (if j mod 2 \<noteq> 0 then NEWLINE # ''  '' else [])"
| "write_parent_files j (f # fs) = write_parent_file j f @ write_parent_files (j + 1) fs"

definition write_parent_entry :: "MergeParentEntry \<Rightarrow> string" where
  "write_parent_entry e =
     ''  ('' @ selected_version e @ '' '' @ state_text (mpe_state e) @
     write_parent_files 0 (all_files e) @ '')'' @ [NEWLINE]"

definition write_merge_parents :: "string \<Rightarrow> MergeParentEntry list option \<Rightarrow> string" where
  "write_merge_parents name entries =
     ''('' @ name @
     (case entries of
        None \<Rightarrow> []
      | Some es \<Rightarrow> (if 0 < length es then [NEWLINE] else []) @ concat (map write_parent_entry es)) @
     '')'' @ [NEWLINE]"

section \<open>Scanning what was written\<close>

definition blank :: "string \<Rightarrow> bool" where
  "blank w \<longleftrightarrow> list_all space_char w"

text \<open>What may follow a name and what may follow white space.\<close>

definition ends_name :: "string \<Rightarrow> bool" where
  "ends_name r \<longleftrightarrow> (case r of [] \<Rightarrow> True | c # _ \<Rightarrow> space_char c \<or> c = CHR ''('' \<or> c = CHR '')'')"

definition ends_blank :: "string \<Rightarrow> bool" where
  "ends_blank r \<longleftrightarrow> (case r of [] \<Rightarrow> True | c # _ \<Rightarrow> \<not> space_char c \<and> c \<noteq> CHR '';'')"

definition good_name :: "string \<Rightarrow> bool" where
  "good_name n \<longleftrightarrow> n \<noteq> [] \<and> NUL \<notin> set n"

lemma ws_len_blank: "blank w \<Longrightarrow> ends_blank r \<Longrightarrow> ws_len False (w @ r) = length w"
proof (induction w)
  case Nil
  then show ?case by (cases r) (simp_all add: ends_blank_def)
next
  case (Cons c w)
  then show ?case by (simp add: blank_def)
qed

lemma space_not_name: "space_char c \<Longrightarrow> \<not> name_char c \<and> c \<noteq> BACKSLASH"
  by (auto simp: space_char_def name_char_def)

lemma lex_rule_blank:
  assumes "blank w" and "ends_blank r" and "w \<noteq> []"
  shows "lex_rule (w @ r) = (None, length w)"
proof -
  obtain c w' where w: "w = c # w'" using assms(3) by (cases w) auto
  have c: "space_char c" using assms(1) by (simp add: w blank_def)
  then have sp: "c \<noteq> NUL" "c \<noteq> DQUOTE" "c \<noteq> CHR ''(''" "c \<noteq> CHR '')''" by (auto simp: space_char_def)
  have "name_len (w @ r) = 0"
    using space_not_name [OF c] by (cases "w' @ r") (simp_all add: w)
  then show ?thesis
    using ws_len_blank [OF assms(1,2)] sp by (simp add: lex_rule_def Let_def w)
qed

lemma prjlex_blank:
  assumes "blank w" and "ends_blank r" and "lex_input l = w @ r"
  shows "prjlex l = prjlex (lex_match (length w) l) \<or> w = []"
  using lex_rule_blank [OF assms(1,2)] assms(3) by (cases "w = []") (simp_all add: prjlex.simps [of l])

lemma name_len_protected:
  "NUL \<notin> set n \<Longrightarrow> ends_name r \<Longrightarrow> name_len (print_protected n @ r) = length (print_protected n)"
proof (induction n)
  case Nil
  then show ?case
    by (cases r rule: name_len.cases) (auto simp: ends_name_def dest: space_not_name simp: name_char_def)
next
  case (Cons c n)
  have IH: "name_len (print_protected n @ r) = length (print_protected n)" using Cons by simp
  show ?case
  proof (cases "path_special c")
    case True
    then show ?thesis using IH Cons.prems(1) by (auto simp: name_char_def)
  next
    case False
    then have "name_char c" using Cons.prems(1) by (auto simp: name_char_def path_special_def)
    then show ?thesis using IH False by (cases "print_protected n @ r") auto
  qed
qed

lemma protected_head:
  assumes "good_name n"
  obtains c cs where "print_protected n = c # cs" "c \<noteq> NUL" "c \<noteq> DQUOTE" "c \<noteq> CHR ''(''" "c \<noteq> CHR '')''"
    "\<not> space_char c" "c \<noteq> CHR '';''"
proof -
  obtain d ds where n: "n = d # ds" "d \<noteq> NUL" using assms by (cases n) (auto simp: good_name_def)
  show thesis
    by (cases "path_special d")
      (use n in \<open>auto simp: space_char_def path_special_def intro: that\<close>)
qed

lemma lex_rule_name:
  assumes "good_name n" and "ends_name r"
  shows "lex_rule (print_protected n @ r) = (Some PrjName, length (print_protected n))"
proof -
  have len: "name_len (print_protected n @ r) = length (print_protected n)"
    using assms by (intro name_len_protected) (simp_all add: good_name_def)
  obtain c cs where c: "print_protected n = c # cs" "c \<noteq> NUL" "c \<noteq> DQUOTE" "c \<noteq> CHR ''(''" "c \<noteq> CHR '')''"
    "\<not> space_char c" "c \<noteq> CHR '';''" by (rule protected_head [OF assms(1)])
  have "ws_len False (print_protected n @ r) = 0" by (simp add: c)
  then show ?thesis using len c by (simp add: lex_rule_def Let_def)
qed

lemma ends_blank_protected: "good_name n \<Longrightarrow> ends_blank (print_protected n @ r)"
  by (erule protected_head) (simp add: ends_blank_def)

lemma ends_blank_paren: "ends_blank (CHR ''('' # r)" "ends_blank (CHR '')'' # r)"
  by (simp_all add: ends_blank_def space_char_def)

section \<open>The reader on what was written\<close>

text \<open>The reader stands before the input \<open>inp\<close>, and the rest of what it keeps of merges.\<close>

definition at_input :: "string \<Rightarrow> ProjectDescriptor \<Rightarrow> bool" where
  "at_input inp p \<longleftrightarrow> lexer_at (segment p) (lexer p) \<and> lex_input (lexer p) = inp \<and> finish_me p = None"

definition parents_view ::
  "ProjectDescriptor \<Rightarrow> MergeParentEntry list option \<times> MergeParentEntry list option" where
  "parents_view p = (merge_parents p, new_merge_parents p)"

definition same_parents :: "ProjectDescriptor \<Rightarrow> ProjectDescriptor \<Rightarrow> bool" where
  "same_parents p q \<longleftrightarrow> parents_view q = parents_view p \<and> segment q = segment p"

lemma same_parents_trans: "same_parents p q \<Longrightarrow> same_parents q r \<Longrightarrow> same_parents p r"
  by (simp add: same_parents_def)

lemma at_input_lex:
  assumes p: "at_input (w @ r) p" and w: "blank w" "ends_blank r" "r \<noteq> []"
    and rule: "lex_rule r = (Some t, n)"
  shows "\<exists>q. prj_lex p = (Inr t, q) \<and> at_input (drop n r) q \<and> same_parents p q \<and>
    prjtext (lexer q) = take n r \<and> lex_input (lexer q) = drop n r \<and>
    prj_lex_cur_index (lexer q) = prj_lex_this_index (lexer q) + n \<and>
    drop (prj_lex_this_index (lexer q)) (segment q) = r"
proof -
  have at: "lexer_at (segment p) (lexer p)" and inp: "lex_input (lexer p) = w @ r" and f: "finish_me p = None"
    using p by (simp_all add: at_input_def)
  define l where "l = (if w = [] then lexer p else lex_match (length w) (lexer p))"
  have l: "lexer_at (segment p) l" "lex_input l = r"
    using lexer_at_match(1) [OF at, of "length w"] at inp by (auto simp: l_def lex_match_def)
  have "prjlex (lexer p) = prjlex l"
    using prjlex_blank [OF w(1,2) inp] by (auto simp: l_def)
  also have "\<dots> = (t, lex_match n l)"
    using rule l(2) w(3) by (simp add: prjlex.simps [of l])
  finally have lex: "prjlex (lexer p) = (t, lex_match n l)" .
  have n: "n \<le> length (lex_input l)" using lex_rule_le [OF w(3)] rule l(2) by simp
  let ?q = "p\<lparr>lexer := lex_match n l\<rparr>"
  have "prj_lex p = (Inr t, ?q)"
    by (simp add: prj_lex_def prj_lex_state_def lex Let_def f)
  moreover have "lexer_at (segment p) (lex_match n l)" by (rule lexer_at_match(1) [OF l(1) n])
  moreover have "drop (prj_lex_cur_index l) (segment p) = r" using l by (simp add: lexer_at_def)
  ultimately show ?thesis
    using f l(2) by (intro exI [of _ ?q]) (simp add: at_input_def same_parents_def parents_view_def lex_match_def)
qed

lemma lex_rule_paren:
  "lex_rule (CHR ''('' # r) = (Some PrjOpen, 1)" "lex_rule (CHR '')'' # r) = (Some PrjClose, 1)"
  by (simp_all add: lex_rule_def Let_def)

lemmas lex_open = at_input_lex [OF _ _ ends_blank_paren(1) list.distinct(2) lex_rule_paren(1)]
lemmas lex_close = at_input_lex [OF _ _ ends_blank_paren(2) list.distinct(2) lex_rule_paren(2)]

lemma protected_plain: "BACKSLASH \<notin> set (print_protected n) \<Longrightarrow> print_protected n = n"
  by (induction n) (auto split: if_splits)

text \<open>A name token.\<close>

lemma lex_name:
  assumes p: "at_input (w @ print_protected n @ r) p" and w: "blank w" and n: "good_name n" and r: "ends_name r"
  shows "\<exists>q e q'. prj_lex p = (Inr PrjName, q) \<and> read_new_estring PrjName q = (Inr e, q') \<and> es_text e = n \<and>
    at_input r q' \<and> same_parents p q'"
proof -
  let ?t = "print_protected n"
  have ne: "?t @ r \<noteq> []" by (rule protected_head [OF n]) simp
  obtain q where q: "prj_lex p = (Inr PrjName, q)" "at_input r q" "same_parents p q"
    "prj_lex_cur_index (lexer q) = prj_lex_this_index (lexer q) + length ?t"
    "drop (prj_lex_this_index (lexer q)) (segment q) = ?t @ r"
    using at_input_lex [OF p w ends_blank_protected [OF n] ne lex_rule_name [OF n r]] by auto
  define e where "e = \<lparr>es_id = length (all_estrings q), es_text = n, es_offset = prj_lex_this_index (lexer q),
    es_len = length ?t, es_type = EsNameLiteral\<rparr>"
  let ?q' = "q\<lparr>all_estrings := all_estrings q @ [e],
      nullified_chars := nullified_chars q @ [segment_char (segment q) (prj_lex_cur_index (lexer q))]\<rparr>"
  have t: "(if strchr ?t BACKSLASH \<noteq> None then correct_path ?t [] else Some ?t) = Some n"
    using correct_path_print [of n "[]"] protected_plain [of n] by simp
  have str: "take (length ?t) (drop (prj_lex_this_index (lexer q)) (segment q)) = ?t"
    using q(5) by simp
  have len: "prj_lex_cur_index (lexer q) - prj_lex_this_index (lexer q) = length ?t" using q(4) by simp
  have "read_new_estring PrjName q = (Inr e, ?q')"
    unfolding read_new_estring_def Let_def register_estring_def e_def
    by (simp only: PrjTokenType.distinct if_False if_True refl add_0_right diff_zero str t option.case len)
  moreover have "at_input r ?q'" "same_parents p ?q'"
    using q(2,3) by (simp_all add: at_input_def same_parents_def parents_view_def)
  moreover have "es_text e = n" by (simp add: e_def)
  ultimately show ?thesis using q(1) by blast
qed

section \<open>The lists of a merge entry\<close>

fun seq_text :: "string option list \<Rightarrow> string" where
  "seq_text [] = '')''"
| "seq_text (x # xs) = name_or_none x @ (if xs = [] then [] else '' '') @ seq_text xs"

fun elt_is :: "Sexp \<Rightarrow> string option \<Rightarrow> bool" where
  "elt_is (Atom e) (Some n) = (es_text e = n)"
| "elt_is (Empty i j) None = True"
| "elt_is _ _ = False"

definition good_opt :: "string option \<Rightarrow> bool" where
  "good_opt x \<longleftrightarrow> (case x of Some n \<Rightarrow> good_name n | None \<Rightarrow> True)"

lemma blank_simps [simp]:
  "blank []" "blank (c # w) \<longleftrightarrow> space_char c \<and> blank w" "blank (v @ w) \<longleftrightarrow> blank v \<and> blank w"
  by (simp_all add: blank_def)

lemma space_chars [simp]: "space_char (CHR '' '')" "space_char NEWLINE"
  by (simp_all add: space_char_def)

lemma seq_text_ends:
  "ends_name ((if xs = [] then [] else '' '') @ seq_text xs @ r)"
  by (cases xs) (simp_all add: ends_name_def)

lemma lex_seq_close:
  assumes "at_input (w @ '')'' @ r) p" and "blank w"
  shows "\<exists>q. prj_lex p = (Inr PrjClose, q) \<and> at_input r q \<and> same_parents p q"
proof -
  have "at_input (w @ CHR '')'' # r) p" using assms(1) by simp
  from lex_close [OF this assms(2)] show ?thesis by auto
qed

lemma lex_seq_open:
  assumes "at_input (w @ ''('' @ r) p" and "blank w"
  shows "\<exists>q. prj_lex p = (Inr PrjOpen, q) \<and> at_input r q \<and> same_parents p q"
proof -
  have "at_input (w @ CHR ''('' # r) p" using assms(1) by simp
  from lex_open [OF this assms(2)] show ?thesis by auto
qed

lemma read_seq:
  "list_all good_opt xs \<Longrightarrow> blank w \<Longrightarrow> at_input (w @ seq_text xs @ r) p \<Longrightarrow> length xs < n \<Longrightarrow>
   \<exists>s q. cbind prj_lex (\<lambda>t. read_list_token n t start) p = (Inr s, q) \<and> sexp_is_pair s \<and>
     list_all2 elt_is (sexp_list s) xs \<and> at_input r q \<and> same_parents p q"
proof (induction xs arbitrary: w n p)
  case Nil
  obtain m where n: "n = Suc m" using Nil.prems(4) by (cases n) auto
  obtain q where q: "prj_lex p = (Inr PrjClose, q)" "at_input r q" "same_parents p q"
    using lex_seq_close [of w r p] Nil.prems by auto
  then show ?case
    by (intro exI [of _ "Empty start (prj_lex_cur_index (lexer q))"] exI [of _ q])
      (simp add: cbind_apply n cur_index_def cget_def creturn_def)
next
  case (Cons x xs)
  obtain m where n: "n = Suc m" "length xs < m" using Cons.prems(4) by (cases n) auto
  let ?sep = "if xs = [] then [] else '' ''"
  have sep: "blank ?sep" by simp
  show ?case
  proof (cases x)
    case (Some nm)
    have nm: "good_name nm" using Cons.prems(1) Some by (simp add: good_opt_def)
    have "at_input (w @ print_protected nm @ (?sep @ seq_text xs @ r)) p"
      using Cons.prems(3) by (simp add: Some name_or_none_def)
    from lex_name [OF this Cons.prems(2) nm seq_text_ends]
    obtain q1 e q2 where q: "prj_lex p = (Inr PrjName, q1)" "read_new_estring PrjName q1 = (Inr e, q2)"
      "es_text e = nm" "at_input (?sep @ seq_text xs @ r) q2" "same_parents p q2" by blast
    obtain s1 q3 where s1: "cbind prj_lex (\<lambda>t. read_list_token m t start) q2 = (Inr s1, q3)" "sexp_is_pair s1"
      "list_all2 elt_is (sexp_list s1) xs" "at_input r q3" "same_parents q2 q3"
      using Cons.IH [OF _ sep q(4) n(2)] Cons.prems(1) by auto
    show ?thesis
      using q s1 same_parents_trans [OF q(5) s1(5)]
      by (intro exI [of _ "Pair (Atom e) s1 start (prj_lex_cur_index (lexer q3))"] exI [of _ q3])
        (simp add: cbind_apply n cur_index_def cget_def creturn_def Some)
  next
    case None
    have "at_input (w @ ''('' @ ('')'' @ ?sep @ seq_text xs @ r)) p"
      using Cons.prems(3) by (simp add: None name_or_none_def)
    from lex_seq_open [OF this Cons.prems(2)]
    obtain q1 where q1: "prj_lex p = (Inr PrjOpen, q1)" "at_input ('')'' @ ?sep @ seq_text xs @ r) q1" "same_parents p q1"
      by blast
    obtain q2 where q2: "prj_lex q1 = (Inr PrjClose, q2)" "at_input (?sep @ seq_text xs @ r) q2" "same_parents q1 q2"
      using lex_seq_close [of "[]" "?sep @ seq_text xs @ r" q1] q1(2) by auto
    obtain s1 q3 where s1: "cbind prj_lex (\<lambda>t. read_list_token m t start) q2 = (Inr s1, q3)" "sexp_is_pair s1"
      "list_all2 elt_is (sexp_list s1) xs" "at_input r q3" "same_parents q2 q3"
      using Cons.IH [OF _ sep q2(2) n(2)] Cons.prems(1) by auto
    obtain k where m: "m = Suc k" using n(2) by (cases m) auto
    let ?e = "Empty (prj_lex_this_index (lexer q1)) (prj_lex_cur_index (lexer q2))"
    have s2: "cbind prj_lex (\<lambda>t. read_list_token m t (prj_lex_this_index (lexer q1))) q1 = (Inr ?e, q2)"
      by (simp add: cbind_apply q2(1) m cur_index_def cget_def creturn_def)
    show ?thesis
      using q1 s1 same_parents_trans [OF same_parents_trans [OF q1(3) q2(3)] s1(5)]
      by (intro exI [of _ "Pair ?e s1 start (prj_lex_cur_index (lexer q3))"] exI [of _ q3])
        (simp add: cbind_apply n cur_index_def this_index_def cget_def s2 [unfolded cbind_apply] s1(1) [unfolded cbind_apply] creturn_def None)
  qed
qed

section \<open>The files of an entry\<close>

definition file_elts :: "MergeParentFile \<Rightarrow> string option list" where
  "file_elts f = [mpf_working f, mpf_common f, mpf_selected f, Some [action_char (mpf_action f)]]"

definition good_file :: "MergeParentFile \<Rightarrow> bool" where
  "good_file f \<longleftrightarrow> good_opt (mpf_working f) \<and> good_opt (mpf_common f) \<and> good_opt (mpf_selected f) \<and>
     mpf_action f \<noteq> NoPrompt"

lemma action_char_good: "a \<noteq> NoPrompt \<Longrightarrow> good_name [action_char a] \<and> print_protected [action_char a] = [action_char a]"
  by (cases a) (simp_all add: good_name_def path_special_def)

lemma write_parent_file_eq:
  "mpf_action f \<noteq> NoPrompt \<Longrightarrow>
   write_parent_file j f = (if j mod 2 = 0 then NEWLINE # ''    '' else []) @ ''('' @ seq_text (file_elts f) @
     (if j mod 2 = 0 then '' '' else [])"
  using action_char_good [of "mpf_action f"]
  by (simp add: write_parent_file_def file_elts_def name_or_none_def)

lemma char_action_char: "char_action (action_char a) = Some a"
  by (cases a) (simp_all add: char_action_def)

text \<open>The parser's view of a file of an entry.\<close>

definition reads_as :: "Sexp \<Rightarrow> MergeParentFile \<Rightarrow> bool" where
  "reads_as s f \<longleftrightarrow> sexp_is_pair s \<and> list_all2 elt_is (sexp_list s) (file_elts f)"

lemma elt_is_name:
  "elt_is s x \<Longrightarrow> read_merge_parents_file_name s p = (Inr x, p)"
  by (cases "(s, x)" rule: elt_is.cases)
    (auto simp: read_merge_parents_file_name_def sexp_length_def cmd_simps)

lemma read_parent_file_reads:
  assumes "reads_as s f" and "good_file f" and "get_parents new p = Some (a @ [e])"
  shows "\<exists>q. read_parent_file new s p = (Inr (), q) \<and>
    get_parents new q = Some (a @ [e\<lparr>all_files := all_files e @ [f]\<rparr>]) \<and>
    get_parents (\<not> new) q = get_parents (\<not> new) p \<and>
    lexer q = lexer p \<and> segment q = segment p \<and> finish_me q = finish_me p"
proof -
  obtain w c sl act where s: "sexp_list s = [w, c, sl, act]" and el: "elt_is w (mpf_working f)" "elt_is c (mpf_common f)"
    "elt_is sl (mpf_selected f)" "elt_is act (Some [action_char (mpf_action f)])"
    using assms(1) by (auto simp: reads_as_def file_elts_def list_all2_Cons2)
  obtain x where act: "act = Atom x" "es_text x = [action_char (mpf_action f)]"
    using el(4) by (cases act) auto
  have ch: "action_char (mpf_action f) \<in> set ''adnmr''" using assms(2) by (cases "mpf_action f") (auto simp: good_file_def)
  have f: "\<lparr>mpf_working = mpf_working f, mpf_common = mpf_common f, mpf_selected = mpf_selected f,
      mpf_action = mpf_action f\<rparr> = f" by simp
  have "read_parent_file new s p = append_parent_file new f p"
    using ch by (simp add: read_parent_file_def s cbind_apply elt_is_name [OF el(1)] elt_is_name [OF el(2)]
        elt_is_name [OF el(3)] act char_action_char f)
  then show ?thesis
    using assms(3) by (cases new) (simp_all add: append_parent_file_def cmd_simps get_parents_def set_parents_def add_parent_file_def)
qed

section \<open>The elements and the files of an entry\<close>

lemma seq_text_length: "length xs \<le> length (seq_text xs)"
  by (induction xs) auto

lemma lex_seq_first:
  assumes "at_input (w @ seq_text xs @ r) p" and "blank w" and "list_all good_opt xs"
  shows "\<exists>t q. prj_lex p = (Inr t, q) \<and> length xs < input_left q + 2"
proof (cases xs)
  case Nil
  then have "at_input (w @ '')'' @ r) p" using assms(1) by simp
  from lex_seq_close [OF this assms(2)] show ?thesis using Nil by auto
next
  case (Cons x ys)
  let ?rest = "(if ys = [] then [] else '' '') @ seq_text ys @ r"
  have len: "length ys \<le> length ?rest" using seq_text_length [of ys] by simp
  show ?thesis
  proof (cases x)
    case (Some nm)
    have nm: "good_name nm" using assms(3) Cons Some by (simp add: good_opt_def)
    have p: "at_input (w @ (print_protected nm @ ?rest)) p"
      using assms(1) by (simp add: Cons Some name_or_none_def)
    have ne: "print_protected nm @ ?rest \<noteq> []" by (rule protected_head [OF nm]) simp
    obtain q where "prj_lex p = (Inr PrjName, q)" "lex_input (lexer q) = ?rest"
      using at_input_lex [OF p assms(2) ends_blank_protected [OF nm] ne lex_rule_name [OF nm seq_text_ends]] by auto
    then show ?thesis using len by (simp add: Cons input_left_def)
  next
    case None
    have "at_input (w @ ''('' @ ('')'' @ ?rest)) p" using assms(1) by (simp add: Cons None name_or_none_def)
    from lex_seq_open [OF this assms(2)] obtain q where
      "prj_lex p = (Inr PrjOpen, q)" "at_input ('')'' @ ?rest) q" by blast
    then show ?thesis using len by (simp add: Cons input_left_def at_input_def)
  qed
qed

lemma read_elt_seq:
  assumes "at_input (w @ ''('' @ seq_text xs @ r) p" and "blank w" and "list_all good_opt xs"
  shows "\<exists>s q. read_list_elt p = (Inr s, q) \<and> sexp_is_pair s \<and> list_all2 elt_is (sexp_list s) xs \<and>
    at_input r q \<and> same_parents p q"
proof -
  obtain q1 where q1: "prj_lex p = (Inr PrjOpen, q1)" "at_input (seq_text xs @ r) q1" "same_parents p q1"
    using lex_seq_open [of w "seq_text xs @ r" p] assms by auto
  let ?i = "prj_lex_this_index (lexer q1)"
  obtain t q2 where q2: "prj_lex q1 = (Inr t, q2)" "length xs < input_left q2 + 2"
    using lex_seq_first [of "[]" xs r q1] q1(2) assms(3) by auto
  obtain s q where s: "cbind prj_lex (\<lambda>t. read_list_token (input_left q2 + 2) t ?i) q1 = (Inr s, q)"
    "sexp_is_pair s" "list_all2 elt_is (sexp_list s) xs" "at_input r q" "same_parents q1 q"
    using read_seq [of xs "[]" r q1 "input_left q2 + 2" ?i] q1(2) q2(2) assms(3) by auto
  have "read_list_elt p = read_list ?i q1"
    by (simp add: read_list_elt_def cbind_Inr [of prj_lex, OF q1(1)] this_index_def cget_bind)
  also have "\<dots> = (Inr s, q)"
    using s(1) by (simp add: read_list_def cbind_Inr [of prj_lex, OF q2(1)] cget_bind)
  finally show ?thesis using s same_parents_trans [OF q1(3) s(5)] by blast
qed

lemma read_elt_close:
  assumes "at_input (w @ '')'' @ r) p" and "blank w"
  shows "\<exists>q. read_list_elt p = (Inr (Empty 0 0), q) \<and> at_input r q \<and> same_parents p q"
  using lex_seq_close [OF assms] by (auto simp: read_list_elt_def cbind_apply creturn_def)

lemma read_elt_name:
  assumes "at_input (w @ print_protected n @ r) p" and "blank w" and "good_name n" and "ends_name r"
  shows "\<exists>e q. read_list_elt p = (Inr (Atom e), q) \<and> es_text e = n \<and> at_input r q \<and> same_parents p q"
proof -
  obtain q e q' where q: "prj_lex p = (Inr PrjName, q)" "read_new_estring PrjName q = (Inr e, q')"
    "es_text e = n" "at_input r q'" "same_parents p q'" using lex_name [OF assms] by blast
  have "read_list_elt p = (Inr (Atom e), q')"
    by (simp add: read_list_elt_def cbind_Inr [of prj_lex, OF q(1)] cbind_Inr [of "read_new_estring PrjName", OF q(2)] creturn_def)
  then show ?thesis using q by blast
qed

text \<open>
  What an element read from the files of an entry stands for: the end of the entry, or its
  first file, with the others still to be read.
\<close>

definition next_file :: "Sexp \<Rightarrow> ProjectDescriptor \<Rightarrow> nat \<Rightarrow> MergeParentFile list \<Rightarrow> string \<Rightarrow> bool" where
  "next_file s p j fs r \<longleftrightarrow>
     (case fs of
        [] \<Rightarrow> s = Empty 0 0 \<and> at_input r p
      | f # fs' \<Rightarrow> reads_as s f \<and>
          (\<exists>w. blank w \<and> at_input (w @ write_parent_files (Suc j) fs' @ '')'' @ r) p))"

lemma read_elt_file:
  assumes p: "at_input (w @ write_parent_files j fs @ '')'' @ r) p" and w: "blank w" and fs: "list_all good_file fs"
  shows "\<exists>s q. read_list_elt p = (Inr s, q) \<and> next_file s q j fs r \<and> same_parents p q"
proof (cases fs)
  case Nil
  let ?w = "w @ (if j mod 2 \<noteq> 0 then NEWLINE # ''  '' else [])"
  have "at_input (?w @ '')'' @ r) p" "blank ?w" using p w by (simp_all add: Nil)
  from read_elt_close [OF this] show ?thesis by (auto simp: Nil next_file_def)
next
  case (Cons f fs')
  let ?w = "w @ (if j mod 2 = 0 then NEWLINE # ''    '' else [])"
  let ?v = "if j mod 2 = 0 then '' '' else []"
  let ?r = "?v @ write_parent_files (Suc j) fs' @ '')'' @ r"
  have f: "good_file f" using fs Cons by simp
  then have xs: "list_all good_opt (file_elts f)" and a: "mpf_action f \<noteq> NoPrompt"
    using action_char_good [of "mpf_action f"] by (simp_all add: good_file_def file_elts_def good_opt_def)
  have "at_input (?w @ ''('' @ seq_text (file_elts f) @ ?r) p" "blank ?w"
    using p w by (simp_all add: Cons write_parent_file_eq [OF a])
  from read_elt_seq [OF this xs] obtain s q where
    s: "read_list_elt p = (Inr s, q)" "reads_as s f" "at_input ?r q" "same_parents p q"
    by (auto simp: reads_as_def)
  have "next_file s q j fs r"
    unfolding next_file_def Cons list.case using s(2,3) by (intro conjI exI [of _ ?v]) simp_all
  then show ?thesis using s by blast
qed

lemma reads_as_not_empty: "reads_as s f \<Longrightarrow> \<not> sexp_is_empty s"
  by (cases s) (auto simp: reads_as_def file_elts_def)

lemma read_parent_files_reads:
  "next_file s p j fs r \<Longrightarrow> list_all good_file fs \<Longrightarrow> get_parents new p = Some (a @ [e]) \<Longrightarrow> length fs < n \<Longrightarrow>
   \<exists>q. read_parent_files n new s p = (Inr (), q) \<and> at_input r q \<and> segment q = segment p \<and>
     get_parents new q = Some (a @ [e\<lparr>all_files := all_files e @ fs\<rparr>]) \<and>
     get_parents (\<not> new) q = get_parents (\<not> new) p"
proof (induction fs arbitrary: s p j n e)
  case Nil
  then obtain m where "n = Suc m" by (cases n) auto
  then show ?case using Nil by (simp add: next_file_def creturn_def)
next
  case (Cons f fs)
  obtain m where n: "n = Suc m" "length fs < m" using Cons.prems(4) by (cases n) auto
  have s: "reads_as s f" using Cons.prems(1) by (simp add: next_file_def)
  obtain w where w: "blank w" "at_input (w @ write_parent_files (Suc j) fs @ '')'' @ r) p"
    using Cons.prems(1) by (auto simp: next_file_def)
  have good: "good_file f" "list_all good_file fs" using Cons.prems(2) by simp_all
  obtain q1 where q1: "read_parent_file new s p = (Inr (), q1)"
    "get_parents new q1 = Some (a @ [e\<lparr>all_files := all_files e @ [f]\<rparr>])"
    "get_parents (\<not> new) q1 = get_parents (\<not> new) p"
    "lexer q1 = lexer p" "segment q1 = segment p" "finish_me q1 = finish_me p"
    using read_parent_file_reads [OF s good(1) Cons.prems(3)] by blast
  have "at_input (w @ write_parent_files (Suc j) fs @ '')'' @ r) q1"
    using w(2) q1(4-6) by (simp add: at_input_def)
  from read_elt_file [OF this w(1) good(2)] obtain s2 q2 where
    s2: "read_list_elt q1 = (Inr s2, q2)" "next_file s2 q2 (Suc j) fs r" "same_parents q1 q2" by blast
  have par: "get_parents b q2 = get_parents b q1" for b
    using s2(3) by (simp add: same_parents_def parents_view_def get_parents_def)
  let ?e = "e\<lparr>all_files := all_files e @ [f]\<rparr>"
  have new: "get_parents new q2 = Some (a @ [?e])" using par q1(2) by simp
  have old: "get_parents (\<not> new) q2 = get_parents (\<not> new) p" using par q1(3) by simp
  have seg: "segment q2 = segment p" using q1(5) s2(3) by (simp add: same_parents_def)
  have e: "?e\<lparr>all_files := all_files ?e @ fs\<rparr> = e\<lparr>all_files := all_files e @ f # fs\<rparr>" by simp
  obtain q where q: "read_parent_files m new s2 q2 = (Inr (), q)" "at_input r q" "segment q = segment q2"
    "get_parents new q = Some (a @ [?e\<lparr>all_files := all_files ?e @ fs\<rparr>])"
    "get_parents (\<not> new) q = get_parents (\<not> new) q2"
    using Cons.IH [OF s2(2) good(2) new n(2)] by blast
  have "read_parent_files n new s p = (Inr (), q)"
    by (simp add: n(1) reads_as_not_empty [OF s] cthen_Inr [of "read_parent_file new s", OF q1(1)] cbind_Inr [of read_list_elt, OF s2(1)] q(1))
  then show ?case using q(2-5) seg old unfolding e by simp
qed

section \<open>Reading back what was written\<close>

text \<open>A version name needs no quoting, and holds a dot; so does every state.\<close>

definition plain_name :: "string \<Rightarrow> bool" where
  "plain_name n \<longleftrightarrow> good_name n \<and> list_all (\<lambda>c. \<not> path_special c) n"

definition good_entry :: "MergeParentEntry \<Rightarrow> bool" where
  "good_entry e \<longleftrightarrow> plain_name (selected_version e) \<and> DOT \<in> set (selected_version e) \<and>
     list_all good_file (all_files e)"

text \<open>What is kept of an entry: not the tables that a running merge builds.\<close>

definition written_part :: "MergeParentEntry \<Rightarrow> MergeParentEntry" where
  "written_part e = (new_MergeParentEntry (selected_version e) (mpe_state e))\<lparr>all_files := all_files e\<rparr>"

lemma plain_protected: "plain_name n \<Longrightarrow> print_protected n = n \<and> good_name n"
proof -
  have "list_all (\<lambda>c. \<not> path_special c) n \<Longrightarrow> print_protected n = n" by (induction n) simp_all
  then show "plain_name n \<Longrightarrow> print_protected n = n \<and> good_name n" by (simp add: plain_name_def)
qed

lemma plain_state: "plain_name (state_text st)"
  by (cases st) (simp_all add: state_text_def plain_name_def good_name_def path_special_def)

lemma state_read: "state_1_2 (state_text st) = Some st"
  by (cases st) (simp_all add: state_text_def state_1_2_def)

lemma read_elt_plain:
  assumes "at_input (w @ n @ r) p" and "blank w" and "plain_name n" and "ends_name r"
  shows "\<exists>e q. read_list_elt p = (Inr (Atom e), q) \<and> es_text e = n \<and> at_input r q \<and> same_parents p q"
  using read_elt_name [of w n r p] plain_protected [OF assms(3)] assms(1,2,4) by simp

lemma write_parent_files_ends: "ends_name (write_parent_files 0 fs @ CHR '')'' # r)"
  by (cases fs) (simp_all add: write_parent_file_def ends_name_def)

lemma write_parent_files_length: "length fs \<le> length (write_parent_files j fs)"
proof (induction fs arbitrary: j)
  case (Cons f fs)
  have "1 \<le> length (write_parent_file j f)" by (simp add: write_parent_file_def)
  then show ?case using Cons.IH [of "j + 1"] by simp
qed simp

lemma next_file_left: "next_file s p j fs r \<Longrightarrow> length fs < input_left p + 2"
proof (cases fs)
  case (Cons f fs')
  assume "next_file s p j fs r"
  then obtain w where "lex_input (lexer p) = w @ write_parent_files (Suc j) fs' @ '')'' @ r"
    by (auto simp: next_file_def Cons at_input_def)
  then show ?thesis using write_parent_files_length [of fs' "Suc j"] by (simp add: Cons input_left_def)
qed simp

lemma next_file_pair: "next_file s p j fs r \<Longrightarrow> sexp_is_pair s"
  by (cases fs) (auto simp: next_file_def reads_as_def)

lemma read_parent_entry_reads:
  assumes p: "at_input (selected_version e @ '' '' @ state_text (mpe_state e) @
      write_parent_files 0 (all_files e) @ '')'' @ r) p"
    and e: "good_entry e" and par: "get_parents new p = Some a"
  shows "\<exists>q. read_merge_parents_entry new p = (Inr (), q) \<and> at_input r q \<and> segment q = segment p \<and>
    get_parents new q = Some (a @ [written_part e]) \<and> get_parents (\<not> new) q = get_parents (\<not> new) p"
proof -
  let ?files = "write_parent_files 0 (all_files e) @ '')'' @ r"
  have v: "plain_name (selected_version e)" "strchr (selected_version e) DOT \<noteq> None" and fs: "list_all good_file (all_files e)"
    using e strchr_None [of "selected_version e" DOT] by (simp_all add: good_entry_def)
  obtain ev q1 where q1: "read_list_elt p = (Inr (Atom ev), q1)" "es_text ev = selected_version e"
    "at_input ('' '' @ state_text (mpe_state e) @ ?files) q1" "same_parents p q1"
    using read_elt_plain [of "[]" "selected_version e" "'' '' @ state_text (mpe_state e) @ ?files" p] p v(1)
    by (auto simp: ends_name_def)
  obtain es q2 where q2: "read_list_elt q1 = (Inr (Atom es), q2)" "es_text es = state_text (mpe_state e)"
    "at_input ?files q2" "same_parents q1 q2"
    using read_elt_plain [OF q1(3) _ plain_state] write_parent_files_ends by auto
  have "at_input ([] @ ?files) q2" using q2(3) by simp
  from read_elt_file [OF this _ fs] obtain s q3 where
    q3: "read_list_elt q2 = (Inr s, q3)" "next_file s q3 0 (all_files e) r" "same_parents q2 q3" by auto
  have st: "read_parent_state q1 = (Inr (mpe_state e, s), q3)"
    by (simp add: read_parent_state_def cbind_Inr [of read_list_elt, OF q2(1)] cbind_Inr [of read_list_elt, OF q3(1)]
        next_file_pair [OF q3(2)] q2(2) state_read creturn_def)
  let ?new = "new_MergeParentEntry (selected_version e) (mpe_state e)"
  have par3: "get_parents b q3 = get_parents b p" for b
    using same_parents_trans [OF same_parents_trans [OF q1(4) q2(4)] q3(3)]
    by (simp add: same_parents_def parents_view_def get_parents_def)
  have seg3: "segment q3 = segment p"
    using same_parents_trans [OF same_parents_trans [OF q1(4) q2(4)] q3(3)] by (simp add: same_parents_def)
  let ?q4 = "set_parents new (Some (a @ [?new])) q3"
  have app: "append_parent new ?new q3 = (Inr (), ?q4)"
    using par3 [of new] par by (simp add: append_parent_def cmd_simps)
  have q4: "lexer ?q4 = lexer q3" "finish_me ?q4 = finish_me q3" "segment ?q4 = segment q3"
    "get_parents new ?q4 = Some (a @ [?new])" "get_parents (\<not> new) ?q4 = get_parents (\<not> new) q3"
    by (cases new; simp add: set_parents_def get_parents_def)+
  have "next_file s ?q4 0 (all_files e) r"
    using q3(2) q4(1-3) by (simp add: next_file_def at_input_def split: list.splits)
  moreover have "length (all_files e) < input_left q3 + 2" using next_file_left [OF q3(2)] .
  ultimately obtain q where q: "read_parent_files (input_left q3 + 2) new s ?q4 = (Inr (), q)" "at_input r q"
    "segment q = segment ?q4" "get_parents new q = Some (a @ [?new\<lparr>all_files := all_files ?new @ all_files e\<rparr>])"
    "get_parents (\<not> new) q = get_parents (\<not> new) ?q4"
    using read_parent_files_reads [OF _ fs q4(4)] by blast
  have left: "input_left ?q4 = input_left q3" by (simp add: input_left_def q4(1))
  have "read_merge_parents_entry new p = (Inr (), q)"
    using v(2) by (simp add: read_merge_parents_entry_def cbind_Inr [of read_list_elt, OF q1(1)] q1(2)
        cbind_Inr [of read_parent_state, OF st] cthen_Inr [of "append_parent new ?new", OF app] cget_bind left q(1)
        del: read_parent_files.simps add_2_eq_Suc')
  moreover have "?new\<lparr>all_files := all_files ?new @ all_files e\<rparr> = written_part e"
    by (simp add: written_part_def new_MergeParentEntry_def)
  ultimately show ?thesis using q(2-5) q4(3,5) seg3 par3 by metis
qed

lemma write_parent_entry_length: "1 \<le> length (write_parent_entry e)"
  by (simp add: write_parent_entry_def)

lemma read_parents_loop_reads:
  "at_input (w @ concat (map write_parent_entry es) @ '')'' @ r) p \<Longrightarrow> blank w \<Longrightarrow> list_all good_entry es \<Longrightarrow>
   get_parents new p = Some a \<Longrightarrow> length es < n \<Longrightarrow>
   \<exists>q. read_merge_parents_loop n new p = (Inr (), q) \<and> lex_input (lexer q) = r \<and> segment q = segment p \<and>
     get_parents new q = Some (a @ map written_part es) \<and> get_parents (\<not> new) q = get_parents (\<not> new) p"
proof (induction es arbitrary: w p a n)
  case Nil
  obtain m where n: "n = Suc m" using Nil.prems(5) by (cases n) auto
  obtain q where "prj_lex p = (Inr PrjClose, q)" "at_input r q" "same_parents p q"
    using lex_seq_close [of w r p] Nil.prems by auto
  then show ?case
    using Nil.prems(4)
    by (cases new) (simp_all add: n cbind_apply cupd_def at_input_def same_parents_def parents_view_def get_parents_def)
next
  case (Cons e es)
  obtain m where n: "n = Suc m" "length es < m" using Cons.prems(5) by (cases n) auto
  let ?rest = "[NEWLINE] @ concat (map write_parent_entry es) @ '')'' @ r"
  let ?body = "selected_version e @ '' '' @ state_text (mpe_state e) @ write_parent_files 0 (all_files e) @ '')'' @ ?rest"
  have "at_input ((w @ ''  '') @ ''('' @ ?body) p" "blank (w @ ''  '')"
    using Cons.prems(1,2) by (simp_all add: write_parent_entry_def [of e])
  from lex_seq_open [OF this] obtain q1 where q1: "prj_lex p = (Inr PrjOpen, q1)" "at_input ?body q1" "same_parents p q1"
    by blast
  have par1: "get_parents b q1 = get_parents b p" for b
    using q1(3) by (simp add: same_parents_def parents_view_def get_parents_def)
  have e: "good_entry e" "list_all good_entry es" using Cons.prems(3) by simp_all
  obtain q2 where q2: "read_merge_parents_entry new q1 = (Inr (), q2)" "at_input ?rest q2" "segment q2 = segment q1"
    "get_parents new q2 = Some (a @ [written_part e])" "get_parents (\<not> new) q2 = get_parents (\<not> new) q1"
    using read_parent_entry_reads [OF q1(2) e(1)] par1 Cons.prems(4) by metis
  have nl: "blank [NEWLINE]" by simp
  obtain q where q: "read_merge_parents_loop m new q2 = (Inr (), q)" "lex_input (lexer q) = r" "segment q = segment q2"
    "get_parents new q = Some ((a @ [written_part e]) @ map written_part es)"
    "get_parents (\<not> new) q = get_parents (\<not> new) q2"
    using Cons.IH [OF q2(2) nl e(2) q2(4) n(2)] by blast
  have "read_merge_parents_loop n new p = (Inr (), q)"
    by (simp add: n(1) cbind_Inr [of prj_lex, OF q1(1)] cthen_Inr [of "read_merge_parents_entry new", OF q2(1)] q(1))
  then show ?case using q(2-5) q2(3,5) q1(3) par1 by (simp add: same_parents_def)
qed

lemma merge_parents_read_back:
  assumes "list_all good_entry es"
    and "at_input (drop (1 + length name) (write_merge_parents name (Some es))) p"
    and "get_parents new p = Some a"
  shows "\<exists>q. read_merge_parents new p = (Inr (), q) \<and> lex_input (lexer q) = [NEWLINE] \<and>
    get_parents new q = Some (a @ map written_part es) \<and>
    get_parents (\<not> new) q = get_parents (\<not> new) p"
proof -
  let ?w = "if 0 < length es then [NEWLINE] else []"
  have at: "at_input (?w @ concat (map write_parent_entry es) @ '')'' @ [NEWLINE]) p"
    using assms(2) by (simp add: write_merge_parents_def)
  have "length es \<le> length (concat (map write_parent_entry es))"
  proof (induction es)
    case (Cons e es)
    then show ?case using write_parent_entry_length [of e] by simp
  qed simp
  then have "length es < input_left p + 2" using at by (simp add: input_left_def at_input_def)
  moreover have "blank ?w" by simp
  ultimately show ?thesis
    unfolding read_merge_parents_def cget_bind using read_parents_loop_reads [OF at _ assms(1,3)] by blast
qed

text \<open>
  C24. The record of merges survives the project file: reading what \<open>write_merge_parents\<close> wrote,
  from after the name of the entry, appends to the array exactly the entries that were written
  (their versions, states, files and actions; the tables of a running merge are not written),
  leaves the other array alone, and stops behind the entry. The names of files may hold any
  character but NUL, and a file may be missing in a version.
\<close>
theorem merge_parents_roundtrip:
  assumes "list_all good_entry es"
    and "at_input (drop (1 + length name) (write_merge_parents name (Some es))) p"
    and "get_parents new p = Some a"
  shows "\<exists>q. read_merge_parents new p = (Inr (), q) \<and> lex_input (lexer q) = [NEWLINE] \<and>
    get_parents new q = Some (a @ map written_part es) \<and>
    get_parents (\<not> new) q = get_parents (\<not> new) p"
  using assms by (rule merge_parents_read_back)

text \<open>A file merged and a deletion, both in a name that needs quoting, read back from text.\<close>

definition sample_parents :: "MergeParentEntry list" where
  "sample_parents =
     [(new_MergeParentEntry ''main.3'' MergeStateIncomplete)
        \<lparr>all_files := [\<lparr>mpf_working = Some ''a b'', mpf_common = Some ''a b'', mpf_selected = Some ''c'', mpf_action = Merge\<rparr>,
                      \<lparr>mpf_working = None, mpf_common = None, mpf_selected = Some ''(x'', mpf_action = Add\<rparr>]\<rparr>,
      new_MergeParentEntry ''0.1'' MergeStateIncompleteParent]"

definition sample_reader :: "string \<Rightarrow> ProjectDescriptor" where
  "sample_reader text = (new_ProjectDescriptor \<lparr>env_merge = None, env_diff = None\<rparr> ''p'' True)
     \<lparr>segment := text, lexer := \<lparr>lex_input = text, prj_lex_this_index = 0, prj_lex_cur_index = 0, prjtext = []\<rparr>\<rparr>"

theorem merge_parents_roundtrip_witness:
  "let text = drop 14 (write_merge_parents ''Merge-Parents'' (Some sample_parents));
       (r, q) = read_merge_parents False (sample_reader text)
   in r = Inr () \<and> merge_parents q = Some sample_parents \<and> new_merge_parents q = Some []"
proof -
  let ?text = "drop 14 (write_merge_parents ''Merge-Parents'' (Some sample_parents))"
  have len: "1 + length ''Merge-Parents'' = 14" by simp
  have "list_all good_entry sample_parents"
    by (simp add: sample_parents_def good_entry_def new_MergeParentEntry_def plain_name_def good_name_def
        path_special_def good_file_def good_opt_def)
  moreover have "at_input (drop (1 + length ''Merge-Parents'') (write_merge_parents ''Merge-Parents'' (Some sample_parents)))
      (sample_reader ?text)"
    unfolding len by (simp add: at_input_def sample_reader_def lexer_at_def new_ProjectDescriptor_def Let_def)
  moreover have "get_parents False (sample_reader ?text) = Some []"
    by (simp add: get_parents_def sample_reader_def new_ProjectDescriptor_def Let_def)
  ultimately obtain q where "read_merge_parents False (sample_reader ?text) = (Inr (), q)"
    "get_parents False q = Some ([] @ map written_part sample_parents)"
    "get_parents (\<not> False) q = get_parents (\<not> False) (sample_reader ?text)"
    by (rule exE [OF merge_parents_roundtrip [of sample_parents "''Merge-Parents''" "sample_reader ?text" False "[]"]]) blast+
  moreover have "map written_part sample_parents = sample_parents"
    by (simp add: sample_parents_def written_part_def new_MergeParentEntry_def)
  ultimately show ?thesis
    by (simp add: get_parents_def sample_reader_def new_ProjectDescriptor_def Let_def)
qed

end
