(* ===== verification/MergeHistory.thy ===== *)
theory MergeHistory
  imports MergeParents
begin

text \<open>
  The record of merges while a merge runs, \<open>src/src/projdesc.cc\<close>: \<open>merge_continuing\<close> opens the
  entry of the selected version and collects what earlier merges against it recorded,
  \<open>has_been_merged\<close> consults it, \<open>merge_notify\<close> extends it, \<open>merge_finish\<close> closes it, and
  \<open>verify_merge_parents\<close> and \<open>adjust_merge_parents\<close> check the entries against the repository
  and turn them over at a checkin.
\<close>

section \<open>State\<close>

text \<open>
  \<open>_merge_entry\<close> points into the array of the new merge parents: it is a position. The other
  fields are the constructor's null pointers and flags.
\<close>

record MergingProject = ProjectDescriptor +
  merge_entry :: "nat option"
  merge_selected_major :: string
  merge_selected_minor :: string
  merge_complete :: bool
  merge_incomplete :: bool

type_synonym 'a merging = "(MergingProject, 'a) cmd"

definition merging_project :: "ProjectDescriptor \<Rightarrow> MergingProject" where
  "merging_project p = ProjectDescriptor.extend p
     \<lparr>merge_entry = None, merge_selected_major = [], merge_selected_minor = [],
      merge_complete = False, merge_incomplete = False\<rparr>"

definition merge_notify_incomplete :: "unit merging" where
  "merge_notify_incomplete = cupd (\<lambda>p. p\<lparr>merge_incomplete := True\<rparr>)"

definition merge_notify_complete :: "unit merging" where
  "merge_notify_complete = cupd (\<lambda>p. p\<lparr>merge_complete := True\<rparr>)"

text \<open>
  The name of a file below the directory of the project: \<open>working_path() +
  cmd_root_project_path_len\<close>, which must not point behind the string.
\<close>

definition name_in_project :: "nat \<Rightarrow> FileEntry \<Rightarrow> string" where
  "name_in_project len fe = drop len (fe_working_path fe)"

definition path_defined :: "nat \<Rightarrow> FileEntry option \<Rightarrow> bool" where
  "path_defined len f = (case f of None \<Rightarrow> True | Some fe \<Rightarrow> len \<le> length (fe_working_path fe))"

section \<open>Recording a merged file\<close>

definition merge_notify ::
  "nat \<Rightarrow> FileEntry option \<Rightarrow> FileEntry option \<Rightarrow> FileEntry option \<Rightarrow> MergeAction \<Rightarrow> unit merging" where
  "merge_notify len working common selected ma =
     cthen (cdefined (path_defined len working \<and> path_defined len common \<and> path_defined len selected))
     (cbind (cget id) (\<lambda>p.
        let new_entry = \<lparr>mpf_working = map_option (name_in_project len) working,
                         mpf_common = map_option (name_in_project len) common,
                         mpf_selected = map_option (name_in_project len) selected, mpf_action = ma\<rparr>
        in (case (merge_entry p, new_merge_parents p) of
              (Some i, Some es) \<Rightarrow>
                cupd (\<lambda>p. p\<lparr>new_merge_parents :=
                  Some (es[i := (es ! i)\<lparr>all_files := all_files (es ! i) @ [new_entry]\<rparr>])\<rparr>)
            | _ \<Rightarrow> cthrow Undefined)))"

section \<open>Consulting the record\<close>

definition entry_table :: "nat \<Rightarrow> FileEntry option \<Rightarrow> MergeParentTable option \<Rightarrow> bool merging" where
  "entry_table len f t =
     (case f of
        None \<Rightarrow> creturn False
      | Some fe \<Rightarrow>
          (case t of
             None \<Rightarrow> cthrow Undefined
           | Some t \<Rightarrow> cthen (cdefined (path_defined len f))
               (creturn (ht_isdefined hash_string (=) t (name_in_project len fe)))))"

definition has_been_merged ::
  "nat \<Rightarrow> FileEntry option \<Rightarrow> FileEntry option \<Rightarrow> FileEntry option \<Rightarrow> bool merging" where
  "has_been_merged len working common selected =
     cbind (cget id) (\<lambda>p.
       case (merge_entry p, new_merge_parents p) of
         (Some i, Some es) \<Rightarrow>
           cbind (entry_table len working (working_table (es ! i))) (\<lambda>w.
             if w then creturn True
             else cbind (entry_table len common (common_table (es ! i))) (\<lambda>c.
               if c then creturn True
               else entry_table len selected (selected_table (es ! i))))
       | _ \<Rightarrow> cthrow Undefined)"

text \<open>The three tables, filled from the files of the entries of the same version.\<close>

definition insert_name :: "string option \<Rightarrow> MergeParentFile \<Rightarrow> MergeParentTable \<Rightarrow> MergeParentTable" where
  "insert_name n f t = (case n of None \<Rightarrow> t | Some name \<Rightarrow> ht_insert hash_string (=) t name f)"

fun insert_files ::
  "MergeParentFile list \<Rightarrow> MergeParentTable \<times> MergeParentTable \<times> MergeParentTable
     \<Rightarrow> MergeParentTable \<times> MergeParentTable \<times> MergeParentTable" where
  "insert_files [] ts = ts"
| "insert_files (f # fs) (w, c, sel) =
     insert_files fs (insert_name (mpf_working f) f w, insert_name (mpf_common f) f c,
       insert_name (mpf_selected f) f sel)"

fun insert_entries ::
  "string \<Rightarrow> MergeParentEntry list \<Rightarrow> bool \<Rightarrow> MergeParentTable \<times> MergeParentTable \<times> MergeParentTable
     \<Rightarrow> bool \<times> MergeParentTable \<times> MergeParentTable \<times> MergeParentTable" where
  "insert_entries v [] ret ts = (ret, ts)"
| "insert_entries v (e # es) ret ts =
     (if selected_version e \<noteq> v then insert_entries v es ret ts
      else insert_entries v es (ret \<or> all_files e \<noteq> []) (insert_files (all_files e) ts))"

definition sel_version_name :: "ProjectVersionData \<Rightarrow> string" where
  "sel_version_name d = prcs_major d @ [DOT] @ prcs_minor d"

definition merge_continuing :: "ProjectVersionData \<Rightarrow> bool merging" where
  "merge_continuing selected =
     cthen (cupd (\<lambda>p. p\<lparr>merge_selected_major := prcs_major selected, merge_selected_minor := prcs_minor selected,
              deleted_markers := deleted_markers p @ [MergeParentsMarker, NewMergeParentsMarker],
              append_merge_parents := True\<rparr>))
     (cbind (cget new_merge_parents) (\<lambda>a.
        case a of
          None \<Rightarrow> cthrow Undefined
        | Some es \<Rightarrow>
            let v = sel_version_name selected;
                e = new_MergeParentEntry v MergeStateIncomplete;
                (ret, w, c, sel) = insert_entries v (es @ [e]) False (ht_empty, ht_empty, ht_empty)
            in cthen (cupd (\<lambda>p. p\<lparr>merge_entry := Some (length es),
                        new_merge_parents := Some (es @ [e\<lparr>working_table := Some w, common_table := Some c,
                          selected_table := Some sel\<rparr>])\<rparr>))
               (creturn ret)))"

definition merge_finish :: "unit merging" where
  "merge_finish =
     cbind (cget id) (\<lambda>p.
       if \<not> merge_complete p \<or> merge_incomplete p then creturn ()
       else (case (merge_entry p, new_merge_parents p) of
               (Some i, Some es) \<Rightarrow>
                 cupd (\<lambda>p. p\<lparr>new_merge_parents := Some (es[i := (es ! i)\<lparr>mpe_state := MergeStateParent\<rparr>])\<rparr>)
             | _ \<Rightarrow> cthrow Undefined))"

section \<open>Entries and the repository\<close>

text \<open>\<open>arr\<close> is the array of the versions of the repository.\<close>

definition check_version_name :: "ProjectVersionData list \<Rightarrow> string \<Rightarrow> failure + ProjectVersionData" where
  "check_version_name arr name =
     (case major_version_of name of
        None \<Rightarrow> Inl (Err NonFatalError)
      | Some major \<Rightarrow>
          (case minor_version_of name of
             None \<Rightarrow> Inl Undefined
           | Some minor \<Rightarrow>
               if \<not> VC_check_token_match major LabelClass \<or> \<not> VC_check_token_match minor NumberClass
               then Inl (Err NonFatalError)
               else (case lookup_version arr major minor of
                       None \<Rightarrow> Inl (Err NonFatalError)
                     | Some d \<Rightarrow> Inr d)))"

fun verify_entries :: "ProjectVersionData list \<Rightarrow> MergeParentEntry list \<Rightarrow> failure + MergeParentEntry list" where
  "verify_entries arr [] = Inr []"
| "verify_entries arr (e # es) =
     (case check_version_name arr (selected_version e) of
        Inl f \<Rightarrow> Inl f
      | Inr d \<Rightarrow> map_sum id (\<lambda>es'. e\<lparr>project_data := Some d\<rparr> # es') (verify_entries arr es))"

text \<open>A failure leaves the entries before it with their data; the caller gives the project up.\<close>

definition verify_merge_parents :: "ProjectVersionData list \<Rightarrow> unit merging" where
  "verify_merge_parents arr =
     cbind (cget id) (\<lambda>p.
       case (merge_parents p, new_merge_parents p) of
         (Some a, Some b) \<Rightarrow>
           (case verify_entries arr a of
              Inl f \<Rightarrow> cthrow f
            | Inr a' \<Rightarrow>
                cthen (cupd (\<lambda>p. p\<lparr>merge_parents := Some a'\<rparr>))
                  (case verify_entries arr b of
                     Inl f \<Rightarrow> cthrow f
                   | Inr b' \<Rightarrow> cupd (\<lambda>p. p\<lparr>new_merge_parents := Some b'\<rparr>)))
       | _ \<Rightarrow> cthrow Undefined)"

definition adjust_merge_parents :: "ProjectVersionData list \<Rightarrow> unit merging" where
  "adjust_merge_parents arr =
     cthen (cupd (\<lambda>p. p\<lparr>deleted_markers := deleted_markers p @ [MergeParentsMarker, NewMergeParentsMarker],
              append_merge_parents := True\<rparr>))
     (cthen (verify_merge_parents arr)
       (cupd (\<lambda>p. p\<lparr>merge_parents := new_merge_parents p, new_merge_parents := None\<rparr>)))"

section \<open>What the tables hold\<close>

abbreviation name_defined :: "MergeParentTable \<Rightarrow> string \<Rightarrow> bool" where
  "name_defined t n \<equiv> ht_isdefined hash_string (=) t n"

abbreviation names_inv :: "MergeParentTable \<Rightarrow> bool" where
  "names_inv \<equiv> ht_inv hash_string (=)"

lemma insert_name_ok:
  "names_inv t \<Longrightarrow> names_inv (insert_name n f t) \<and> (name_defined (insert_name n f t) x \<longleftrightarrow> n = Some x \<or> name_defined t x)"
  by (cases n) (auto simp: insert_name_def ht_isdefined_def str.ht.lookup_insert str.ht.invar_insert)

definition tables_hold ::
  "MergeParentFile list \<Rightarrow> MergeParentTable \<times> MergeParentTable \<times> MergeParentTable \<Rightarrow> bool" where
  "tables_hold fs ts \<longleftrightarrow>
     (case ts of (w, c, sel) \<Rightarrow>
        names_inv w \<and> names_inv c \<and> names_inv sel \<and>
        (\<forall>x. name_defined w x \<longleftrightarrow> (\<exists>f \<in> set fs. mpf_working f = Some x)) \<and>
        (\<forall>x. name_defined c x \<longleftrightarrow> (\<exists>f \<in> set fs. mpf_common f = Some x)) \<and>
        (\<forall>x. name_defined sel x \<longleftrightarrow> (\<exists>f \<in> set fs. mpf_selected f = Some x)))"

lemma tables_hold_empty: "tables_hold [] (ht_empty, ht_empty, ht_empty)"
  by (simp add: tables_hold_def ht_isdefined_def str.ht.lookup_empty str.ht.invar_empty)

lemma insert_files_hold: "tables_hold gs ts \<Longrightarrow> tables_hold (gs @ fs) (insert_files fs ts)"
proof (induction fs ts arbitrary: gs rule: insert_files.induct)
  case (2 f fs w c sel)
  have "tables_hold (gs @ [f]) (insert_name (mpf_working f) f w, insert_name (mpf_common f) f c,
      insert_name (mpf_selected f) f sel)"
    using 2(2) by (auto simp: tables_hold_def insert_name_ok)
  from 2(1) [OF this] show ?case by simp
qed simp

definition version_files :: "string \<Rightarrow> MergeParentEntry list \<Rightarrow> MergeParentFile list" where
  "version_files v es = concat (map all_files (filter (\<lambda>e. selected_version e = v) es))"

lemma insert_entries_hold:
  "tables_hold gs ts \<Longrightarrow> insert_entries v es ret ts = (r, ts') \<Longrightarrow>
   tables_hold (gs @ version_files v es) ts' \<and> (r \<longleftrightarrow> ret \<or> version_files v es \<noteq> [])"
proof (induction es arbitrary: gs ret ts)
  case Nil
  then show ?case by (simp add: version_files_def)
next
  case (Cons e es)
  show ?case
  proof (cases "selected_version e = v")
    case True
    then have r: "insert_entries v es (ret \<or> all_files e \<noteq> []) (insert_files (all_files e) ts) = (r, ts')"
      using Cons.prems(2) by simp
    from Cons.IH [OF insert_files_hold [OF Cons.prems(1), of "all_files e"] r] show ?thesis
      using True by (auto simp: version_files_def)
  next
    case False
    then show ?thesis using Cons.IH [OF Cons.prems(1)] Cons.prems(2) by (simp add: version_files_def)
  qed
qed

text \<open>The project while it merges against \<open>v\<close>, with the entries \<open>es\<close> from before.\<close>

definition merging_against :: "string \<Rightarrow> MergeParentFile list \<Rightarrow> MergingProject \<Rightarrow> bool" where
  "merging_against v fs p \<longleftrightarrow>
     (\<exists>i es w c sel. merge_entry p = Some i \<and> new_merge_parents p = Some es \<and> i < length es \<and>
        selected_version (es ! i) = v \<and> working_table (es ! i) = Some w \<and> common_table (es ! i) = Some c \<and>
        selected_table (es ! i) = Some sel \<and> tables_hold fs (w, c, sel))"

lemma merge_continuing_ok:
  assumes "new_merge_parents p = Some es"
  shows "\<exists>p'. merge_continuing d p = (Inr (version_files (sel_version_name d) es \<noteq> []), p') \<and>
    merging_against (sel_version_name d) (version_files (sel_version_name d) es) p' \<and>
    merge_parents p' = merge_parents p \<and> segment p' = segment p \<and> file_entries p' = file_entries p \<and>
    (\<exists>e. new_merge_parents p' = Some (es @ [e]) \<and> all_files e = [] \<and> mpe_state e = MergeStateIncomplete \<and>
      selected_version e = sel_version_name d \<and> merge_entry p' = Some (length es))"
proof -
  let ?v = "sel_version_name d"
  let ?e = "new_MergeParentEntry ?v MergeStateIncomplete"
  obtain r w c sel where ins: "insert_entries ?v (es @ [?e]) False (ht_empty, ht_empty, ht_empty) = (r, w, c, sel)"
    by (metis prod_cases4)
  have vf: "version_files ?v (es @ [?e]) = version_files ?v es"
    by (simp add: version_files_def new_MergeParentEntry_def)
  have hold: "tables_hold (version_files ?v es) (w, c, sel)" and r: "r \<longleftrightarrow> version_files ?v es \<noteq> []"
    using insert_entries_hold [OF tables_hold_empty ins] by (simp_all add: vf)
  let ?p = "p\<lparr>merge_selected_major := prcs_major d, merge_selected_minor := prcs_minor d,
      deleted_markers := deleted_markers p @ [MergeParentsMarker, NewMergeParentsMarker],
      append_merge_parents := True, merge_entry := Some (length es),
      new_merge_parents := Some (es @ [?e\<lparr>working_table := Some w, common_table := Some c, selected_table := Some sel\<rparr>])\<rparr>"
  have "merge_continuing d p = (Inr r, ?p)"
    using assms ins by (simp add: merge_continuing_def cmd_simps)
  moreover have "merging_against ?v (version_files ?v es) ?p"
    using hold by (simp add: merging_against_def new_MergeParentEntry_def)
  ultimately show ?thesis using r by (simp add: new_MergeParentEntry_def)
qed

section \<open>What counts as merged\<close>

text \<open>The specification: some name of the triple was recorded in its own column.\<close>

definition recorded :: "MergeParentFile list \<Rightarrow> string option \<Rightarrow> string option \<Rightarrow> string option \<Rightarrow> bool" where
  "recorded fs w c sel \<longleftrightarrow>
     (\<exists>f \<in> set fs. w \<noteq> None \<and> mpf_working f = w \<or> c \<noteq> None \<and> mpf_common f = c \<or> sel \<noteq> None \<and> mpf_selected f = sel)"

lemma has_been_merged_eq:
  assumes "merging_against v fs p"
    and "path_defined len w" and "path_defined len c" and "path_defined len sel"
  shows "has_been_merged len w c sel p =
    (Inr (recorded fs (map_option (name_in_project len) w) (map_option (name_in_project len) c)
      (map_option (name_in_project len) sel)), p)"
proof -
  obtain i es tw tc ts where p: "merge_entry p = Some i" "new_merge_parents p = Some es"
    "working_table (es ! i) = Some tw" "common_table (es ! i) = Some tc" "selected_table (es ! i) = Some ts"
    and hold: "tables_hold fs (tw, tc, ts)"
    using assms(1) by (auto simp: merging_against_def)
  have et: "entry_table len f (Some t) p = (Inr (f \<noteq> None \<and> name_defined t (name_in_project len (the f))), p)"
    if "path_defined len f" for f t
    using that by (cases f) (simp_all add: entry_table_def cmd_simps)
  show ?thesis
    using hold assms(2-4)
    by (cases w; cases c; cases sel) (auto simp: has_been_merged_def cmd_simps p et tables_hold_def recorded_def)
qed

text \<open>
  C25. A file of a merge counts as merged before exactly when an entry of the same version
  records one of its names in the column of its version: after \<open>merge_continuing\<close>, the answer of
  \<open>has_been_merged\<close> is the specification \<open>recorded\<close> over all files of the earlier entries, and
  \<open>merge_continuing\<close> itself answers whether there are any.
\<close>
theorem has_been_merged_iff:
  assumes "new_merge_parents p = Some es" and "merge_continuing d p = (r, p')"
    and "path_defined len w" and "path_defined len c" and "path_defined len sel"
  shows "r = Inr (version_files (sel_version_name d) es \<noteq> []) \<and>
    has_been_merged len w c sel p' =
      (Inr (recorded (version_files (sel_version_name d) es) (map_option (name_in_project len) w)
         (map_option (name_in_project len) c) (map_option (name_in_project len) sel)), p')"
  using merge_continuing_ok [OF assms(1), of d] assms(2) has_been_merged_eq [OF _ assms(3-5)] by auto

section \<open>A merged file is remembered\<close>

lemma merge_notify_ok:
  assumes "merge_notify len w c sel ma p = (Inr (), p')"
  shows "\<exists>i es f. merge_entry p = Some i \<and> new_merge_parents p = Some es \<and>
    f = \<lparr>mpf_working = map_option (name_in_project len) w, mpf_common = map_option (name_in_project len) c,
         mpf_selected = map_option (name_in_project len) sel, mpf_action = ma\<rparr> \<and>
    p' = p\<lparr>new_merge_parents := Some (es[i := (es ! i)\<lparr>all_files := all_files (es ! i) @ [f]\<rparr>])\<rparr> \<and>
    path_defined len w \<and> path_defined len c \<and> path_defined len sel"
  using assms by (auto simp: merge_notify_def cmd_simps split: option.splits if_splits)

lemma merge_notify_keeps:
  assumes "merge_notify len w c sel ma p = (Inr (), p')" and "merging_against v fs p"
  shows "merging_against v fs p'"
  using merge_notify_ok [OF assms(1)] assms(2) by (auto simp: merging_against_def nth_list_update)

lemma version_files_written: "version_files v (map written_part es) = version_files v es"
  by (induction es) (simp_all add: version_files_def written_part_def new_MergeParentEntry_def)

lemma version_files_update:
  assumes "i < length es" and "selected_version (es ! i) = v" and "f \<in> set (all_files (es ! i)) \<or> f = g"
  shows "f \<in> set (version_files v (es[i := (es ! i)\<lparr>all_files := all_files (es ! i) @ [g]\<rparr>]))"
proof -
  let ?e = "(es ! i)\<lparr>all_files := all_files (es ! i) @ [g]\<rparr>"
  have "?e \<in> set (es[i := ?e])" using assms(1) by (simp add: set_update_memI)
  then show ?thesis using assms(2,3) by (auto simp: version_files_def intro!: bexI [of _ ?e])
qed

text \<open>
  C23. No file is offered twice: a triple that a merge against a version has recorded with
  \<open>merge_notify\<close> counts as merged in every later session. The first session (\<open>p\<close>, merging
  against \<open>d\<close>) records the triple and writes the entries; the second reads them back (\<open>q\<close>) and
  continues against the same version.
\<close>
theorem merged_is_remembered:
  assumes "merging_against (sel_version_name d) fs p"
    and "merge_notify len w c sel ma p = (Inr (), p1)"
    and "new_merge_parents p1 = Some es" and "list_all good_entry es"
    and "at_input (drop (1 + length name) (write_merge_parents name (Some es))) q"
    and "new_merge_parents q = Some []"
    and "read_merge_parents True q = (Inr (), q1)"
    and "merge_continuing d (merging_project q1) = (r, q2)"
    and "w \<noteq> None \<or> c \<noteq> None \<or> sel \<noteq> None"
  shows "r = Inr True \<and> has_been_merged len w c sel q2 = (Inr True, q2)"
proof -
  let ?v = "sel_version_name d"
  obtain i es0 f where n: "merge_entry p = Some i" "new_merge_parents p = Some es0"
    "f = \<lparr>mpf_working = map_option (name_in_project len) w, mpf_common = map_option (name_in_project len) c,
         mpf_selected = map_option (name_in_project len) sel, mpf_action = ma\<rparr>"
    "p1 = p\<lparr>new_merge_parents := Some (es0[i := (es0 ! i)\<lparr>all_files := all_files (es0 ! i) @ [f]\<rparr>])\<rparr>"
    "path_defined len w" "path_defined len c" "path_defined len sel"
    using merge_notify_ok [OF assms(2)] by blast
  have i: "i < length es0" "selected_version (es0 ! i) = ?v"
    using assms(1) n(1,2) by (auto simp: merging_against_def)
  have es: "es = es0[i := (es0 ! i)\<lparr>all_files := all_files (es0 ! i) @ [f]\<rparr>]"
    using assms(3) n(4) by simp
  have f: "f \<in> set (version_files ?v es)" using version_files_update [OF i, of f f] by (simp add: es)
  have "get_parents True q = Some []" using assms(6) by (simp add: get_parents_def)
  from merge_parents_read_back [OF assms(4,5) this] assms(7)
  have q1: "new_merge_parents (merging_project q1) = Some (map written_part es)"
    by (auto simp: get_parents_def merging_project_def ProjectDescriptor.extend_def)
  have "recorded (version_files ?v es) (map_option (name_in_project len) w)
      (map_option (name_in_project len) c) (map_option (name_in_project len) sel)"
    unfolding recorded_def by (rule bexI [OF _ f]) (use assms(9) in \<open>auto simp: n(3)\<close>)
  moreover have "version_files ?v es \<noteq> []" using f by auto
  ultimately show ?thesis
    using merge_continuing_ok [OF q1, of d] assms(8) has_been_merged_eq [OF _ n(5-7)]
    by (auto simp: version_files_written)
qed

text \<open>A merge against version 3 of the branch \<open>main\<close>, in a project read afresh.\<close>

definition sample_version :: ProjectVersionData where
  "sample_version = \<lparr>prcs_major = ''main'', prcs_minor = ''3'', version_index = 0,
     parents = [], deleted = False, rcs_version = ''1.1''\<rparr>"

definition sample_file :: "string \<Rightarrow> FileEntry" where
  "sample_file n = \<lparr>fe_working_path = n, fe_ent_marker = \<lparr>marker_start = 0, marker_stop = 0\<rparr>,
     fe_attrs = new_PrcsAttrs \<lparr>env_merge = None, env_diff = None\<rparr> [] 0, fe_version = None,
     fe_descriptor = None, fe_link = None, fe_mode = 420, fe_present = True, fe_on_command_line = True,
     fe_unmodified = False\<rparr>"

definition sample_project :: "MergeParentEntry list \<Rightarrow> MergingProject" where
  "sample_project es = (merging_project (new_ProjectDescriptor \<lparr>env_merge = None, env_diff = None\<rparr> ''p'' True))
     \<lparr>new_merge_parents := Some es\<rparr>"

theorem has_been_merged_iff_witness:
  "case merge_continuing sample_version (sample_project sample_parents) of (r, p') \<Rightarrow>
     r = Inr True \<and>
     has_been_merged 0 None (Some (sample_file ''a b'')) None p' = (Inr True, p') \<and>
     has_been_merged 0 None (Some (sample_file ''c'')) None p' = (Inr False, p')"
proof -
  obtain r p' where m: "merge_continuing sample_version (sample_project sample_parents) = (r, p')"
    by (cases "merge_continuing sample_version (sample_project sample_parents)")
  have es: "new_merge_parents (sample_project sample_parents) = Some sample_parents" by (simp add: sample_project_def)
  have v: "version_files (sel_version_name sample_version) sample_parents = all_files (hd sample_parents)"
    by (simp add: version_files_def sel_version_name_def sample_version_def sample_parents_def new_MergeParentEntry_def)
  have d: "path_defined 0 f" for f by (cases f) (simp_all add: path_defined_def)
  show ?thesis
    using has_been_merged_iff [OF es m d d d, of None "Some (sample_file ''a b'')" None]
      has_been_merged_iff [OF es m d d d, of None "Some (sample_file ''c'')" None]
    unfolding m v by (simp add: recorded_def sample_parents_def name_in_project_def sample_file_def)
qed

theorem merged_is_remembered_witness:
  "\<exists>p1 text q1 q2.
     merge_notify 2 None None (Some (sample_file ''d/new'')) Nothing
       (snd (merge_continuing sample_version (sample_project []))) = (Inr (), p1) \<and>
     text = drop 18 (write_merge_parents ''New-Merge-Parents'' (new_merge_parents p1)) \<and>
     read_merge_parents True (sample_reader text) = (Inr (), q1) \<and>
     merge_continuing sample_version (merging_project q1) = (Inr True, q2) \<and>
     has_been_merged 2 None None (Some (sample_file ''d/new'')) q2 = (Inr True, q2)"
proof -
  let ?v = "sel_version_name sample_version"
  have es0: "new_merge_parents (sample_project []) = Some []" by (simp add: sample_project_def)
  obtain p e where p: "snd (merge_continuing sample_version (sample_project [])) = p"
    "merging_against ?v (version_files ?v []) p" "new_merge_parents p = Some [e]" "all_files e = []"
    "selected_version e = ?v" "merge_entry p = Some 0"
    using merge_continuing_ok [OF es0, of sample_version] by auto
  let ?f = "\<lparr>mpf_working = None, mpf_common = None, mpf_selected = Some ''new'', mpf_action = Nothing\<rparr>"
  let ?es = "[e\<lparr>all_files := [?f]\<rparr>]"
  let ?p1 = "p\<lparr>new_merge_parents := Some ?es\<rparr>"
  have n: "merge_notify 2 None None (Some (sample_file ''d/new'')) Nothing p = (Inr (), ?p1)"
    by (simp add: merge_notify_def cmd_simps path_defined_def p sample_file_def name_in_project_def)
  have good: "list_all good_entry ?es"
    by (simp add: good_entry_def p(5) sel_version_name_def sample_version_def plain_name_def good_name_def
        path_special_def good_file_def good_opt_def)
  let ?text = "drop (1 + length ''New-Merge-Parents'') (write_merge_parents ''New-Merge-Parents'' (Some ?es))"
  have at: "at_input ?text (sample_reader ?text)"
    by (simp only: at_input_def sample_reader_def lexer_at_def new_ProjectDescriptor_def Let_def) simp
  have q0: "new_merge_parents (sample_reader ?text) = Some []"
    by (simp only: sample_reader_def new_ProjectDescriptor_def Let_def) simp
  obtain q1 where q1: "read_merge_parents True (sample_reader ?text) = (Inr (), q1)"
    using merge_parents_read_back [OF good at, of True "[]"] q0 by (auto simp: get_parents_def)
  obtain r q2 where q2: "merge_continuing sample_version (merging_project q1) = (r, q2)"
    by (cases "merge_continuing sample_version (merging_project q1)")
  have len: "1 + length ''New-Merge-Parents'' = 18" by simp
  from merged_is_remembered [OF p(2) n _ good at q0 q1 q2]
  have "r = Inr True \<and> has_been_merged 2 None None (Some (sample_file ''d/new'')) q2 = (Inr True, q2)" by simp
  then show ?thesis using n q1 q2 p(1) unfolding len by (intro exI [of _ ?p1] exI) auto
qed

end
