(* ===== verification/SetKeys.thy ===== *)
theory SetKeys
  imports Versions Containers Effects "HOL-Library.Sublist"
begin

text \<open>
  Setting and unsetting the keywords of a file, \<open>src/src/setkeys.cc\<close>. A pointer into the input
  is the rest of the text from there. The keywords are the pairs of the table
  \<open>_project_keywords\<close>; \<open>keywords_replacing\<close> is the list of the keywords that are being
  replaced, which the code keeps in a table, inserting before and removing after each.
  The functions that only look for phrases return the segments that the code passes to
  \<open>output_text_segment\<close> one after the other. The input is followed by a byte that is neither a
  space nor a quote (the rest of its page is zero), which the code reads at the end.
\<close>

section \<open>Keyword phrases\<close>

type_synonym Keywords = "(string \<times> string) list"

abbreviation DOLLAR :: char where "DOLLAR \<equiv> CHR ''$''"
abbreviation COLON :: char where "COLON \<equiv> CHR '':''"

definition cstring :: "string \<Rightarrow> string" where
  "cstring s = takeWhile (\<lambda>c. c \<noteq> NUL) s"

definition key_text :: "string \<Rightarrow> string" where
  "key_text s = takeWhile (\<lambda>c. c \<noteq> DOLLAR \<and> c \<noteq> COLON) s"

text \<open>\<open>lookup_pair\<close> on the text of the key, which counts as a C string.\<close>

definition find_keyword :: "Keywords \<Rightarrow> string \<Rightarrow> (string \<times> string) option" where
  "find_keyword keywords s = find (\<lambda>p. fst p = cstring (key_text s)) keywords"

text \<open>The rest of the text behind the dollar that ends a phrase on the same line.\<close>

definition end_phrase :: "string \<Rightarrow> string option" where
  "end_phrase inp =
     (case strchr inp DOLLAR of
        None \<Rightarrow> None
      | Some r \<Rightarrow> if NEWLINE \<in> set (take (length inp - length r) inp) then None else Some (tl r))"

lemma end_phrase_shorter: "end_phrase inp = Some r \<Longrightarrow> length r < length inp"
  by (auto simp: end_phrase_def strchr_Some split: option.splits if_splits)

lemma find_keyword_key: "find_keyword kws s = Some (k, v) \<Longrightarrow> k \<in> fst ` set kws"
proof -
  assume "find_keyword kws s = Some (k, v)"
  then obtain i where "i < length kws" "(k, v) = kws ! i" by (auto simp: find_keyword_def find_Some_iff)
  then have "(k, v) \<in> set kws" by simp
  then show ?thesis by force
qed

lemma fewer_keywords:
  assumes "find_keyword kws s = Some (k, v)" and "k \<notin> set replacing"
  shows "card (fst ` set kws - insert k (set replacing)) < card (fst ` set kws - set replacing)"
  by (rule psubset_card_mono) (use find_keyword_key [OF assms(1)] assms(2) in auto)

section \<open>The value of a keyword\<close>

text \<open>
  \<open>output_simple_key_replaced\<close> with the call of \<open>process_normal_key\<close> for a nested keyword
  written out (see \<open>output_simple_nested\<close>); \<open>after\<close> is the character behind the format.
\<close>

function output_simple_key_replaced ::
  "Keywords \<Rightarrow> string list \<Rightarrow> bool \<Rightarrow> char \<Rightarrow> string \<Rightarrow> string list" where
  "output_simple_key_replaced kws replacing no_dollars after [] = []"
| "output_simple_key_replaced kws replacing no_dollars after (c # cs) =
     (if c = BACKSLASH then
        (if cs = [] then [[after]]
         else [if hd cs = CHR ''t'' then CHR 0x09 else hd cs] #
           output_simple_key_replaced kws replacing no_dollars after (tl cs))
      else if c = DOLLAR then
        (case (end_phrase cs, find_keyword kws cs) of
           (Some rest, Some (k, v)) \<Rightarrow>
             if k \<in> set replacing then
               (if no_dollars then ''|'' else [c]) # output_simple_key_replaced kws replacing no_dollars after cs
             else output_simple_key_replaced kws (k # replacing) no_dollars NUL v @
               output_simple_key_replaced kws replacing no_dollars after rest
         | _ \<Rightarrow> (if no_dollars then ''|'' else [c]) # output_simple_key_replaced kws replacing no_dollars after cs)
      else [c] # output_simple_key_replaced kws replacing no_dollars after cs)"
  by pat_completeness auto
termination
  by (relation "measures [\<lambda>(kws, replacing, n, a, s). card (fst ` set kws - set replacing),
      \<lambda>(kws, replacing, n, a, s). length s]")
    (auto dest!: fewer_keywords [OF sym] end_phrase_shorter [OF sym] intro: less_SucI)

section \<open>The two kinds of phrases\<close>

definition process_normal_key ::
  "Keywords \<Rightarrow> string list \<Rightarrow> bool \<Rightarrow> bool \<Rightarrow> bool \<Rightarrow> string \<Rightarrow> (string list \<times> string) option" where
  "process_normal_key kws replacing deletekeys simple no_dollars inp =
     (case end_phrase inp of
        None \<Rightarrow> None
      | Some rest \<Rightarrow>
          (case find_keyword kws inp of
             None \<Rightarrow> None
           | Some (current_key, replace) \<Rightarrow>
               if deletekeys then Some ([key_text inp, [DOLLAR]], rest)
               else if current_key \<in> set replacing then None
               else Some ((if simple then [] else [key_text inp, '': '']) @
                      output_simple_key_replaced kws (current_key # replacing) no_dollars NUL replace @
                      (if simple then [] else ['' $'']), rest)))"

text \<open>The nested call is the code's.\<close>

lemma output_simple_nested:
  "output_simple_key_replaced kws replacing no_dollars after (DOLLAR # cs) =
     (case process_normal_key kws replacing False True no_dollars cs of
        None \<Rightarrow> (if no_dollars then ''|'' else [DOLLAR]) # output_simple_key_replaced kws replacing no_dollars after cs
      | Some (segs, rest) \<Rightarrow> segs @ output_simple_key_replaced kws replacing no_dollars after rest)"
  by (simp add: process_normal_key_def split: option.split prod.split)

text \<open>The closing quote of a format string, over escaped characters.\<close>

fun quote_end :: "string \<Rightarrow> string option" where
  "quote_end [] = None"
| "quote_end (c # cs) =
     (if c = NEWLINE then None
      else if c = DQUOTE then Some (c # cs)
      else if c = BACKSLASH \<and> cs \<noteq> [] then quote_end (tl cs)
      else quote_end cs)"

text \<open>After the quote a dollar must follow on the same line; the rest from the end of the line.\<close>

definition line_end :: "string \<Rightarrow> string option" where
  "line_end s =
     (case dropWhile (\<lambda>c. c \<noteq> DOLLAR \<and> c \<noteq> NEWLINE) s of
        [] \<Rightarrow> None
      | d # r \<Rightarrow>
          if d \<noteq> DOLLAR then None
          else (case dropWhile (\<lambda>c. c \<noteq> NEWLINE) r of [] \<Rightarrow> None | e # es \<Rightarrow> Some (e # es)))"

text \<open>The format string and the rest from the end of its line.\<close>

definition format_line :: "string \<Rightarrow> (string \<times> string) option" where
  "format_line inp0 =
     (case dropWhile isspace (drop 7 inp0) of
        [] \<Rightarrow> None
      | q # fmt \<Rightarrow>
          if q \<noteq> DQUOTE then None
          else (case quote_end fmt of
                  None \<Rightarrow> None
                | Some e \<Rightarrow> map_option (\<lambda>l. (take (length fmt - length e) fmt, l)) (line_end (tl e))))"

definition process_format :: "Keywords \<Rightarrow> bool \<Rightarrow> string \<Rightarrow> (string list \<times> string) option" where
  "process_format kws deletekeys inp0 =
     (case format_line inp0 of
        None \<Rightarrow> None
      | Some (format, end_format_line) \<Rightarrow>
          Some (take (length inp0 - length end_format_line + 1) inp0 #
              (if deletekeys then [] else output_simple_key_replaced kws [] False DQUOTE format),
            dropWhile (\<lambda>c. c \<noteq> NEWLINE) (tl end_format_line)))"

definition next_phrase :: "Keywords \<Rightarrow> bool \<Rightarrow> string \<Rightarrow> (string list \<times> string) option" where
  "next_phrase kws deletekeys inp =
     (if take 7 inp = ''Format:'' then process_format kws deletekeys inp
      else process_normal_key kws [] deletekeys False True inp)"

lemma length_dropWhile_tl: "dropWhile P xs = y # ys \<Longrightarrow> length ys < length xs"
  by (metis length_dropWhile_le length_Cons Suc_le_eq)

lemma length_drop_tl: "length (dropWhile P (tl xs)) \<le> length xs"
  by (rule le_trans [OF length_dropWhile_le]) simp

lemma quote_end_le: "quote_end s = Some r \<Longrightarrow> length r \<le> length s"
proof (induction s arbitrary: r rule: quote_end.induct)
  case (2 c cs)
  then show ?case by (cases cs) (auto split: if_splits intro: le_SucI)
qed simp

lemma line_end_le: "line_end s = Some e \<Longrightarrow> length e \<le> length s \<and> e \<noteq> []"
proof -
  assume h: "line_end s = Some e"
  obtain d r where d: "dropWhile (\<lambda>c. c \<noteq> DOLLAR \<and> c \<noteq> NEWLINE) s = d # r"
    using h by (cases "dropWhile (\<lambda>c. c \<noteq> DOLLAR \<and> c \<noteq> NEWLINE) s") (simp_all add: line_end_def del: dropWhile_eq_Nil_conv)
  have e: "e = dropWhile (\<lambda>c. c \<noteq> NEWLINE) r \<and> e \<noteq> []"
    using h by (auto simp: line_end_def d split: if_splits list.splits)
  have "length e \<le> length r" using e length_dropWhile_le by blast
  then show ?thesis using length_dropWhile_tl [OF d] e by linarith
qed

lemma format_line_less: "format_line inp = Some (f, e) \<Longrightarrow> length e < length inp \<and> e \<noteq> []"
proof -
  assume h: "format_line inp = Some (f, e)"
  obtain q fmt where f: "dropWhile isspace (drop 7 inp) = q # fmt"
    using h by (cases "dropWhile isspace (drop 7 inp)") (simp_all add: format_line_def del: dropWhile_eq_Nil_conv)
  obtain x where x: "quote_end fmt = Some x" "line_end (tl x) = Some e"
    using h by (auto simp: format_line_def f split: if_splits option.splits)
  have "length e \<le> length x" "e \<noteq> []" using line_end_le [OF x(2)] by auto
  then show ?thesis using quote_end_le [OF x(1)] length_dropWhile_tl [OF f] by simp
qed

lemma process_format_shorter: "process_format kws d inp = Some (segs, rest) \<Longrightarrow> length rest < length inp"
proof -
  assume "process_format kws d inp = Some (segs, rest)"
  then obtain f e where "format_line inp = Some (f, e)" "rest = dropWhile (\<lambda>c. c \<noteq> NEWLINE) (tl e)"
    by (auto simp: process_format_def split: option.splits prod.splits)
  then show ?thesis using format_line_less le_less_trans [OF length_drop_tl] by blast
qed

lemma next_phrase_shorter: "next_phrase kws d inp = Some (segs, rest) \<Longrightarrow> length rest < length inp"
  by (auto simp: next_phrase_def process_normal_key_def split: if_splits option.splits
    dest: process_format_shorter end_phrase_shorter)

section \<open>Output\<close>

text \<open>
  As long as the output repeats the input it is only counted, in \<open>unchanged_len\<close>, and written
  at the first difference. \<open>sink\<close> says whether there is a file or a segment to write to, and
  \<open>bad\<close> whether the stream has failed after it was given a text.
\<close>

record KeyOutput =
  written :: string
  unchanged_segment :: nat
  unchanged_len :: nat
  output_changed :: bool

type_synonym 'a keys = "(KeyOutput, 'a) cmd"

definition checked_write :: "bool \<Rightarrow> (string \<Rightarrow> bool) \<Rightarrow> string \<Rightarrow> unit keys" where
  "checked_write sink bad s =
     (if sink then
        cthen (cupd (\<lambda>o'. o'\<lparr>written := written o' @ s\<rparr>))
        (cbind (cget written) (\<lambda>w. if bad w then cthrow (Err NonFatalError) else creturn ()))
      else creturn ())"

definition flush_unchanged :: "bool \<Rightarrow> (string \<Rightarrow> bool) \<Rightarrow> string \<Rightarrow> unit keys" where
  "flush_unchanged sink bad input =
     cbind (cget id) (\<lambda>o'.
       if 0 < unchanged_len o' then
         cthen (checked_write sink bad (take (unchanged_len o') (drop (unchanged_segment o') input)))
         (cupd (\<lambda>o'. o'\<lparr>unchanged_segment := unchanged_segment o' + unchanged_len o', unchanged_len := 0\<rparr>))
       else creturn ())"

text \<open>A null pointer only flushes.\<close>

definition output_text_segment :: "bool \<Rightarrow> (string \<Rightarrow> bool) \<Rightarrow> string \<Rightarrow> string option \<Rightarrow> unit keys" where
  "output_text_segment sink bad input s' =
     (case s' of
        None \<Rightarrow> flush_unchanged sink bad input
      | Some s \<Rightarrow>
          if s = [] then creturn ()
          else cbind (cget id) (\<lambda>o'.
            if take (length s) (drop (unchanged_segment o' + unchanged_len o') input) = s then
              cupd (\<lambda>o'. o'\<lparr>unchanged_len := unchanged_len o' + length s\<rparr>)
            else
              cthen (cupd (\<lambda>o'. o'\<lparr>output_changed := True\<rparr>))
              (cthen (flush_unchanged sink bad input) (checked_write sink bad s))))"

section \<open>Converting a text\<close>

function convert_loop ::
  "bool \<Rightarrow> (string \<Rightarrow> bool) \<Rightarrow> Keywords \<Rightarrow> bool \<Rightarrow> string \<Rightarrow> string \<Rightarrow> unit keys" where
  "convert_loop sink bad kws deletekeys input inp =
     cbind (cget output_changed) (\<lambda>changed.
       if changed \<and> \<not> sink then creturn ()
       else (case strchr inp DOLLAR of
               None \<Rightarrow>
                 cthen (output_text_segment sink bad input (Some inp)) (output_text_segment sink bad input None)
             | Some r \<Rightarrow>
                 cthen (output_text_segment sink bad input (Some (take (length inp - length r + 1) inp)))
                   (case next_phrase kws deletekeys (tl r) of
                      None \<Rightarrow> convert_loop sink bad kws deletekeys input (tl r)
                    | Some (segs, rest) \<Rightarrow>
                        cthen (cforeach segs (\<lambda>s. output_text_segment sink bad input (Some s)))
                          (convert_loop sink bad kws deletekeys input rest))))"
  by pat_completeness auto
termination
  by (relation "measure (\<lambda>(sink, bad, kws, d, input, inp). length inp)")
    (auto simp: strchr_Some dest!: next_phrase_shorter)

declare convert_loop.simps [simp del]

definition convert :: "bool \<Rightarrow> (string \<Rightarrow> bool) \<Rightarrow> Keywords \<Rightarrow> bool \<Rightarrow> string \<Rightarrow> unit keys" where
  "convert sink bad kws deletekeys input =
     cthen (cupd (\<lambda>o'. o'\<lparr>output_changed := False, unchanged_len := 0, unchanged_segment := 0\<rparr>))
       (convert_loop sink bad kws deletekeys input input)"

text \<open>The result of \<open>setkeys_internal\<close>, and all that was written.\<close>

definition setkeys_internal ::
  "bool \<Rightarrow> (string \<Rightarrow> bool) \<Rightarrow> Keywords \<Rightarrow> bool \<Rightarrow> string \<Rightarrow> failure + bool \<times> string" where
  "setkeys_internal sink bad kws deletekeys input =
     (case convert sink bad kws deletekeys input
             \<lparr>written = [], unchanged_segment = 0, unchanged_len = 0, output_changed = False\<rparr> of
        (Inl f, _) \<Rightarrow> Inl f
      | (Inr _, o') \<Rightarrow> Inr (output_changed o', written o'))"

section \<open>What is written\<close>

text \<open>The text without the account of what is unchanged.\<close>

function converted :: "Keywords \<Rightarrow> bool \<Rightarrow> string \<Rightarrow> string" where
  "converted kws deletekeys inp =
     (case strchr inp DOLLAR of
        None \<Rightarrow> inp
      | Some r \<Rightarrow>
          take (length inp - length r + 1) inp @
          (case next_phrase kws deletekeys (tl r) of
             None \<Rightarrow> converted kws deletekeys (tl r)
           | Some (segs, rest) \<Rightarrow> concat segs @ converted kws deletekeys rest))"
  by pat_completeness auto
termination
  by (relation "measure (\<lambda>(kws, d, inp). length inp)") (auto simp: strchr_Some dest!: next_phrase_shorter)

declare converted.simps [simp del]

text \<open>The invariant of the output: \<open>T\<close> has been handed over so far.\<close>

definition keys_inv :: "bool \<Rightarrow> string \<Rightarrow> string \<Rightarrow> KeyOutput \<Rightarrow> bool" where
  "keys_inv sink input T o' \<longleftrightarrow>
     unchanged_segment o' + unchanged_len o' \<le> length input \<and>
     (\<not> output_changed o' \<longrightarrow> unchanged_segment o' = 0 \<and> written o' = [] \<and> T = take (unchanged_len o') input) \<and>
     (output_changed o' \<longrightarrow> \<not> prefix T input) \<and>
     written o' @ (if sink then take (unchanged_len o') (drop (unchanged_segment o') input) else []) =
       (if sink then T else [])"

definition keys_failed :: "bool \<Rightarrow> (string \<Rightarrow> bool) \<Rightarrow> KeyOutput \<Rightarrow> bool" where
  "keys_failed sink bad o' \<longleftrightarrow> sink \<and> bad (written o')"

lemma hoare_write:
  assumes "\<And>o'. P o' \<Longrightarrow> Q () (if sink then o'\<lparr>written := written o' @ s\<rparr> else o')"
  shows "hoare P (checked_write sink bad s) Q (keys_failed sink bad)"
  unfolding checked_write_def
  by (rule hoareI) (use assms in \<open>auto simp: cmd_simps keys_failed_def\<close>)

lemma hoare_flush:
  assumes "\<And>o'. P o' \<Longrightarrow> Q () (if unchanged_len o' = 0 then o'
    else o'\<lparr>written := written o' @ (if sink then take (unchanged_len o') (drop (unchanged_segment o') input) else []),
      unchanged_segment := unchanged_segment o' + unchanged_len o', unchanged_len := 0\<rparr>)"
  shows "hoare P (flush_unchanged sink bad input) Q (keys_failed sink bad)"
proof (rule hoareI)
  fix o' :: KeyOutput assume "P o'"
  note Q = assms [OF this]
  show "case flush_unchanged sink bad input o' of
      (Inl (Err t), o') \<Rightarrow> keys_failed sink bad o' | (Inl _, _) \<Rightarrow> False | (Inr a, o') \<Rightarrow> Q a o'"
    by (cases "unchanged_len o' = 0"; cases sink)
      (use Q in \<open>auto simp: flush_unchanged_def checked_write_def cmd_simps keys_failed_def\<close>)
qed

lemma prefix_take_next: "n \<le> length xs \<Longrightarrow> prefix (take n xs @ s) xs \<longleftrightarrow> take (length s) (drop n xs) = s"
proof
  assume n: "n \<le> length xs" and "prefix (take n xs @ s) xs"
  then obtain z where "xs = (take n xs @ s) @ z" by (auto simp: prefix_def)
  then have "drop n xs = s @ z" using n
    by (metis append.assoc append_eq_conv_conj append_take_drop_id length_take min.absorb2)
  then show "take (length s) (drop n xs) = s" by simp
next
  assume "n \<le> length xs" and "take (length s) (drop n xs) = s"
  then show "prefix (take n xs @ s) xs"
    by (metis append_take_drop_id same_prefix_prefix take_is_prefix)
qed

lemma hoare_output:
  "hoare (keys_inv sink input T) (output_text_segment sink bad input (Some s))
     (\<lambda>_. keys_inv sink input (T @ s)) (keys_failed sink bad)"
proof (cases "s = []")
  case True
  then show ?thesis by (simp add: output_text_segment_def hoare_return)
next
  case False
  have "hoare (\<lambda>t. t = o') (if take (length s) (drop (unchanged_segment (id o') + unchanged_len (id o')) input) = s
      then cupd (\<lambda>o'. o'\<lparr>unchanged_len := unchanged_len o' + length s\<rparr>)
      else cthen (cupd (\<lambda>o'. o'\<lparr>output_changed := True\<rparr>))
             (cthen (flush_unchanged sink bad input) (checked_write sink bad s)))
      (\<lambda>_. keys_inv sink input (T @ s)) (keys_failed sink bad)"
    if inv: "keys_inv sink input T o'" for o'
  proof (cases "take (length s) (drop (unchanged_segment o' + unchanged_len o') input) = s")
    case True
    have le: "unchanged_segment o' + unchanged_len o' + length s \<le> length input"
      using True inv by (metis drop_drop keys_inv_def length_drop length_take min.cobounded1 min_def
          add.commute le_diff_conv2)
    have "\<not> prefix (T @ s) input" if "\<not> prefix T input" using that append_prefixD by blast
    moreover have "take (length s) (drop (unchanged_len o' + unchanged_segment o') input) = s"
      using True by (simp only: add.commute)
    then have "take (unchanged_len o' + length s) (drop (unchanged_segment o') input) =
        take (unchanged_len o') (drop (unchanged_segment o') input) @ s"
      by (simp only: take_add drop_drop)
    ultimately have "keys_inv sink input (T @ s) (o'\<lparr>unchanged_len := unchanged_len o' + length s\<rparr>)"
      using inv le True by (auto simp: keys_inv_def)
    then show ?thesis using True by (auto intro!: hoare_upd)
  next
    case False
    have "\<not> prefix (T @ s) input"
    proof (cases "output_changed o'")
      case True
      then show ?thesis using inv append_prefixD by (auto simp: keys_inv_def)
    next
      case nc: False
      then show ?thesis using inv False prefix_take_next [of "unchanged_len o'" input s] by (simp add: keys_inv_def)
    qed
    define o1 where "o1 = o'\<lparr>output_changed := True\<rparr>"
    define o2 where "o2 = (if unchanged_len o1 = 0 then o1
      else o1\<lparr>written := written o1 @ (if sink then take (unchanged_len o1) (drop (unchanged_segment o1) input) else []),
        unchanged_segment := unchanged_segment o1 + unchanged_len o1, unchanged_len := 0\<rparr>)"
    have "hoare (\<lambda>t. t = o1) (flush_unchanged sink bad input) (\<lambda>_ t. t = o2) (keys_failed sink bad)"
      by (rule hoare_flush) (simp add: o2_def)
    moreover have "hoare (\<lambda>t. t = o2) (checked_write sink bad s) (\<lambda>_. keys_inv sink input (T @ s)) (keys_failed sink bad)"
      by (rule hoare_write) (use \<open>\<not> prefix (T @ s) input\<close> inv in \<open>auto simp: keys_inv_def o2_def o1_def\<close>)
    ultimately have "hoare (\<lambda>t. t = o1) (cthen (flush_unchanged sink bad input) (checked_write sink bad s))
        (\<lambda>_. keys_inv sink input (T @ s)) (keys_failed sink bad)" by (rule hoare_then)
    then have "hoare (\<lambda>t. t = o') (cthen (cupd (\<lambda>o'. o'\<lparr>output_changed := True\<rparr>))
        (cthen (flush_unchanged sink bad input) (checked_write sink bad s)))
        (\<lambda>_. keys_inv sink input (T @ s)) (keys_failed sink bad)"
      by (rule hoare_then [OF hoare_upd, rotated]) (simp add: o1_def)
    then show ?thesis using False by simp
  qed
  then show ?thesis
    using False unfolding output_text_segment_def by (auto intro!: hoare_get_at)
qed

lemma hoare_outputs:
  "hoare (keys_inv sink input T) (cforeach segs (\<lambda>s. output_text_segment sink bad input (Some s)))
     (\<lambda>_. keys_inv sink input (T @ concat segs)) (keys_failed sink bad)"
proof (induction segs arbitrary: T)
  case Nil
  then show ?case by (simp add: hoare_return)
next
  case (Cons s segs)
  show ?case using hoare_then [OF hoare_output [where T = T and s = s] Cons.IH] by simp
qed

definition keys_written :: "bool \<Rightarrow> string \<Rightarrow> string \<Rightarrow> KeyOutput \<Rightarrow> bool" where
  "keys_written sink input T o' \<longleftrightarrow>
     output_changed o' = (\<not> prefix T input) \<and> written o' = (if sink then T else [])"

lemma hoare_final:
  "hoare (keys_inv sink input T) (output_text_segment sink bad input None)
     (\<lambda>_. keys_written sink input T) (keys_failed sink bad)"
  unfolding output_text_segment_def option.case
  by (rule hoare_flush) (auto simp: keys_inv_def keys_written_def take_is_prefix split: if_splits)

lemma strchr_take: "strchr inp c = Some r \<Longrightarrow> take (length inp - length r + 1) inp @ tl r = inp"
  by (auto simp: strchr_Some)

lemma converted_None: "strchr inp DOLLAR = None \<Longrightarrow> converted kws d inp = inp"
  by (subst converted.simps) (simp del: strchr_None)

lemma convert_loop_writes:
  "hoare (keys_inv sink input T) (convert_loop sink bad kws d input inp)
     (\<lambda>_. keys_written sink input (T @ converted kws d inp)) (keys_failed sink bad)"
proof (induction inp arbitrary: T rule: measure_induct_rule [of length])
  case (less inp)
  let ?ots = "\<lambda>s. output_text_segment sink bad input s"
  have body: "hoare (keys_inv sink input T)
      (case strchr inp DOLLAR of
         None \<Rightarrow> cthen (?ots (Some inp)) (?ots None)
       | Some r \<Rightarrow> cthen (?ots (Some (take (length inp - length r + 1) inp)))
           (case next_phrase kws d (tl r) of
              None \<Rightarrow> convert_loop sink bad kws d input (tl r)
            | Some (segs, rest) \<Rightarrow> cthen (cforeach segs (\<lambda>s. ?ots (Some s))) (convert_loop sink bad kws d input rest)))
      (\<lambda>_. keys_written sink input (T @ converted kws d inp)) (keys_failed sink bad)"
  proof (cases "strchr inp DOLLAR")
    case None
    then show ?thesis using hoare_then [OF hoare_output hoare_final] by (simp add: converted_None del: strchr_None)
  next
    case (Some r)
    let ?pre = "take (length inp - length r + 1) inp"
    have r: "length (tl r) < length inp" using Some by (auto simp: strchr_Some)
    show ?thesis
    proof (cases "next_phrase kws d (tl r)")
      case None
      have "hoare (keys_inv sink input T) (cthen (?ots (Some ?pre)) (convert_loop sink bad kws d input (tl r)))
          (\<lambda>_. keys_written sink input ((T @ ?pre) @ converted kws d (tl r))) (keys_failed sink bad)"
        by (rule hoare_then [OF hoare_output less.IH [OF r]])
      then show ?thesis using Some None by (subst converted.simps) simp
    next
      case (Some ph)
      obtain segs rest where ph: "ph = (segs, rest)" by (cases ph)
      have rest: "length rest < length inp" using next_phrase_shorter [of kws d "tl r"] Some ph r by force
      have "hoare (keys_inv sink input T)
          (cthen (?ots (Some ?pre)) (cthen (cforeach segs (\<lambda>s. ?ots (Some s))) (convert_loop sink bad kws d input rest)))
          (\<lambda>_. keys_written sink input (((T @ ?pre) @ concat segs) @ converted kws d rest)) (keys_failed sink bad)"
        by (rule hoare_then [OF hoare_output hoare_then [OF hoare_outputs less.IH [OF rest]]])
      then show ?thesis using \<open>strchr inp DOLLAR = Some r\<close> Some ph by (subst converted.simps) simp
    qed
  qed
  show ?case
    unfolding convert_loop.simps [of sink bad kws d input inp]
  proof (rule hoare_get_at)
    fix o' assume inv: "keys_inv sink input T o'"
    show "hoare (\<lambda>t. t = o') (if output_changed o' \<and> \<not> sink then creturn ()
        else (case strchr inp DOLLAR of
         None \<Rightarrow> cthen (?ots (Some inp)) (?ots None)
       | Some r \<Rightarrow> cthen (?ots (Some (take (length inp - length r + 1) inp)))
           (case next_phrase kws d (tl r) of
              None \<Rightarrow> convert_loop sink bad kws d input (tl r)
            | Some (segs, rest) \<Rightarrow> cthen (cforeach segs (\<lambda>s. ?ots (Some s))) (convert_loop sink bad kws d input rest))))
      (\<lambda>_. keys_written sink input (T @ converted kws d inp)) (keys_failed sink bad)"
    proof (rule hoare_if)
      assume "output_changed o' \<and> \<not> sink"
      then have "keys_written sink input (T @ converted kws d inp) o'"
        using inv append_prefixD by (auto simp: keys_inv_def keys_written_def)
      then show "hoare (\<lambda>t. t = o') (creturn ()) (\<lambda>_. keys_written sink input (T @ converted kws d inp)) (keys_failed sink bad)"
        by (intro hoare_return) simp
    next
      show "hoare (\<lambda>t. t = o') (case strchr inp DOLLAR of
         None \<Rightarrow> cthen (?ots (Some inp)) (?ots None)
       | Some r \<Rightarrow> cthen (?ots (Some (take (length inp - length r + 1) inp)))
           (case next_phrase kws d (tl r) of
              None \<Rightarrow> convert_loop sink bad kws d input (tl r)
            | Some (segs, rest) \<Rightarrow> cthen (cforeach segs (\<lambda>s. ?ots (Some s))) (convert_loop sink bad kws d input rest)))
      (\<lambda>_. keys_written sink input (T @ converted kws d inp)) (keys_failed sink bad)"
        by (rule hoare_pre [OF body]) (simp add: inv)
    qed
  qed
qed

text \<open>
  C27. Setting the keys writes exactly the converted text, although the output that repeats the
  input is held back and copied from the input: the accounting of \<open>unchanged_segment\<close> neither
  loses nor repeats anything. The answer is that the text has changed exactly when the
  output is not a prefix of the input, with or without somewhere to write to; the only failure
  is that of the stream. \<open>setkeys.h\<close> promises the answer whether the output differs from the input:
  the code gives another one when the output is a proper prefix of the input, which happens when only
  the last line of the input is dropped.
\<close>
theorem setkeys_output:
  "case setkeys_internal sink bad kws deletekeys input of
     Inl f \<Rightarrow> (\<exists>t. f = Err t) \<and> sink \<and> (\<exists>w. bad w)
   | Inr (changed, w) \<Rightarrow>
       changed = (\<not> prefix (converted kws deletekeys input) input) \<and>
       w = (if sink then converted kws deletekeys input else [])"
proof -
  let ?o = "\<lparr>written = [], unchanged_segment = 0, unchanged_len = 0, output_changed = False\<rparr>"
  have "hoare (\<lambda>t. t = ?o) (convert sink bad kws deletekeys input)
      (\<lambda>_. keys_written sink input ([] @ converted kws deletekeys input)) (keys_failed sink bad)"
    unfolding convert_def
    by (rule hoare_then [OF hoare_upd convert_loop_writes]) (simp add: keys_inv_def)
  note h = hoareD [OF this] hoare_errD [OF this]
  show ?thesis
    using h by (cases "convert sink bad kws deletekeys input ?o" rule: prod.exhaust)
      (auto simp: setkeys_internal_def keys_written_def keys_failed_def split: sum.split)
qed

section \<open>The shape of the phrases\<close>

text \<open>A format string between its quotes.\<close>

definition quoted :: "string \<Rightarrow> bool" where
  "quoted f \<longleftrightarrow> (\<forall>y. quote_end (f @ DQUOTE # y) = Some (DQUOTE # y))"

lemma quote_end_Some:
  "quote_end s = Some x \<Longrightarrow> \<exists>f y. s = f @ DQUOTE # y \<and> x = DQUOTE # y \<and> quoted f"
proof (induction s rule: quote_end.induct)
  case (2 c cs)
  have ne: "c \<noteq> NEWLINE" using 2(3) by (auto split: if_splits)
  consider "c = DQUOTE" | d ds where "c = BACKSLASH" "cs = d # ds" | "c \<noteq> DQUOTE" "c \<noteq> BACKSLASH \<or> cs = []"
    by (cases cs) auto
  then show ?case
  proof cases
    case 1
    then show ?thesis using 2(3) ne by (intro exI [of _ "[]"] exI [of _ cs]) (simp add: quoted_def)
  next
    case c: 2
    then have "quote_end ds = Some x" using 2(3) by simp
    then obtain f y where "ds = f @ DQUOTE # y" "x = DQUOTE # y" "quoted f" using 2(1) ne c by auto
    then show ?thesis using c by (intro exI [of _ "c # d # f"] exI [of _ y]) (simp add: quoted_def)
  next
    case c: 3
    then have "quote_end cs = Some x" using 2(3) ne by (auto split: if_splits)
    then obtain f y where f: "cs = f @ DQUOTE # y" "x = DQUOTE # y" "quoted f" using 2(2) ne c by blast
    then have "c \<noteq> BACKSLASH" using c by auto
    then show ?thesis using f ne c by (intro exI [of _ "c # f"] exI [of _ y]) (simp add: quoted_def)
  qed
qed simp

definition rest_of_line :: "string \<Rightarrow> bool" where
  "rest_of_line b \<longleftrightarrow> NEWLINE \<notin> set b"

lemma dropWhile_split: "dropWhile P s = c # r \<longleftrightarrow> (\<exists>a. s = a @ c # r \<and> (\<forall>x \<in> set a. P x) \<and> \<not> P c)"
proof
  assume h: "dropWhile P s = c # r"
  have "s = takeWhile P s @ c # r" using takeWhile_dropWhile_id [of P s] h by simp
  moreover have "\<not> P c" using hd_dropWhile [of P s] h by simp
  ultimately show "\<exists>a. s = a @ c # r \<and> (\<forall>x \<in> set a. P x) \<and> \<not> P c" by (metis set_takeWhileD)
qed (auto simp: dropWhile_append2)

lemma line_end_iff:
  "line_end s = Some e \<longleftrightarrow>
     (\<exists>a b r. s = a @ DOLLAR # b @ NEWLINE # r \<and> e = NEWLINE # r \<and> DOLLAR \<notin> set a \<and> NEWLINE \<notin> set a \<and> NEWLINE \<notin> set b)"
  (is "?l \<longleftrightarrow> ?r")
proof
  assume h: ?l
  obtain d r where d: "dropWhile (\<lambda>c. c \<noteq> DOLLAR \<and> c \<noteq> NEWLINE) s = d # r"
    using h by (cases "dropWhile (\<lambda>c. c \<noteq> DOLLAR \<and> c \<noteq> NEWLINE) s") (simp_all add: line_end_def del: dropWhile_eq_Nil_conv)
  have dol: "d = DOLLAR" using h by (simp add: line_end_def d split: if_splits)
  obtain c es where c: "dropWhile (\<lambda>c. c \<noteq> NEWLINE) r = c # es" "e = c # es"
    using h unfolding line_end_def d
    by (cases "dropWhile (\<lambda>c. c \<noteq> NEWLINE) r") (simp_all add: dol del: dropWhile_eq_Nil_conv)
  obtain a where a: "s = a @ DOLLAR # r" "\<forall>x \<in> set a. x \<noteq> DOLLAR \<and> x \<noteq> NEWLINE"
    using iffD1 [OF dropWhile_split d] dol by blast
  obtain b where b: "r = b @ c # es" "\<forall>x \<in> set b. x \<noteq> NEWLINE" "c = NEWLINE"
    using iffD1 [OF dropWhile_split c(1)] by blast
  show ?r
    by (rule exI [of _ a], rule exI [of _ b], rule exI [of _ es]) (use a(2) b(2) in \<open>auto simp: a(1) b(1,3) c(2)\<close>)
next
  assume ?r
  then obtain a b r where s: "s = a @ DOLLAR # b @ NEWLINE # r" "e = NEWLINE # r" "DOLLAR \<notin> set a" "NEWLINE \<notin> set a" "NEWLINE \<notin> set b"
    by blast
  have "dropWhile (\<lambda>c. c \<noteq> DOLLAR \<and> c \<noteq> NEWLINE) s = DOLLAR # b @ NEWLINE # r"
    by (rule iffD2 [OF dropWhile_split], intro exI [of _ a]) (use s in auto)
  moreover have "dropWhile (\<lambda>c. c \<noteq> NEWLINE) (b @ NEWLINE # r) = NEWLINE # r"
    by (rule iffD2 [OF dropWhile_split], intro exI [of _ b]) (use s in auto)
  ultimately show ?l using s(2) by (simp add: line_end_def)
qed

text \<open>What \<open>format_line\<close> recognises, up to the end of the line.\<close>

definition format_shape :: "string \<Rightarrow> string \<Rightarrow> string \<Rightarrow> bool" where
  "format_shape h f z \<longleftrightarrow>
     (\<exists>sp a b. h = sp @ DQUOTE # f @ z \<and> z = DQUOTE # a @ DOLLAR # b \<and> (\<forall>x \<in> set sp. isspace x) \<and> quoted f \<and>
        DOLLAR \<notin> set a \<and> NEWLINE \<notin> set a \<and> NEWLINE \<notin> set b)"

lemma format_line_iff:
  "format_line inp = Some (f, e) \<longleftrightarrow> (\<exists>h z r. drop 7 inp = h @ NEWLINE # r \<and> e = NEWLINE # r \<and> format_shape h f z)"
  (is "?l \<longleftrightarrow> ?r")
proof
  assume h: ?l
  obtain q fmt where f: "dropWhile isspace (drop 7 inp) = q # fmt"
    using h by (cases "dropWhile isspace (drop 7 inp)") (simp_all add: format_line_def del: dropWhile_eq_Nil_conv)
  obtain x where x: "q = DQUOTE" "quote_end fmt = Some x" "line_end (tl x) = Some e" "f = take (length fmt - length x) fmt"
    using h by (auto simp: format_line_def f split: if_splits option.splits)
  obtain sp where sp: "drop 7 inp = sp @ DQUOTE # fmt" "\<forall>x \<in> set sp. isspace x"
    using iffD1 [OF dropWhile_split f] x(1) by blast
  obtain g y where g: "fmt = g @ DQUOTE # y" "x = DQUOTE # y" "quoted g" using quote_end_Some [OF x(2)] by blast
  then have fg: "f = g" using x(4) by simp
  obtain a b r where e: "y = a @ DOLLAR # b @ NEWLINE # r" "e = NEWLINE # r" "DOLLAR \<notin> set a" "NEWLINE \<notin> set a" "NEWLINE \<notin> set b"
    using x(3) iffD1 [OF line_end_iff, of "tl x" e] unfolding g(2) list.sel by blast
  show ?r
    by (intro exI [of _ "sp @ DQUOTE # f @ DQUOTE # a @ DOLLAR # b"] exI [of _ "DQUOTE # a @ DOLLAR # b"] exI [of _ r])
      (use sp g e fg in \<open>auto simp: format_shape_def\<close>)
next
  assume ?r
  then obtain sp a b r where h: "drop 7 inp = sp @ DQUOTE # f @ DQUOTE # a @ DOLLAR # b @ NEWLINE # r" "e = NEWLINE # r"
    "\<forall>x \<in> set sp. isspace x" "quoted f" "DOLLAR \<notin> set a" "NEWLINE \<notin> set a" "NEWLINE \<notin> set b"
    by (auto simp: format_shape_def)
  let ?fmt = "f @ DQUOTE # a @ DOLLAR # b @ NEWLINE # r"
  have nsp: "\<not> isspace DQUOTE" by (simp add: isspace_def)
  have "dropWhile isspace (drop 7 inp) = DQUOTE # ?fmt"
    by (rule iffD2 [OF dropWhile_split], intro exI [of _ sp]) (use h nsp in auto)
  moreover have "quote_end ?fmt = Some (DQUOTE # a @ DOLLAR # b @ NEWLINE # r)" using h(4) by (simp add: quoted_def)
  moreover have "line_end (a @ DOLLAR # b @ NEWLINE # r) = Some e" by (rule iffD2 [OF line_end_iff]) (use h in blast)
  ultimately show ?l by (simp add: format_line_def)
qed

text \<open>The two kinds of phrases, and when there is none.\<close>

definition key_segs :: "Keywords \<Rightarrow> bool \<Rightarrow> string \<Rightarrow> string list" where
  "key_segs kws deletekeys k =
     (if deletekeys then [k, [DOLLAR]]
      else case find_keyword kws k of
             None \<Rightarrow> []
           | Some (ck, v) \<Rightarrow> [k, '': ''] @ output_simple_key_replaced kws [ck] True NUL v @ ['' $''])"

definition key_shape :: "Keywords \<Rightarrow> string \<Rightarrow> string \<Rightarrow> bool" where
  "key_shape kws k x \<longleftrightarrow>
     cstring k \<in> fst ` set kws \<and> DOLLAR \<notin> set k \<and> COLON \<notin> set k \<and> NEWLINE \<notin> set k \<and>
     (x = [] \<or> hd x = COLON) \<and> DOLLAR \<notin> set x \<and> NEWLINE \<notin> set x"

lemma find_keyword_dom: "find_keyword kws s = None \<longleftrightarrow> cstring (key_text s) \<notin> fst ` set kws"
  by (auto simp: find_keyword_def find_None_iff image_iff)

lemma key_text_shape:
  assumes "DOLLAR \<notin> set k" and "COLON \<notin> set k" and "x = [] \<or> hd x = COLON"
  shows "key_text (k @ x @ DOLLAR # r) = k" and "key_text k = k"
proof -
  show k: "key_text k = k" using assms by (auto simp: key_text_def takeWhile_eq_all_conv)
  have "takeWhile (\<lambda>c. c \<noteq> DOLLAR \<and> c \<noteq> COLON) (x @ DOLLAR # r) = []" using assms(3) by (cases x) auto
  then show "key_text (k @ x @ DOLLAR # r) = k"
    using k by (simp add: key_text_def takeWhile_append)
qed

lemma end_phrase_iff:
  "end_phrase inp = Some rest \<longleftrightarrow> (\<exists>u. inp = u @ DOLLAR # rest \<and> DOLLAR \<notin> set u \<and> NEWLINE \<notin> set u)"
  (is "?l \<longleftrightarrow> ?r")
proof
  assume ?l
  then obtain r where r: "strchr inp DOLLAR = Some r" "NEWLINE \<notin> set (take (length inp - length r) inp)" "rest = tl r"
    by (auto simp: end_phrase_def split: option.splits if_splits)
  then show ?r by (auto simp: strchr_Some)
next
  assume ?r
  then obtain u where u: "inp = u @ DOLLAR # rest" "DOLLAR \<notin> set u" "NEWLINE \<notin> set u" by blast
  then have "strchr inp DOLLAR = Some (DOLLAR # rest)" by (auto simp: strchr_Some)
  then show ?l using u by (simp add: end_phrase_def)
qed

lemma process_normal_key_shape:
  assumes "key_shape kws k x"
  shows "process_normal_key kws [] d False True (k @ x @ DOLLAR # rest) = Some (key_segs kws d k, rest)"
proof -
  have k: "key_text (k @ x @ DOLLAR # rest) = k" "key_text k = k"
    using assms key_text_shape [of k x] by (auto simp: key_shape_def)
  have "end_phrase (k @ x @ DOLLAR # rest) = Some rest"
    unfolding end_phrase_iff using assms by (intro exI [of _ "k @ x"]) (auto simp: key_shape_def)
  moreover have "find_keyword kws (k @ x @ DOLLAR # rest) = find_keyword kws k" by (simp add: find_keyword_def k)
  moreover have "find_keyword kws k \<noteq> None" using assms by (simp add: find_keyword_dom k key_shape_def)
  ultimately show ?thesis by (auto simp: process_normal_key_def key_segs_def k split: prod.split)
qed

lemma process_normal_key_cases:
  assumes "process_normal_key kws [] d False True inp = Some (segs, rest)"
  shows "\<exists>k x. inp = k @ x @ DOLLAR # rest \<and> key_shape kws k x \<and> segs = key_segs kws d k"
proof -
  obtain u where u: "inp = u @ DOLLAR # rest" "DOLLAR \<notin> set u" "NEWLINE \<notin> set u"
    using assms end_phrase_iff by (auto simp: process_normal_key_def split: option.splits prod.splits if_splits)
  let ?k = "takeWhile (\<lambda>c. c \<noteq> DOLLAR \<and> c \<noteq> COLON) u" and ?x = "dropWhile (\<lambda>c. c \<noteq> DOLLAR \<and> c \<noteq> COLON) u"
  have inp: "inp = ?k @ ?x @ DOLLAR # rest" using u(1) by simp
  have sub: "set ?k \<subseteq> set u" "set ?x \<subseteq> set u" by (auto dest: set_takeWhileD set_dropWhileD)
  have k: "COLON \<notin> set ?k" by (auto dest: set_takeWhileD)
  have x: "?x = [] \<or> hd ?x = COLON"
    using hd_dropWhile [of "\<lambda>c. c \<noteq> DOLLAR \<and> c \<noteq> COLON" u] sub(2) u(2) hd_in_set [of ?x] by fastforce
  have "find_keyword kws inp \<noteq> None" using assms by (auto simp: process_normal_key_def split: option.splits)
  then have "cstring (key_text inp) \<in> fst ` set kws" using find_keyword_dom [of kws inp] by simp
  moreover have "key_text inp = ?k"
    using key_text_shape(1) [of ?k ?x] sub u(2) k x inp by auto
  ultimately have sh: "key_shape kws ?k ?x" using sub u k x by (auto simp: key_shape_def)
  have "process_normal_key kws [] d False True inp = Some (key_segs kws d ?k, rest)"
    unfolding inp by (rule process_normal_key_shape [OF sh])
  then have "segs = key_segs kws d ?k" using assms by simp
  then show ?thesis using sh inp by (intro exI [of _ ?k] exI [of _ ?x]) simp
qed

section \<open>Converting around the first dollar\<close>

definition after_dollar :: "Keywords \<Rightarrow> bool \<Rightarrow> string \<Rightarrow> string" where
  "after_dollar kws d next =
     (case next_phrase kws d next of
        None \<Rightarrow> converted kws d next
      | Some (segs, rest) \<Rightarrow> concat segs @ converted kws d rest)"

lemma converted_plain: "DOLLAR \<notin> set t \<Longrightarrow> converted kws d t = t"
  by (rule converted_None) simp

lemma converted_dollar:
  "DOLLAR \<notin> set p \<Longrightarrow> converted kws d (p @ DOLLAR # nx) = p @ DOLLAR # after_dollar kws d nx"
proof -
  assume p: "DOLLAR \<notin> set p"
  then have "strchr (p @ DOLLAR # nx) DOLLAR = Some (DOLLAR # nx)" by (auto simp: strchr_Some)
  then show ?thesis by (subst converted.simps) (simp add: after_dollar_def split: option.split prod.split)
qed

lemma plain_or_dollar:
  obtains "DOLLAR \<notin> set t" | p nx where "t = p @ DOLLAR # nx" "DOLLAR \<notin> set p"
  by (meson split_list_first)

lemma converted_append: "DOLLAR \<notin> set u \<Longrightarrow> converted kws d (u @ t) = u @ converted kws d t"
  by (rule plain_or_dollar [of t]) (simp_all add: converted_plain converted_dollar [of "u @ _", simplified] converted_dollar)

section \<open>Tame values\<close>

text \<open>
  The values hold no newline, quote or backslash. Dollars in a value are keywords of their own
  or come out as bars.
\<close>

definition tame_char :: "char \<Rightarrow> bool" where
  "tame_char c \<longleftrightarrow> c \<noteq> NEWLINE \<and> c \<noteq> DQUOTE \<and> c \<noteq> BACKSLASH"

definition tame_keywords :: "Keywords \<Rightarrow> bool" where
  "tame_keywords kws \<longleftrightarrow> (\<forall>(k, v) \<in> set kws. \<forall>c \<in> set v. tame_char c)"

lemma find_keyword_value: "find_keyword kws s = Some (k, v) \<Longrightarrow> (k, v) \<in> set kws"
  by (auto simp: find_keyword_def find_Some_iff)

lemma tame_value: "tame_keywords kws \<Longrightarrow> find_keyword kws s = Some (k, v) \<Longrightarrow> \<forall>c \<in> set v. tame_char c"
  using find_keyword_value by (fastforce simp: tame_keywords_def)

lemma end_phrase_subset: "end_phrase s = Some r \<Longrightarrow> set r \<subseteq> set s"
  by (auto simp: end_phrase_iff)

text \<open>The dollars of a format that are keywords, and the induction over the replacements.\<close>

definition key_at :: "Keywords \<Rightarrow> string list \<Rightarrow> string \<Rightarrow> (string \<times> string \<times> string) option" where
  "key_at kws replacing cs =
     (case (end_phrase cs, find_keyword kws cs) of
        (Some rest, Some (k, v)) \<Rightarrow> if k \<in> set replacing then None else Some (k, v, rest)
      | _ \<Rightarrow> None)"

lemma key_at_Some:
  "key_at kws replacing cs = Some (k, v, rest) \<longleftrightarrow>
     end_phrase cs = Some rest \<and> find_keyword kws cs = Some (k, v) \<and> k \<notin> set replacing"
  by (auto simp: key_at_def split: option.splits prod.splits)

abbreviation replaced where "replaced \<equiv> output_simple_key_replaced"

lemma replaced_simps:
  "replaced kws r n a [] = []"
  "c \<noteq> BACKSLASH \<Longrightarrow> c \<noteq> DOLLAR \<Longrightarrow> replaced kws r n a (c # cs) = [c] # replaced kws r n a cs"
  "replaced kws r n a [BACKSLASH] = [[a]]"
  "replaced kws r n a (BACKSLASH # d # cs) = [if d = CHR ''t'' then CHR 0x09 else d] # replaced kws r n a cs"
  "key_at kws r cs = None \<Longrightarrow>
     replaced kws r n a (DOLLAR # cs) = (if n then ''|'' else [DOLLAR]) # replaced kws r n a cs"
  "key_at kws r cs = Some (k, v, rest) \<Longrightarrow>
     replaced kws r n a (DOLLAR # cs) = replaced kws (k # r) n NUL v @ replaced kws r n a rest"
  by (auto simp: key_at_def split: option.splits prod.splits if_splits)

lemma replaced_induct [case_names Nil Char Last Escape Plain Key]:
  assumes "\<And>r a. P r a []"
    and "\<And>r a c cs. c \<noteq> BACKSLASH \<Longrightarrow> c \<noteq> DOLLAR \<Longrightarrow> P r a cs \<Longrightarrow> P r a (c # cs)"
    and "\<And>r a. P r a [BACKSLASH]"
    and "\<And>r a d cs. P r a cs \<Longrightarrow> P r a (BACKSLASH # d # cs)"
    and "\<And>r a cs. key_at kws r cs = None \<Longrightarrow> P r a cs \<Longrightarrow> P r a (DOLLAR # cs)"
    and "\<And>r a cs k v rest. key_at kws r cs = Some (k, v, rest) \<Longrightarrow> P (k # r) NUL v \<Longrightarrow> P r a rest \<Longrightarrow> P r a (DOLLAR # cs)"
  shows "P r a s"
proof -
  let ?R = "measures [\<lambda>(r, a, s :: string). card (fst ` set kws - set r), \<lambda>(r, a, s). length s]"
  have "\<forall>r a s. x = (r, a, s) \<longrightarrow> P r a s" for x
  proof (induction x rule: wf_induct_rule [OF wf_measures [of "[\<lambda>(r, a, s :: string). card (fst ` set kws - set r), \<lambda>(r, a, s). length s]"]])
    case (1 x)
    show ?case
    proof (intro allI impI)
      fix r a s assume x: "x = (r, a, s)"
      have IH: "P r' a' s'" if "((r', a', s'), (r, a, s)) \<in> ?R" for r' a' s' using 1 that x by blast
  have shorter: "P r b t" if "length t < length s" for b t by (rule IH) (use that in simp)
  consider "s = []" | c cs where "s = c # cs" "c \<noteq> BACKSLASH" "c \<noteq> DOLLAR" | "s = [BACKSLASH]"
    | d cs where "s = BACKSLASH # d # cs" | cs where "s = DOLLAR # cs"
    by (metis list.exhaust)
  then show "P r a s"
  proof cases
    case (5 cs)
    show ?thesis
    proof (cases "key_at kws r cs")
      case None
      then show ?thesis using assms(5) shorter 5 by simp
    next
      case (Some x)
      obtain k v rest where x: "x = (k, v, rest)" by (cases x)
      have ph: "end_phrase cs = Some rest" "find_keyword kws cs = Some (k, v)" "k \<notin> set r"
        using Some by (simp_all add: x key_at_Some)
      have "P (k # r) NUL v" using fewer_keywords [OF ph(2,3)] by (intro IH) simp
      moreover have "P r a rest" using end_phrase_shorter [OF ph(1)] 5 by (intro shorter) simp
      ultimately show ?thesis using assms(6) Some x 5 by blast
    qed
  qed (use assms(1-4) shorter in auto)
    qed
  qed
  then show ?thesis by blast
qed

text \<open>The characters that come out: \<open>G\<close> holds of those that go in, \<open>R\<close> of those that come out.\<close>

lemma replaced_chars:
  assumes "\<And>k v c. (k, v) \<in> set kws \<Longrightarrow> c \<in> set v \<Longrightarrow> G c"
    and "\<And>c. G c \<Longrightarrow> c \<noteq> BACKSLASH \<Longrightarrow> c \<noteq> DOLLAR \<Longrightarrow> R c"
    and "\<And>c. G BACKSLASH \<Longrightarrow> G c \<or> c = CHR 0x09 \<or> c = NUL \<Longrightarrow> R c"
    and "R (if n then CHR ''|'' else DOLLAR)"
  shows "\<forall>c \<in> set s. G c \<Longrightarrow> G BACKSLASH \<longrightarrow> R a \<Longrightarrow> \<forall>c \<in> set (concat (replaced kws r n a s)). R c"
proof (induction r a s rule: replaced_induct [where kws = kws])
  case (Nil r a)
  show ?case by simp
next
  case (Char r a c cs)
  have G: "G c" "\<forall>c \<in> set cs. G c" using Char(4) by simp_all
  show ?case using assms(2) [OF G(1) Char(1,2)] Char(3) [OF G(2) Char(5)]
    by (simp only: replaced_simps(2) [OF Char(1,2)]) simp
next
  case (Last r a)
  have "G BACKSLASH" using Last(1) by (simp only: list.set_intros ball_simps)
  then show ?case using Last(2) by (simp only: replaced_simps(3)) simp
next
  case (Escape r a d cs)
  have G: "G BACKSLASH" "G d" "\<forall>c \<in> set cs. G c" using Escape(2) by simp_all
  have R: "R d" "R (CHR 0x09)" using G assms(3) by blast+
  show ?case using R Escape(1) [OF G(3) Escape(3)] by (simp only: replaced_simps(4)) simp
next
  case (Plain r a cs)
  have "\<forall>c \<in> set (if n then ''|'' else [DOLLAR]). R c" using assms(4) by (cases n) simp_all
  moreover have "\<forall>c \<in> set cs. G c" using Plain(3) by simp
  ultimately show ?case
    unfolding replaced_simps(5) [OF Plain(1)] concat.simps set_append ball_Un
    using Plain(2) [OF _ Plain(4)] by blast
next
  case (Key r a cs k v rest)
  have ph: "end_phrase cs = Some rest" "(k, v) \<in> set kws"
    using Key(1) by (auto simp: key_at_Some dest: find_keyword_value)
  have rest: "\<forall>c \<in> set rest. G c" using Key(4) end_phrase_subset [OF ph(1)] by auto
  have v: "\<forall>c \<in> set v. G c" using assms(1) [OF ph(2)] by blast
  have nul: "G BACKSLASH \<longrightarrow> R NUL" using assms(3) [of NUL] by blast
  show ?case
    unfolding replaced_simps(6) [OF Key(1)] concat_append set_append ball_Un
    using Key(2) [OF v nul] Key(3) [OF rest Key(5)] by (rule conjI)
qed

lemma replaced_tame:
  assumes "tame_keywords kws" and "\<forall>c \<in> set s. tame_char c"
  shows "\<forall>c \<in> set (concat (replaced kws r True a s)). tame_char c \<and> c \<noteq> DOLLAR"
  by (rule replaced_chars [where G = tame_char])
    (use assms in \<open>auto simp: tame_keywords_def tame_char_def\<close>)

lemma replaced_line:
  assumes "tame_keywords kws" and "NEWLINE \<notin> set s" and "a \<noteq> NEWLINE"
  shows "NEWLINE \<notin> set (concat (replaced kws r n a s))"
proof -
  have "\<forall>c \<in> set (concat (replaced kws r n a s)). c \<noteq> NEWLINE"
    by (rule replaced_chars [where G = "\<lambda>c. c \<noteq> NEWLINE"])
      (use assms in \<open>auto simp: tame_keywords_def tame_char_def\<close>)
  then show ?thesis by blast
qed

section \<open>Recognising a format line\<close>

text \<open>
  The recogniser of a format line as an automaton over the text: before the quote, in the
  string, behind a backslash, behind the string, behind the dollar, and the two verdicts.
\<close>

datatype format_state = Before | InString | Escaped | AfterString | AfterDollar | Format | NoFormat

fun format_step :: "format_state \<Rightarrow> char \<Rightarrow> format_state" where
  "format_step Before c = (if isspace c then Before else if c = DQUOTE then InString else NoFormat)"
| "format_step InString c = (if c = NEWLINE then NoFormat else if c = DQUOTE then AfterString
     else if c = BACKSLASH then Escaped else InString)"
| "format_step Escaped c = InString"
| "format_step AfterString c = (if c = DOLLAR then AfterDollar else if c = NEWLINE then NoFormat else AfterString)"
| "format_step AfterDollar c = (if c = NEWLINE then Format else AfterDollar)"
| "format_step Format c = Format"
| "format_step NoFormat c = NoFormat"

abbreviation format_run :: "format_state \<Rightarrow> string \<Rightarrow> format_state" where
  "format_run \<equiv> foldl format_step"

lemma run_verdict [simp]: "format_run Format s = Format" "format_run NoFormat s = NoFormat"
  by (induction s) simp_all

lemma run_spaces: "format_run Before s = format_run Before (dropWhile isspace s)"
  by (induction s) simp_all

lemma run_string: "format_run InString s = Format \<longleftrightarrow> (\<exists>e. quote_end s = Some e \<and> format_run AfterString (tl e) = Format)"
proof (induction s rule: quote_end.induct)
  case (2 c cs)
  then show ?case by (cases cs) auto
qed simp

lemma run_dollar: "format_run AfterDollar s = Format \<longleftrightarrow> NEWLINE \<in> set s"
  by (induction s) auto

lemma run_after: "format_run AfterString s = Format \<longleftrightarrow> line_end s \<noteq> None"
proof (induction s)
  case Nil
  then show ?case by (simp add: line_end_def)
next
  case (Cons c s)
  have "NEWLINE \<in> set s \<longleftrightarrow> dropWhile (\<lambda>c. c \<noteq> NEWLINE) s \<noteq> []" by auto
  then show ?case
    using Cons by (cases "dropWhile (\<lambda>c. c \<noteq> NEWLINE) s") (auto simp: line_end_def run_dollar simp del: dropWhile_eq_Nil_conv)
qed

lemma format_line_run: "format_line inp \<noteq> None \<longleftrightarrow> format_run Before (drop 7 inp) = Format"
proof (cases "dropWhile isspace (drop 7 inp)")
  case Nil
  then show ?thesis using run_spaces [of "drop 7 inp"] by (simp add: format_line_def del: dropWhile_eq_Nil_conv)
next
  case (Cons q fmt)
  have "\<not> isspace q" using hd_dropWhile [of isspace "drop 7 inp"] Cons by simp
  then have "format_run Before (drop 7 inp) = (if q = DQUOTE then format_run InString fmt else NoFormat)"
    using run_spaces [of "drop 7 inp"] Cons by simp
  then show ?thesis
    using run_string [of fmt] by (auto simp: format_line_def Cons run_after split: option.split)
qed

lemma run_newline: "format_run s t = Format \<Longrightarrow> s \<noteq> Format \<Longrightarrow> NEWLINE \<in> set t"
proof (induction t arbitrary: s)
  case (Cons c t)
  show ?case
  proof (cases "format_step s c = Format")
    case True
    then show ?thesis using Cons.prems(2) by (cases s) (auto split: if_splits)
  next
    case False
    then show ?thesis using Cons.IH [of "format_step s c"] Cons.prems(1) by simp
  qed
qed simp

text \<open>Over a keyword phrase and over a line.\<close>

lemma step_dollar: "format_step s DOLLAR \<in> {InString, AfterDollar, Format, NoFormat}"
  by (cases s) (simp_all add: isspace_def)

lemma run_in_line:
  "NEWLINE \<notin> set u \<Longrightarrow> DOLLAR \<notin> set u \<Longrightarrow> s \<in> {InString, Escaped, AfterString} \<Longrightarrow>
   format_run s u \<in> {InString, Escaped, AfterString} \<and> (s = AfterString \<longrightarrow> format_run s u = AfterString)"
proof (induction u arbitrary: s)
  case (Cons c u)
  have "format_step s c \<in> {InString, Escaped, AfterString}" "s = AfterString \<Longrightarrow> format_step s c = AfterString"
    using Cons.prems by (auto split: if_splits)
  then show ?case using Cons.IH [of "format_step s c"] Cons.prems(1,2) by auto
qed simp

lemma run_tame:
  "\<forall>c \<in> set v. tame_char c \<and> c \<noteq> DOLLAR \<Longrightarrow> s \<in> {InString, AfterString} \<Longrightarrow> format_run s v = s"
proof (induction v)
  case (Cons c v)
  have c: "tame_char c" "c \<noteq> DOLLAR" and v: "\<forall>c \<in> set v. tame_char c \<and> c \<noteq> DOLLAR"
    using Cons.prems(1) by simp_all
  have "format_step s c = s" by (cases s) (use c Cons.prems(2) in \<open>simp_all add: tame_char_def\<close>)
  then show ?case using Cons.IH [OF v Cons.prems(2)] by simp
qed simp

lemma run_line_verdict:
  assumes "format_run s u \<in> {AfterString, AfterDollar, Format, NoFormat}"
  shows "format_run s (u @ z @ [NEWLINE]) \<in> {Format, NoFormat}"
proof -
  have "format_run s (u @ z) \<in> {AfterString, AfterDollar, Format, NoFormat}"
  proof (induction z rule: rev_induct)
    case Nil
    then show ?case using assms by simp
  next
    case (snoc c z)
    have "format_run s (u @ z @ [c]) = format_step (format_run s (u @ z)) c" by simp
    then show ?case using snoc by (auto split: if_splits)
  qed
  moreover have "format_run s (u @ z @ [NEWLINE]) = format_step (format_run s (u @ z)) NEWLINE" by simp
  ultimately show ?thesis by auto
qed

lemma run_spaces_string:
  "\<forall>x \<in> set sp. isspace x \<Longrightarrow> format_run InString sp \<in> {InString, NoFormat}"
proof (induction sp)
  case (Cons c sp)
  have "c \<noteq> DQUOTE" "c \<noteq> BACKSLASH" using Cons.prems by (auto simp: isspace_def)
  then show ?case using Cons by simp
qed simp

text \<open>A format line inside another string ends it one way or the other.\<close>

lemma run_format_line:
  assumes "format_shape h f z" and "s \<in> {InString, AfterDollar, Format, NoFormat}"
  shows "format_run s (''Format:'' @ h @ [NEWLINE]) \<in> {Format, NoFormat}"
proof (cases "s = InString")
  case True
  obtain sp y where h: "h = sp @ DQUOTE # y" "\<forall>x \<in> set sp. isspace x" using assms(1) by (auto simp: format_shape_def)
  have "format_run s (''Format:'' @ sp @ [DQUOTE]) \<in> {AfterString, NoFormat}"
    using run_spaces_string [OF h(2)] True by auto
  then have "format_run s ((''Format:'' @ sp @ [DQUOTE]) @ y @ [NEWLINE]) \<in> {Format, NoFormat}"
    by (intro run_line_verdict) auto
  then show ?thesis by (simp add: h(1))
next
  case False
  then have "format_run s [] \<in> {AfterString, AfterDollar, Format, NoFormat}" using assms(2) by auto
  from run_line_verdict [OF this, of "''Format:'' @ h"] show ?thesis by simp
qed

text \<open>No backslash continues a line of the text.\<close>

definition no_continuation :: "string \<Rightarrow> bool" where
  "no_continuation t \<longleftrightarrow> (\<nexists>p q. t = p @ [BACKSLASH, NEWLINE] @ q)"

lemma no_continuation_append: "no_continuation (u @ t) \<Longrightarrow> no_continuation u \<and> no_continuation t"
  unfolding no_continuation_def by (metis append.assoc)

lemma quoted_line:
  assumes "quoted f" and "no_continuation f"
  shows "NEWLINE \<notin> set f"
proof -
  have "quote_end (f @ DQUOTE # y) = Some (DQUOTE # y) \<Longrightarrow> no_continuation f \<Longrightarrow> NEWLINE \<notin> set f" for y
  proof (induction f rule: quote_end.induct)
    case (2 c cs)
    have cs: "no_continuation cs" using 2(4) no_continuation_append [of "[c]" cs] by simp
    have c: "c \<noteq> NEWLINE" using 2(3) by auto
    show ?case
    proof (cases "c = BACKSLASH \<and> cs \<noteq> []")
      case True
      then obtain d ds where ds: "cs = d # ds" by (cases cs) auto
      have "d \<noteq> NEWLINE" using 2(4) True ds unfolding no_continuation_def by force
      moreover have "no_continuation ds" using cs ds no_continuation_append [of "[d]" ds] by simp
      moreover have "c \<noteq> DQUOTE" using True by simp
      ultimately show ?thesis using 2(1) 2(3) c True ds by simp
    next
      case False
      then show ?thesis
      proof (cases "c = DQUOTE")
        case True
        then have "cs @ DQUOTE # y = y" using 2(3) c by simp
        then have False by (metis add_Suc_right length_Cons length_append n_not_Suc_n not_add_less2 lessI)
        then show ?thesis ..
      next
        case dq: False
        show ?thesis
        proof (cases "c = BACKSLASH")
          case True
          then have "cs = []" using False by simp
          then show ?thesis using c by simp
        next
          case bs: False
          then show ?thesis using 2(2) 2(3) c dq False cs by auto
        qed
      qed
    qed
  qed simp
  then show ?thesis using assms by (auto simp: quoted_def)
qed

section \<open>Converting a converted text\<close>

text \<open>The keywords with which the text was set; those of the second conversion have the same names.\<close>

definition keys_ok :: "Keywords \<Rightarrow> bool" where
  "keys_ok kws \<longleftrightarrow> tame_keywords kws \<and> ''Format'' \<notin> fst ` set kws"

lemma takeWhile_first: "c \<notin> set p \<Longrightarrow> takeWhile (\<lambda>x. x \<noteq> c) (p @ c # r) = p"
  by (induction p) auto

lemma process_format_eq:
  assumes "format_line (''Format:'' @ h @ NEWLINE # r) = Some (f, NEWLINE # r)"
  shows "process_format kws d (''Format:'' @ h @ NEWLINE # r) = Some ((''Format:'' @ h @ [NEWLINE]) #
    (if d then [] else replaced kws [] False DQUOTE f), dropWhile (\<lambda>c. c \<noteq> NEWLINE) r)"
proof -
  have "take (length (l @ r) - length (NEWLINE # r) + 1) (l @ r) = l" if "l \<noteq> []" for l
    using that by (cases l) simp_all
  from this [of "''Format:'' @ h @ [NEWLINE]"]
  have "take (length (''Format:'' @ h @ NEWLINE # r) - length (NEWLINE # r) + 1) (''Format:'' @ h @ NEWLINE # r) =
      ''Format:'' @ h @ [NEWLINE]" by simp
  then show ?thesis unfolding process_format_def assms option.case prod.case list.sel by (simp only:)
qed

text \<open>The three outcomes at a dollar.\<close>

lemma next_phrase_cases:
  obtains "next_phrase kws d nx = None"
    | k x rest where "nx = k @ x @ DOLLAR # rest" "key_shape kws k x" "take 7 nx \<noteq> ''Format:''"
        "next_phrase kws d nx = Some (key_segs kws d k, rest)"
    | h f z old where "nx = ''Format:'' @ h @ NEWLINE # old" "format_shape h f z"
        "next_phrase kws d nx = Some ((''Format:'' @ h @ [NEWLINE]) #
           (if d then [] else replaced kws [] False DQUOTE f), dropWhile (\<lambda>c. c \<noteq> NEWLINE) old)"
proof (cases "next_phrase kws d nx")
  case None
  then show thesis by (rule that(1))
next
  case (Some ph)
  obtain segs rest where ph: "ph = (segs, rest)" by (cases ph)
  show thesis
  proof (cases "take 7 nx = ''Format:''")
    case False
    then have "process_normal_key kws [] d False True nx = Some (segs, rest)"
      using Some ph by (simp add: next_phrase_def)
    then obtain k x where "nx = k @ x @ DOLLAR # rest" "key_shape kws k x" "segs = key_segs kws d k"
      using process_normal_key_cases by blast
    then show thesis using that(2) False Some ph by blast
  next
    case True
    then have pf: "process_format kws d nx = Some (segs, rest)" using Some ph by (simp add: next_phrase_def)
    then obtain f e where fl: "format_line nx = Some (f, e)"
      by (auto simp: process_format_def split: option.splits)
    then obtain h z r where h: "drop 7 nx = h @ NEWLINE # r" "e = NEWLINE # r" "format_shape h f z"
      using format_line_iff by blast
    have nx: "nx = ''Format:'' @ h @ NEWLINE # r" using True h(1) by (metis append_take_drop_id)
    have "next_phrase kws d nx = Some ((''Format:'' @ h @ [NEWLINE]) #
        (if d then [] else replaced kws [] False DQUOTE f), dropWhile (\<lambda>c. c \<noteq> NEWLINE) r)"
      using process_format_eq [of h r f] fl True nx h(2) by (simp add: next_phrase_def)
    then show thesis using that(3) nx h(3) by blast
  qed
qed

lemma next_phrase_key:
  "key_shape kws k x \<Longrightarrow> take 7 (k @ x @ DOLLAR # rest) \<noteq> ''Format:'' \<Longrightarrow>
   next_phrase kws d (k @ x @ DOLLAR # rest) = Some (key_segs kws d k, rest)"
  by (simp add: next_phrase_def process_normal_key_shape)

lemma next_phrase_format:
  assumes "format_shape h f z"
  shows "next_phrase kws d (''Format:'' @ h @ NEWLINE # old) =
    Some ((''Format:'' @ h @ [NEWLINE]) # (if d then [] else replaced kws [] False DQUOTE f),
      dropWhile (\<lambda>c. c \<noteq> NEWLINE) old)"
proof -
  have "format_line (''Format:'' @ h @ NEWLINE # old) = Some (f, NEWLINE # old)"
    unfolding format_line_iff using assms by (intro exI [of _ h] exI [of _ z] exI [of _ old]) simp
  from process_format_eq [OF this] show ?thesis by (simp add: next_phrase_def)
qed

text \<open>A key cannot be mistaken for \<open>Format:\<close>.\<close>

lemma take_key:
  assumes "COLON \<notin> set k" and "cstring k \<noteq> ''Format''"
  shows "take 7 (k @ COLON # r) \<noteq> ''Format:''"
proof
  assume h: "take 7 (k @ COLON # r) = ''Format:''"
  have "k = takeWhile (\<lambda>c. c \<noteq> COLON) (k @ COLON # r)" by (simp add: takeWhile_first [OF assms(1)])
  moreover have "takeWhile (\<lambda>c. c \<noteq> COLON) (take 7 (k @ COLON # r)) = ''Format''" unfolding h by simp
  moreover have "k @ COLON # r = take 7 (k @ COLON # r) @ drop 7 (k @ COLON # r)"
    by (rule append_take_drop_id [symmetric])
  ultimately have "k = takeWhile (\<lambda>c. c \<noteq> COLON) (''Format:'' @ drop 7 (k @ COLON # r))" unfolding h by metis
  then have "k = ''Format''" by simp
  then show False using assms(2) by (simp add: cstring_def)
qed

lemma key_segs_set:
  assumes "key_shape kws k x" and "tame_keywords kws"
  obtains v where "concat (key_segs kws False k) = k @ '': '' @ v @ '' $''"
    "\<forall>c \<in> set v. tame_char c \<and> c \<noteq> DOLLAR"
proof -
  have "key_text k = k" using assms(1) key_text_shape(2) [of k "[]"] by (auto simp: key_shape_def)
  then have "find_keyword kws k \<noteq> None" using assms(1) by (simp add: find_keyword_dom key_shape_def)
  then obtain ck v where kv: "find_keyword kws k = Some (ck, v)" by auto
  have "\<forall>c \<in> set (concat (replaced kws [ck] True NUL v)). tame_char c \<and> c \<noteq> DOLLAR"
    by (rule replaced_tame [OF assms(2) tame_value [OF assms(2) kv]])
  then show thesis by (rule that [rotated]) (simp add: key_segs_def kv)
qed

lemma dropWhile_line:
  "dropWhile (\<lambda>c. c \<noteq> NEWLINE) s = [] \<or> (\<exists>r. dropWhile (\<lambda>c. c \<noteq> NEWLINE) s = NEWLINE # r)"
  using hd_dropWhile [of "\<lambda>c. c \<noteq> NEWLINE" s] by (cases "dropWhile (\<lambda>c. c \<noteq> NEWLINE) s") auto

text \<open>What setting the keys keeps: where the automaton ends.\<close>

lemma run_converted:
  assumes "keys_ok kws"
  shows "format_run s (converted kws False t) = Format \<Longrightarrow> format_run s t = Format"
proof (induction t arbitrary: s rule: measure_induct_rule [of length])
  case (less t)
  show ?case
  proof (rule plain_or_dollar [of t])
    assume "DOLLAR \<notin> set t"
    then show ?thesis using less.prems by (simp add: converted_plain)
  next
    fix p nx assume t: "t = p @ DOLLAR # nx" and p: "DOLLAR \<notin> set p"
    define s' where "s' = format_step (format_run s p) DOLLAR"
    have s': "s' \<in> {InString, AfterDollar, Format, NoFormat}" unfolding s'_def by (rule step_dollar)
    have run: "format_run s' (after_dollar kws False nx) = Format"
      using less.prems by (simp add: t converted_dollar [OF p] s'_def)
    have IH: "format_run u (converted kws False y) = Format \<Longrightarrow> format_run u y = Format"
      if "length y \<le> length nx" for u y using less.IH [of y u] that t by simp
    have "format_run s' nx = Format"
    proof (rule next_phrase_cases [of kws False nx])
      assume "next_phrase kws False nx = None"
      then show ?thesis using run IH by (simp add: after_dollar_def)
    next
      fix k x rest assume nx: "nx = k @ x @ DOLLAR # rest" and sh: "key_shape kws k x"
        and np: "next_phrase kws False nx = Some (key_segs kws False k, rest)"
      obtain v where v: "concat (key_segs kws False k) = k @ '': '' @ v @ '' $''" "\<forall>c \<in> set v. tame_char c \<and> c \<noteq> DOLLAR"
        by (rule key_segs_set [OF sh]) (use assms in \<open>auto simp: keys_ok_def\<close>)
      have after: "after_dollar kws False nx = k @ '': '' @ v @ '' $'' @ converted kws False rest"
        using np v(1) by (simp add: after_dollar_def)
      have free: "NEWLINE \<notin> set k" "DOLLAR \<notin> set k" "NEWLINE \<notin> set x" "DOLLAR \<notin> set x"
        using sh by (auto simp: key_shape_def)
      have le: "length rest \<le> length nx" by (simp add: nx)
      consider "s' = Format" | "s' = AfterDollar" | "s' = InString" using s' run by auto
      then show ?thesis
      proof cases
        case 1
        then show ?thesis by simp
      next
        case 2
        have "NEWLINE \<in> set (after_dollar kws False nx)" using run_newline [OF run] 2 by simp
        then have "NEWLINE \<in> set (converted kws False rest)"
          unfolding after using free v(2) by (auto simp: tame_char_def)
        then have "NEWLINE \<in> set rest" using IH [OF le, of AfterDollar] by (simp add: run_dollar)
        then show ?thesis unfolding 2 run_dollar nx by simp
      next
        case 3
        define s1 where "s1 = format_run InString k"
        have s1: "s1 \<in> {InString, Escaped, AfterString}"
          using run_in_line [OF free(1,2), of InString] unfolding s1_def by simp
        have x: "format_run s1 x \<in> {InString, Escaped, AfterString}" "s1 = AfterString \<longrightarrow> format_run s1 x = AfterString"
          using run_in_line [OF free(3,4) s1] by auto
        define s2 where "s2 = (if s1 = AfterString then AfterString else InString)"
        have "format_run s1 '': '' = s2" using s1 by (auto simp: s2_def)
        moreover have "format_run s2 v = s2" by (rule run_tame [OF v(2)]) (simp add: s2_def)
        moreover have "format_run s2 '' $'' = (if s1 = AfterString then AfterDollar else InString)"
          by (simp add: s2_def)
        ultimately have new: "format_run (if s1 = AfterString then AfterDollar else InString) (converted kws False rest) = Format"
          using run unfolding after 3 by (simp add: s1_def [symmetric])
        have old: "format_run s' nx = format_run (format_step (format_run s1 x) DOLLAR) rest"
          by (simp add: nx 3 s1_def)
        show ?thesis
        proof (cases "s1 = AfterString")
          case True
          then show ?thesis using old x(2) IH [OF le] new by simp
        next
          case False
          then have inr: "format_run InString rest = Format" using IH [OF le] new by simp
          then have "format_run AfterDollar rest = Format" using run_newline [OF inr] by (simp add: run_dollar)
          then show ?thesis using old x(1) inr by auto
        qed
      qed
    next
      fix h f z r assume nx: "nx = ''Format:'' @ h @ NEWLINE # r" and sh: "format_shape h f z"
        and np: "next_phrase kws False nx = Some ((''Format:'' @ h @ [NEWLINE]) #
          (if False then [] else replaced kws [] False DQUOTE f), dropWhile (\<lambda>c. c \<noteq> NEWLINE) r)"
      let ?l = "''Format:'' @ h @ [NEWLINE]"
      have v: "format_run s' ?l \<in> {Format, NoFormat}" by (rule run_format_line [OF sh s'])
      obtain y where "after_dollar kws False nx = ?l @ y" using np by (simp add: after_dollar_def)
      then have "format_run s' ?l = Format" using run v by (auto simp del: append_Cons)
      moreover have "nx = ?l @ r" using nx by simp
      ultimately show ?thesis by (metis foldl_append run_verdict(1))
    qed
    then show ?thesis by (simp add: t s'_def)
  qed
qed

lemma take_append_dollar:
  assumes "DOLLAR \<notin> set p"
  shows "take 7 (p @ DOLLAR # y) = ''Format:'' \<longleftrightarrow> take 7 (p @ DOLLAR # z) = ''Format:''"
proof (cases "7 \<le> length p")
  case False
  then obtain n where n: "7 - length p = Suc n" by (cases "7 - length p") auto
  have "take 7 (p @ DOLLAR # w) \<noteq> ''Format:''" for w
  proof
    assume h: "take 7 (p @ DOLLAR # w) = ''Format:''"
    have "DOLLAR \<in> set (take 7 (p @ DOLLAR # w))" using False n by simp
    then show False unfolding h by simp
  qed
  then show ?thesis by simp
qed simp

lemma take_converted: "take 7 (converted kws d t) = ''Format:'' \<longleftrightarrow> take 7 t = ''Format:''"
proof (rule plain_or_dollar [of t])
  assume "DOLLAR \<notin> set t"
  from converted_plain [OF this] show ?thesis by simp
next
  fix p nx assume t: "t = p @ DOLLAR # nx" and p: "DOLLAR \<notin> set p"
  show ?thesis unfolding t converted_dollar [OF p] by (rule take_append_dollar [OF p])
qed

text \<open>Where there was no phrase there is none afterwards.\<close>

lemma no_phrase_converted:
  assumes "keys_ok kws" and dom: "fst ` set kws' = fst ` set kws" and none: "next_phrase kws d nx = None"
  shows "next_phrase kws' d' (converted kws False nx) = None"
proof (cases "take 7 nx = ''Format:''")
  case True
  have nx: "nx = ''Format:'' @ drop 7 nx" using True by (metis append_take_drop_id)
  have "converted kws False nx = ''Format:'' @ converted kws False (drop 7 nx)"
    by (subst nx, rule converted_append) simp
  then have "drop 7 (converted kws False nx) = converted kws False (drop 7 nx)" by simp
  moreover have "format_line nx = None"
    using none True by (auto simp: next_phrase_def process_format_def split: option.splits)
  ultimately have "format_line (converted kws False nx) = None"
    using run_converted [OF assms(1)] format_line_run by metis
  then show ?thesis using True take_converted by (simp add: next_phrase_def process_format_def)
next
  case False
  have pn: "process_normal_key kws [] d False True nx = None" using none False by (simp add: next_phrase_def)
  have "process_normal_key kws' [] d' False True (converted kws False nx) = None"
  proof (rule plain_or_dollar [of nx])
    assume "DOLLAR \<notin> set nx"
    then have "end_phrase (converted kws False nx) = None"
      by (auto simp: converted_plain end_phrase_iff simp flip: not_Some_eq)
    then show ?thesis by (simp add: process_normal_key_def)
  next
    fix p m assume nx: "nx = p @ DOLLAR # m" and p: "DOLLAR \<notin> set p"
    show ?thesis
    proof (rule ccontr)
      assume "process_normal_key kws' [] d' False True (converted kws False nx) \<noteq> None"
      then obtain segs rest where "process_normal_key kws' [] d' False True (p @ DOLLAR # after_dollar kws False m) = Some (segs, rest)"
        by (auto simp: nx converted_dollar [OF p])
      from process_normal_key_cases [OF this] obtain k x where
        k: "p @ DOLLAR # after_dollar kws False m = k @ x @ DOLLAR # rest" "key_shape kws' k x" by blast
      have "DOLLAR \<notin> set (k @ x)" using k(2) by (auto simp: key_shape_def)
      then have "p = k @ x"
        using takeWhile_first [OF p, of "after_dollar kws False m"] takeWhile_first [of DOLLAR "k @ x" rest] k(1) by simp
      then have "nx = k @ x @ DOLLAR # m" using nx by simp
      moreover have "key_shape kws k x" using k(2) dom by (simp add: key_shape_def)
      ultimately show False using pn process_normal_key_shape [of kws k x d m] by simp
    qed
  qed
  then show ?thesis using False take_converted by (simp add: next_phrase_def)
qed

lemma next_phrase_dom:
  assumes "fst ` set kws' = fst ` set kws" and "next_phrase kws d nx = None"
  shows "next_phrase kws' d' nx = None"
proof -
  have "find_keyword kws' nx = None \<longleftrightarrow> find_keyword kws nx = None" by (simp add: find_keyword_dom assms(1))
  then show ?thesis
    using assms(2) by (auto simp: next_phrase_def process_format_def process_normal_key_def split: option.splits if_splits)
qed

lemma drop_line: "NEWLINE \<notin> set u \<Longrightarrow> y = [] \<or> (\<exists>r. y = NEWLINE # r) \<Longrightarrow> dropWhile (\<lambda>c. c \<noteq> NEWLINE) (u @ y) = y"
  by (induction u) auto

lemma converted_twice:
  assumes ok: "keys_ok kws" and dom: "fst ` set kws' = fst ` set kws"
  shows "no_continuation t \<Longrightarrow> converted kws' d (converted kws False t) = converted kws' d t"
proof (induction t rule: measure_induct_rule [of length])
  case (less t)
  show ?case
  proof (rule plain_or_dollar [of t])
    assume "DOLLAR \<notin> set t"
    then show ?thesis by (simp add: converted_plain)
  next
    fix p nx assume t: "t = p @ DOLLAR # nx" and p: "DOLLAR \<notin> set p"
    have nc: "no_continuation nx" using less.prems no_continuation_append [of "p @ [DOLLAR]" nx] by (simp add: t)
    have IH: "converted kws' d (converted kws False y) = converted kws' d y" if "nx = u @ y" for u y
      using less.IH [of y] that nc no_continuation_append [of u y] by (simp add: t)
    have "after_dollar kws' d (after_dollar kws False nx) = after_dollar kws' d nx"
    proof (rule next_phrase_cases [of kws False nx])
      assume np: "next_phrase kws False nx = None"
      then have "after_dollar kws False nx = converted kws False nx" by (simp add: after_dollar_def)
      then show ?thesis
        using no_phrase_converted [OF ok dom np] next_phrase_dom [OF dom np] IH [of "[]" nx]
        by (simp add: after_dollar_def)
    next
      fix k x rest assume nx: "nx = k @ x @ DOLLAR # rest" and sh: "key_shape kws k x" and nf: "take 7 nx \<noteq> ''Format:''"
        and np: "next_phrase kws False nx = Some (key_segs kws False k, rest)"
      obtain v where v: "concat (key_segs kws False k) = k @ '': '' @ v @ '' $''" "\<forall>c \<in> set v. tame_char c \<and> c \<noteq> DOLLAR"
        by (rule key_segs_set [OF sh]) (use ok in \<open>auto simp: keys_ok_def\<close>)
      let ?x = "'': '' @ v @ '' ''"
      have A: "after_dollar kws False nx = k @ ?x @ DOLLAR # converted kws False rest"
        using np v(1) by (simp add: after_dollar_def)
      have sh': "key_shape kws' k x" "key_shape kws' k ?x"
        using sh dom v(2) by (auto simp: key_shape_def tame_char_def)
      have "cstring k \<noteq> ''Format''" "COLON \<notin> set k" using sh ok unfolding key_shape_def keys_ok_def by metis+
      from take_key [OF this(2,1), of "'' '' @ v @ '' '' @ DOLLAR # converted kws False rest"]
      have "take 7 (k @ ?x @ DOLLAR # converted kws False rest) \<noteq> ''Format:''" by simp
      then have "next_phrase kws' d (after_dollar kws False nx) = Some (key_segs kws' d k, converted kws False rest)"
        unfolding A by (rule next_phrase_key [OF sh'(2)])
      moreover have "next_phrase kws' d nx = Some (key_segs kws' d k, rest)"
        unfolding nx by (rule next_phrase_key [OF sh'(1) nf [unfolded nx]])
      moreover have "converted kws' d (converted kws False rest) = converted kws' d rest"
        by (rule IH [of "k @ x @ [DOLLAR]"]) (simp add: nx)
      ultimately show ?thesis by (simp add: after_dollar_def)
    next
      fix h f z old assume nx: "nx = ''Format:'' @ h @ NEWLINE # old" and sh: "format_shape h f z"
        and np: "next_phrase kws False nx = Some ((''Format:'' @ h @ [NEWLINE]) #
          (if False then [] else replaced kws [] False DQUOTE f), dropWhile (\<lambda>c. c \<noteq> NEWLINE) old)"
      let ?rest = "dropWhile (\<lambda>c. c \<noteq> NEWLINE) old"
      let ?F = "concat (replaced kws [] False DQUOTE f)"
      have A: "after_dollar kws False nx = ''Format:'' @ h @ NEWLINE # ?F @ converted kws False ?rest"
        using np by (simp add: after_dollar_def)
      obtain sp y where "h = sp @ DQUOTE # f @ y" "quoted f" using sh by (auto simp: format_shape_def)
      then have "no_continuation f"
        using nc no_continuation_append [of "''Format:'' @ sp @ [DQUOTE]" "f @ y @ NEWLINE # old"]
          no_continuation_append [of f "y @ NEWLINE # old"] by (simp add: nx)
      then have "NEWLINE \<notin> set f" using quoted_line \<open>quoted f\<close> by blast
      then have F: "NEWLINE \<notin> set ?F" using ok by (intro replaced_line) (simp_all add: keys_ok_def)
      have "converted kws False ?rest = [] \<or> (\<exists>r. converted kws False ?rest = NEWLINE # r)"
      proof (cases "?rest = []")
        case True
        have "converted kws False [] = []" by (simp add: converted_plain)
        then show ?thesis unfolding True by simp
      next
        case False
        then obtain r where r: "?rest = NEWLINE # r" using dropWhile_line [of old] by blast
        have "converted kws False ([NEWLINE] @ r) = [NEWLINE] @ converted kws False r"
          by (rule converted_append) simp
        then show ?thesis by (simp add: r)
      qed
      then have drop: "dropWhile (\<lambda>c. c \<noteq> NEWLINE) (?F @ converted kws False ?rest) = converted kws False ?rest"
        by (rule drop_line [OF F])
      have "\<exists>u. old = u @ ?rest" by (metis takeWhile_dropWhile_id)
      then obtain u where "old = u @ ?rest" by blast
      then have ih: "converted kws' d (converted kws False ?rest) = converted kws' d ?rest"
        by (intro IH [of "''Format:'' @ h @ NEWLINE # u"]) (simp add: nx)
      have "next_phrase kws' d (after_dollar kws False nx) = Some ((''Format:'' @ h @ [NEWLINE]) #
          (if d then [] else replaced kws' [] False DQUOTE f), converted kws False ?rest)"
        unfolding A next_phrase_format [OF sh] drop ..
      moreover have "next_phrase kws' d nx = Some ((''Format:'' @ h @ [NEWLINE]) #
          (if d then [] else replaced kws' [] False DQUOTE f), ?rest)"
        unfolding nx by (rule next_phrase_format [OF sh])
      ultimately show ?thesis using ih by (simp add: after_dollar_def)
    qed
    then show ?thesis by (simp add: t converted_dollar [OF p])
  qed
qed

lemma convert_writes:
  "hoare (\<lambda>o'. o' = \<lparr>written = [], unchanged_segment = 0, unchanged_len = 0, output_changed = False\<rparr>)
     (convert sink bad kws d t) (\<lambda>_. keys_written sink t (converted kws d t)) (keys_failed sink bad)"
proof -
  have "hoare (\<lambda>o'. o' = \<lparr>written = [], unchanged_segment = 0, unchanged_len = 0, output_changed = False\<rparr>)
     (convert sink bad kws d t) (\<lambda>_. keys_written sink t ([] @ converted kws d t)) (keys_failed sink bad)"
    unfolding convert_def by (rule hoare_then [OF hoare_upd convert_loop_writes]) (simp add: keys_inv_def)
  then show ?thesis by simp
qed

lemma setkeys_written:
  assumes "setkeys_internal True bad kws d t = Inr (c, w)"
  shows "w = converted kws d t"
  using hoareD [OF convert_writes [of True bad kws d t]] assms
  by (auto simp: setkeys_internal_def keys_written_def split: prod.splits sum.splits)

lemma setkeys_returns: "\<exists>c w. setkeys_internal True (\<lambda>_. False) kws d t = Inr (c, w)"
  using hoare_errD [OF convert_writes [of True "\<lambda>_. False" kws d t]]
  by (auto simp: setkeys_internal_def keys_failed_def split: prod.splits sum.splits)

text \<open>
  C26. Setting the keywords of a file loses nothing: whatever values were written into the text,
  unsetting the keywords of the result gives what unsetting the keywords of the original gives,
  and setting them again with other values gives what setting the original gives (\<open>d\<close> is the
  second action). So a checked-out file and its repository version have the same unkeyed text.
  The values may hold dollars, but no newline, quote or backslash; no keyword is called Format,
  which is reserved; and no line of the text ends in a backslash.
\<close>
theorem setkeys_again:
  assumes "keys_ok kws" and "fst ` set kws' = fst ` set kws" and "no_continuation text"
    and "setkeys_internal True bad kws False text = Inr (c1, keyed)"
    and "setkeys_internal True bad' kws' d keyed = Inr (c2, w2)"
    and "setkeys_internal True bad'' kws' d text = Inr (c3, w3)"
  shows "w2 = w3"
  using setkeys_written [OF assms(4)] setkeys_written [OF assms(5)] setkeys_written [OF assms(6)]
    converted_twice [OF assms(1-3)] by simp

theorem setkeys_again_witness:
  "\<exists>keyed. setkeys_internal True (\<lambda>_. False) [(''Id'', ''a 1.2'')] False ''x $Id$'' = Inr (True, keyed) \<and>
     (\<exists>c. setkeys_internal True (\<lambda>_. False) [(''Id'', '''')] True keyed = Inr (c, ''x $Id$''))"
proof -
  have a: "setkeys_internal True (\<lambda>_. False) [(''Id'', ''a 1.2'')] False ''x $Id$'' = Inr (True, ''x $Id: a 1.2 $'')"
    by code_simp
  have b: "setkeys_internal True (\<lambda>_. False) [(''Id'', '''')] True ''x $Id$'' = Inr (False, ''x $Id$'')"
    by code_simp
  obtain c w where w: "setkeys_internal True (\<lambda>_. False) [(''Id'', '''')] True ''x $Id: a 1.2 $'' = Inr (c, w)"
    using setkeys_returns by blast
  have nc: "no_continuation ''x $Id$''"
    by (auto simp: no_continuation_def Cons_eq_append_conv)
  have "w = ''x $Id$''"
    by (rule setkeys_again [OF _ _ nc a w b]) (auto simp: keys_ok_def tame_keywords_def tame_char_def)
  then show ?thesis using a w by blast
qed

text \<open>A format line whose output ends the file without a newline loses it unnoticed.\<close>

lemma format_at_end_unnoticed:
  "setkeys_internal True (\<lambda>_. False) [] True
     (''$Format: '' @ [DQUOTE, CHR ''a'', DQUOTE, DOLLAR, NEWLINE] @ ''old'') =
   Inr (False, ''$Format: '' @ [DQUOTE, CHR ''a'', DQUOTE, DOLLAR, NEWLINE])"
  by code_simp

end
