(* ===== verification/Md5.thy ===== *)
theory Md5
  imports Prelude "HOL-Library.Word"
begin

text \<open>
  The MD5 digest of \<open>src/src/md5c.c\<close>, as \<open>md5_buffer\<close> of \<open>src/src/rebuild.cc\<close> uses it for the
  checksum of a file. A byte is an \<open>8 word\<close>, \<open>UINT4\<close> and \<open>unsigned int\<close> are \<open>32 word\<close>. The test
  \<open>i + 63 < inputLen\<close> wraps close to \<open>2\<^sup>3\<^sup>2\<close>; an update that would read beyond its input is \<open>None\<close>.
\<close>

unbundle bit_operations_syntax

section \<open>The transformation of a block\<close>

definition F :: "32 word \<Rightarrow> 32 word \<Rightarrow> 32 word \<Rightarrow> 32 word" where
  "F x y z = ((x AND y) OR ((NOT x) AND z))"

definition G :: "32 word \<Rightarrow> 32 word \<Rightarrow> 32 word \<Rightarrow> 32 word" where
  "G x y z = ((x AND z) OR (y AND (NOT z)))"

definition H :: "32 word \<Rightarrow> 32 word \<Rightarrow> 32 word \<Rightarrow> 32 word" where
  "H x y z = (x XOR y XOR z)"

definition I :: "32 word \<Rightarrow> 32 word \<Rightarrow> 32 word \<Rightarrow> 32 word" where
  "I x y z = (y XOR (x OR (NOT z)))"

definition ROTATE_LEFT :: "32 word \<Rightarrow> nat \<Rightarrow> 32 word" where
  "ROTATE_LEFT x n = (push_bit n x OR drop_bit (32 - n) x)"

abbreviation S11 :: nat where "S11 \<equiv> 7"
abbreviation S12 :: nat where "S12 \<equiv> 12"
abbreviation S13 :: nat where "S13 \<equiv> 17"
abbreviation S14 :: nat where "S14 \<equiv> 22"
abbreviation S21 :: nat where "S21 \<equiv> 5"
abbreviation S22 :: nat where "S22 \<equiv> 9"
abbreviation S23 :: nat where "S23 \<equiv> 14"
abbreviation S24 :: nat where "S24 \<equiv> 20"
abbreviation S31 :: nat where "S31 \<equiv> 4"
abbreviation S32 :: nat where "S32 \<equiv> 11"
abbreviation S33 :: nat where "S33 \<equiv> 16"
abbreviation S34 :: nat where "S34 \<equiv> 23"
abbreviation S41 :: nat where "S41 \<equiv> 6"
abbreviation S42 :: nat where "S42 \<equiv> 10"
abbreviation S43 :: nat where "S43 \<equiv> 15"
abbreviation S44 :: nat where "S44 \<equiv> 21"

text \<open>
  One line of a round, the macros \<open>FF\<close>, \<open>GG\<close>, \<open>HH\<close> and \<open>II\<close> with their function as an argument.
  The code names the four registers in turn, \<open>abcd\<close>, \<open>dabc\<close>, \<open>cdab\<close>, \<open>bcda\<close>; here the registers
  move instead, and after the sixteen lines of a round they are back in place.
\<close>

type_synonym registers = "32 word \<times> 32 word \<times> 32 word \<times> 32 word"

definition md5_line ::
  "(32 word \<Rightarrow> 32 word \<Rightarrow> 32 word \<Rightarrow> 32 word) \<Rightarrow> 32 word list \<Rightarrow> registers \<Rightarrow> nat \<times> nat \<times> 32 word \<Rightarrow> registers" where
  "md5_line f x r l =
     (case (r, l) of ((a, b, c, d), (k, s, ac)) \<Rightarrow>
        (d, ROTATE_LEFT (a + (f b c d + x ! k + ac)) s + b, b, c))"

text \<open>The words and constants of the lines of each round.\<close>

definition round_FF :: "(nat \<times> nat \<times> 32 word) list" where
  "round_FF =
    [(0, S11, 0xd76aa478), (1, S12, 0xe8c7b756), (2, S13, 0x242070db), (3, S14, 0xc1bdceee),
     (4, S11, 0xf57c0faf), (5, S12, 0x4787c62a), (6, S13, 0xa8304613), (7, S14, 0xfd469501),
     (8, S11, 0x698098d8), (9, S12, 0x8b44f7af), (10, S13, 0xffff5bb1), (11, S14, 0x895cd7be),
     (12, S11, 0x6b901122), (13, S12, 0xfd987193), (14, S13, 0xa679438e), (15, S14, 0x49b40821)]"

definition round_GG :: "(nat \<times> nat \<times> 32 word) list" where
  "round_GG =
    [(1, S21, 0xf61e2562), (6, S22, 0xc040b340), (11, S23, 0x265e5a51), (0, S24, 0xe9b6c7aa),
     (5, S21, 0xd62f105d), (10, S22, 0x2441453), (15, S23, 0xd8a1e681), (4, S24, 0xe7d3fbc8),
     (9, S21, 0x21e1cde6), (14, S22, 0xc33707d6), (3, S23, 0xf4d50d87), (8, S24, 0x455a14ed),
     (13, S21, 0xa9e3e905), (2, S22, 0xfcefa3f8), (7, S23, 0x676f02d9), (12, S24, 0x8d2a4c8a)]"

definition round_HH :: "(nat \<times> nat \<times> 32 word) list" where
  "round_HH =
    [(5, S31, 0xfffa3942), (8, S32, 0x8771f681), (11, S33, 0x6d9d6122), (14, S34, 0xfde5380c),
     (1, S31, 0xa4beea44), (4, S32, 0x4bdecfa9), (7, S33, 0xf6bb4b60), (10, S34, 0xbebfbc70),
     (13, S31, 0x289b7ec6), (0, S32, 0xeaa127fa), (3, S33, 0xd4ef3085), (6, S34, 0x4881d05),
     (9, S31, 0xd9d4d039), (12, S32, 0xe6db99e5), (15, S33, 0x1fa27cf8), (2, S34, 0xc4ac5665)]"

definition round_II :: "(nat \<times> nat \<times> 32 word) list" where
  "round_II =
    [(0, S41, 0xf4292244), (7, S42, 0x432aff97), (14, S43, 0xab9423a7), (5, S44, 0xfc93a039),
     (12, S41, 0x655b59c3), (3, S42, 0x8f0ccc92), (10, S43, 0xffeff47d), (1, S44, 0x85845dd1),
     (8, S41, 0x6fa87e4f), (15, S42, 0xfe2ce6e0), (6, S43, 0xa3014314), (13, S44, 0x4e0811a1),
     (4, S41, 0xf7537e82), (11, S42, 0xbd3af235), (2, S43, 0x2ad7d2bb), (9, S44, 0xeb86d391)]"

fun Decode :: "8 word list \<Rightarrow> 32 word list" where
  "Decode (b0 # b1 # b2 # b3 # bs) =
     (ucast b0 OR push_bit 8 (ucast b1) OR push_bit 16 (ucast b2) OR push_bit 24 (ucast b3)) # Decode bs"
| "Decode _ = []"

definition encode_word :: "32 word \<Rightarrow> 8 word list" where
  "encode_word w =
     [ucast (w AND 0xff), ucast (drop_bit 8 w AND 0xff), ucast (drop_bit 16 w AND 0xff), ucast (drop_bit 24 w AND 0xff)]"

definition Encode :: "32 word list \<Rightarrow> 8 word list" where
  "Encode ws = concat (map encode_word ws)"

definition MD5Transform :: "registers \<Rightarrow> 8 word list \<Rightarrow> registers" where
  "MD5Transform state block =
     (let x = Decode block;
          r1 = foldl (md5_line F x) state round_FF;
          r2 = foldl (md5_line G x) r1 round_GG;
          r3 = foldl (md5_line H x) r2 round_HH;
          r4 = foldl (md5_line I x) r3 round_II
      in (case (state, r4) of ((a0, b0, c0, d0), (a, b, c, d)) \<Rightarrow> (a0 + a, b0 + b, c0 + c, d0 + d)))"

section \<open>The context\<close>

record MD5_CTX =
  md_state :: registers
  count0 :: "32 word"
  count1 :: "32 word"
  buffer :: "8 word list"

definition md5_magic :: registers where
  "md5_magic = (0x67452301, 0xefcdab89, 0x98badcfe, 0x10325476)"

text \<open>The buffer of a fresh context holds anything.\<close>

definition MD5Init :: "8 word list \<Rightarrow> MD5_CTX" where
  "MD5Init junk = \<lparr>md_state = md5_magic, count0 = 0, count1 = 0, buffer = junk\<rparr>"

definition PADDING :: "8 word list" where
  "PADDING = 0x80 # replicate 63 0"

definition memcpy_at :: "nat \<Rightarrow> 8 word list \<Rightarrow> 8 word list \<Rightarrow> 8 word list" where
  "memcpy_at i xs buf = take i buf @ xs @ drop (i + length xs) buf"

lemma unat_below: "unat (w :: 32 word) < 2 ^ 32"
  using unsigned_less [of w] by simp

lemma next_position:
  fixes i n :: "32 word"
  shows "unat i + 64 \<le> unat n \<Longrightarrow> unat (i + 64) = unat i + 64"
proof -
  assume "unat i + 64 \<le> unat n"
  then have "unat i + 64 < 2 ^ 32" using unat_below [of n] by simp
  then show ?thesis by (simp add: unat_word_ariths)
qed

text \<open>
  The loop over the whole blocks from the position \<open>i\<close>: the registers and the position where it
  stops. A block that does not lie within the \<open>inputLen\<close> bytes of the input is read beyond it.
\<close>

function transform_blocks :: "registers \<Rightarrow> 8 word list \<Rightarrow> 32 word \<Rightarrow> 32 word \<Rightarrow> (registers \<times> 32 word) option" where
  "transform_blocks st input inputLen i =
     (if i + 63 < inputLen then
        (if unat i + 64 \<le> unat inputLen
         then transform_blocks (MD5Transform st (take 64 (drop (unat i) input))) input inputLen (i + 64)
         else None)
      else Some (st, i))"
  by pat_completeness auto

termination
  by (relation "measure (\<lambda>(st, input, n, i). unat n - unat i)") (auto simp: next_position)

declare transform_blocks.simps [simp del]

text \<open>\<open>input\<close> has \<open>inputLen\<close> bytes, an \<open>unsigned int\<close>.\<close>

definition MD5Update :: "MD5_CTX \<Rightarrow> 8 word list \<Rightarrow> MD5_CTX option" where
  "MD5Update ctx input =
     (let inputLen = word_of_nat (length input) :: 32 word;
          index = unat (drop_bit 3 (count0 ctx) AND 0x3F);
          c0 = count0 ctx + push_bit 3 inputLen;
          c1 = (if c0 < push_bit 3 inputLen then count1 ctx + 1 else count1 ctx) + drop_bit 29 inputLen;
          partLen = 64 - index
      in if partLen \<le> unat inputLen then
           (let buf = memcpy_at index (take partLen input) (buffer ctx)
            in case transform_blocks (MD5Transform (md_state ctx) buf) input inputLen (word_of_nat partLen) of
                 None \<Rightarrow> None
               | Some (st, i) \<Rightarrow>
                   Some \<lparr>md_state = st, count0 = c0, count1 = c1, buffer = memcpy_at 0 (drop (unat i) input) buf\<rparr>)
         else Some (ctx\<lparr>count0 := c0, count1 := c1, buffer := memcpy_at index input (buffer ctx)\<rparr>))"

definition state_words :: "registers \<Rightarrow> 32 word list" where
  "state_words r = (case r of (a, b, c, d) \<Rightarrow> [a, b, c, d])"

text \<open>The digest and the wiped context.\<close>

definition MD5Final :: "MD5_CTX \<Rightarrow> (8 word list \<times> MD5_CTX) option" where
  "MD5Final ctx =
     (let bits = Encode [count0 ctx, count1 ctx];
          index = unat (drop_bit 3 (count0 ctx) AND 0x3f);
          padLen = (if index < 56 then 56 - index else 120 - index)
      in Option.bind (MD5Update ctx (take padLen PADDING)) (\<lambda>ctx1.
         Option.bind (MD5Update ctx1 bits) (\<lambda>ctx2.
         Some (Encode (state_words (md_state ctx2)),
           \<lparr>md_state = (0, 0, 0, 0), count0 = 0, count1 = 0, buffer = replicate 64 0\<rparr>))))"

text \<open>\<open>md5_buffer\<close> of \<open>src/src/rebuild.cc\<close>.\<close>

definition md5_buffer :: "8 word list \<Rightarrow> 8 word list \<Rightarrow> 8 word list option" where
  "md5_buffer junk bytes =
     Option.bind (MD5Update (MD5Init junk) bytes) (\<lambda>ctx. map_option fst (MD5Final ctx))"

text \<open>A file that is handed over in pieces.\<close>

fun MD5Updates :: "MD5_CTX \<Rightarrow> 8 word list list \<Rightarrow> MD5_CTX option" where
  "MD5Updates ctx [] = Some ctx"
| "MD5Updates ctx (c # cs) = Option.bind (MD5Update ctx c) (\<lambda>ctx'. MD5Updates ctx' cs)"

section \<open>The digest of a message\<close>

text \<open>The definition of the digest over the whole message, after the description of MD5.\<close>

definition blocks :: "8 word list \<Rightarrow> 8 word list list" where
  "blocks m = map (\<lambda>i. take 64 (drop (64 * i) m)) [0..<length m div 64]"

definition zero_pad :: "nat \<Rightarrow> 8 word list" where
  "zero_pad len = replicate ((119 - len mod 64) mod 64) 0"

definition md5_padded :: "8 word list \<Rightarrow> 8 word list" where
  "md5_padded m = m @ 0x80 # zero_pad (length m) @
     Encode [word_of_nat (8 * length m), word_of_nat (8 * length m div 2 ^ 32)]"

definition md5_digest :: "8 word list \<Rightarrow> 8 word list" where
  "md5_digest m = Encode (state_words (foldl MD5Transform md5_magic (blocks (md5_padded m))))"

section \<open>The context stands for a message\<close>

definition represents :: "MD5_CTX \<Rightarrow> 8 word list \<Rightarrow> bool" where
  "represents ctx m \<longleftrightarrow>
     md_state ctx = foldl MD5Transform md5_magic (blocks m) \<and>
     count0 ctx = word_of_nat (8 * length m) \<and> count1 ctx = word_of_nat (8 * length m div 2 ^ 32) \<and>
     length (buffer ctx) = 64 \<and>
     take (length m mod 64) (buffer ctx) = drop (64 * (length m div 64)) m"

lemma blocks_small: "length m < 64 \<Longrightarrow> blocks m = []"
  by (simp add: blocks_def)

lemma blocks_append: "length u = 64 * k \<Longrightarrow> blocks (u @ v) = blocks u @ blocks v"
proof -
  assume u: "length u = 64 * k"
  have n: "length (u @ v) div 64 = k + length v div 64" by (simp add: u)
  have "map (\<lambda>i. take 64 (drop (64 * i) (u @ v))) [0..<k] = map (\<lambda>i. take 64 (drop (64 * i) u)) [0..<k]"
    by (rule map_cong) (auto simp: u)
  moreover have "map (\<lambda>i. take 64 (drop (64 * i) (u @ v))) [k..<k + length v div 64] =
      map (\<lambda>i. take 64 (drop (64 * i) v)) [0..<length v div 64]"
    by (rule nth_equalityI) (auto simp: u algebra_simps)
  ultimately show ?thesis
    unfolding blocks_def n upt_add_eq_append [OF le0] by (simp add: u)
qed

lemma blocks_one: "length b = 64 \<Longrightarrow> blocks b = [b]"
  by (simp add: blocks_def)

lemma blocks_whole: "blocks (take (64 * (length m div 64)) m) = blocks m"
proof -
  let ?u = "take (64 * (length m div 64)) m" and ?v = "drop (64 * (length m div 64)) m"
  have "length m mod 64 = length ?v" by (simp add: minus_mult_div_eq_mod)
  then have "blocks ?v = []" by (intro blocks_small) (metis mod_less_divisor zero_less_numeral)
  moreover have "length ?u = 64 * (length m div 64)" by simp
  from blocks_append [OF this, of ?v] have "blocks m = blocks ?u @ blocks ?v" by simp
  ultimately show ?thesis by simp
qed

lemma blocks_step: "63 < length rest \<Longrightarrow> blocks rest = take 64 rest # blocks (drop 64 rest)"
proof -
  assume r: "63 < length rest"
  have "blocks (take 64 rest @ drop 64 rest) = blocks (take 64 rest) @ blocks (drop 64 rest)"
    using r by (intro blocks_append [where k = 1]) simp
  then show ?thesis using r blocks_one [of "take 64 rest"] by simp
qed

lemma transform_blocks_eq:
  assumes "length input < 2 ^ 32 - 63" and "n \<le> length input"
  shows "transform_blocks st input (word_of_nat (length input)) (word_of_nat n) =
    Some (foldl MD5Transform st (blocks (drop n input)), word_of_nat (n + 64 * ((length input - n) div 64)))"
  using assms(2)
proof (induction "length input - n" arbitrary: st n rule: less_induct)
  case less
  have un: "unat (word_of_nat k :: 32 word) = k" if "k < 2 ^ 32" for k using that by (simp add: unat_of_nat)
  have n: "unat (word_of_nat n :: 32 word) = n" using less.prems assms(1) by (intro un) simp
  have len: "unat (word_of_nat (length input) :: 32 word) = length input" using assms(1) by (intro un) simp
  have sums: "word_of_nat n + 63 = (word_of_nat (n + 63) :: 32 word)" "word_of_nat n + 64 = (word_of_nat (n + 64) :: 32 word)"
    by simp_all
  have "unat (word_of_nat (n + 63) :: 32 word) = n + 63" using less.prems assms(1) by (intro un) simp
  then have guard: "word_of_nat n + 63 < (word_of_nat (length input) :: 32 word) \<longleftrightarrow> n + 63 < length input"
    unfolding sums word_less_nat_alt len by simp
  show ?case
  proof (cases "n + 63 < length input")
    case False
    then have "blocks (drop n input) = []" "(length input - n) div 64 = 0" by (simp_all add: blocks_small)
    then show ?thesis using False by (subst transform_blocks.simps) (simp add: guard)
  next
    case True
    have split: "blocks (drop n input) = take 64 (drop n input) # blocks (drop (n + 64) input)"
      using True blocks_step [of "drop n input"] by (simp add: add.commute)
    have "(length input - n) div 64 = Suc ((length input - (n + 64)) div 64)"
      using True by (simp add: le_div_geq)
    then have last: "n + 64 * ((length input - n) div 64) = n + 64 + 64 * ((length input - (n + 64)) div 64)"
      by simp
    have "transform_blocks st input (word_of_nat (length input)) (word_of_nat n) =
        transform_blocks (MD5Transform st (take 64 (drop n input))) input (word_of_nat (length input)) (word_of_nat (n + 64))"
    proof -
      have "n + 64 \<le> length input" using True by simp
      then show ?thesis
        unfolding transform_blocks.simps [of st] n len sums guard [unfolded sums] by (simp only: True if_True)
    qed
    also have "\<dots> = Some (foldl MD5Transform st (blocks (drop n input)),
        word_of_nat (n + 64 * ((length input - n) div 64)))"
      unfolding split last using True by (subst less.hyps) simp_all
    finally show ?thesis .
  qed
qed

section \<open>Counting\<close>

lemma index_eq: "unat (drop_bit 3 (word_of_nat (8 * n) :: 32 word) AND 0x3F) = n mod 64"
proof -
  have mask: "(0x3F :: 32 word) = mask 6" by (simp add: mask_eq_exp_minus_1)
  have "unat (drop_bit 3 (word_of_nat (8 * n) :: 32 word) AND 0x3F) = take_bit 6 (drop_bit 3 (take_bit 32 (8 * n)))"
    unfolding mask take_bit_eq_mask [symmetric]
    by (simp only: unsigned_take_bit_eq unsigned_drop_bit_eq unsigned_of_nat) simp
  also have "\<dots> = ((8 * n) mod 2 ^ 32 div 8) mod 64"
    by (simp add: take_bit_eq_mod drop_bit_eq_div)
  also have "(8 * n) mod 2 ^ 32 = 8 * (n mod 2 ^ 29)"
    using mult_mod_right [of 8 n "2 ^ 29"] by simp
  also have "8 * (n mod 2 ^ 29) div 8 mod 64 = n mod 64"
    by (simp add: mod_mod_cancel)
  finally show ?thesis .
qed

lemma low_count:
  "word_of_nat (8 * n) + push_bit 3 (word_of_nat k :: 32 word) = word_of_nat (8 * (n + k))"
  by (simp add: push_bit_eq_mult algebra_simps)

lemma high_count:
  assumes "k < 2 ^ 32"
  shows "(if (word_of_nat (8 * (n + k)) :: 32 word) < push_bit 3 (word_of_nat k)
      then word_of_nat (8 * n div 2 ^ 32) + 1 else word_of_nat (8 * n div 2 ^ 32)) + drop_bit 29 (word_of_nat k :: 32 word) =
    word_of_nat (8 * (n + k) div 2 ^ 32)"
proof -
  let ?M = "2 ^ 32 :: nat"
  define a where "a = 8 * n mod ?M"
  define b where "b = 8 * k mod ?M"
  have ab: "a < ?M" "b < ?M" by (simp_all add: a_def b_def)
  have push: "push_bit 3 (word_of_nat k :: 32 word) = word_of_nat (8 * k)"
    by (simp add: push_bit_eq_mult)
  have less: "(word_of_nat (8 * (n + k)) :: 32 word) < word_of_nat (8 * k) \<longleftrightarrow> (a + b) mod ?M < b"
    by (simp only: word_less_nat_alt unat_of_nat a_def b_def distrib_left mod_add_eq) simp
  have carry: "(a + b) mod ?M < b \<longleftrightarrow> ?M \<le> a + b"
  proof (cases "?M \<le> a + b")
    case True
    then have "(a + b) mod ?M = a + b - ?M" using ab by (simp add: mod_if)
    then show ?thesis using True ab by linarith
  next
    case False
    then have "(a + b) mod ?M = a + b" by simp
    then show ?thesis using False by linarith
  qed
  have drop: "drop_bit 29 (word_of_nat k :: 32 word) = word_of_nat (8 * k div ?M)"
  proof (rule word_unat_eq_iff [THEN iffD2])
    have "k div 2 ^ 29 < ?M" using assms by (simp add: less_mult_imp_div_less)
    moreover have "8 * k div ?M = k div 2 ^ 29" by (simp add: div_mult2_eq [symmetric])
    ultimately show "unat (drop_bit 29 (word_of_nat k :: 32 word)) = unat (word_of_nat (8 * k div ?M) :: 32 word)"
      using assms by (simp only: unsigned_drop_bit_eq unsigned_of_nat) (simp add: drop_bit_eq_div take_bit_eq_mod)
  qed
  have "8 * (n + k) div ?M = 8 * n div ?M + 8 * k div ?M + (a + b) div ?M"
    unfolding a_def b_def distrib_left by (rule div_add1_eq)
  moreover have "(a + b) div ?M = (if ?M \<le> a + b then 1 else 0)"
  proof (cases "?M \<le> a + b")
    case True
    then have "(a + b) div ?M = 1" by (intro div_nat_eqI) (use ab in simp_all)
    then show ?thesis using True by simp
  qed simp
  ultimately have "word_of_nat (8 * (n + k) div ?M) =
      word_of_nat (8 * n div ?M) + word_of_nat (8 * k div ?M) + (if ?M \<le> a + b then 1 else 0 :: 32 word)"
    by simp
  then show ?thesis unfolding push less carry drop by simp
qed

section \<open>Updating\<close>

lemma take_memcpy: "i \<le> length buf \<Longrightarrow> take (i + length xs) (memcpy_at i xs buf) = take i buf @ xs"
  by (simp add: memcpy_at_def)

lemma length_memcpy: "i + length xs \<le> length buf \<Longrightarrow> length (memcpy_at i xs buf) = length buf"
  by (simp add: memcpy_at_def)

lemma block_count:
  fixes q r :: nat
  shows "(64 * (q + 1) + r) mod 64 = r mod 64" and "(64 * (q + 1) + r) div 64 = q + 1 + r div 64"
  by (rule mod_mult_self4, rule div_mult_self4) simp

lemma drop_beyond: "drop (length u + n) (u @ v) = drop n v"
  by simp

lemma md5_update:
  assumes rep: "represents ctx m" and short: "length input < 2 ^ 32 - 63"
  obtains ctx' where "MD5Update ctx input = Some ctx'" and "represents ctx' (m @ input)"
proof -
  let ?k = "length m div 64" and ?i = "length m mod 64" and ?w = "word_of_nat (length input) :: 32 word"
  let ?old = "take (64 * ?k) m"
  have len: "length input < 2 ^ 32" using short by simp
  have un: "unat ?w = length input" using len by (simp add: unat_of_nat)
  have cnt: "count0 ctx = word_of_nat (8 * length m)" "count1 ctx = word_of_nat (8 * length m div 2 ^ 32)"
    using rep unfolding represents_def by blast+
  have idx: "unat (drop_bit 3 (count0 ctx) AND 0x3F) = ?i" unfolding cnt by (rule index_eq)
  have c0: "count0 ctx + push_bit 3 ?w = word_of_nat (8 * length (m @ input))"
    unfolding cnt low_count length_append ..
  have c1: "(if count0 ctx + push_bit 3 ?w < push_bit 3 ?w then count1 ctx + 1 else count1 ctx) + drop_bit 29 ?w =
      word_of_nat (8 * length (m @ input) div 2 ^ 32)"
    unfolding c0 cnt(2) length_append by (rule high_count [OF len])
  have buf: "length (buffer ctx) = 64" and part: "take ?i (buffer ctx) = drop (64 * ?k) m"
    and st: "md_state ctx = foldl MD5Transform md5_magic (blocks ?old)"
    using rep by (simp_all add: represents_def blocks_whole)
  have i: "?i < 64" by simp
  have old: "length ?old = 64 * ?k" by simp
  have m: "m = ?old @ take ?i (buffer ctx)" using part by simp
  have "\<exists>ctx'. MD5Update ctx input = Some ctx' \<and> represents ctx' (m @ input)"
  proof (cases "64 - ?i \<le> length input")
    case True
    let ?p = "64 - ?i"
    let ?b = "memcpy_at ?i (take ?p input) (buffer ctx)"
    let ?rest = "drop ?p input"
    have b: "?b = take ?i (buffer ctx) @ take ?p input" "length ?b = 64"
      using True i buf by (simp_all add: memcpy_at_def)
    have mi: "m @ input = (?old @ ?b) @ ?rest"
      using b(1) m by (metis append.assoc append_take_drop_id)
    have ob: "length (?old @ ?b) = 64 * (?k + 1)" using b(2) old by simp
    have bl: "blocks (m @ input) = blocks ?old @ [?b] @ blocks ?rest"
      unfolding mi blocks_append [OF ob] blocks_append [OF old] using blocks_one [OF b(2)] by simp
    define ctx' where "ctx' =
        \<lparr>md_state = foldl MD5Transform (MD5Transform (md_state ctx) ?b) (blocks ?rest),
         count0 = word_of_nat (8 * length (m @ input)), count1 = word_of_nat (8 * length (m @ input) div 2 ^ 32),
         buffer = memcpy_at 0 (drop (64 * (length ?rest div 64)) ?rest) ?b\<rparr>"
    have at: "unat (word_of_nat (?p + 64 * ((length input - ?p) div 64)) :: 32 word) =
        ?p + 64 * (length ?rest div 64)"
    proof -
      have "64 * (length ?rest div 64) \<le> length ?rest" by (rule times_div_less_eq_dividend)
      then have "?p + 64 * (length ?rest div 64) \<le> length input" using True by simp
      then have "?p + 64 * (length ?rest div 64) < 2 ^ 32" using len by (rule order.strict_trans1)
      then show ?thesis unfolding length_drop [symmetric] by (simp only: unat_of_nat) simp
    qed
    have "drop (?p + 64 * (length ?rest div 64)) input = drop (64 * (length ?rest div 64)) ?rest"
      by (simp add: add.commute)
    then have upd: "MD5Update ctx input = Some ctx'"
      using True unfolding MD5Update_def Let_def idx c1 un ctx'_def unfolding c0
      by (simp only: if_True transform_blocks_eq [OF short True] option.case prod.case at)
    have ln: "length (m @ input) = 64 * (?k + 1) + length ?rest"
      using arg_cong [OF mi, of length] ob by simp
    have md: "length (m @ input) mod 64 = length ?rest mod 64" "length (m @ input) div 64 = ?k + 1 + length ?rest div 64"
      unfolding ln by (rule block_count(1), rule block_count(2))
    have dl: "length (drop (64 * (length ?rest div 64)) ?rest) = length ?rest mod 64"
      by (simp only: length_drop minus_mult_div_eq_mod)
    have "take (length ?rest mod 64) (memcpy_at 0 (drop (64 * (length ?rest div 64)) ?rest) ?b) =
        drop (64 * (length ?rest div 64)) ?rest"
      using take_memcpy [of 0 ?b "drop (64 * (length ?rest div 64)) ?rest"] unfolding dl by simp
    moreover have "drop (64 * (?k + 1 + length ?rest div 64)) (m @ input) = drop (64 * (length ?rest div 64)) ?rest"
    proof -
      have "64 * (?k + 1 + length ?rest div 64) = length (?old @ ?b) + 64 * (length ?rest div 64)"
        unfolding ob by (simp only: distrib_left)
      then show ?thesis unfolding mi by (simp only: drop_beyond)
    qed
    moreover have "length (memcpy_at 0 (drop (64 * (length ?rest div 64)) ?rest) ?b) = 64"
    proof -
      have "length ?rest mod 64 \<le> 64" by (metis less_imp_le mod_less_divisor zero_less_numeral)
      then have "0 + length (drop (64 * (length ?rest div 64)) ?rest) \<le> length ?b" unfolding dl b(2) by simp
      from length_memcpy [OF this] show ?thesis unfolding b(2) .
    qed
    ultimately show ?thesis
      unfolding represents_def md bl by (intro exI [of _ ctx'] conjI upd)
        (simp_all only: ctx'_def MD5_CTX.simps st foldl_append foldl.simps simp_thms)
  next
    case False
    then have l: "?i + length input < 64" by simp
    have k: "length (m @ input) div 64 = ?k" "length (m @ input) mod 64 = ?i + length input"
    proof -
      have ln: "length (m @ input) = 64 * ?k + (?i + length input)" by simp
      show "length (m @ input) div 64 = ?k" unfolding ln using l by (subst div_mult_self4) simp_all
      show "length (m @ input) mod 64 = ?i + length input" unfolding ln using l by (subst mod_mult_self4) simp_all
    qed
    have "blocks (m @ input) = blocks (take (64 * ?k) (m @ input))" using blocks_whole [of "m @ input"] k(1) by simp
    also have "take (64 * ?k) (m @ input) = ?old" by simp
    finally have bl: "blocks (m @ input) = blocks ?old" .
    have upd: "MD5Update ctx input = Some (ctx\<lparr>count0 := word_of_nat (8 * length (m @ input)),
        count1 := word_of_nat (8 * length (m @ input) div 2 ^ 32), buffer := memcpy_at ?i input (buffer ctx)\<rparr>)"
      using False unfolding MD5Update_def Let_def idx c1 un unfolding c0 by simp
    have "take (?i + length input) (memcpy_at ?i input (buffer ctx)) = drop (64 * ?k) m @ input"
      using buf part by (subst take_memcpy) simp_all
    moreover have "length (memcpy_at ?i input (buffer ctx)) = 64"
      using buf l by (subst length_memcpy) simp_all
    ultimately show ?thesis unfolding represents_def upd k bl by (simp add: st)
  qed
  then show ?thesis using that by blast
qed

section \<open>The digest\<close>

lemma md5_init: "length junk = 64 \<Longrightarrow> represents (MD5Init junk) []"
  by (simp add: represents_def MD5Init_def blocks_small)

lemma md5_updates:
  "represents ctx m \<Longrightarrow> \<forall>c \<in> set cs. length c < 2 ^ 32 - 63 \<Longrightarrow>
   \<exists>ctx'. MD5Updates ctx cs = Some ctx' \<and> represents ctx' (m @ concat cs)"
proof (induction cs arbitrary: ctx m)
  case (Cons c cs)
  have "length c < 2 ^ 32 - 63" using Cons.prems(2) by simp
  then obtain ctx1 where c: "MD5Update ctx c = Some ctx1" "represents ctx1 (m @ c)"
    using md5_update [OF Cons.prems(1)] by blast
  from Cons.IH [OF c(2)] Cons.prems(2) c(1) show ?case by simp
qed simp

lemma length_encode: "length (Encode ws) = 4 * length ws"
  by (induction ws) (simp_all add: Encode_def encode_word_def)

lemma padding_taken:
  "take (if n mod 64 < 56 then 56 - n mod 64 else 120 - n mod 64) PADDING = 0x80 # zero_pad n"
proof -
  define i where "i = n mod 64"
  have i: "i < 64" by (simp add: i_def)
  have z: "(119 - i) mod 64 = (if i < 56 then 55 - i else 119 - i)"
  proof (cases "i < 56")
    case True
    then have "119 - i = 64 + (55 - i)" by simp
    then have "(119 - i) mod 64 = (55 - i) mod 64" by (simp only: mod_add_self1)
    then show ?thesis using True by simp
  qed (use i in simp)
  have len: "(if i < 56 then 56 - i else 120 - i) = Suc (if i < 56 then 55 - i else 119 - i)"
    using i by (cases "i < 56") auto
  have "(if i < 56 then 55 - i else 119 - i) \<le> 63" using i by (cases "i < 56") auto
  then show ?thesis
    unfolding zero_pad_def i_def [symmetric] z len by (simp add: PADDING_def)
qed

lemma md5_final:
  assumes "represents ctx m"
  shows "map_option fst (MD5Final ctx) = Some (md5_digest m)"
proof -
  let ?pad = "0x80 # zero_pad (length m)"
  let ?bits = "Encode [count0 ctx, count1 ctx]"
  have cnt: "count0 ctx = word_of_nat (8 * length m)" "count1 ctx = word_of_nat (8 * length m div 2 ^ 32)"
    using assms unfolding represents_def by blast+
  have idx: "unat (drop_bit 3 (count0 ctx) AND 0x3f) = length m mod 64" unfolding cnt by (rule index_eq)
  have "length ?pad < 2 ^ 32 - 63" by (simp add: zero_pad_def less_trans [OF mod_less_divisor])
  then obtain ctx1 where u1: "MD5Update ctx ?pad = Some ctx1" "represents ctx1 (m @ ?pad)"
    using md5_update [OF assms] by blast
  have "length ?bits < 2 ^ 32 - 63" by (simp add: length_encode)
  then obtain ctx2 where u2: "MD5Update ctx1 ?bits = Some ctx2" "represents ctx2 ((m @ ?pad) @ ?bits)"
    using md5_update [OF u1(2)] by blast
  have m: "(m @ ?pad) @ ?bits = md5_padded m" by (simp only: md5_padded_def cnt append_assoc append_Cons)
  have fin: "map_option fst (MD5Final ctx) = Some (Encode (state_words (md_state ctx2)))"
    unfolding MD5Final_def Let_def idx padding_taken u1 u2 by (simp add: u1(1) u2(1))
  have "md_state ctx2 = foldl MD5Transform md5_magic (blocks (md5_padded m))"
    using u2(2) unfolding m represents_def by blast
  then show ?thesis unfolding fin md5_digest_def by simp
qed

text \<open>
  C28. The checksum does not depend on how a file is handed over: whatever the pieces, of any
  lengths up to \<open>2\<^sup>3\<^sup>2 - 64\<close>, updating a fresh context with them and finishing reads nothing beyond them
  and gives the MD5 digest of their concatenation, as it is defined over the whole padded message. The
  context, with its buffer of 64 bytes and its count of bits in two words that carry into each other,
  represents the message so far. A longer piece is read beyond its end when a block starts in its last
  63 bytes, where \<open>i + 63\<close> wraps.
\<close>

theorem md5_pieces:
  assumes "length junk = 64" and "\<forall>c \<in> set cs. length c < 2 ^ 32 - 63"
  shows "Option.bind (MD5Updates (MD5Init junk) cs) (\<lambda>ctx. map_option fst (MD5Final ctx)) =
    Some (md5_digest (concat cs))"
  using md5_updates [OF md5_init [OF assms(1)] assms(2)] md5_final by auto

lemma md5_abc:
  "md5_buffer (replicate 64 0) [0x61, 0x62, 0x63] =
     Some [0x90, 0x01, 0x50, 0x98, 0x3c, 0xd2, 0x4f, 0xb0, 0xd6, 0x96, 0x3f, 0x7d, 0x28, 0xe1, 0x7f, 0x72]"
  by code_simp

lemma md5_buffer_digest:
  assumes "length junk = 64" and "length s < 2 ^ 32 - 63"
  shows "md5_buffer junk s = Some (md5_digest s)"
proof -
  obtain ctx where "MD5Update (MD5Init junk) s = Some ctx" "represents ctx ([] @ s)"
    using md5_update [OF md5_init [OF assms(1)] assms(2)] by blast
  then show ?thesis using md5_final [of ctx s] by (simp add: md5_buffer_def)
qed

text \<open>Where the loop reads beyond the input.\<close>

lemma transform_blocks_wrap:
  assumes "2 ^ 32 - 63 \<le> unat i" and "62 < unat n"
  shows "transform_blocks st input n i = None"
proof -
  have i: "unat i < 2 ^ 32" by (rule unat_below)
  have "unat (i + 63) = unat i + 63 - 2 ^ 32"
    using assms(1) i by (simp add: unat_word_ariths mod_if)
  then have "i + 63 < n" using assms i by (simp add: word_less_nat_alt)
  moreover have "unat n < 2 ^ 32" by (rule unat_below)
  ultimately show ?thesis using assms(1) by (subst transform_blocks.simps) simp
qed

text \<open>The digest of \<open>abc\<close> from the description of MD5, in two pieces.\<close>

theorem md5_pieces_witness:
  "Option.bind (MD5Updates (MD5Init (replicate 64 0)) [[0x61], [0x62, 0x63]]) (\<lambda>ctx. map_option fst (MD5Final ctx)) =
     Some [0x90, 0x01, 0x50, 0x98, 0x3c, 0xd2, 0x4f, 0xb0, 0xd6, 0x96, 0x3f, 0x7d, 0x28, 0xe1, 0x7f, 0x72]"
proof -
  have "Option.bind (MD5Updates (MD5Init (replicate 64 0)) [[0x61], [0x62, 0x63]])
      (\<lambda>ctx. map_option fst (MD5Final ctx)) = Some (md5_digest (concat [[0x61], [0x62, 0x63]]))"
    by (rule md5_pieces) simp_all
  also have "\<dots> = md5_buffer (replicate 64 0) [0x61, 0x62, 0x63]"
    by (subst md5_buffer_digest) simp_all
  finally show ?thesis unfolding md5_abc .
qed

end
