(* ===== verification/FileSys.thy ===== *)
theory FileSys
  imports Effects Misc Versions "HOL-Library.AList"
begin

text \<open>
  The file operations of \<open>src/src/misc.cc\<close> and \<open>src/src/checkout.cc\<close> that the merge uses, over a
  disk of files, symbolic links and directories. A path name is resolved to the list of its
  components from the root, with the current directory before a relative one; only the last
  component may be a symbolic link. Every system call that changes the disk, or opens a file,
  takes its outcome from \<open>faults\<close>, so that it may fail at any point; the queries \<open>access\<close>,
  \<open>stat\<close> and \<open>readlink\<close> answer from the disk. Permissions and times are not modelled.
\<close>

section \<open>The disk\<close>

datatype node = RegNode string | LinkNode string | DirNode

type_synonym path = "string list"

datatype fault = Works | Fails | CrossDevice

record Disk =
  nodes :: "(path \<times> node) list"
  cwd :: string
  faults :: "fault list"

definition add_component :: "path \<Rightarrow> string \<Rightarrow> path" where
  "add_component p w =
     (if w = [] \<or> w = ''.'' then p else if w = ''..'' then butlast p else p @ [w])"

definition components :: "string \<Rightarrow> path" where
  "components s = foldl add_component [] (split_slash s)"

definition path_of :: "string \<Rightarrow> string \<Rightarrow> path" where
  "path_of dir s =
     (if s \<noteq> [] \<and> hd s = SLASH then components s else foldl add_component (components dir) (split_slash s))"

definition node_at :: "(path \<times> node) list \<Rightarrow> path \<Rightarrow> node option" where
  "node_at ns p = (if p = [] then Some DirNode else map_of ns p)"

text \<open>Following the links at the end of a path, as often as the kernel does.\<close>

definition link_path :: "path \<Rightarrow> string \<Rightarrow> path" where
  "link_path p t =
     (if t \<noteq> [] \<and> hd t = SLASH then components t else foldl add_component (butlast p) (split_slash t))"

fun follow :: "nat \<Rightarrow> (path \<times> node) list \<Rightarrow> path \<Rightarrow> path option" where
  "follow 0 ns p = None"
| "follow (Suc n) ns p =
     (case node_at ns p of Some (LinkNode t) \<Rightarrow> follow n ns (link_path p t) | _ \<Rightarrow> Some p)"

definition MAXSYMLINKS :: nat where
  "MAXSYMLINKS = 40"

definition real_path :: "(path \<times> node) list \<Rightarrow> path \<Rightarrow> path option" where
  "real_path ns p = follow MAXSYMLINKS ns p"

definition stat_node :: "(path \<times> node) list \<Rightarrow> path \<Rightarrow> node option" where
  "stat_node ns p = (case real_path ns p of None \<Rightarrow> None | Some q \<Rightarrow> node_at ns q)"

section \<open>System calls\<close>

type_synonym 'a on_disk = "(Disk, 'a) cmd"

definition disk_path :: "string \<Rightarrow> Disk \<Rightarrow> path" where
  "disk_path s d = path_of (cwd d) s"

definition next_fault :: "fault on_disk" where
  "next_fault =
     cbind (cget faults) (\<lambda>fs. case fs of
       [] \<Rightarrow> creturn Works
     | f # fs' \<Rightarrow> cthen (cupd (\<lambda>d. d\<lparr>faults := fs'\<rparr>)) (creturn f))"

definition set_node :: "path \<Rightarrow> node \<Rightarrow> Disk \<Rightarrow> Disk" where
  "set_node p n d = d\<lparr>nodes := AList.update p n (nodes d)\<rparr>"

definition drop_node :: "path \<Rightarrow> Disk \<Rightarrow> Disk" where
  "drop_node p d = d\<lparr>nodes := AList.delete p (nodes d)\<rparr>"

definition in_dir :: "(path \<times> node) list \<Rightarrow> path \<Rightarrow> bool" where
  "in_dir ns p \<longleftrightarrow> p \<noteq> [] \<and> node_at ns (butlast p) = Some DirNode"

text \<open>A call that changes the disk when it is possible and works.\<close>

definition changing_call :: "(Disk \<Rightarrow> bool) \<Rightarrow> (Disk \<Rightarrow> Disk) \<Rightarrow> bool on_disk" where
  "changing_call possible change =
     cbind next_fault (\<lambda>f. cbind (cget possible) (\<lambda>ok.
       if f = Works \<and> ok then cthen (cupd change) (creturn True) else creturn False))"

definition mkdir_call :: "string \<Rightarrow> bool on_disk" where
  "mkdir_call s = changing_call
     (\<lambda>d. node_at (nodes d) (disk_path s d) = None \<and> in_dir (nodes d) (disk_path s d))
     (\<lambda>d. set_node (disk_path s d) DirNode d)"

definition symlink_call :: "string \<Rightarrow> string \<Rightarrow> bool on_disk" where
  "symlink_call target s = changing_call
     (\<lambda>d. node_at (nodes d) (disk_path s d) = None \<and> in_dir (nodes d) (disk_path s d))
     (\<lambda>d. set_node (disk_path s d) (LinkNode target) d)"

definition unlink_call :: "string \<Rightarrow> bool on_disk" where
  "unlink_call s = changing_call
     (\<lambda>d. node_at (nodes d) (disk_path s d) \<notin> {None, Some DirNode})
     (\<lambda>d. drop_node (disk_path s d) d)"

text \<open>\<open>rename\<close> moves what is below a directory with it; it does not replace a directory.\<close>

definition move_nodes :: "path \<Rightarrow> path \<Rightarrow> (path \<times> node) list \<Rightarrow> (path \<times> node) list" where
  "move_nodes a b ns =
     map (\<lambda>(p, n). (if prefix a p then b @ drop (length a) p else p, n)) (filter (\<lambda>(p, n). \<not> prefix b p) ns)"

definition rename_ok :: "(path \<times> node) list \<Rightarrow> path \<Rightarrow> path \<Rightarrow> bool" where
  "rename_ok ns a b \<longleftrightarrow>
     a \<noteq> [] \<and> node_at ns a \<noteq> None \<and> in_dir ns b \<and> node_at ns b \<noteq> Some DirNode \<and> \<not> strict_prefix a b"

definition rename_call :: "string \<Rightarrow> string \<Rightarrow> fault on_disk" where
  "rename_call x y =
     cbind next_fault (\<lambda>f. cbind (cget id) (\<lambda>d.
       let a = disk_path x d; b = disk_path y d in
       if f \<noteq> Works then creturn f
       else if \<not> rename_ok (nodes d) a b then creturn Fails
       else cthen (if a = b then creturn () else cupd (\<lambda>d. d\<lparr>nodes := move_nodes a b (nodes d)\<rparr>))
              (creturn Works)))"

text \<open>
  Opening for writing truncates the file that the links lead to, or creates it; the result is
  its path. A failed write leaves the file as it is at that moment.
\<close>

definition open_write :: "string \<Rightarrow> path option on_disk" where
  "open_write s =
     cbind next_fault (\<lambda>f. cbind (cget id) (\<lambda>d.
       case (f, real_path (nodes d) (disk_path s d)) of
         (Works, Some q) \<Rightarrow>
           if in_dir (nodes d) q \<and> node_at (nodes d) q \<noteq> Some DirNode
           then cthen (cupd (set_node q (RegNode []))) (creturn (Some q)) else creturn None
       | _ \<Rightarrow> creturn None))"

definition open_read :: "string \<Rightarrow> path option on_disk" where
  "open_read s =
     cbind next_fault (\<lambda>f. cbind (cget id) (\<lambda>d.
       case (f, real_path (nodes d) (disk_path s d)) of
         (Works, Some q) \<Rightarrow> creturn (if node_at (nodes d) q = None then None else Some q)
       | _ \<Rightarrow> creturn None))"

text \<open>Reading a file to its end; a directory cannot be read.\<close>

definition read_all :: "path \<Rightarrow> string option on_disk" where
  "read_all q =
     cbind next_fault (\<lambda>f. cbind (cget (\<lambda>d. node_at (nodes d) q)) (\<lambda>n.
       creturn (case (f, n) of (Works, Some (RegNode s)) \<Rightarrow> Some s | _ \<Rightarrow> None)))"

definition write_all :: "path \<Rightarrow> string \<Rightarrow> bool on_disk" where
  "write_all q s = changing_call (\<lambda>d. True) (set_node q (RegNode s))"

definition throw_unless :: "bool \<Rightarrow> ('s, unit) cmd" where
  "throw_unless b = (if b then creturn () else cthrow (Err NonFatalError))"

section \<open>The wrappers of misc.cc\<close>

definition fs_is_symlink :: "string \<Rightarrow> bool on_disk" where
  "fs_is_symlink P = cget (\<lambda>d. case node_at (nodes d) (disk_path P d) of Some (LinkNode _) \<Rightarrow> True | _ \<Rightarrow> False)"

definition fs_is_directory :: "string \<Rightarrow> bool on_disk" where
  "fs_is_directory P = cget (\<lambda>d. stat_node (nodes d) (disk_path P d) = Some DirNode)"

text \<open>It calls \<open>stat\<close>, after which the test for a link is always false.\<close>

definition fs_is_directory_not_link :: "string \<Rightarrow> bool on_disk" where
  "fs_is_directory_not_link P = cget (\<lambda>d. stat_node (nodes d) (disk_path P d) = Some DirNode)"

definition fs_file_exists :: "string \<Rightarrow> bool on_disk" where
  "fs_file_exists P = cget (\<lambda>d. stat_node (nodes d) (disk_path P d) \<noteq> None)"

definition fs_copy_filename :: "string \<Rightarrow> string \<Rightarrow> unit on_disk" where
  "fs_copy_filename infile outfile =
     cbind (open_read infile) (\<lambda>i. case i of None \<Rightarrow> cthrow (Err NonFatalError) | Some i \<Rightarrow>
     cbind (open_write outfile) (\<lambda>out. case out of None \<Rightarrow> cthrow (Err NonFatalError) | Some out \<Rightarrow>
     cbind (read_all i) (\<lambda>s. case s of None \<Rightarrow> cthrow (Err NonFatalError) | Some s \<Rightarrow>
     cbind (write_all out s) throw_unless)))"

text \<open>Between devices the file is copied and the original stays.\<close>

definition fs_move_filename :: "string \<Rightarrow> string \<Rightarrow> unit on_disk" where
  "fs_move_filename infile outfile =
     cbind (rename_call infile outfile) (\<lambda>f.
       if f = Works then creturn ()
       else if f \<noteq> CrossDevice then cthrow (Err NonFatalError)
       else fs_copy_filename infile outfile)"

definition fs_write_filename :: "string \<Rightarrow> string \<Rightarrow> unit on_disk" where
  "fs_write_filename content filename =
     cbind (open_write filename) (\<lambda>out. case out of None \<Rightarrow> cthrow (Err NonFatalError) | Some out \<Rightarrow>
     cbind (write_all out content) throw_unless)"

definition read_sym_link :: "string \<Rightarrow> string on_disk" where
  "read_sym_link name =
     cbind (cget (\<lambda>d. node_at (nodes d) (disk_path name d))) (\<lambda>n.
       case n of Some (LinkNode t) \<Rightarrow> if t = [] then cthrow (Err NonFatalError) else creturn t
       | _ \<Rightarrow> cthrow (Err NonFatalError))"

definition name_in_cwd :: "string \<Rightarrow> string on_disk" where
  "name_in_cwd name = cget (\<lambda>d. cwd d @ [SLASH] @ name)"

text \<open>
  \<open>make_temp_file_same_dir\<close> and the other searches for a free name try one number after the
  other. The bound on the tries is more than the number of nodes there are.
\<close>

fun first_free :: "nat \<Rightarrow> (nat \<Rightarrow> string) \<Rightarrow> nat \<Rightarrow> string on_disk" where
  "first_free 0 name i = cthrow Aborted"
| "first_free (Suc n) name i =
     cbind (fs_file_exists (name i)) (\<lambda>e. if e then first_free n name (i + 1) else creturn (name i))"

definition tries :: "Disk \<Rightarrow> nat" where
  "tries d = Suc (length (nodes d))"

definition make_temp_file_same_dir :: "string \<Rightarrow> string on_disk" where
  "make_temp_file_same_dir temp_name =
     cbind (cget tries) (\<lambda>n. first_free n (\<lambda>i. temp_name @ ''.prcs_tmp_'' @ print_nat i) 0)"

text \<open>\<open>find_real_filename\<close>, with the number of links it may meet.\<close>

fun find_real_filename :: "nat \<Rightarrow> string \<Rightarrow> string on_disk" where
  "find_real_filename 0 filename = cthrow Aborted"
| "find_real_filename (Suc n) filename =
     cbind (cget (\<lambda>d. node_at (nodes d) (disk_path filename d))) (\<lambda>b.
       case b of
         None \<Rightarrow> cthrow (Err NonFatalError)
       | Some (LinkNode _) \<Rightarrow>
           cbind (read_sym_link filename) (\<lambda>sym.
             find_real_filename n
               (if sym \<noteq> [] \<and> hd sym = SLASH then sym else dirname filename [] @ [SLASH] @ sym))
       | _ \<Rightarrow> creturn filename)"

text \<open>
  \<open>file_cmp\<close> of \<open>src/src/merge.cc\<close> with \<open>cmp_fds\<close>: whether two files differ.
\<close>

definition file_cmp_disk :: "string \<Rightarrow> string \<Rightarrow> bool on_disk" where
  "file_cmp_disk file1 file2 =
     cbind (open_read file1) (\<lambda>one. case one of None \<Rightarrow> cthrow (Err NonFatalError) | Some one \<Rightarrow>
     cbind (open_read file2) (\<lambda>two. case two of None \<Rightarrow> cthrow (Err NonFatalError) | Some two \<Rightarrow>
     cbind (read_all one) (\<lambda>a. case a of None \<Rightarrow> cthrow (Err NonFatalError) | Some a \<Rightarrow>
     cbind (read_all two) (\<lambda>b. case b of None \<Rightarrow> cthrow (Err NonFatalError) | Some b \<Rightarrow>
     creturn (a \<noteq> b)))))"

section \<open>Writing a file in place\<close>

text \<open>
  \<open>WriteableFile\<close>: the new text is collected beside the file and renamed over it when it is
  complete. \<open>wf_stream\<close> is the file that is open.
\<close>

record WriteableFile =
  real_name :: "string option"
  temp_name :: string
  wf_stream :: path

definition wf_open :: "bool \<Rightarrow> string \<Rightarrow> WriteableFile on_disk" where
  "wf_open option_unlink filename =
     cbind (cget id) (\<lambda>d.
     cbind
       (case node_at (nodes d) (disk_path filename d) of
          None \<Rightarrow> creturn (None, filename)
        | Some n \<Rightarrow>
            cbind
              (case n of
                 LinkNode _ \<Rightarrow>
                   if option_unlink then creturn filename
                   else if stat_node (nodes d) (disk_path filename d) = None then creturn filename
                   else find_real_filename (MAXSYMLINKS + 1) filename
               | _ \<Rightarrow> creturn filename)
              (\<lambda>real. cbind (make_temp_file_same_dir real) (\<lambda>t. creturn (Some real, t))))
       (\<lambda>(real, temp).
          cbind (open_write temp) (\<lambda>os. case os of None \<Rightarrow> cthrow (Err NonFatalError) | Some os \<Rightarrow>
            creturn \<lparr>real_name = real, temp_name = temp, wf_stream = os\<rparr>)))"

definition wf_write :: "WriteableFile \<Rightarrow> string \<Rightarrow> unit on_disk" where
  "wf_write f s = cbind (write_all (wf_stream f) s) throw_unless"

definition wf_close :: "WriteableFile \<Rightarrow> unit on_disk" where
  "wf_close f =
     (case real_name f of
        None \<Rightarrow> creturn ()
      | Some real \<Rightarrow> cbind (rename_call (temp_name f) real) (\<lambda>x. throw_unless (x = Works)))"

end
