(* ===== verification/RepNames.thy ===== *)
theory RepNames
  imports FileSys
begin

text \<open>
  Names for new files of the repository: \<open>fix_file_name\<close>, \<open>RepFreeFilename\<close> and
  \<open>RepEntry::Rep_new_filename\<close> of \<open>src/src/repository.cc\<close>. A directory of the repository has at most 52
  files, each with a number at the head of its name; when it is full the next one is taken,
  whose number is written with the letters as digits, one directory level for each.
\<close>

section \<open>Safe names\<close>

definition ends_at :: "string \<Rightarrow> nat \<Rightarrow> string \<Rightarrow> bool" where
  "ends_at filename i suffix' \<longleftrightarrow> drop i filename = suffix'"

definition fix_file_name :: "string \<Rightarrow> string" where
  "fix_file_name filename =
     (let s1 = (if 10 < length filename then take 10 filename
                else filename @ replicate (2 - length filename) (CHR ''x''));
          s2 = (if 1 < length s1 \<and> ends_at filename (length s1 - 2) '',v'' then s1 @ ''x'' else s1)
      in if 2 < length s2 \<and> ends_at filename (length s2 - 3) ''.gz'' then s2 @ ''x'' else s2)"

section \<open>The next free number\<close>

definition MAX_REPOSITORY_COUNT :: nat where
  "MAX_REPOSITORY_COUNT = 52"

definition radix :: string where
  "radix = ''abcdefghijklmnopqrstuvwxyzABCDEFGHIJKLMNOPQRSTUVWXYZ''"

record RepFreeFilename =
  rf_root :: string
  rf_directory :: nat
  rf_offset :: string
  rf_available :: "bool list"

text \<open>The least power of 52 beyond which the number has no further digit.\<close>

function degree_max :: "nat \<Rightarrow> nat \<Rightarrow> nat" where
  "degree_max d deg =
     (if 0 < deg \<and> MAX_REPOSITORY_COUNT * deg \<le> d then degree_max d (deg * MAX_REPOSITORY_COUNT) else deg)"
  by pat_completeness auto
termination
  by (relation "measure (\<lambda>(d, deg). Suc d - deg)") (auto simp: MAX_REPOSITORY_COUNT_def)

declare degree_max.simps [simp del]

text \<open>The digits from the most significant, each written before the ones already there.\<close>

function offset_digits :: "nat \<Rightarrow> nat \<Rightarrow> string \<Rightarrow> string" where
  "offset_digits val deg acc =
     (if 1 \<le> deg then
        offset_digits (val - val div deg * deg) (deg div MAX_REPOSITORY_COUNT)
          ([radix ! (val div deg), SLASH] @ acc)
      else acc)"
  by pat_completeness auto
termination
  by (relation "measure (\<lambda>(val, deg, acc). deg)") (auto simp: MAX_REPOSITORY_COUNT_def)

declare offset_digits.simps [simp del]

definition offset_of :: "nat \<Rightarrow> string" where
  "offset_of d = offset_digits d (degree_max d 1) []"

definition dir_entries :: "(path \<times> node) list \<Rightarrow> path \<Rightarrow> string list" where
  "dir_entries ns p = map last (filter (\<lambda>q. q \<noteq> [] \<and> butlast q = p) (map fst ns))"

text \<open>\<open>strtol\<close> on a name that starts with a digit.\<close>

definition entry_number :: "string \<Rightarrow> nat option" where
  "entry_number ent =
     (if ent \<noteq> [] \<and> isdigit (hd ent) \<and> (case dropWhile isdigit ent of c # _ \<Rightarrow> c = CHR ''_'' | [] \<Rightarrow> False) \<and>
         digits_val 0 ent < int MAX_REPOSITORY_COUNT
      then Some (nat (digits_val 0 ent)) else None)"

definition available_in :: "(path \<times> node) list \<Rightarrow> path \<Rightarrow> bool list" where
  "available_in ns p = map (\<lambda>i. Some i \<notin> entry_number ` set (dir_entries ns p)) [0..<MAX_REPOSITORY_COUNT]"

text \<open>The subdirectories, one level for each second character.\<close>

fun make_levels :: "string \<Rightarrow> string \<Rightarrow> unit on_disk" where
  "make_levels x [] = creturn ()"
| "make_levels x (c # cs) =
     (let x' = x @ [SLASH, c] in
      cthen (cbind (fs_is_directory x') (\<lambda>d. if d then creturn ()
              else cbind (mkdir_call x') throw_unless))
        (make_levels x' (tl cs)))"

definition real_open_dir :: "string \<Rightarrow> string \<Rightarrow> bool list on_disk" where
  "real_open_dir root dir =
     (let fullname = butlast (root @ [SLASH] @ dir) in
      cbind (fs_is_directory fullname) (\<lambda>is_dir.
      cthen (if is_dir then creturn () else cthen (cdefined (dir \<noteq> [])) (make_levels root dir))
        (cbind next_fault (\<lambda>f. cbind (cget id) (\<lambda>s.
           cthen (throw_unless (f = Works \<and> stat_node (nodes s) (disk_path fullname s) = Some DirNode))
             (creturn (available_in (nodes s) (disk_path fullname s))))))))"

text \<open>The constructor ignores an error: the numbers then all count as available.\<close>

definition new_RepFreeFilename :: "string \<Rightarrow> RepFreeFilename on_disk" where
  "new_RepFreeFilename name =
     (\<lambda>s. let r = (\<lambda>av. \<lparr>rf_root = name, rf_directory = 0, rf_offset = [], rf_available = av\<rparr>) in
        case real_open_dir name [] s of
          (Inr av, s') \<Rightarrow> (Inr (r av), s')
        | (Inl (Err e), s') \<Rightarrow> (Inr (r (replicate MAX_REPOSITORY_COUNT True)), s')
        | (Inl f, s') \<Rightarrow> (Inl f, s'))"

text \<open>\<open>find_next\<close>, with the number of directories it may go on to.\<close>

definition first_available :: "bool list \<Rightarrow> nat option" where
  "first_available av = find (\<lambda>i. av ! i) [0..<length av]"

fun find_next :: "nat \<Rightarrow> RepFreeFilename \<Rightarrow> string \<Rightarrow> (string \<times> RepFreeFilename) on_disk" where
  "find_next n r base =
     (case first_available (rf_available r) of
        Some i \<Rightarrow>
          creturn (rf_offset r @ print_nat i @ ''_'' @ fix_file_name base @ '',v'',
            r\<lparr>rf_available := (rf_available r)[i := False]\<rparr>)
      | None \<Rightarrow>
          (case n of
             0 \<Rightarrow> cthrow Aborted
           | Suc n' \<Rightarrow>
               let d = rf_directory r + 1; off = offset_of d in
               cbind (real_open_dir (rf_root r) off) (\<lambda>av.
                 find_next n' (r\<lparr>rf_directory := d, rf_offset := off, rf_available := av\<rparr>) base)))"

text \<open>
  \<open>Rep_new_filename\<close>: \<open>defined\<close> tells the files the repository has data of. The name is
  returned without its extension. The bound on the tries is more than the files there are.
\<close>

fun new_filename_loop ::
  "nat \<Rightarrow> nat \<Rightarrow> (string \<Rightarrow> bool) \<Rightarrow> string \<Rightarrow> RepFreeFilename \<Rightarrow> (string \<times> RepFreeFilename) on_disk" where
  "new_filename_loop 0 dirs defined filename r = cthrow Aborted"
| "new_filename_loop (Suc n) dirs defined filename r =
     cbind (find_next dirs r filename) (\<lambda>(buf, r').
     cbind (fs_file_exists (rf_root r @ [SLASH] @ buf)) (\<lambda>e1.
     cbind (if e1 then creturn True else fs_file_exists (rf_root r @ [SLASH] @ buf @ ''.gz'')) (\<lambda>e2.
       if e2 \<or> defined buf then new_filename_loop n dirs defined filename r'
       else creturn (take (length buf - 2) buf, r'))))"

end
