(* ===== verification/FileMatch.thy ===== *)
theory FileMatch
  imports MergeHistory RepNames
begin

text \<open>
  The three projects of a merge and the matching of their files: \<open>populate_tables\<close>,
  \<open>match_fileent\<close> and \<open>can_add\<close> of \<open>src/src/projdesc.cc\<close>. A \<open>FileEntry*\<close> is the side of its
  project and its position there. The tables of a project are filled when they are first used
  and not kept up to date; their keys are the names and descriptors of that moment.
\<close>

section \<open>State\<close>

datatype side = WorkingSide | CommonSide | SelectedSide

type_synonym FileRef = "side \<times> nat"

record MatchTables =
  file_name_table :: "(string, nat) HashTable"
  file_desc_table :: "(string, nat) HashTable"
  file_match_cache :: "(FileRef \<times> nat) list"

text \<open>
  \<open>do_once\<close> and \<open>any_obsolete\<close> are static variables of \<open>src/src/merge.cc\<close>, \<open>rfl\<close> is the
  \<open>RepFreeFilename\<close> of the repository.
\<close>

record FileWorld =
  disk :: Disk
  working_prj :: MergingProject
  common_prj :: ProjectDescriptor
  selected_prj :: ProjectDescriptor
  match_tables :: "side \<Rightarrow> MatchTables option"
  rfl :: RepFreeFilename
  do_once :: bool
  any_obsolete :: bool

type_synonym 'a fm = "(FileWorld, FileRef, 'a) merge_cmd"

definition entries :: "side \<Rightarrow> FileWorld \<Rightarrow> FileEntry list" where
  "entries sd w =
     (case sd of WorkingSide \<Rightarrow> file_entries (working_prj w)
               | CommonSide \<Rightarrow> file_entries (common_prj w)
               | SelectedSide \<Rightarrow> file_entries (selected_prj w))"

definition fe_of :: "FileRef \<Rightarrow> FileWorld \<Rightarrow> FileEntry" where
  "fe_of r w = entries (fst r) w ! snd r"

definition upd_entries :: "side \<Rightarrow> (FileEntry list \<Rightarrow> FileEntry list) \<Rightarrow> FileWorld \<Rightarrow> FileWorld" where
  "upd_entries sd f w =
     (case sd of WorkingSide \<Rightarrow> w\<lparr>working_prj := (working_prj w)\<lparr>file_entries := f (file_entries (working_prj w))\<rparr>\<rparr>
               | CommonSide \<Rightarrow> w\<lparr>common_prj := (common_prj w)\<lparr>file_entries := f (file_entries (common_prj w))\<rparr>\<rparr>
               | SelectedSide \<Rightarrow> w\<lparr>selected_prj := (selected_prj w)\<lparr>file_entries := f (file_entries (selected_prj w))\<rparr>\<rparr>)"

definition upd_fe :: "FileRef \<Rightarrow> (FileEntry \<Rightarrow> FileEntry) \<Rightarrow> FileWorld \<Rightarrow> FileWorld" where
  "upd_fe r f = upd_entries (fst r) (\<lambda>es. es[snd r := f (es ! snd r)])"

definition get_fe :: "FileRef \<Rightarrow> FileEntry fm" where
  "get_fe r = cget (\<lambda>s. fe_of r (world s))"

definition set_fe :: "FileRef \<Rightarrow> (FileEntry \<Rightarrow> FileEntry) \<Rightarrow> unit fm" where
  "set_fe r f = cupd (\<lambda>s. s\<lparr>world := upd_fe r f (world s)\<rparr>)"

section \<open>The tables\<close>

definition empty_tables :: MatchTables where
  "empty_tables = \<lparr>file_name_table = ht_empty, file_desc_table = ht_empty, file_match_cache = []\<rparr>"

definition populate_entry :: "MatchTables \<Rightarrow> nat \<times> FileEntry \<Rightarrow> MatchTables" where
  "populate_entry t ife =
     (case ife of (i, fe) \<Rightarrow>
       (let t1 = t\<lparr>file_name_table :=
              ht_insert pathname_hash pathname_equal (file_name_table t) (fe_working_path fe) i\<rparr>
        in case (file_type fe, fe_descriptor fe) of
             (RealFile, Some d) \<Rightarrow>
               t1\<lparr>file_desc_table := ht_insert pathname_hash pathname_equal (file_desc_table t1) d i\<rparr>
           | _ \<Rightarrow> t1))"

definition populate_tables :: "FileEntry list \<Rightarrow> MatchTables" where
  "populate_tables es = foldl populate_entry empty_tables (List.enumerate 0 es)"

definition tables_of :: "side \<Rightarrow> MatchTables fm" where
  "tables_of sd =
     cbind (cget world) (\<lambda>w.
       case match_tables w sd of
         Some t \<Rightarrow> creturn t
       | None \<Rightarrow>
           let t = populate_tables (entries sd w) in
           cthen (cupd (\<lambda>s. s\<lparr>world := (world s)\<lparr>match_tables := (match_tables (world s))(sd := Some t)\<rparr>\<rparr>))
             (creturn t))"

definition name_lu :: "MatchTables \<Rightarrow> FileEntry \<Rightarrow> nat option" where
  "name_lu t fe = ht_lookup pathname_hash pathname_equal (file_name_table t) (fe_working_path fe)"

definition desc_lu :: "MatchTables \<Rightarrow> string \<Rightarrow> nat option" where
  "desc_lu t d = ht_lookup pathname_hash pathname_equal (file_desc_table t) d"

section \<open>Matching\<close>

text \<open>\<open>_match_bang\<close> is a member of the project.\<close>

definition match_bang :: "side \<Rightarrow> string" where
  "match_bang sd =
     (case sd of WorkingSide \<Rightarrow> ''match_bang working'' | CommonSide \<Rightarrow> ''match_bang common''
               | SelectedSide \<Rightarrow> ''match_bang selected'')"

definition match_query :: "side \<Rightarrow> manip list" where
  "match_query sd =
     [Force ''Using the file family match'', Report ''Use the file family match'', AllowBang (match_bang sd),
      Help ''bad_match_help_string'', Opt (option_of (CHR ''n'') ''Continue matching by name''),
      DefOpt (option_of (CHR ''f'') ''Continue matching by file family'')]"

definition cache_match :: "side \<Rightarrow> FileRef \<Rightarrow> nat \<Rightarrow> unit fm" where
  "cache_match sd r i =
     cupd (\<lambda>s. s\<lparr>world := (world s)\<lparr>match_tables :=
       (match_tables (world s))(sd := map_option (\<lambda>t. t\<lparr>file_match_cache := (r, i) # file_match_cache t\<rparr>)
          (match_tables (world s) sd))\<rparr>\<rparr>)"

definition match_fileent :: "Options \<Rightarrow> side \<Rightarrow> FileRef \<Rightarrow> FileRef option fm" where
  "match_fileent o' sd r =
     cbind (tables_of sd) (\<lambda>t.
     case map_of (file_match_cache t) r of
       Some i \<Rightarrow> creturn (Some (sd, i))
     | None \<Rightarrow>
         cbind (get_fe r) (\<lambda>fe.
         let by_name = name_lu t fe;
             found = (\<lambda>i. creturn (map_option (\<lambda>j. (sd, j)) i)) in
         case (file_type fe, fe_descriptor fe) of
           (RealFile, Some d) \<Rightarrow>
             (case (by_name, desc_lu t d) of
                (Some i, Some j) \<Rightarrow>
                  if i \<noteq> j then
                    cbind (prcsquery o' (match_query sd)) (\<lambda>c.
                      let k = (if c = CHR ''n'' then i else j) in
                      cthen (cache_match sd r k) (found (Some k)))
                  else found (Some j)
              | (None, Some j) \<Rightarrow> found (Some j)
              | _ \<Rightarrow> found by_name)
         | _ \<Rightarrow> found by_name))"

text \<open>\<open>can_add\<close>, of the working project.\<close>

definition can_add_file :: "FileRef \<Rightarrow> bool fm" where
  "can_add_file r =
     cbind (tables_of WorkingSide) (\<lambda>t.
     cbind (get_fe r) (\<lambda>fe.
     creturn
       (if name_lu t fe \<noteq> None then False
        else (case (file_type fe, fe_descriptor fe) of
                (RealFile, Some d) \<Rightarrow> desc_lu t d = None
              | _ \<Rightarrow> True))))"

end
