(* ===== verification/FileMerge.thy ===== *)
theory FileMerge
  imports FileMatch SetKeys
begin

text \<open>
  Merging a file, \<open>src/src/merge.cc\<close>: what the actions do to the working file, the project and
  the disk (\<open>merge_files\<close>, \<open>replace_file\<close>, \<open>delete_file\<close>, \<open>add_file\<close> and
  \<open>make_obsolete\<close>), how files are compared and checked out for that (\<open>file_quick_cmp\<close>,
  \<open>checkout_unkey\<close>), the renaming of a file and the controller \<open>FileMergeControl\<close>, with the
  operations of \<open>FileEntry\<close> of \<open>src/src/fileent.cc\<close> they use.
\<close>

section \<open>What is outside\<close>

text \<open>
  The programs that are run and the contents of the repository: \<open>rcs_files\<close> is \<open>_rcs_file_table\<close>, the
  versions of the files that the repository has data of, with their checksums, \<open>rcs_text\<close> what
  \<open>co\<close> prints for a version of a repository file, \<open>rcs_prepared\<close> whether the repository file is
  there. \<open>gdiff3\<close> takes the texts of the working, common and selected file to its status and
  output; \<open>merge_tool_run\<close> is any other merge tool, \<open>diff_pair\<close> the display of differences.
  \<open>cmd_len\<close> is \<open>cmd_root_project_path_len\<close>.
\<close>

record Outside =
  rcs_files :: "(string \<times> (string \<times> string) list) list"
  rcs_text :: "string \<Rightarrow> string \<Rightarrow> string option"
  rcs_prepared :: "string \<Rightarrow> bool"
  gdiff3 :: "string option \<Rightarrow> string option \<Rightarrow> string option \<Rightarrow> nat \<times> string"
  merge_tool_run :: "string \<Rightarrow> string list \<Rightarrow> nat on_disk"
  diff_pair :: "FileEntry \<Rightarrow> FileEntry \<Rightarrow> string \<Rightarrow> string \<Rightarrow> unit on_disk"
  temp_file_name :: "temp_file \<Rightarrow> string"
  option_unlink :: bool
  cmd_len :: nat

definition rcs_checksum :: "Outside \<Rightarrow> string \<Rightarrow> string \<Rightarrow> string option" where
  "rcs_checksum X d v = (case map_of (rcs_files X) d of None \<Rightarrow> None | Some vs \<Rightarrow> map_of vs v)"

definition on_disk_fm :: "'a on_disk \<Rightarrow> 'a fm" where
  "on_disk_fm m = (\<lambda>s. case m (disk (world s)) of (r, d) \<Rightarrow> (r, s\<lparr>world := (world s)\<lparr>disk := d\<rparr>\<rparr>))"

definition on_working :: "'a merging \<Rightarrow> 'a fm" where
  "on_working m =
     (\<lambda>s. case m (working_prj (world s)) of (r, p) \<Rightarrow> (r, s\<lparr>world := (world s)\<lparr>working_prj := p\<rparr>\<rparr>))"

section \<open>FileEntry\<close>

text \<open>\<open>stat()\<close>: false when it fails; \<open>get_file_sys_info\<close> throws then.\<close>

definition fe_stat :: "FileRef \<Rightarrow> bool fm" where
  "fe_stat r =
     cbind (get_fe r) (\<lambda>fe.
     cbind (cget (\<lambda>s. disk (world s))) (\<lambda>d.
       let p = disk_path (fe_working_path fe) d;
           there = (if file_type fe = SymLink then node_at (nodes d) p else stat_node (nodes d) p) \<noteq> None
       in cthen (if there then set_fe r (\<lambda>fe. fe\<lparr>fe_present := True\<rparr>) else creturn ()) (creturn there)))"

definition get_file_sys_info :: "FileRef \<Rightarrow> unit fm" where
  "get_file_sys_info r = cbind (fe_stat r) throw_unless"

definition get_repository_info :: "Outside \<Rightarrow> FileRef \<Rightarrow> unit fm" where
  "get_repository_info X r =
     cbind (get_fe r) (\<lambda>fe.
       case (fe_descriptor fe, fe_version fe) of
         (Some d, Some v) \<Rightarrow> throw_unless (rcs_checksum X d v \<noteq> None)
       | _ \<Rightarrow> cthrow Undefined)"

text \<open>The bound on the names that are tried is more than the files there are.\<close>

definition Rep_new_filename :: "Outside \<Rightarrow> string \<Rightarrow> string fm" where
  "Rep_new_filename X filename =
     cbind (cget world) (\<lambda>w.
     cbind (on_disk_fm (cbind (cget tries)
              (\<lambda>n. new_filename_loop (2 * n + length (rcs_files X)) n
                (\<lambda>b. b \<in> fst ` set (rcs_files X)) filename (rfl w))))
       (\<lambda>(buf, r'). cthen (cupd (\<lambda>s. s\<lparr>world := (world s)\<lparr>rfl := r'\<rparr>\<rparr>)) (creturn buf)))"

text \<open>
  \<open>initialize_descriptor\<close> without registering the file and without a temporary path: the
  name of the repository file, \<open>None\<close> for the types that have none.
\<close>

definition initialize_descriptor :: "Outside \<Rightarrow> FileRef \<Rightarrow> string option fm" where
  "initialize_descriptor X r =
     cbind (get_fe r) (\<lambda>fe.
       if file_type fe \<noteq> RealFile then creturn None
       else (case fe_descriptor fe of
               None \<Rightarrow>
                 cthen (set_fe r (\<lambda>fe. fe\<lparr>fe_descriptor := Some [], fe_version := Some []\<rparr>))
                 (cbind (Rep_new_filename X (strip_leading_path (fe_working_path fe))) (\<lambda>n.
                  cthen (set_fe r (\<lambda>fe. fe\<lparr>fe_descriptor := Some n\<rparr>)) (creturn (Some n))))
             | Some d \<Rightarrow>
                 cthen (cassert (d \<noteq> []))
                 (cthen (throw_unless (rcs_prepared X d)) (creturn (Some d)))))"

text \<open>\<open>set\<close>: a null name is an error of \<open>assign\<close>.\<close>

definition fe_set_names :: "FileRef \<Rightarrow> FileEntry \<Rightarrow> unit fm" where
  "fe_set_names r fe' =
     (case file_type fe' of
        RealFile \<Rightarrow>
          (case (fe_descriptor fe', fe_version fe') of
             (Some d, Some v) \<Rightarrow>
               set_fe r (\<lambda>fe. fe\<lparr>fe_descriptor := Some d, fe_version := Some v, fe_mode := fe_mode fe'\<rparr>)
           | _ \<Rightarrow> cthrow Undefined)
      | SymLink \<Rightarrow>
          (case fe_link fe' of
             Some l \<Rightarrow> set_fe r (\<lambda>fe. fe\<lparr>fe_link := Some l\<rparr>)
           | None \<Rightarrow> cthrow Undefined)
      | Directory \<Rightarrow> creturn ())"

definition fe_set :: "FileRef \<Rightarrow> FileEntry \<Rightarrow> unit fm" where
  "fe_set r fe' =
     cthen (fe_set_names r fe')
     (cbind (cget (\<lambda>s. working_prj (world s))) (\<lambda>p.
        case intern_attrs (tool_env p) (attrs_table p) (vals (fe_attrs fe')) (ngroup (fe_attrs fe')) False of
          Inl e \<Rightarrow> cthrow (case e of Err _ \<Rightarrow> AssertFailed | _ \<Rightarrow> e)
        | Inr (a, t) \<Rightarrow>
            cthen (cupd (\<lambda>s. s\<lparr>world := (world s)\<lparr>working_prj := (working_prj (world s))\<lparr>attrs_table := t\<rparr>\<rparr>\<rparr>))
              (set_fe r (\<lambda>fe. fe\<lparr>fe_attrs := a\<rparr>))))"

section \<open>Saving the working file\<close>

text \<open>
  The directory part of a name with its slash, and the names that \<open>make_obsolete\<close> tries: a
  directory \<open>obsolete\<close>, \<open>obsolete1\<close> and so on beside the file, and in it the name of the file
  with a number.
\<close>

definition dir_part :: "string \<Rightarrow> string" where
  "dir_part p = take (length p - length (strip_leading_path p)) p"

definition obsolete_dir :: "string \<Rightarrow> nat \<Rightarrow> string" where
  "obsolete_dir work_path i = dir_part work_path @ ''obsolete'' @ (if i = 0 then [] else print_nat i)"

definition obsolete_file :: "string \<Rightarrow> string \<Rightarrow> nat \<Rightarrow> string" where
  "obsolete_file dir work_path i = dir @ [SLASH] @ strip_leading_path work_path @ ''.v'' @ print_nat i"

fun find_obsolete_dir :: "nat \<Rightarrow> string \<Rightarrow> nat \<Rightarrow> string on_disk" where
  "find_obsolete_dir 0 work_path i = cthrow Aborted"
| "find_obsolete_dir (Suc n) work_path i =
     cbind (fs_file_exists (obsolete_dir work_path i)) (\<lambda>e.
     cbind (fs_is_directory (obsolete_dir work_path i)) (\<lambda>d.
       if e \<and> \<not> d then find_obsolete_dir n work_path (i + 1) else creturn (obsolete_dir work_path i)))"

text \<open>The saving itself; the result is the new name.\<close>

definition save_obsolete :: "string \<Rightarrow> bool \<Rightarrow> string on_disk" where
  "save_obsolete work_path force_copy =
     cbind (cbind (cget tries) (\<lambda>n. find_obsolete_dir n work_path 0)) (\<lambda>dir.
     cbind (fs_file_exists dir) (\<lambda>e.
     cthen (if e then creturn () else cbind (mkdir_call dir) throw_unless)
     (cbind (cbind (cget tries) (\<lambda>n. first_free n (obsolete_file dir work_path) 0)) (\<lambda>obs.
      cthen (if force_copy then fs_copy_filename work_path obs else fs_move_filename work_path obs)
        (creturn obs)))))"

text \<open>Failures of \<open>unlink\<close> are not looked at.\<close>

definition make_obsolete :: "FileRef \<Rightarrow> bool \<Rightarrow> unit fm" where
  "make_obsolete r force_copy =
     cbind (get_fe r) (\<lambda>fe.
       let work_path = fe_working_path fe in
       if file_type fe = Directory then creturn ()
       else if file_type fe = SymLink then cthen (on_disk_fm (unlink_call work_path)) (creturn ())
       else cbind (on_disk_fm (fs_file_exists work_path)) (\<lambda>e.
         if \<not> e then creturn ()
         else cbind (on_disk_fm (save_obsolete work_path force_copy)) (\<lambda>obs.
           cthen (cupd (\<lambda>s. s\<lparr>world := (world s)\<lparr>any_obsolete := True\<rparr>\<rparr>))
             (to_log (LogObsolete work_path obs)))))"

section \<open>Directories\<close>

definition subdir_query :: "manip list" where
  "subdir_query =
     [Force ''Deleting'', Report ''Delete'', Opt (option_fail (CHR ''n'')),
      DefOpt (option_of (CHR ''y'') ''Delete the file, replacing it with the required directory'')]"

text \<open>
  The file in the way is no directory, so that \<open>fs_nuke_file\<close> just unlinks it.
\<close>

definition check_create_subdir :: "Options \<Rightarrow> string \<Rightarrow> unit fm" where
  "check_create_subdir o' dir =
     cbind (cget (\<lambda>s. stat_node (nodes (disk (world s))) (disk_path dir (disk (world s))))) (\<lambda>b.
       if b = Some DirNode then creturn ()
       else cthen
         (if b = None then creturn ()
          else cthen (prcsquery o' subdir_query) (cbind (on_disk_fm (unlink_call dir)) throw_unless))
         (cbind (on_disk_fm (mkdir_call dir)) throw_unless))"

text \<open>The names that end before a slash, or a row of them, except the empty one.\<close>

fun subdirectories :: "string \<Rightarrow> string \<Rightarrow> string list" where
  "subdirectories pre [] = []"
| "subdirectories pre (c # cs) =
     (if c = SLASH \<and> pre \<noteq> [] \<and> last pre \<noteq> SLASH then pre # subdirectories (pre @ [c]) cs
      else subdirectories (pre @ [c]) cs)"

definition MAXPATHLEN :: nat where
  "MAXPATHLEN = 4096"

definition make_subdirectories :: "Options \<Rightarrow> string \<Rightarrow> unit fm" where
  "make_subdirectories o' name0 =
     cforeach (subdirectories [] (take (MAXPATHLEN - 1) name0)) (check_create_subdir o')"

section \<open>Checking files out\<close>

text \<open>
  \<open>VC_checkout_file\<close>: the file is opened, and so truncated, before \<open>co\<close> is known to have failed.
\<close>

definition VC_checkout_file :: "string option \<Rightarrow> string \<Rightarrow> unit on_disk" where
  "VC_checkout_file co_text newfile =
     cbind next_fault (\<lambda>f. cthen (throw_unless (f = Works))
     (cbind (open_write newfile) (\<lambda>out. case out of None \<Rightarrow> cthrow (Err NonFatalError) | Some out \<Rightarrow>
     cbind (write_all out (case co_text of None \<Rightarrow> [] | Some t \<Rightarrow> t)) (\<lambda>ok.
     throw_unless (ok \<and> co_text \<noteq> None)))))"

definition checkout_unkey_rep :: "Outside \<Rightarrow> FileRef \<Rightarrow> string \<Rightarrow> unit fm" where
  "checkout_unkey_rep X r name =
     cbind (initialize_descriptor X r) (\<lambda>versionfile.
     cbind (get_fe r) (\<lambda>fe.
       case fe_version fe of
         None \<Rightarrow> cthrow AssertFailed
       | Some v \<Rightarrow>
           (case versionfile of
              None \<Rightarrow> cthrow AssertFailed
            | Some vf \<Rightarrow> on_disk_fm (VC_checkout_file (rcs_text X vf v) name))))"

text \<open>
  The keywords to unset, \<open>project_keywords(fe, false)\<close>: the values do not matter then. The names
  are put into the table when it is first used.
\<close>

definition builtin_keywords :: "string list" where
  "builtin_keywords =
     [''Id'', ''Author'', ''Date'', ''Basename'', ''Revision'', ''Source'', ''Project'', ''ProjectDate'',
      ''ProjectAuthor'', ''ProjectMajorVersion'', ''ProjectMinorVersion'', ''ProjectVersion'', ''ProjectHeader'']"

definition keywords_to_unset :: "'z KeyPopTables_scheme \<Rightarrow> Keywords" where
  "keywords_to_unset p =
     ht_items (foldl (\<lambda>t k. ht_insert hash_string (=) t k []) (KeyPopTables.project_keywords p) builtin_keywords)"

definition setkeys_file :: "Keywords \<Rightarrow> bool \<Rightarrow> string \<Rightarrow> string \<Rightarrow> bool on_disk" where
  "setkeys_file kws deletekeys file0 file1 =
     cbind (open_read file0) (\<lambda>i. case i of None \<Rightarrow> cthrow (Err NonFatalError) | Some i \<Rightarrow>
     cbind (read_all i) (\<lambda>s. case s of None \<Rightarrow> cthrow (Err NonFatalError) | Some s \<Rightarrow>
     cbind (open_write file1) (\<lambda>out. case out of None \<Rightarrow> cthrow (Err NonFatalError) | Some out \<Rightarrow>
     (case setkeys_internal True (\<lambda>_. False) kws deletekeys s of
        Inl e \<Rightarrow> cthrow e
      | Inr (changed, w) \<Rightarrow> cbind (write_all out w) (\<lambda>ok. cthen (throw_unless ok) (creturn changed))))))"

text \<open>The project of a file, for its keywords.\<close>

definition prj_keywords :: "side \<Rightarrow> FileWorld \<Rightarrow> Keywords" where
  "prj_keywords sd w =
     (case sd of WorkingSide \<Rightarrow> keywords_to_unset (working_prj w)
               | CommonSide \<Rightarrow> keywords_to_unset (common_prj w)
               | SelectedSide \<Rightarrow> keywords_to_unset (selected_prj w))"

definition checkout_unkey_work :: "Outside \<Rightarrow> FileRef \<Rightarrow> string \<Rightarrow> unit fm" where
  "checkout_unkey_work X r name =
     cthen (initialize_descriptor X r)
     (cthen (get_file_sys_info r)
     (cbind (get_fe r) (\<lambda>fe.
      cthen (on_disk_fm (unlink_call name))
        (if keyword_sub (fe_attrs fe) then
           cbind (cget (\<lambda>s. prj_keywords (fst r) (world s))) (\<lambda>kws.
             cthen (on_disk_fm (setkeys_file kws True (fe_working_path fe) name)) (creturn ()))
         else
           on_disk_fm (cbind (name_in_cwd (fe_working_path fe))
             (\<lambda>fullpath. cbind (symlink_call fullpath name) throw_unless))))))"

text \<open>A part of \<open>checkout_unkey\<close> for one of the three, and its renaming at the end.\<close>

definition co_first ::
  "FileRef option \<Rightarrow> string option \<Rightarrow> string option \<Rightarrow> (FileRef \<Rightarrow> string \<Rightarrow> unit fm) \<Rightarrow> string option fm" where
  "co_first fe name done' checkout =
     (case (fe, name, done') of
        (Some r, Some n, None) \<Rightarrow> cthen (checkout r n) (creturn (Some n))
      | _ \<Rightarrow> creturn done')"

definition co_rename :: "FileRef option \<Rightarrow> string option \<Rightarrow> string option \<Rightarrow> string option fm" where
  "co_rename fe name done' =
     (case (fe, name) of
        (Some r, Some n) \<Rightarrow>
          (case done' of
             None \<Rightarrow> cthrow Undefined
           | Some m \<Rightarrow> if n \<noteq> m then cthen (on_disk_fm (fs_move_filename m n)) (creturn (Some n)) else creturn done')
      | _ \<Rightarrow> creturn done')"

definition checkout_unkey ::
  "Outside \<Rightarrow> FileRef option \<Rightarrow> string option \<Rightarrow> FileRef option \<Rightarrow> string option \<Rightarrow> FileRef option \<Rightarrow> string option
     \<Rightarrow> string MergeCo \<Rightarrow> string MergeCo fm" where
  "checkout_unkey X selected sel_name common com_name working work_name co =
     cbind (co_first selected sel_name (co_selected co) (checkout_unkey_rep X)) (\<lambda>cs.
     cbind (co_first common com_name (co_common co) (checkout_unkey_rep X)) (\<lambda>cc.
     cbind (co_first working work_name (co_working co)
              (\<lambda>r n. cbind (get_fe r) (\<lambda>fe.
                 if fe_present fe then checkout_unkey_work X r n else checkout_unkey_rep X r n))) (\<lambda>cw.
     cbind (co_rename selected sel_name cs) (\<lambda>cs'.
     cbind (co_rename working work_name cw) (\<lambda>cw'.
     cbind (co_rename common com_name cc) (\<lambda>cc'.
     creturn \<lparr>co_working = cw', co_selected = cs', co_common = cc'\<rparr>))))))"

section \<open>Comparing without checking out\<close>

text \<open>The result is \<open>None\<close> when \<open>*positive\<close> is not set.\<close>

definition rcs_data :: "Outside \<Rightarrow> FileEntry \<Rightarrow> string fm" where
  "rcs_data X fe =
     (case (fe_descriptor fe, fe_version fe) of
        (Some d, Some v) \<Rightarrow>
          (case rcs_checksum X d v of None \<Rightarrow> cthrow (Err NonFatalError) | Some c \<Rightarrow> creturn c)
      | _ \<Rightarrow> cthrow Undefined)"

definition file_quick_cmp ::
  "Outside \<Rightarrow> FileRef option \<Rightarrow> FileRef option \<Rightarrow> FileRef option \<Rightarrow> bool option fm" where
  "file_quick_cmp X selected common working =
     (case (if selected \<noteq> None then selected else common, if working \<noteq> None then working else common) of
        (Some r1, Some r2) \<Rightarrow>
          cbind (get_fe r1) (\<lambda>one. cbind (get_fe r2) (\<lambda>two.
            if file_type one \<noteq> file_type two then creturn (Some True)
            else if file_type one = SymLink then
              cthen
                (if working \<noteq> None then
                   cbind (on_disk_fm (read_sym_link (fe_working_path two)))
                     (\<lambda>lname. set_fe r2 (\<lambda>fe. fe\<lparr>fe_link := Some lname\<rparr>))
                 else creturn ())
                (cbind (get_fe r1) (\<lambda>one'. cbind (get_fe r2) (\<lambda>two'.
                   case (fe_link one', fe_link two') of
                     (Some a, Some b) \<Rightarrow> creturn (Some (a \<noteq> b))
                   | _ \<Rightarrow> cthrow Undefined)))
            else if file_type one = Directory then creturn (Some False)
            else if working \<noteq> None \<and> fe_present two \<and> (\<not> fe_unmodified two \<or> fe_descriptor two = None)
            then creturn None
            else cbind (rcs_data X one) (\<lambda>a. cbind (rcs_data X two) (\<lambda>b. creturn (Some (a \<noteq> b))))))
      | _ \<Rightarrow> cthrow Undefined)"

section \<open>Renaming\<close>

definition rename_query :: "manip list" where
  "rename_query =
     [Force ''Renaming'', Report ''Rename'', AllowBang ''maybe_rename'',
      Opt (option_of (CHR ''n'') ''Do not rename this file''), DefOpt (option_of (CHR ''y'') ''Rename the file'')]"

definition maybe_rename :: "Options \<Rightarrow> FileRef option \<Rightarrow> FileRef option \<Rightarrow> FileRef option \<Rightarrow> unit fm" where
  "maybe_rename o' selected common working =
     (case (selected, common, working) of
        (Some s, Some c, Some w) \<Rightarrow>
          cbind (get_fe s) (\<lambda>sfe. cbind (get_fe c) (\<lambda>cfe. cbind (get_fe w) (\<lambda>wfe.
            let new = fe_working_path sfe; old = fe_working_path wfe in
            if new \<noteq> old \<and> new \<noteq> fe_working_path cfe then
              cbind (prcsquery o' rename_query) (\<lambda>a.
                if a = CHR ''y'' \<and> \<not> option_report_actions o' then
                  cthen (to_log (LogRenamed old new))
                  (cthen (make_subdirectories o' new)
                  (cthen (on_disk_fm (fs_move_filename old new))
                    (set_fe w (\<lambda>fe. fe\<lparr>fe_working_path := new\<rparr>))))
                else creturn ())
            else creturn ())))
      | _ \<Rightarrow> creturn ())"

section \<open>The actions\<close>

text \<open>What another program reads of a file.\<close>

definition file_text :: "string \<Rightarrow> string option on_disk" where
  "file_text name =
     cget (\<lambda>d. case stat_node (nodes d) (disk_path name d) of Some (RegNode t) \<Rightarrow> Some t | _ \<Rightarrow> None)"

definition is_real_file :: "FileRef option \<Rightarrow> FileWorld \<Rightarrow> bool" where
  "is_real_file r w = (case r of None \<Rightarrow> False | Some r \<Rightarrow> file_type (fe_of r w) = RealFile)"

text \<open>The merge by \<open>gdiff3\<close>, written in place of the working file.\<close>

definition merge_by_gdiff3 :: "Outside \<Rightarrow> FileRef \<Rightarrow> bool \<Rightarrow> nat fm" where
  "merge_by_gdiff3 X working has_common =
     cbind (get_fe working) (\<lambda>fe.
     cbind (on_disk_fm (wf_open (option_unlink X) (fe_working_path fe))) (\<lambda>outfile.
     cbind (on_disk_fm (file_text (temp_file_name X temp_file_working))) (\<lambda>w.
     cbind (if has_common then on_disk_fm (file_text (temp_file_name X temp_file_common))
            else creturn (Some [])) (\<lambda>c.
     cbind (on_disk_fm (file_text (temp_file_name X temp_file_selected))) (\<lambda>sel.
     cthen (on_disk_fm (cbind next_fault (\<lambda>f. throw_unless (f = Works))))
     (cthen (on_disk_fm (wf_write outfile (snd (gdiff3 X w c sel))))
     (cthen (make_obsolete working False)
     (cthen (on_disk_fm (wf_close outfile))
       (creturn (fst (gdiff3 X w c sel)))))))))))"

text \<open>The labels of the files are left out of the arguments of the tool.\<close>

definition merge_by_tool :: "Outside \<Rightarrow> string \<Rightarrow> FileRef \<Rightarrow> nat fm" where
  "merge_by_tool X tool working =
     cbind (get_fe working) (\<lambda>fe.
     cthen (make_obsolete working True)
       (on_disk_fm (merge_tool_run X tool
          [temp_file_name X temp_file_working, temp_file_name X temp_file_common,
           temp_file_name X temp_file_selected, fe_working_path fe])))"

definition merge_files ::
  "Outside \<Rightarrow> FileRef option \<Rightarrow> FileRef option \<Rightarrow> FileRef option \<Rightarrow> string MergeCo \<Rightarrow> bool fm" where
  "merge_files X selected common working co =
     cbind (cget world) (\<lambda>w0.
     cthen (cassert ((common = None \<or> is_real_file common w0) \<and> is_real_file selected w0 \<and> is_real_file working w0))
     (case (selected, working) of
        (Some sel, Some work) \<Rightarrow>
          cthen (cassert (fe_present (fe_of work w0)))
          (cthen (checkout_unkey X selected (Some (temp_file_name X temp_file_selected))
             common (Some (temp_file_name X temp_file_common)) working (Some (temp_file_name X temp_file_working)) co)
          (cthen (get_file_sys_info work)
          (cthen (get_repository_info X sel)
          (cthen (case common of None \<Rightarrow> creturn () | Some c \<Rightarrow> get_repository_info X c)
          (cbind (get_fe work) (\<lambda>fe.
           cbind (if mergetool (fe_attrs fe) \<noteq> [] then merge_by_tool X (mergetool (fe_attrs fe)) work
                  else merge_by_gdiff3 X work (common \<noteq> None)) (\<lambda>ret.
           cthen (throw_unless (ret \<le> 1))
           (cbind (get_fe sel) (\<lambda>sfe.
            cthen (fe_set work sfe) (creturn (ret \<noteq> 0)))))))))))
      | _ \<Rightarrow> cthrow AssertFailed))"

text \<open>
  What \<open>replace_file\<close> and \<open>add_file\<close> put in place at \<open>path\<close>. Failures of \<open>symlink\<close> are not looked at, and
  \<open>chmod\<close> at most warns.
\<close>

definition put_selected :: "Outside \<Rightarrow> Options \<Rightarrow> FileRef \<Rightarrow> string \<Rightarrow> string MergeCo \<Rightarrow> unit fm" where
  "put_selected X o' selected path co =
     cbind (get_fe selected) (\<lambda>sfe.
       case file_type sfe of
         RealFile \<Rightarrow>
           cthen (checkout_unkey X (Some selected) (Some path) None None None None co) (creturn ())
       | SymLink \<Rightarrow>
           cthen (on_disk_fm (unlink_call path))
             (case fe_link sfe of
                None \<Rightarrow> cthrow Undefined
              | Some l \<Rightarrow> cthen (on_disk_fm (symlink_call l path)) (creturn ()))
       | Directory \<Rightarrow> check_create_subdir o' path)"

text \<open>The type that \<open>make_obsolete\<close> looks at is the selected one by then.\<close>

definition replace_file ::
  "Outside \<Rightarrow> Options \<Rightarrow> FileRef option \<Rightarrow> FileRef option \<Rightarrow> FileRef option \<Rightarrow> string MergeCo \<Rightarrow> unit fm" where
  "replace_file X o' selected common working co =
     (case (selected, working) of
        (Some sel, Some work) \<Rightarrow>
          cbind (get_fe sel) (\<lambda>sfe.
          cthen (fe_set work sfe)
          (cbind (get_fe work) (\<lambda>wfe.
           cthen (if fe_present wfe then cbind (fe_stat work) throw_unless else creturn ())
           (cthen (make_subdirectories o' (fe_working_path wfe))
           (cthen (make_obsolete work False)
             (put_selected X o' sel (fe_working_path wfe) co))))))
      | _ \<Rightarrow> cthrow Undefined)"

definition delete_working_file ::
  "Options \<Rightarrow> FileRef option \<Rightarrow> FileRef option \<Rightarrow> FileRef option \<Rightarrow> string MergeCo \<Rightarrow> unit fm" where
  "delete_working_file o' selected common working co =
     (case working of
        None \<Rightarrow> cthrow Undefined
      | Some work \<Rightarrow>
          cthen (make_obsolete work False)
          (cbind (get_fe work) (\<lambda>wfe.
           cthen (make_subdirectories o' (fe_working_path wfe))
             (on_working (cupd (\<lambda>p. p\<lparr>deleted_markers := deleted_markers p @ [FileMarker (snd work)]\<rparr>))))))"

section \<open>Adding a file\<close>

text \<open>
  Text is appended to the insertion point of the file list. A mode has at least three octal
  digits.
\<close>

definition append_insertion :: "string \<Rightarrow> unit merging" where
  "append_insertion t =
     cbind (cget id) (\<lambda>p.
       case files_insertion_point p of
         None \<Rightarrow> cthrow Undefined
       | Some i \<Rightarrow> cupd (\<lambda>p. p\<lparr>all_estrings :=
           (all_estrings p)[i := (all_estrings p ! i)\<lparr>es_text := es_text (all_estrings p ! i) @ t\<rparr>]\<rparr>))"

fun print_octal :: "nat \<Rightarrow> string" where
  "print_octal n =
     (if n < 8 then [char_of (48 + n)] else print_octal (n div 8) @ [char_of (48 + n mod 8)])"

declare print_octal.simps [simp del]

definition format_mode :: "nat \<Rightarrow> string" where
  "format_mode m = (let s = print_octal m in replicate (3 - length s) (CHR ''0'') @ s)"

definition file_entry_text :: "string \<Rightarrow> FileEntry \<Rightarrow> string" where
  "file_entry_text prj fe =
     [NEWLINE] @ ''  ('' @ protect_path (fe_working_path fe) [] @
     (case (file_type fe, fe_descriptor fe) of
        (RealFile, Some d) \<Rightarrow>
          '' ('' @ protect_path prj [] @ ''/'' @ protect_path d [] @ '' '' @
          protect_path (case fe_version fe of None \<Rightarrow> [] | Some v \<Rightarrow> v) [] @ '' '' @ format_mode (fe_mode fe) @ '')''
      | _ \<Rightarrow> '' ()'') @
     print_to_string (fe_attrs fe) [] True @ '')''"

definition append_file :: "FileEntry \<Rightarrow> unit merging" where
  "append_file fe =
     cthen (cdefined (\<not> (file_type fe = RealFile \<and> fe_descriptor fe \<noteq> None \<and> fe_version fe = None)))
       (cbind (cget project_name) (\<lambda>n. append_insertion (file_entry_text n fe)))"

definition add_selected_file ::
  "Outside \<Rightarrow> Options \<Rightarrow> FileRef option \<Rightarrow> FileRef option \<Rightarrow> FileRef option \<Rightarrow> string MergeCo \<Rightarrow> unit fm" where
  "add_selected_file X o' selected common working co =
     (case selected of
        None \<Rightarrow> cthrow Undefined
      | Some sel \<Rightarrow>
          cbind (cget (\<lambda>s. do_once (world s))) (\<lambda>once.
          cthen (if once then cthen (on_working (append_insertion [NEWLINE]))
                   (cupd (\<lambda>s. s\<lparr>world := (world s)\<lparr>do_once := False\<rparr>\<rparr>)) else creturn ())
          (cbind (get_fe sel) (\<lambda>sfe.
           cthen (on_working (append_file sfe))
           (cthen (make_obsolete sel False)
           (cthen (make_subdirectories o' (fe_working_path sfe))
             (put_selected X o' sel (fe_working_path sfe) co)))))))"

section \<open>Looking at the differences\<close>

definition view_query :: "bool \<Rightarrow> bool \<Rightarrow> bool \<Rightarrow> manip list" where
  "view_query sel com work =
     (if sel \<and> com then [Opt (option_of (CHR ''s'') ''View common -> selected diffs'')] else []) @
     (if work \<and> com then [Opt (option_of (CHR ''w'') ''View common -> working diffs'')] else []) @
     (if sel \<and> work then [Opt (option_of (CHR ''d'') ''View selected -> working diffs'')] else []) @
     [DefOpt (option_of (CHR ''l'') ''Leave this menu'')]"

definition view_pair ::
  "Outside \<Rightarrow> FileRef \<Rightarrow> FileRef \<Rightarrow> temp_file \<Rightarrow> temp_file \<Rightarrow> unit fm" where
  "view_pair X a b ta tb =
     cbind (get_fe a) (\<lambda>fa. cbind (get_fe b) (\<lambda>fb.
       on_disk_fm (diff_pair X fa fb (temp_file_name X ta) (temp_file_name X tb))))"

text \<open>The menu, with the number of its turns as fuel; every turn reads a character.\<close>

fun view_loop ::
  "nat \<Rightarrow> Outside \<Rightarrow> Options \<Rightarrow> FileRef option \<Rightarrow> FileRef option \<Rightarrow> FileRef option \<Rightarrow> string MergeCo
     \<Rightarrow> string MergeCo fm" where
  "view_loop 0 X o' selected common working co = cthrow Aborted"
| "view_loop (Suc n) X o' selected common working co =
     (let ts = Some (temp_file_name X temp_file_selected); tc = Some (temp_file_name X temp_file_common);
          tw = Some (temp_file_name X temp_file_working) in
      cbind (prcsquery o' (view_query (selected \<noteq> None) (common \<noteq> None) (working \<noteq> None))) (\<lambda>c.
        if c = CHR ''l'' then creturn co
        else cbind
          (case (c = CHR ''s'', c = CHR ''w'', c = CHR ''d'', selected, common, working) of
             (True, _, _, Some s, Some m, _) \<Rightarrow>
               cbind (checkout_unkey X selected ts common tc None None co)
                 (\<lambda>co'. cthen (view_pair X m s temp_file_common temp_file_selected) (creturn co'))
           | (_, True, _, _, Some m, Some w) \<Rightarrow>
               cbind (checkout_unkey X None None common tc working tw co)
                 (\<lambda>co'. cthen (view_pair X m w temp_file_common temp_file_working) (creturn co'))
           | (_, _, True, Some s, _, Some w) \<Rightarrow>
               cbind (checkout_unkey X selected ts None None working tw co)
                 (\<lambda>co'. cthen (view_pair X s w temp_file_selected temp_file_working) (creturn co'))
           | _ \<Rightarrow> creturn co)
          (view_loop n X o' selected common working)))"

definition view_merge_diffs ::
  "Outside \<Rightarrow> Options \<Rightarrow> FileRef option \<Rightarrow> FileRef option \<Rightarrow> FileRef option \<Rightarrow> string MergeCo \<Rightarrow> string MergeCo fm" where
  "view_merge_diffs X o' selected common working co =
     cbind (cget (\<lambda>s. Suc (length (stdin s)))) (\<lambda>n. view_loop n X o' selected common working co)"

section \<open>The controller\<close>

definition fe_merge_action :: "FileRef \<Rightarrow> nat \<Rightarrow> MergeAction fm" where
  "fe_merge_action r rule =
     cbind (get_fe r) (\<lambda>fe.
       cthen (cdefined (1 \<le> rule \<and> rule \<le> length (merge_actions (fe_attrs fe))))
         (creturn (merge_actions (fe_attrs fe) ! (rule - 1))))"

definition fe_option :: "FileRef option \<Rightarrow> FileWorld \<Rightarrow> FileEntry option" where
  "fe_option r w = map_option (\<lambda>r. fe_of r w) r"

text \<open>
  \<open>finish_merge\<close> calls \<open>notify(working, common, selected, action)\<close>; the parameters of the controller's
  function have other names, and it hands them on in the same order.
\<close>

definition file_notify ::
  "Outside \<Rightarrow> FileRef option \<Rightarrow> FileRef option \<Rightarrow> FileRef option \<Rightarrow> MergeAction \<Rightarrow> unit fm" where
  "file_notify X a b c act =
     cbind (cget world) (\<lambda>w.
       on_working (merge_notify (cmd_len X) (fe_option a w) (fe_option b w) (fe_option c w) act))"

definition FileMergeControl :: "Outside \<Rightarrow> Options \<Rightarrow> (FileWorld, FileRef, string) Controller" where
  "FileMergeControl X o' =
     \<lparr>merge_action_by_rule = fe_merge_action,
      quick_cmp = file_quick_cmp X,
      prepare = (\<lambda>sel sn com cn work wn co. checkout_unkey X sel sn com cn work wn co),
      file_cmp = (\<lambda>a b. on_disk_fm (file_cmp_disk a b)),
      temp_name = temp_file_name X,
      can_add = can_add_file,
      will_3way = (\<lambda>r. cbind (get_fe r) (\<lambda>fe. creturn (file_type fe = RealFile))),
      can_view = True,
      view = view_merge_diffs X o',
      mergef = merge_files X,
      addf = add_selected_file X o',
      deletef = delete_working_file o',
      replacef = replace_file X o',
      print3 = (\<lambda>_ _ _. creturn ()),
      notify = file_notify X,
      vname = (\<lambda>r. cbind (get_fe r) (\<lambda>fe. creturn (fe_working_path fe)))\<rparr>"

definition run_merge_rename ::
  "Outside \<Rightarrow> (string \<Rightarrow> unit fm) \<Rightarrow> Options \<Rightarrow> FileRef option \<Rightarrow> FileRef option \<Rightarrow> FileRef option \<Rightarrow> unit fm" where
  "run_merge_rename X edit_conflict o' selected common working =
     cthen (maybe_rename o' selected common working)
       (run_merge (FileMergeControl X o') edit_conflict o' selected common working)"

end
