(* ===== verification/MergeFiles.thy ===== *)
theory MergeFiles
  imports FileMerge
begin

text \<open>
  The three loops of \<open>merge_command2\<close> of \<open>src/src/merge.cc\<close> over the files of the common, the
  selected and the working project, with \<open>remerge_files\<close> for the files that were merged before.
\<close>

section \<open>The loops\<close>

definition remerge_query :: "manip list" where
  "remerge_query =
     [Force ''Remerging'', Report ''Remerge'', AllowBang ''remerge_files'',
      Opt (option_of (CHR ''n'') ''Ignore this file''), DefOpt (option_of (CHR ''y'') ''Remerge this file'')]"

definition remerge_files :: "Options \<Rightarrow> bool fm" where
  "remerge_files o' =
     (if option_skilled_merge o' then cbind (prcsquery o' remerge_query) (\<lambda>c. creturn (c = CHR ''y''))
      else creturn False)"

definition was_merged_before ::
  "Outside \<Rightarrow> FileRef option \<Rightarrow> FileRef option \<Rightarrow> FileRef option \<Rightarrow> bool fm" where
  "was_merged_before X working common selected =
     cbind (cget world) (\<lambda>w.
       on_working (has_been_merged (cmd_len X) (fe_option working w) (fe_option common w) (fe_option selected w)))"

text \<open>
  The part the loops share: \<open>skip\<close> is the condition on the command line under which a file
  that was not merged before is left for another time.
\<close>

definition merge_or_skip ::
  "Outside \<Rightarrow> (string \<Rightarrow> unit fm) \<Rightarrow> Options \<Rightarrow> FileRef option \<Rightarrow> FileRef option \<Rightarrow> FileRef option
     \<Rightarrow> (FileWorld \<Rightarrow> bool) \<Rightarrow> unit fm" where
  "merge_or_skip X edit o' selected common working skip =
     cbind (was_merged_before X working common selected) (\<lambda>was_merged.
     cbind (if was_merged then remerge_files o' else creturn True) (\<lambda>go.
       if \<not> go then creturn ()
       else cbind (cget world) (\<lambda>w.
         if \<not> was_merged \<and> skip w then on_working merge_notify_incomplete
         else run_merge_rename X edit o' selected common working)))"

text \<open>A file that is there and not on the command line.\<close>

definition not_given :: "FileRef option \<Rightarrow> FileWorld \<Rightarrow> bool" where
  "not_given r w = (case r of None \<Rightarrow> False | Some r \<Rightarrow> \<not> fe_on_command_line (fe_of r w))"

definition refs_of :: "side \<Rightarrow> FileWorld \<Rightarrow> FileRef list" where
  "refs_of sd w = map (\<lambda>i. (sd, i)) [0..<length (entries sd w)]"

definition merge_common_file :: "Outside \<Rightarrow> (string \<Rightarrow> unit fm) \<Rightarrow> Options \<Rightarrow> FileRef \<Rightarrow> unit fm" where
  "merge_common_file X edit o' c =
     cbind (match_fileent o' WorkingSide c) (\<lambda>working.
     cbind (match_fileent o' SelectedSide c) (\<lambda>selected.
       merge_or_skip X edit o' selected (Some c) working
         (\<lambda>w. not_given (Some c) w \<and> not_given working w \<and> not_given selected w)))"

definition merge_common_files :: "Outside \<Rightarrow> (string \<Rightarrow> unit fm) \<Rightarrow> Options \<Rightarrow> unit fm" where
  "merge_common_files X edit o' =
     cbind (cget (\<lambda>s. refs_of CommonSide (world s))) (\<lambda>rs. cforeach rs (merge_common_file X edit o'))"

definition merge_selected_only_file :: "Outside \<Rightarrow> (string \<Rightarrow> unit fm) \<Rightarrow> Options \<Rightarrow> FileRef \<Rightarrow> unit fm" where
  "merge_selected_only_file X edit o' r =
     cbind (match_fileent o' CommonSide r) (\<lambda>bogus1.
       if bogus1 \<noteq> None then creturn ()
       else cbind (match_fileent o' WorkingSide r) (\<lambda>bogus2.
         if bogus2 \<noteq> None then creturn ()
         else merge_or_skip X edit o' (Some r) None None (not_given (Some r))))"

definition merge_selected_only_files :: "Outside \<Rightarrow> (string \<Rightarrow> unit fm) \<Rightarrow> Options \<Rightarrow> unit fm" where
  "merge_selected_only_files X edit o' =
     cbind (cget (\<lambda>s. refs_of SelectedSide (world s))) (\<lambda>rs. cforeach rs (merge_selected_only_file X edit o'))"

definition merge_working_only_file :: "Outside \<Rightarrow> (string \<Rightarrow> unit fm) \<Rightarrow> Options \<Rightarrow> FileRef \<Rightarrow> unit fm" where
  "merge_working_only_file X edit o' r =
     cbind (match_fileent o' CommonSide r) (\<lambda>bogus.
       if bogus \<noteq> None then creturn ()
       else cbind (match_fileent o' SelectedSide r) (\<lambda>selected.
         merge_or_skip X edit o' selected None (Some r)
           (\<lambda>w. not_given (Some r) w \<and> not_given selected w)))"

definition merge_working_only_files :: "Outside \<Rightarrow> (string \<Rightarrow> unit fm) \<Rightarrow> Options \<Rightarrow> unit fm" where
  "merge_working_only_files X edit o' =
     cbind (cget (\<lambda>s. refs_of WorkingSide (world s))) (\<lambda>rs. cforeach rs (merge_working_only_file X edit o'))"

definition merge_all_files :: "Outside \<Rightarrow> (string \<Rightarrow> unit fm) \<Rightarrow> Options \<Rightarrow> unit fm" where
  "merge_all_files X edit o' =
     cthen (merge_common_files X edit o')
     (cthen (merge_selected_only_files X edit o') (merge_working_only_files X edit o'))"

end
