(* ===== verification/MergeOnce.thy ===== *)
theory MergeOnce
  imports MergeFiles
begin

text \<open>
  Every file is merged once: what \<open>run_merge\<close> announces in the merge log, the invariant of the
  three projects while their files are merged, and the list of the announcements of the three
  loops of \<open>src/src/merge.cc\<close>.
\<close>

section \<open>What is announced\<close>

text \<open>
  Every call of \<open>run_merge\<close> writes its three files to the merge log once, before anything
  is asked or done.
\<close>

fun announcement :: "'m log_entry \<Rightarrow> ('m option \<times> 'm option \<times> 'm option) option" where
  "announcement (LogAnnounce a b c) = Some (a, b, c)"
| "announcement _ = None"

definition announced :: "('w, 'm) MergeState \<Rightarrow> ('m option \<times> 'm option \<times> 'm option) list" where
  "announced s = List.map_filter announcement (merge_log s)"

text \<open>Commands that keep a property of the world and announce nothing.\<close>

definition kept_world :: "('w \<Rightarrow> bool) \<Rightarrow> ('w, 'm) MergeState \<Rightarrow> ('w, 'm) MergeState \<Rightarrow> bool" where
  "kept_world J s t \<longleftrightarrow> (J (world s) \<longrightarrow> J (world t) \<and> announced t = announced s)"

interpretation quiet: step_rel "kept_world J"
  for J :: "'w \<Rightarrow> bool"
  by unfold_locales (auto simp: kept_world_def)

lemma always_quiet_upd:
  "(\<And>s. J (world s) \<Longrightarrow> J (world (h s)) \<and> announced (h s) = announced s) \<Longrightarrow> always (kept_world J) (cupd h)"
  by (rule quiet.always_upd) (simp add: kept_world_def)

lemma always_output: "always (kept_world J) (to_output e)"
  unfolding to_output_def by (rule always_quiet_upd) (simp add: announced_def)

lemma always_log: "announcement e = None \<Longrightarrow> always (kept_world J) (to_log e)"
  unfolding to_log_def by (rule always_quiet_upd) (simp add: announced_def List.map_filter_def)

lemma announces:
  assumes "always (kept_world J) m" and "m (s\<lparr>merge_log := merge_log s @ [LogAnnounce a b c]\<rparr>) = (r, t)"
    and "J (world s)"
  shows "J (world t) \<and> announced t = announced s @ [(a, b, c)]"
  using alwaysD [OF assms(1,2)] assms(3)
  by (simp add: kept_world_def announced_def List.map_filter_def)

lemma always_query: "always (kept_world J) (prcsquery o' ms :: ('w, 'm, char) merge_cmd)"
  unfolding always_def
proof
  fix s :: "('w, 'm) MergeState"
  let ?t = "snd (prcsquery o' ms s)"
  have "keeps (\<lambda>s. (world s, merge_log s)) s ?t"
    using always_prcsquery_log [of o' ms] unfolding always_def by (rule spec)
  then have "world ?t = world s" "merge_log ?t = merge_log s" by (simp_all add: keeps_def)
  then show "kept_world J s ?t" by (simp add: kept_world_def announced_def)
qed

lemma always_read_char: "always (kept_world J) (read_char :: ('w, 'm, char) merge_cmd)"
  unfolding read_char_def
  by (auto intro!: quiet.always_intros simp: kept_world_def announced_def split: prod.split)

text \<open>
  A controller whose operations on the files at hand keep a property of the world and announce
  nothing themselves.
\<close>

locale quiet_control =
  fixes J :: "'w \<Rightarrow> bool" and V :: "('w, 'm, 'n) Controller" and edit :: "string \<Rightarrow> ('w, 'm, unit) merge_cmd"
    and sel com work :: "'m option"
  assumes action: "always (kept_world J) (merge_action_by_rule V m r)"
    and quick: "always (kept_world J) (quick_cmp V a b c)"
    and prepare: "always (kept_world J) (prepare V a n b m' c l co)"
    and cmp: "always (kept_world J) (file_cmp V n' m'')"
    and add: "always (kept_world J) (can_add V m)"
    and way: "always (kept_world J) (will_3way V m)"
    and view: "always (kept_world J) (view V a b c co)"
    and mergef: "always (kept_world J) (mergef V sel com work co)"
    and addf: "always (kept_world J) (addf V sel com work co)"
    and deletef: "always (kept_world J) (deletef V sel com work co)"
    and replacef: "always (kept_world J) (replacef V sel com work co)"
    and printed: "always (kept_world J) (print3 V a b c)"
    and notice: "always (kept_world J) (notify V a b c act)"
    and named: "always (kept_world J) (vname V m)"
    and edits: "always (kept_world J) (edit t)"
begin

lemma always_menu: "always (kept_world J) (menu k V valid r a b c act co)"
proof (induction k arbitrary: co)
  case (Suc k)
  show ?case
    unfolding menu.simps
    by (intro quiet.always_intros always_read_char always_output view Suc)
      (auto intro!: quiet.always_intros simp: kept_world_def announced_def split: option.split)
qed (simp add: quiet.always_throw)

lemma always_file_action: "always (kept_world J) (file_merge_action V a b c r)"
  by (rule always_file_merge_action [OF action quiet.always_throw])

lemma always_announce_tail:
  "always (kept_world J) (if skip then to_output e else creturn ())"
  by (intro quiet.always_intros always_output)

lemma always_action_log: "always (kept_world J) (merge_action o' a b c act r f)"
  unfolding merge_action_def merge_action_os_def
  by (intro quiet.always_intros always_output always_log) simp

lemma finish_tail:
  "always (kept_world J)
     (cbind (check_can_add V o' sel com work a0) (\<lambda>(action1, may_add).
      cbind (check_3way V sel com work action1) (\<lambda>(action2, may_merge).
      cbind (ask_action V o' d (valid_actions may_add may_merge sel work) sel com work action2 co) (\<lambda>(action, co').
      cbind (do_action V o' sel com work action co') (\<lambda>conflict.
      cthen (print3 V sel com work)
      (cthen (merge_action o' sel com work action (rule_no d) conflict)
      (cthen (notify V work com sel action) (note_conflict V edit work conflict))))))))"
proof -
  have ca: "always (kept_world J) (check_can_add V o' sel com work a)" for a
    unfolding check_can_add_def
    by (auto intro!: quiet.always_intros add always_query always_log split: option.split)
  have c3: "always (kept_world J) (check_3way V sel com work a)" for a
    unfolding check_3way_def all_3way_def
    by (auto intro!: quiet.always_intros way always_log split: option.split)
  have ask: "always (kept_world J) (ask_action V o' d v sel com work a co)" for v a co
    unfolding ask_action_def by (intro quiet.always_intros always_menu)
  have act: "always (kept_world J) (do_action V o' sel com work a co)" for a co
    unfolding do_action_def
    by (auto intro!: quiet.always_intros mergef addf deletef replacef split: MergeAction.split)
  have nc: "always (kept_world J) (note_conflict V edit work f)" for f
    unfolding note_conflict_def
    by (auto intro!: quiet.always_intros named edits simp: kept_world_def announced_def split: option.split)
  show ?thesis
    unfolding split_beta
    by (intro quiet.always_bind quiet.always_then ca c3 ask act nc printed notice always_action_log)
qed

lemma run_merge_announces:
  assumes "run_merge V edit o' sel com work s = (Inr (), t)" and "J (world s)"
  shows "J (world t) \<and> announced t = announced s @ [(sel, com, work)]"
proof -
  obtain d co s1 where r: "select_rule V sel com work s = (Inr (d, co), s1)"
    and rest1: "cbind (file_merge_action V sel com work (rule_no d)) (\<lambda>action.
       if action = NoPrompt then
         cthen (merge_announce o' sel com work NoPrompt) (merge_action o' sel com work NoPrompt (rule_no d) False)
       else finish_merge V edit o' sel com work d co) s1 = (Inr (), t)"
    using assms unfolding run_merge_def cbind_Inr_iff [where m = "select_rule V sel com work"] by fastforce
  have k1: "kept_world J s s1" by (rule alwaysD [OF quiet.always_select_rule [OF quick prepare cmp] r])
  obtain action s2 where a: "file_merge_action V sel com work (rule_no d) s1 = (Inr action, s2)"
    and rest2: "(if action = NoPrompt then
         cthen (merge_announce o' sel com work NoPrompt) (merge_action o' sel com work NoPrompt (rule_no d) False)
       else finish_merge V edit o' sel com work d co) s2 = (Inr (), t)"
    using rest1 unfolding cbind_Inr_iff [where m = "file_merge_action V sel com work (rule_no d)"] by blast
  have k2: "kept_world J s1 s2" by (rule alwaysD [OF always_file_action a])
  have ann: "J (world t) \<and> announced t = announced s' @ [(sel, com, work)]"
    if "cthen (merge_announce o' sel com work act) m s' = (Inr (), t)" and "always (kept_world J) m" and "J (world s')" for act m s'
  proof -
    have "cthen (if \<not> skip_output o' act then to_output (LogAnnounce sel com work) else creturn ()) m
        (s'\<lparr>merge_log := merge_log s' @ [LogAnnounce sel com work]\<rparr>) = (Inr (), t)"
      using that(1) by (simp add: merge_announce_def to_log_def cmd_simps split: prod.splits sum.splits)
    then show ?thesis
      by (rule announces [where J = J, rotated]) (intro quiet.always_intros always_output that)+
  qed
  have j2: "J (world s2) \<and> announced s2 = announced s"
    using k1 k2 assms(2) by (simp add: kept_world_def)
  show ?thesis
  proof (cases "action = NoPrompt")
    case True
    then have "cthen (merge_announce o' sel com work NoPrompt)
        (merge_action o' sel com work NoPrompt (rule_no d) False) s2 = (Inr (), t)"
      using rest2 by simp
    from ann [OF this always_action_log] j2 show ?thesis by simp
  next
    case False
    then obtain a0 s3 where f: "file_merge_action V sel com work (rule_no d) s2 = (Inr a0, s3)"
      and rest3: "cthen (merge_announce o' sel com work a0)
        (cbind (check_can_add V o' sel com work a0) (\<lambda>(action1, may_add).
         cbind (check_3way V sel com work action1) (\<lambda>(action2, may_merge).
         cbind (ask_action V o' d (valid_actions may_add may_merge sel work) sel com work action2 co) (\<lambda>(action, co').
         cbind (do_action V o' sel com work action co') (\<lambda>conflict.
         cthen (print3 V sel com work)
         (cthen (merge_action o' sel com work action (rule_no d) conflict)
         (cthen (notify V work com sel action) (note_conflict V edit work conflict)))))))) s3 = (Inr (), t)"
      using rest2 unfolding if_not_P [OF False] finish_merge_def
        cbind_Inr_iff [where m = "file_merge_action V sel com work (rule_no d)"]
      by blast
    have "kept_world J s2 s3" by (rule alwaysD [OF always_file_action f])
    then have "J (world s3)" "announced s3 = announced s" using j2 by (simp_all add: kept_world_def)
    then show ?thesis using ann [OF rest3 finish_tail] by simp
  qed
qed

end

section \<open>Projects without renamed files\<close>

definition all_entries :: "FileWorld \<Rightarrow> FileEntry list" where
  "all_entries w = entries WorkingSide w @ entries CommonSide w @ entries SelectedSide w"

definition single_slashed :: "string \<Rightarrow> bool" where
  "single_slashed s \<longleftrightarrow> squeeze False s = s"

definition plain_entry :: "FileEntry \<Rightarrow> bool" where
  "plain_entry fe \<longleftrightarrow>
     single_slashed (fe_working_path fe) \<and> (file_type fe = RealFile \<longrightarrow> fe_descriptor fe \<noteq> None) \<and>
     (case fe_descriptor fe of None \<Rightarrow> True | Some d \<Rightarrow> single_slashed d)"

definition same_family :: "FileEntry \<Rightarrow> FileEntry \<Rightarrow> bool" where
  "same_family x y \<longleftrightarrow>
     (case (fe_descriptor x, fe_descriptor y) of
        (Some d, Some d') \<Rightarrow> d = d' \<longleftrightarrow> fe_working_path x = fe_working_path y
      | _ \<Rightarrow> True)"

text \<open>
  No file was renamed between the versions: two files are of one family exactly when they
  have the same name. Every regular file has a family, that is, it has been checked in.
\<close>

definition unrenamed :: "FileWorld \<Rightarrow> bool" where
  "unrenamed w \<longleftrightarrow>
     (\<forall>sd \<in> {WorkingSide, CommonSide, SelectedSide}. distinct (map fe_working_path (entries sd w))) \<and>
     (\<forall>x \<in> set (all_entries w). plain_entry x \<and> (\<forall>y \<in> set (all_entries w). same_family x y))"

definition family :: "FileWorld \<Rightarrow> (string \<times> string) set" where
  "family w = {(fe_working_path x, d) | x d. x \<in> set (all_entries w) \<and> fe_descriptor x = Some d}"

lemma side_cases: "sd \<in> {WorkingSide, CommonSide, SelectedSide}"
  by (cases sd) auto

lemma entries_all: "set (entries sd w) \<subseteq> set (all_entries w)"
  by (cases sd) (auto simp: all_entries_def)

lemma unrenamedD:
  assumes "unrenamed w"
  shows "distinct (map fe_working_path (entries sd w))"
    and "x \<in> set (all_entries w) \<Longrightarrow> plain_entry x"
    and "(p, d) \<in> family w \<Longrightarrow> (p', d') \<in> family w \<Longrightarrow> d = d' \<longleftrightarrow> p = p'"
    and "(p, d) \<in> family w \<Longrightarrow> single_slashed p \<and> single_slashed d"
proof -
  show "distinct (map fe_working_path (entries sd w))"
    using assms side_cases [of sd] unfolding unrenamed_def by blast
  show plain: "plain_entry x" if "x \<in> set (all_entries w)" for x
    using assms that unfolding unrenamed_def by blast
  show "d = d' \<longleftrightarrow> p = p'" if f: "(p, d) \<in> family w" "(p', d') \<in> family w"
  proof -
    from f obtain x y where xy: "x \<in> set (all_entries w)" "y \<in> set (all_entries w)"
      "p = fe_working_path x" "p' = fe_working_path y" "fe_descriptor x = Some d" "fe_descriptor y = Some d'"
      by (auto simp: family_def)
    then have "same_family x y" using assms unfolding unrenamed_def by blast
    then show ?thesis using xy by (simp add: same_family_def)
  qed
  show "single_slashed p \<and> single_slashed d" if "(p, d) \<in> family w"
    using that plain by (auto simp: family_def plain_entry_def) (metis option.simps(5))
qed

section \<open>The tables\<close>

definition name_index :: "FileEntry list \<Rightarrow> string \<Rightarrow> nat option" where
  "name_index es p = find_index (\<lambda>fe. fe_working_path fe = p) es"

lemma find_index_append:
  "find_index P (xs @ ys) =
     (case find_index P xs of Some i \<Rightarrow> Some i | None \<Rightarrow> map_option (\<lambda>i. length xs + i) (find_index P ys))"
  by (cases "find_index P ys"; induction xs) (auto split: option.split)

lemma find_index_None: "find_index P xs = None \<longleftrightarrow> (\<forall>x \<in> set xs. \<not> P x)"
  by (induction xs) auto

lemma find_index_SomeD: "find_index P xs = Some i \<Longrightarrow> i < length xs \<and> P (xs ! i)"
  by (induction xs arbitrary: i) (auto split: if_splits)

lemma name_index_Some:
  assumes "distinct (map fe_working_path es)"
  shows "name_index es p = Some i \<longleftrightarrow> i < length es \<and> fe_working_path (es ! i) = p"
proof
  assume "name_index es p = Some i"
  then show "i < length es \<and> fe_working_path (es ! i) = p"
    unfolding name_index_def by (rule find_index_SomeD)
next
  assume i: "i < length es \<and> fe_working_path (es ! i) = p"
  then have "find_index (\<lambda>fe. fe_working_path fe = p) es \<noteq> None" by (auto simp: find_index_None)
  then obtain j where j: "find_index (\<lambda>fe. fe_working_path fe = p) es = Some j" by blast
  then have "j < length es" "fe_working_path (es ! j) = p" using find_index_SomeD by fast+
  then have "j = i" using assms i by (auto simp: distinct_conv_nth)
  then show "name_index es p = Some i" using j by (simp add: name_index_def)
qed

lemma single_slashed_equal: "single_slashed a \<Longrightarrow> single_slashed b \<Longrightarrow> pathname_equal a b \<longleftrightarrow> a = b"
  by (simp add: pathname_equal_iff single_slashed_def)

definition tables_map :: "(string \<times> string) set \<Rightarrow> FileEntry list \<Rightarrow> MatchTables \<Rightarrow> bool" where
  "tables_map fam es t \<longleftrightarrow>
     file_match_cache t = [] \<and>
     (\<forall>p. single_slashed p \<longrightarrow>
        ht_lookup pathname_hash pathname_equal (file_name_table t) p = name_index es p) \<and>
     (\<forall>d j. single_slashed d \<longrightarrow> desc_lu t d = Some j \<longrightarrow> j < length es \<and> (fe_working_path (es ! j), d) \<in> fam)"

lemma populate_tables_snoc:
  "populate_tables (es @ [x]) = populate_entry (populate_tables es) (length es, x)"
  by (simp add: populate_tables_def enumerate_append_eq)

lemma populate_tables_ok:
  assumes "distinct (map fe_working_path es)" and "\<forall>x \<in> set es. plain_entry x"
    and "\<forall>x \<in> set es. \<forall>d. fe_descriptor x = Some d \<longrightarrow> (fe_working_path x, d) \<in> fam"
  shows "tables_map fam es (populate_tables es) \<and>
    ht_inv pathname_hash pathname_equal (file_name_table (populate_tables es)) \<and>
    ht_inv pathname_hash pathname_equal (file_desc_table (populate_tables es))"
  using assms
proof (induction es rule: rev_induct)
  case Nil
  show ?case
    by (simp add: tables_map_def populate_tables_def empty_tables_def name_index_def desc_lu_def
      path.ht.lookup_empty path.ht.invar_empty)
next
  case (snoc x es)
  let ?t = "populate_tables es" and ?u = "populate_entry (populate_tables es) (length es, x)"
  have IH: "tables_map fam es ?t" "ht_inv pathname_hash pathname_equal (file_name_table ?t)"
    "ht_inv pathname_hash pathname_equal (file_desc_table ?t)"
    using snoc by simp_all
  have px: "single_slashed (fe_working_path x)" using snoc.prems(2) by (simp add: plain_entry_def)
  have fresh: "name_index es (fe_working_path x) = None"
    unfolding name_index_def find_index_None using snoc.prems(1) by (auto simp: image_iff)
  have name: "file_name_table ?u = ht_insert pathname_hash pathname_equal (file_name_table ?t) (fe_working_path x) (length es)"
    and cache: "file_match_cache ?u = file_match_cache ?t"
    by (auto simp: populate_entry_def Let_def split: FileType.split option.split)
  have desc: "file_desc_table ?u = (case (file_type x, fe_descriptor x) of
      (RealFile, Some d) \<Rightarrow> ht_insert pathname_hash pathname_equal (file_desc_table ?t) d (length es)
    | _ \<Rightarrow> file_desc_table ?t)"
    by (auto simp: populate_entry_def Let_def split: FileType.split option.split)
  have n: "ht_lookup pathname_hash pathname_equal (file_name_table ?u) p = name_index (es @ [x]) p"
    if "single_slashed p" for p
    using IH(1) that fresh unfolding name path.ht.lookup_insert [OF IH(2)]
    by (auto simp: single_slashed_equal px tables_map_def name_index_def find_index_append split: option.split)
  have d: "j < length (es @ [x]) \<and> (fe_working_path ((es @ [x]) ! j), d) \<in> fam"
    if "single_slashed d" "desc_lu ?u d = Some j" for d j
  proof -
    have old: "j < length es \<and> (fe_working_path (es ! j), d) \<in> fam"
      if "ht_lookup pathname_hash pathname_equal (file_desc_table ?t) d = Some j"
      using IH(1) that \<open>single_slashed d\<close> by (simp add: tables_map_def desc_lu_def)
    show ?thesis
    proof (cases "file_type x = RealFile \<and> (\<exists>d'. fe_descriptor x = Some d')")
      case True
      then obtain d' where d': "file_type x = RealFile" "fe_descriptor x = Some d'" by blast
      then have "single_slashed d'" using snoc.prems(2) by (simp add: plain_entry_def)
      then have eq: "pathname_equal d d' \<longleftrightarrow> d = d'" using single_slashed_equal \<open>single_slashed d\<close> by blast
      have "ht_lookup pathname_hash pathname_equal (file_desc_table ?u) d =
          (if d = d' then Some (length es) else ht_lookup pathname_hash pathname_equal (file_desc_table ?t) d)"
        using d' path.ht.lookup_insert [OF IH(3), of d' "length es" d] by (simp add: desc eq)
      then show ?thesis
        using that(2) old snoc.prems(3) d'(2) by (auto simp: desc_lu_def nth_append split: if_splits)
    next
      case False
      then have "file_desc_table ?u = file_desc_table ?t"
        by (auto simp: desc split: FileType.split option.split)
      then show ?thesis using that(2) old by (auto simp: desc_lu_def nth_append)
    qed
  qed
  have inv: "ht_inv pathname_hash pathname_equal (file_name_table ?u)"
    "ht_inv pathname_hash pathname_equal (file_desc_table ?u)"
    unfolding name desc using IH(2,3) by (auto intro: path.ht.invar_insert split: FileType.split option.split)
  have "file_match_cache ?u = []" using IH(1) by (simp add: cache tables_map_def)
  then show ?case using n d inv unfolding populate_tables_snoc tables_map_def by blast
qed

section \<open>The invariant\<close>

text \<open>
  What stays of an entry while the files are merged: its name and whether it is on the command
  line. A regular file keeps a descriptor, that of a file of the same name in one of the versions;
  and the attributes are those their list gives.
\<close>

definition attrs_canonical :: "ToolEnv \<Rightarrow> PrcsAttrs \<Rightarrow> bool" where
  "attrs_canonical env a \<longleftrightarrow> init_attrs (new_PrcsAttrs env (vals a) (ngroup a)) = Inr a"

definition entry_inv :: "ToolEnv \<Rightarrow> (string \<times> string) set \<Rightarrow> FileEntry \<Rightarrow> FileEntry \<Rightarrow> bool" where
  "entry_inv env fam fe0 fe \<longleftrightarrow>
     fe_working_path fe = fe_working_path fe0 \<and> fe_on_command_line fe = fe_on_command_line fe0 \<and>
     (file_type fe = RealFile \<longrightarrow> fe_descriptor fe \<noteq> None) \<and>
     (\<forall>d. fe_descriptor fe = Some d \<longrightarrow> (fe_working_path fe, d) \<in> fam) \<and>
     attrs_canonical env (fe_attrs fe)"

definition merge_inv :: "FileWorld \<Rightarrow> string \<Rightarrow> FileWorld \<Rightarrow> bool" where
  "merge_inv w0 v w \<longleftrightarrow>
     (\<forall>sd. list_all2 (entry_inv (tool_env (working_prj w0)) (family w0)) (entries sd w0) (entries sd w) \<and>
        (\<forall>t. match_tables w sd = Some t \<longrightarrow> tables_map (family w0) (entries sd w0) t)) \<and>
     tool_env (working_prj w) = tool_env (working_prj w0) \<and>
     attrs_inv (tool_env (working_prj w0)) (attrs_table (working_prj w)) \<and>
     merging_against v [] (working_prj w)"

text \<open>The state when the merge of the files begins.\<close>

definition merge_start :: "string \<Rightarrow> FileWorld \<Rightarrow> bool" where
  "merge_start v w \<longleftrightarrow>
     unrenamed w \<and> (\<forall>x \<in> set (all_entries w). attrs_canonical (tool_env (working_prj w)) (fe_attrs x)) \<and>
     attrs_inv (tool_env (working_prj w)) (attrs_table (working_prj w)) \<and>
     merging_against v [] (working_prj w) \<and> match_tables w = (\<lambda>_. None)"

lemma merge_start_inv: "merge_start v w \<Longrightarrow> merge_inv w v w"
proof -
  assume a: "merge_start v w"
  have "entry_inv (tool_env (working_prj w)) (family w) x x" if "x \<in> set (all_entries w)" for x
    using a that unrenamedD(2) [of w x]
    by (auto simp: merge_start_def entry_inv_def plain_entry_def family_def)
  then have "list_all2 (entry_inv (tool_env (working_prj w)) (family w)) (entries sd w) (entries sd w)" for sd
    using entries_all [of sd w] by (intro list_all2_all_nthI) (simp_all add: subset_iff)
  then show ?thesis using a by (simp add: merge_start_def merge_inv_def)
qed

lemma entry_inv_trans:
  "entry_inv env fam a b \<Longrightarrow> entry_inv env fam b c \<Longrightarrow> entry_inv env fam a c"
  unfolding entry_inv_def by metis

definition valid_ref :: "FileRef \<Rightarrow> FileWorld \<Rightarrow> bool" where
  "valid_ref r w \<longleftrightarrow> snd r < length (entries (fst r) w)"

lemma merge_inv_list:
  "merge_inv w0 v w \<Longrightarrow>
   list_all2 (entry_inv (tool_env (working_prj w0)) (family w0)) (entries sd w0) (entries sd w)"
  by (simp add: merge_inv_def)

lemma merge_inv_length: "merge_inv w0 v w \<Longrightarrow> length (entries sd w) = length (entries sd w0)"
  using merge_inv_list [of w0 v w sd] by (simp add: list_all2_lengthD)

lemma merge_inv_entry:
  assumes "merge_inv w0 v w" and "valid_ref r w0"
  shows "entry_inv (tool_env (working_prj w0)) (family w0) (fe_of r w0) (fe_of r w)"
  using list_all2_nthD [OF merge_inv_list [OF assms(1)]] assms(2) by (simp add: valid_ref_def fe_of_def)

lemma entries_upd:
  "entries sd (upd_fe r f w) =
     (if fst r = sd then (entries sd w)[snd r := f (fe_of r w)] else entries sd w)"
  by (cases "fst r"; cases sd) (auto simp: entries_def upd_fe_def upd_entries_def fe_of_def)

lemma upd_fe_rest [simp]:
  "match_tables (upd_fe r f w) = match_tables w"
  "tool_env (working_prj (upd_fe r f w)) = tool_env (working_prj w)"
  "attrs_table (working_prj (upd_fe r f w)) = attrs_table (working_prj w)"
  "merging_against v fs (working_prj (upd_fe r f w)) = merging_against v fs (working_prj w)"
  by (cases "fst r"; simp add: upd_fe_def upd_entries_def merging_against_def)+

lemma merge_inv_upd:
  assumes "merge_inv w0 v w"
    and "valid_ref r w0 \<Longrightarrow> entry_inv (tool_env (working_prj w0)) (family w0) (fe_of r w0) (f (fe_of r w))"
  shows "merge_inv w0 v (upd_fe r f w)"
proof -
  have "list_all2 (entry_inv (tool_env (working_prj w0)) (family w0)) (entries sd w0) (entries sd (upd_fe r f w))" for sd
  proof (cases "fst r = sd \<and> snd r < length (entries sd w0)")
    case True
    then show ?thesis
      using assms(2) assms(1) by (auto simp: entries_upd merge_inv_def valid_ref_def fe_of_def list_all2_conv_all_nth
        nth_list_update)
  next
    case False
    then have "entries sd (upd_fe r f w) = entries sd w"
      using merge_inv_length [OF assms(1), of sd] by (auto simp: entries_upd list_update_beyond)
    then show ?thesis using assms(1) by (simp add: merge_inv_def)
  qed
  then show ?thesis using assms(1) by (simp add: merge_inv_def)
qed

section \<open>Matching by name\<close>

definition matches :: "FileWorld \<Rightarrow> side \<Rightarrow> FileRef \<Rightarrow> FileRef option" where
  "matches w sd r = map_option (\<lambda>i. (sd, i)) (name_index (entries sd w) (fe_working_path (fe_of r w)))"

lemma tables_of_ok:
  assumes "unrenamed w0" and "merge_inv w0 v (world s)"
  shows "\<exists>t s'. tables_of sd s = (Inr t, s') \<and> tables_map (family w0) (entries sd w0) t \<and>
    merge_inv w0 v (world s') \<and> merge_log s' = merge_log s \<and> (\<forall>r. fe_of r (world s') = fe_of r (world s))"
proof (cases "match_tables (world s) sd")
  case (Some t)
  then show ?thesis using assms(2) by (auto simp: tables_of_def cmd_simps merge_inv_def)
next
  case None
  let ?w = "world s" and ?t = "populate_tables (entries sd (world s))"
  let ?w' = "?w\<lparr>match_tables := (match_tables ?w)(sd := Some ?t)\<rparr>"
  have la: "list_all2 (entry_inv (tool_env (working_prj w0)) (family w0)) (entries sd w0) (entries sd ?w)"
    using assms(2) by (simp add: merge_inv_def)
  then have names: "map fe_working_path (entries sd ?w) = map fe_working_path (entries sd w0)"
    by (intro nth_equalityI) (auto simp: list_all2_conv_all_nth entry_inv_def)
  have each: "(file_type x = RealFile \<longrightarrow> fe_descriptor x \<noteq> None) \<and>
      (\<forall>d. fe_descriptor x = Some d \<longrightarrow> (fe_working_path x, d) \<in> family w0) \<and>
      fe_working_path x \<in> fe_working_path ` set (entries sd w0)"
    if "x \<in> set (entries sd ?w)" for x
  proof -
    obtain i where "i < length (entries sd ?w)" "x = entries sd ?w ! i" using \<open>x \<in> _\<close> by (metis in_set_conv_nth)
    then show ?thesis using la by (auto simp: list_all2_conv_all_nth entry_inv_def image_iff)
  qed
  have "plain_entry x" if "x \<in> set (entries sd ?w)" for x
    using each [OF that] unrenamedD(2,4) [OF assms(1)] entries_all [of sd w0]
    by (auto simp: plain_entry_def image_iff split: option.split) 
  then have t: "tables_map (family w0) (entries sd ?w) ?t"
    using populate_tables_ok [of "entries sd ?w" "family w0"] each unrenamedD(1) [OF assms(1), of sd]
    by (simp add: names)
  have idx: "name_index (entries sd ?w) p = name_index (entries sd w0) p" for p
  proof -
    have "find_index (\<lambda>n. n = p) (map fe_working_path es) = find_index (\<lambda>fe. fe_working_path fe = p) es" for es
      by (induction es) simp_all
    from this [of "entries sd ?w"] this [of "entries sd w0"] show ?thesis by (simp add: name_index_def names)
  qed
  have path: "i < length (entries sd w0) \<Longrightarrow> fe_working_path (entries sd ?w ! i) = fe_working_path (entries sd w0 ! i)" for i
    using la by (simp add: list_all2_conv_all_nth entry_inv_def)
  have t0: "tables_map (family w0) (entries sd w0) ?t"
    using t path merge_inv_length [OF assms(2), of sd] unfolding tables_map_def idx by metis
  have ent: "entries sd' ?w' = entries sd' ?w" for sd' by (cases sd') (simp_all add: entries_def)
  have "merge_inv w0 v ?w'" using assms(2) t0 by (simp add: merge_inv_def ent)
  moreover have "fe_of r ?w' = fe_of r ?w" for r by (simp add: fe_of_def ent)
  ultimately show ?thesis using None t0 by (simp add: tables_of_def cmd_simps Let_def)
qed

lemma match_ok:
  assumes u: "unrenamed w0" and j: "merge_inv w0 v (world s)" and r: "valid_ref r w0"
  shows "\<exists>s'. match_fileent o' sd r s = (Inr (matches w0 sd r), s') \<and> merge_inv w0 v (world s') \<and>
    merge_log s' = merge_log s \<and> (\<forall>x. fe_of x (world s') = fe_of x (world s))"
proof -
  obtain t s' where t: "tables_of sd s = (Inr t, s')" "tables_map (family w0) (entries sd w0) t"
    "merge_inv w0 v (world s')" "merge_log s' = merge_log s" "\<forall>r. fe_of r (world s') = fe_of r (world s)"
    using tables_of_ok [OF u j, of sd] by blast
  let ?fe = "fe_of r (world s')" and ?p = "fe_working_path (fe_of r w0)"
  have inv: "entry_inv (tool_env (working_prj w0)) (family w0) (fe_of r w0) ?fe" by (rule merge_inv_entry [OF t(3) r])
  then have p: "fe_working_path ?fe = ?p" by (simp add: entry_inv_def)
  have "fe_of r w0 \<in> set (all_entries w0)"
    using r entries_all [of "fst r" w0] by (auto simp: valid_ref_def fe_of_def)
  then have "single_slashed ?p" using unrenamedD(2) [OF u] by (simp add: plain_entry_def)
  then have nm: "name_lu t ?fe = name_index (entries sd w0) ?p"
    using t(2) by (simp add: name_lu_def tables_map_def p)
  have desc: "name_lu t ?fe = Some j" if "fe_descriptor ?fe = Some d" "desc_lu t d = Some j" for d j
  proof -
    have f: "(?p, d) \<in> family w0" using inv that(1) p by (auto simp: entry_inv_def)
    then have "single_slashed d" using unrenamedD(4) [OF u] by blast
    then have j: "j < length (entries sd w0)" "(fe_working_path (entries sd w0 ! j), d) \<in> family w0"
      using t(2) that(2) by (auto simp: tables_map_def)
    then have "fe_working_path (entries sd w0 ! j) = ?p" using unrenamedD(3) [OF u f j(2)] by simp
    then show ?thesis using j(1) nm name_index_Some [OF unrenamedD(1) [OF u]] by simp
  qed
  have cache: "file_match_cache t = []" using t(2) by (simp add: tables_map_def)
  have "match_fileent o' sd r s = (Inr (map_option (\<lambda>i. (sd, i)) (name_lu t ?fe)), s')"
    unfolding match_fileent_def cbind_Inr [of "tables_of sd", OF t(1)] get_fe_def
    using desc by (auto simp: cache cmd_simps Let_def split: FileType.split option.split) blast
  then have "match_fileent o' sd r s = (Inr (matches w0 sd r), s')" by (simp add: nm matches_def)
  then show ?thesis using t(3-5) by blast
qed

section \<open>Every operation keeps the invariant\<close>

abbreviation good_entry :: "FileWorld \<Rightarrow> FileRef \<Rightarrow> FileEntry \<Rightarrow> bool" where
  "good_entry w0 r fe \<equiv> valid_ref r w0 \<longrightarrow> entry_inv (tool_env (working_prj w0)) (family w0) (fe_of r w0) fe"

abbreviation keeps_merge :: "FileWorld \<Rightarrow> string \<Rightarrow> (FileWorld, FileRef) MergeState \<Rightarrow> (FileWorld, FileRef) MergeState \<Rightarrow> bool" where
  "keeps_merge w0 v \<equiv> kept_world (merge_inv w0 v)"

lemma merge_inv_cong:
  assumes "merge_inv w0 v w" and "\<And>sd. entries sd w' = entries sd w" and "match_tables w' = match_tables w"
    and "tool_env (working_prj w') = tool_env (working_prj w)"
    and "attrs_table (working_prj w') = attrs_table (working_prj w)"
    and "merging_against v [] (working_prj w) \<Longrightarrow> merging_against v [] (working_prj w')"
  shows "merge_inv w0 v w'"
  using assms by (simp add: merge_inv_def)

lemma keeps_world_upd:
  assumes "\<And>w. merge_inv w0 v w \<Longrightarrow> merge_inv w0 v (h w)"
  shows "always (keeps_merge w0 v) (cupd (\<lambda>s. s\<lparr>world := h (world s)\<rparr>))"
  by (rule always_quiet_upd) (simp add: assms announced_def)

lemma keeps_flags:
  "always (keeps_merge w0 v) (cupd (\<lambda>s. s\<lparr>world := (world s)\<lparr>rfl := r\<rparr>\<rparr>))"
  "always (keeps_merge w0 v) (cupd (\<lambda>s. s\<lparr>world := (world s)\<lparr>do_once := b\<rparr>\<rparr>))"
  "always (keeps_merge w0 v) (cupd (\<lambda>s. s\<lparr>world := (world s)\<lparr>any_obsolete := b\<rparr>\<rparr>))"
proof -
  have e: "entries sd (w\<lparr>rfl := r\<rparr>) = entries sd w" "entries sd (w\<lparr>do_once := b\<rparr>) = entries sd w"
    "entries sd (w\<lparr>any_obsolete := b\<rparr>) = entries sd w" for sd w
    by (cases sd; simp add: entries_def)+
  show "always (keeps_merge w0 v) (cupd (\<lambda>s. s\<lparr>world := (world s)\<lparr>rfl := r\<rparr>\<rparr>))"
    "always (keeps_merge w0 v) (cupd (\<lambda>s. s\<lparr>world := (world s)\<lparr>do_once := b\<rparr>\<rparr>))"
    "always (keeps_merge w0 v) (cupd (\<lambda>s. s\<lparr>world := (world s)\<lparr>any_obsolete := b\<rparr>\<rparr>))"
    by (intro keeps_world_upd; erule merge_inv_cong; simp add: e)+
qed

lemma keeps_disk: "always (keeps_merge w0 v) (on_disk_fm m)"
proof -
  have e: "entries sd (w\<lparr>disk := d\<rparr>) = entries sd w" for sd w d by (cases sd) (simp_all add: entries_def)
  have "merge_inv w0 v (w\<lparr>disk := d\<rparr>)" if "merge_inv w0 v w" for w d
    using that by (rule merge_inv_cong) (simp_all add: e)
  then show ?thesis
    by (auto simp: always_def on_disk_fm_def kept_world_def announced_def split: prod.split)
qed

lemma keeps_working:
  assumes "\<And>p r p'. m p = (r, p') \<Longrightarrow>
      file_entries p' = file_entries p \<and> tool_env p' = tool_env p \<and> attrs_table p' = attrs_table p \<and>
      (merging_against v [] p \<longrightarrow> merging_against v [] p')"
  shows "always (keeps_merge w0 v) (on_working m)"
proof -
  have "merge_inv w0 v (w\<lparr>working_prj := p'\<rparr>)" if "merge_inv w0 v w" "m (working_prj w) = (r, p')" for w r p'
  proof -
    have e: "entries sd (w\<lparr>working_prj := p'\<rparr>) = entries sd w" for sd
      using assms [OF that(2)] by (cases sd) (simp_all add: entries_def)
    show ?thesis using that(1) by (rule merge_inv_cong) (use e assms [OF that(2)] in simp_all)
  qed
  then show ?thesis
    by (auto simp: always_def on_working_def kept_world_def announced_def split: prod.split)
qed

text \<open>An entry that is read satisfies the invariant of entries.\<close>

lemma keeps_get_fe:
  assumes "\<And>fe. good_entry w0 r fe \<Longrightarrow> always (keeps_merge w0 v) (k fe)"
  shows "always (keeps_merge w0 v) (cbind (get_fe r) k)"
  unfolding always_def
proof
  fix s
  show "keeps_merge w0 v s (snd (cbind (get_fe r) k s))"
  proof (cases "merge_inv w0 v (world s)")
    case True
    then have "always (keeps_merge w0 v) (k (fe_of r (world s)))"
      using assms merge_inv_entry [OF True] by blast
    then show ?thesis by (simp add: always_def get_fe_def cmd_simps)
  qed (simp add: kept_world_def)
qed

lemma keeps_set_fe:
  assumes "\<And>fe. valid_ref r w0 \<Longrightarrow> entry_inv (tool_env (working_prj w0)) (family w0) (fe_of r w0) fe \<Longrightarrow>
    entry_inv (tool_env (working_prj w0)) (family w0) (fe_of r w0) (f fe)"
  shows "always (keeps_merge w0 v) (set_fe r f)"
  unfolding set_fe_def
  by (rule keeps_world_upd) (rule merge_inv_upd, assumption, blast intro: assms merge_inv_entry)

lemma keeps_tables:
  assumes "unrenamed w0"
  shows "always (keeps_merge w0 v) (tables_of sd)"
  unfolding always_def
proof
  fix s :: "(FileWorld, FileRef) MergeState"
  show "keeps_merge w0 v s (snd (tables_of sd s))"
    using tables_of_ok [OF assms, of v s sd] by (auto simp: kept_world_def announced_def)
qed

lemma keeps_throw_unless: "always (keeps_merge w0 v) (throw_unless b)"
  by (simp add: throw_unless_def quiet.always_if quiet.always_return quiet.always_throw)

lemmas keeps_intros =
  quiet.always_intros always_query keeps_disk keeps_flags keeps_get_fe keeps_throw_unless always_log

lemma entry_inv_fields:
  "entry_inv env fam x (fe\<lparr>fe_present := b\<rparr>) = entry_inv env fam x fe"
  "entry_inv env fam x (fe\<lparr>fe_link := l\<rparr>) = entry_inv env fam x fe"
  "file_type (fe\<lparr>fe_present := b\<rparr>) = file_type fe"
  by (simp_all add: entry_inv_def file_type_def)

lemma keeps_stat: "always (keeps_merge w0 v) (fe_stat r)" "always (keeps_merge w0 v) (get_file_sys_info r)"
proof -
  show "always (keeps_merge w0 v) (fe_stat r)"
    unfolding fe_stat_def Let_def by (intro keeps_intros keeps_set_fe) (simp add: entry_inv_fields)
  then show "always (keeps_merge w0 v) (get_file_sys_info r)"
    unfolding get_file_sys_info_def by (intro keeps_intros)
qed

lemma keeps_repository_info: "always (keeps_merge w0 v) (get_repository_info X r)"
  unfolding get_repository_info_def
  by (intro keeps_intros) (auto intro!: keeps_intros split: option.split)

lemma keeps_new_filename: "always (keeps_merge w0 v) (Rep_new_filename X n)"
  unfolding Rep_new_filename_def by (intro keeps_intros) (auto intro!: keeps_intros split: prod.split)

lemma keeps_set_any: "\<not> valid_ref r w0 \<Longrightarrow> always (keeps_merge w0 v) (set_fe r f)"
  by (rule keeps_set_fe) simp

lemma keeps_initialize: "always (keeps_merge w0 v) (initialize_descriptor X r)"
  unfolding initialize_descriptor_def
proof (rule keeps_get_fe)
  fix fe assume g: "good_entry w0 r fe"
  show "always (keeps_merge w0 v)
      (if file_type fe \<noteq> RealFile then creturn None
       else (case fe_descriptor fe of
               None \<Rightarrow>
                 cthen (set_fe r (\<lambda>fe. fe\<lparr>fe_descriptor := Some [], fe_version := Some []\<rparr>))
                 (cbind (Rep_new_filename X (strip_leading_path (fe_working_path fe))) (\<lambda>n.
                  cthen (set_fe r (\<lambda>fe. fe\<lparr>fe_descriptor := Some n\<rparr>)) (creturn (Some n))))
             | Some d \<Rightarrow>
                 cthen (cassert (d \<noteq> []))
                 (cthen (throw_unless (rcs_prepared X d)) (creturn (Some d)))))"
  proof (cases "file_type fe = RealFile \<and> fe_descriptor fe = None")
    case True
    then have "\<not> valid_ref r w0" using g by (auto simp: entry_inv_def)
    then show ?thesis using True by (auto intro!: keeps_intros keeps_new_filename keeps_set_any)
  next
    case False
    then show ?thesis by (auto intro!: keeps_intros split: option.split)
  qed
qed

text \<open>Copying the names and attributes of a file of the same name.\<close>

definition set_attrs :: "FileRef \<Rightarrow> PrcsAttrs \<Rightarrow> unit fm" where
  "set_attrs r at =
     cbind (cget (\<lambda>s. working_prj (world s))) (\<lambda>p.
        case intern_attrs (tool_env p) (attrs_table p) (vals at) (ngroup at) False of
          Inl e \<Rightarrow> cthrow (case e of Err _ \<Rightarrow> AssertFailed | _ \<Rightarrow> e)
        | Inr (a, t) \<Rightarrow>
            cthen (cupd (\<lambda>s. s\<lparr>world := (world s)\<lparr>working_prj := (working_prj (world s))\<lparr>attrs_table := t\<rparr>\<rparr>\<rparr>))
              (set_fe r (\<lambda>fe. fe\<lparr>fe_attrs := a\<rparr>)))"

lemma set_attrs_keeps:
  assumes j: "merge_inv w0 v (world s)" and at: "attrs_canonical (tool_env (working_prj w0)) at"
    and e: "valid_ref r w0 \<Longrightarrow>
      entry_inv (tool_env (working_prj w0)) (family w0) (fe_of r w0) ((fe_of r (world s))\<lparr>fe_attrs := at\<rparr>)"
  shows "keeps_merge w0 v s (snd (set_attrs r at s))"
proof -
  let ?p = "working_prj (world s)"
  have env: "tool_env ?p = tool_env (working_prj w0)" and inv: "attrs_inv (tool_env ?p) (attrs_table ?p)"
    using j by (simp_all add: merge_inv_def)
  show ?thesis
  proof (cases "intern_attrs (tool_env ?p) (attrs_table ?p) (vals at) (ngroup at) False")
    case (Inl f)
    then show ?thesis using j by (simp add: set_attrs_def cmd_simps kept_world_def)
  next
    case (Inr b)
    obtain a t where b: "b = (a, t)" by (cases b)
    note c = intern_attrs_cases [OF inv Inr [unfolded b]]
    have a: "a = at" using c(1) at by (simp add: attrs_canonical_def env)
    let ?w = "(world s)\<lparr>working_prj := ?p\<lparr>attrs_table := t\<rparr>\<rparr>"
    have ent: "entries sd ?w = entries sd (world s)" for sd by (cases sd) (simp_all add: entries_def)
    have w: "merge_inv w0 v ?w" using j c(2) env by (simp add: merge_inv_def ent merging_against_def)
    have "merge_inv w0 v (upd_fe r (\<lambda>fe. fe\<lparr>fe_attrs := at\<rparr>) ?w)"
      by (rule merge_inv_upd [OF w]) (use e in \<open>simp add: fe_of_def ent\<close>)
    then show ?thesis
      by (simp add: set_attrs_def set_fe_def cmd_simps Inr b a kept_world_def announced_def)
  qed
qed

lemma fe_of_upd: "valid_ref r w \<Longrightarrow> fe_of r (upd_fe r f w) = f (fe_of r w)"
  by (simp add: fe_of_def entries_upd valid_ref_def)

lemma valid_ref_inv: "merge_inv w0 v w \<Longrightarrow> valid_ref r w \<longleftrightarrow> valid_ref r w0"
  by (simp add: valid_ref_def merge_inv_length)

lemma fe_set_eq: "fe_set r fe' = cthen (fe_set_names r fe') (set_attrs r (fe_attrs fe'))"
  by (simp add: fe_set_def set_attrs_def)

lemma keeps_fe_set:
  assumes fe': "entry_inv (tool_env (working_prj w0)) (family w0) x fe'"
    and same: "fe_working_path x = fe_working_path (fe_of r w0)"
  shows "always (keeps_merge w0 v) (fe_set r fe')"
  unfolding always_def
proof
  fix s :: "(FileWorld, FileRef) MergeState"
  let ?I = "entry_inv (tool_env (working_prj w0)) (family w0) (fe_of r w0)"
  have at: "attrs_canonical (tool_env (working_prj w0)) (fe_attrs fe')" using fe' by (simp add: entry_inv_def)
  have p': "fe_working_path fe' = fe_working_path (fe_of r w0)" using fe' same by (simp add: entry_inv_def)
  show "keeps_merge w0 v s (snd (fe_set r fe' s))"
  proof (cases "merge_inv w0 v (world s)")
    case True
    have step: "keeps_merge w0 v s (snd (set_attrs r (fe_attrs fe') (s\<lparr>world := upd_fe r f (world s)\<rparr>)))"
      if f: "valid_ref r w0 \<Longrightarrow> ?I (f (fe_of r (world s))) \<and> ?I ((f (fe_of r (world s)))\<lparr>fe_attrs := fe_attrs fe'\<rparr>)" for f
    proof -
      have w: "merge_inv w0 v (upd_fe r f (world s))" by (rule merge_inv_upd [OF True]) (use f in blast)
      then have "keeps_merge w0 v (s\<lparr>world := upd_fe r f (world s)\<rparr>)
          (snd (set_attrs r (fe_attrs fe') (s\<lparr>world := upd_fe r f (world s)\<rparr>)))"
        using f valid_ref_inv [OF True] by (intro set_attrs_keeps at) (simp_all add: fe_of_upd)
      then show ?thesis using w by (simp add: kept_world_def announced_def)
    qed
    have old: "valid_ref r w0 \<Longrightarrow> ?I (fe_of r (world s))" using merge_inv_entry [OF True] .
    have type: "file_type (fe\<lparr>fe_attrs := fe_attrs fe'\<rparr>) = file_type fe'" for fe by (simp add: file_type_def)
    have none: "upd_fe r (\<lambda>fe. fe) (world s) = world s"
      by (cases "fst r") (simp_all add: upd_fe_def upd_entries_def)
    show ?thesis
    proof (cases "file_type fe'")
      case RealFile
      then obtain d where d: "fe_descriptor fe' = Some d" using fe' by (auto simp: entry_inv_def)
      then have fam: "(fe_working_path fe', d) \<in> family w0" using fe' unfolding entry_inv_def by blast
      show ?thesis
      proof (cases "fe_version fe'")
        case None
        then show ?thesis using RealFile d by (simp add: fe_set_eq fe_set_names_def cmd_simps kept_world_def)
      next
        case (Some ver)
        let ?f = "\<lambda>fe. fe\<lparr>fe_descriptor := Some d, fe_version := Some ver, fe_mode := fe_mode fe'\<rparr>"
        have "?I (?f (fe_of r (world s))) \<and> ?I ((?f (fe_of r (world s)))\<lparr>fe_attrs := fe_attrs fe'\<rparr>)"
          if "valid_ref r w0"
          using old [OF that] fam at p' by (auto simp: entry_inv_def file_type_def)
        then show ?thesis
          using step [of ?f] RealFile d Some by (simp add: fe_set_eq fe_set_names_def set_fe_def cmd_simps)
      qed
    next
      case SymLink
      show ?thesis
      proof (cases "fe_link fe'")
        case None
        then show ?thesis using SymLink by (simp add: fe_set_eq fe_set_names_def cmd_simps kept_world_def)
      next
        case (Some l)
        let ?f = "\<lambda>fe. fe\<lparr>fe_link := Some l\<rparr>"
        have "?I (?f (fe_of r (world s))) \<and> ?I ((?f (fe_of r (world s)))\<lparr>fe_attrs := fe_attrs fe'\<rparr>)"
          if "valid_ref r w0"
          using old [OF that] at SymLink by (auto simp: entry_inv_def file_type_def)
        then show ?thesis
          using step [of ?f] SymLink Some by (simp add: fe_set_eq fe_set_names_def set_fe_def cmd_simps)
      qed
    next
      case Directory
      have "?I ((fe_of r (world s))\<lparr>fe_attrs := fe_attrs fe'\<rparr>)" if "valid_ref r w0"
        using old [OF that] at Directory by (auto simp: entry_inv_def file_type_def)
      then show ?thesis
        using step [of "\<lambda>fe. fe"] old Directory by (simp add: fe_set_eq fe_set_names_def cmd_simps none)
    qed
  qed (simp add: kept_world_def)
qed

section \<open>The actions keep the invariant\<close>

lemma keeps_make_obsolete: "always (keeps_merge w0 v) (make_obsolete r b)"
  unfolding make_obsolete_def Let_def
  by (intro keeps_intros) simp_all

lemma keeps_subdir: "always (keeps_merge w0 v) (check_create_subdir o' dir)"
  unfolding check_create_subdir_def by (intro keeps_intros)

lemma keeps_subdirs: "always (keeps_merge w0 v) (make_subdirectories o' n)"
  unfolding make_subdirectories_def by (intro quiet.always_foreach keeps_subdir)

lemma keeps_checkout_rep: "always (keeps_merge w0 v) (checkout_unkey_rep X r n)"
  unfolding checkout_unkey_rep_def
  by (intro keeps_intros keeps_initialize) (auto intro!: keeps_intros split: option.split)

lemma keeps_checkout_work: "always (keeps_merge w0 v) (checkout_unkey_work X r n)"
  unfolding checkout_unkey_work_def by (intro keeps_intros keeps_initialize keeps_stat)

lemma keeps_co:
  "(\<And>r n. always (keeps_merge w0 v) (c r n)) \<Longrightarrow> always (keeps_merge w0 v) (co_first fe name done' c)"
  "always (keeps_merge w0 v) (co_rename fe name done')"
  unfolding co_first_def co_rename_def
  by (auto intro!: keeps_intros split: option.split)

lemma keeps_checkout: "always (keeps_merge w0 v) (checkout_unkey X s sn c cn w wn co)"
  unfolding checkout_unkey_def
  by (intro keeps_intros keeps_co keeps_checkout_rep keeps_checkout_work)

lemma keeps_rcs_data: "always (keeps_merge w0 v) (rcs_data X fe)"
  unfolding rcs_data_def by (auto intro!: keeps_intros split: option.split)

lemma keeps_quick_cmp: "always (keeps_merge w0 v) (file_quick_cmp X a b c)"
  unfolding file_quick_cmp_def
  by (auto intro!: keeps_intros keeps_rcs_data keeps_set_fe simp: entry_inv_fields split: option.split)

lemma keeps_put: "always (keeps_merge w0 v) (put_selected X o' r path co)"
  unfolding put_selected_def
  by (intro keeps_get_fe)
    (auto intro!: keeps_intros keeps_checkout keeps_subdir split: FileType.split option.split)

lemma merging_append:
  "append_insertion t p = (r, p') \<Longrightarrow>
     file_entries p' = file_entries p \<and> tool_env p' = tool_env p \<and> attrs_table p' = attrs_table p \<and>
     (merging_against v [] p \<longrightarrow> merging_against v [] p')"
  by (auto simp: append_insertion_def cmd_simps merging_against_def split: option.splits)

lemma keeps_append: "always (keeps_merge w0 v) (on_working (append_insertion t))"
  by (rule keeps_working) (rule merging_append)

lemma keeps_append_file: "always (keeps_merge w0 v) (on_working (append_file fe))"
proof (rule keeps_working)
  fix p r p' assume "append_file fe p = (r, p')"
  then show "file_entries p' = file_entries p \<and> tool_env p' = tool_env p \<and> attrs_table p' = attrs_table p \<and>
     (merging_against v [] p \<longrightarrow> merging_against v [] p')"
    by (auto simp: append_file_def cmd_simps split: if_splits dest!: merging_append)
qed

lemma keeps_add: "always (keeps_merge w0 v) (add_selected_file X o' s c w co)"
  unfolding add_selected_file_def
  by (auto intro!: keeps_intros keeps_append keeps_append_file keeps_make_obsolete keeps_subdirs keeps_put
    split: option.split)

lemma keeps_delete: "always (keeps_merge w0 v) (delete_working_file o' s c w co)"
  unfolding delete_working_file_def
  by (auto intro!: keeps_intros keeps_make_obsolete keeps_subdirs keeps_working
    simp: cmd_simps merging_against_def split: option.split)

text \<open>The three files of a merge have one name, and the selected one is an entry of its project.\<close>

definition same_names :: "FileWorld \<Rightarrow> FileRef option \<Rightarrow> FileRef option \<Rightarrow> bool" where
  "same_names w sel work \<longleftrightarrow>
     (case (sel, work) of
        (Some s, Some r) \<Rightarrow> valid_ref s w \<and> fe_working_path (fe_of s w) = fe_working_path (fe_of r w)
      | _ \<Rightarrow> True)"

lemma keeps_replace:
  assumes "same_names w0 sel work"
  shows "always (keeps_merge w0 v) (replace_file X o' sel com work co)"
proof (cases "sel = None \<or> work = None")
  case True
  then show ?thesis by (cases sel; cases work) (auto simp: replace_file_def intro: quiet.always_throw)
next
  case False
  then obtain s r where sr: "sel = Some s" "work = Some r" by auto
  have set: "always (keeps_merge w0 v) (fe_set r fe)" if "good_entry w0 s fe" for fe
    by (rule keeps_fe_set [of w0 "fe_of s w0"]) (use that assms in \<open>auto simp: same_names_def sr\<close>)
  show ?thesis
    unfolding replace_file_def sr option.case prod.case
    by (intro keeps_get_fe keeps_intros keeps_stat keeps_subdirs keeps_make_obsolete keeps_put set)
qed

lemma keeps_gdiff3: "always (keeps_merge w0 v) (merge_by_gdiff3 X r b)"
  unfolding merge_by_gdiff3_def by (intro keeps_intros keeps_make_obsolete)

lemma keeps_tool: "always (keeps_merge w0 v) (merge_by_tool X t r)"
  unfolding merge_by_tool_def by (intro keeps_intros keeps_make_obsolete)

lemma keeps_merge_files:
  assumes "same_names w0 sel work"
  shows "always (keeps_merge w0 v) (merge_files X sel com work co)"
proof (cases "sel = None \<or> work = None")
  case True
  then show ?thesis
    by (cases sel; cases work) (auto simp: merge_files_def intro!: keeps_intros)
next
  case False
  then obtain s r where sr: "sel = Some s" "work = Some r" by auto
  have set: "always (keeps_merge w0 v) (fe_set r fe)" if "good_entry w0 s fe" for fe
    by (rule keeps_fe_set [of w0 "fe_of s w0"]) (use that assms in \<open>auto simp: same_names_def sr\<close>)
  have repo: "always (keeps_merge w0 v) (case com of None \<Rightarrow> creturn () | Some c \<Rightarrow> get_repository_info X c)"
    by (auto intro: quiet.always_return keeps_repository_info split: option.split)
  show ?thesis
    unfolding merge_files_def sr option.case prod.case
    by (intro keeps_get_fe keeps_intros keeps_stat keeps_repository_info keeps_checkout keeps_gdiff3 keeps_tool
      set repo)
qed

lemma keeps_view_pair: "always (keeps_merge w0 v) (view_pair X a b s t)"
  unfolding view_pair_def by (intro keeps_intros)

lemma keeps_view_loop: "always (keeps_merge w0 v) (view_loop n X o' a b c co)"
proof (induction n arbitrary: co)
  case (Suc n)
  have part: "always (keeps_merge w0 v)
      (case (ch = CHR ''s'', ch = CHR ''w'', ch = CHR ''d'', a, b, c) of
             (True, _, _, Some s, Some m, _) \<Rightarrow>
               cbind (checkout_unkey X a ts b tc None None co)
                 (\<lambda>co'. cthen (view_pair X m s temp_file_common temp_file_selected) (creturn co'))
           | (_, True, _, _, Some m, Some w) \<Rightarrow>
               cbind (checkout_unkey X None None b tc c tw co)
                 (\<lambda>co'. cthen (view_pair X m w temp_file_common temp_file_working) (creturn co'))
           | (_, _, True, Some s, _, Some w) \<Rightarrow>
               cbind (checkout_unkey X a ts None None c tw co)
                 (\<lambda>co'. cthen (view_pair X s w temp_file_selected temp_file_working) (creturn co'))
           | _ \<Rightarrow> creturn co)" for ch ts tc tw
    by (auto intro!: keeps_intros keeps_checkout keeps_view_pair split: bool.split option.split)
  show ?case
    unfolding view_loop.simps Let_def by (intro keeps_intros part Suc)
qed (simp add: quiet.always_throw)

lemma keeps_can_add: "unrenamed w0 \<Longrightarrow> always (keeps_merge w0 v) (can_add_file r)"
  unfolding can_add_file_def by (intro keeps_intros keeps_tables)

lemma keeps_action: "always (keeps_merge w0 v) (fe_merge_action r n)"
  unfolding fe_merge_action_def by (intro keeps_intros)

lemma keeps_notify: "always (keeps_merge w0 v) (file_notify X a b c act)"
  unfolding file_notify_def
proof (intro quiet.always_bind quiet.always_get keeps_working)
  fix w p r p'
  assume n: "merge_notify (cmd_len X) (fe_option a w) (fe_option b w) (fe_option c w) act p = (r, p')"
  then have "file_entries p' = file_entries p \<and> tool_env p' = tool_env p \<and> attrs_table p' = attrs_table p"
    by (auto simp: merge_notify_def cmd_simps split: option.splits if_splits)
  moreover have "merging_against v [] p'" if m: "merging_against v [] p"
  proof (cases r)
    case (Inl f)
    then have "p' = p" using n by (auto simp: merge_notify_def cmd_simps split: option.splits if_splits)
    then show ?thesis using m by simp
  next
    case (Inr u)
    then show ?thesis using merge_notify_keeps [OF _ m] n by simp
  qed
  ultimately show "file_entries p' = file_entries p \<and> tool_env p' = tool_env p \<and> attrs_table p' = attrs_table p \<and>
     (merging_against v [] p \<longrightarrow> merging_against v [] p')" by blast
qed

lemma always_guard:
  assumes "A \<Longrightarrow> B \<Longrightarrow> always (kept_world J) m"
  shows "always (kept_world (\<lambda>w. A \<and> B \<and> J w)) m"
  using assms by (cases "A \<and> B") (auto simp: always_def kept_world_def)

text \<open>
  The controller of the files is such a quiet one on three files of one name, and an editor
  works on the disk only.
\<close>

interpretation files: quiet_control "\<lambda>w. unrenamed w0 \<and> same_names w0 sel work \<and> merge_inv w0 v w"
  "FileMergeControl X o'" "\<lambda>n. on_disk_fm (ed n)" sel com work
  for w0 v X o' ed sel com work
  by unfold_locales
    (auto simp: FileMergeControl_def view_merge_diffs_def intro!: always_guard keeps_intros keeps_action keeps_quick_cmp
      keeps_checkout keeps_can_add keeps_view_loop keeps_merge_files keeps_add keeps_delete keeps_replace keeps_notify)

section \<open>The loops\<close>

text \<open>The three files of a name; there is at most one of the name in each version.\<close>

definition triple :: "FileWorld \<Rightarrow> string \<Rightarrow> FileRef option \<times> FileRef option \<times> FileRef option" where
  "triple w p =
     (map_option (\<lambda>i. (SelectedSide, i)) (name_index (entries SelectedSide w) p),
      map_option (\<lambda>i. (CommonSide, i)) (name_index (entries CommonSide w) p),
      map_option (\<lambda>i. (WorkingSide, i)) (name_index (entries WorkingSide w) p))"

definition names_of :: "side \<Rightarrow> FileWorld \<Rightarrow> string list" where
  "names_of sd w = map fe_working_path (entries sd w)"

text \<open>The names in the order in which the loops come to them.\<close>

definition merge_order :: "FileWorld \<Rightarrow> string list" where
  "merge_order w =
     names_of CommonSide w @
     filter (\<lambda>p. p \<notin> set (names_of CommonSide w) \<and> p \<notin> set (names_of WorkingSide w)) (names_of SelectedSide w) @
     filter (\<lambda>p. p \<notin> set (names_of CommonSide w)) (names_of WorkingSide w)"

lemma merge_order_complete:
  assumes "unrenamed w"
  shows "distinct (merge_order w)"
    and "set (merge_order w) = set (names_of WorkingSide w) \<union> set (names_of CommonSide w) \<union> set (names_of SelectedSide w)"
  using unrenamedD(1) [OF assms] by (auto simp: merge_order_def names_of_def)

lemma name_index_iff: "name_index es p = None \<longleftrightarrow> p \<notin> fe_working_path ` set es"
  by (auto simp: name_index_def find_index_None)

lemma triple_same_names:
  assumes "unrenamed w" and "triple w p = (a, b, c)"
  shows "same_names w a c"
  using assms(2) name_index_Some [OF unrenamedD(1) [OF assms(1)]]
  by (auto simp: triple_def same_names_def valid_ref_def fe_of_def split: option.split)

lemma not_merged:
  assumes "merging_against v [] p" and "has_been_merged len w c sel p = (Inr b, p')"
  shows "\<not> b \<and> p' = p"
proof (cases "path_defined len w \<and> path_defined len c \<and> path_defined len sel")
  case True
  then show ?thesis using has_been_merged_eq [OF assms(1), of len w c sel] assms(2) by (simp add: recorded_def)
next
  case False
  obtain i es tw tc ts where p: "merge_entry p = Some i" "new_merge_parents p = Some es"
    "working_table (es ! i) = Some tw" "common_table (es ! i) = Some tc" "selected_table (es ! i) = Some ts"
    and hold: "tables_hold [] (tw, tc, ts)"
    using assms(1) by (auto simp: merging_against_def)
  have et: "entry_table len f (Some t) p =
      (if path_defined len f then (Inr (f \<noteq> None \<and> ht_isdefined hash_string (=) t (name_in_project len (the f))), p)
       else (Inl Undefined, p))" for f t
    by (cases f) (auto simp: entry_table_def cmd_simps path_defined_def)
  have "\<not> ht_isdefined hash_string (=) t n" if "t \<in> {tw, tc, ts}" for t n
    using hold that by (auto simp: tables_hold_def)
  then show ?thesis using assms(2) False
    by (auto simp: has_been_merged_def cmd_simps p et split: if_splits)
qed

text \<open>The names of the three files agree, so nothing is renamed.\<close>

lemma triple_path:
  assumes "unrenamed w0" and "merge_inv w0 v w" and "triple w0 p = (a, b, c)" and "Some r \<in> {a, b, c}"
  shows "valid_ref r w0" and "fe_working_path (fe_of r w) = p"
    and "fe_on_command_line (fe_of r w) = fe_on_command_line (fe_of r w0)"
proof -
  show v: "valid_ref r w0" and "fe_working_path (fe_of r w) = p"
    and "fe_on_command_line (fe_of r w) = fe_on_command_line (fe_of r w0)"
  proof -
    have v: "valid_ref r w0" and q: "fe_working_path (fe_of r w0) = p"
      using assms(3,4) name_index_Some [OF unrenamedD(1) [OF assms(1)]]
      by (auto simp: triple_def valid_ref_def fe_of_def eq_commute [of "Some _"])
    show "valid_ref r w0" by (rule v)
    show "fe_working_path (fe_of r w) = p"
      "fe_on_command_line (fe_of r w) = fe_on_command_line (fe_of r w0)"
      using merge_inv_entry [OF assms(2) v] q by (simp_all add: entry_inv_def)
  qed
qed

lemma maybe_rename_same:
  assumes "unrenamed w0" and "merge_inv w0 v (world s)" and "triple w0 p = (a, b, c)"
  shows "maybe_rename o' a b c s = (Inr (), s)"
  using triple_path(2) [OF assms]
  by (cases a; cases b; cases c) (simp_all add: maybe_rename_def get_fe_def cmd_simps Let_def)

lemma merge_or_skip_announces:
  assumes u: "unrenamed w0" and j: "merge_inv w0 v (world s)" and p: "triple w0 p = (a, b, c)"
    and m: "merge_or_skip X (\<lambda>n. on_disk_fm (ed n)) o' a b c skip s = (Inr (), t)"
  shows "merge_inv w0 v (world t) \<and> announced t = announced s @ (if skip (world s) then [] else [(a, b, c)])"
proof -
  let ?p = "working_prj (world s)"
  have again: "s\<lparr>world := (world s)\<lparr>working_prj := ?p\<rparr>\<rparr> = s" by simp
  obtain was s1 where w: "was_merged_before X c b a s = (Inr was, s1)"
    using m unfolding merge_or_skip_def cbind_Inr_iff [where m = "was_merged_before X c b a"] by blast
  then obtain p' where h: "has_been_merged (cmd_len X) (fe_option c (world s)) (fe_option b (world s))
      (fe_option a (world s)) ?p = (Inr was, p')" and s1: "s1 = s\<lparr>world := (world s)\<lparr>working_prj := p'\<rparr>\<rparr>"
    by (auto simp: was_merged_before_def cmd_simps on_working_def split: prod.splits)
  have "merging_against v [] ?p" using j by (simp add: merge_inv_def)
  from not_merged [OF this h] s1 have was: "\<not> was" "s1 = s" by auto
  have m': "(if skip (world s) then on_working merge_notify_incomplete
      else run_merge_rename X (\<lambda>n. on_disk_fm (ed n)) o' a b c) s = (Inr (), t)"
    using m w was by (simp add: merge_or_skip_def cbind_Inr cmd_simps)
  show ?thesis
  proof (cases "skip (world s)")
    case True
    have "always (keeps_merge w0 v) (on_working merge_notify_incomplete)"
      by (rule keeps_working) (auto simp: merge_notify_incomplete_def cmd_simps merging_against_def)
    from alwaysD [OF this] m' True j show ?thesis by (auto simp: kept_world_def)
  next
    case False
    then have "run_merge (FileMergeControl X o') (\<lambda>n. on_disk_fm (ed n)) o' a b c s = (Inr (), t)"
      using m' by (simp add: run_merge_rename_def cthen_Inr [where m = "maybe_rename o' a b c", OF maybe_rename_same [OF u j p]])
    from files.run_merge_announces [OF this, of w0 v] u j triple_same_names [OF u p] False
    show ?thesis by auto
  qed
qed

text \<open>
  The files that stay for another time: all files of the name that the loop looks at are there
  and none was named on the command line.
\<close>

definition left_out :: "FileWorld \<Rightarrow> FileRef option \<times> FileRef option \<times> FileRef option \<Rightarrow> bool" where
  "left_out w abc =
     (case abc of
        (a, Some b, c) \<Rightarrow> not_given (Some b) w \<and> not_given c w \<and> not_given a w
      | (a, None, Some c) \<Rightarrow> not_given (Some c) w \<and> not_given a w
      | (a, None, None) \<Rightarrow> not_given a w)"

definition merged_files :: "FileWorld \<Rightarrow> (FileRef option \<times> FileRef option \<times> FileRef option) list" where
  "merged_files w = filter (\<lambda>x. \<not> left_out w x) (map (triple w) (merge_order w))"

lemma not_given_inv:
  assumes "unrenamed w0" and "merge_inv w0 v w" and "triple w0 p = (a, b, c)" and "x \<in> {a, b, c}"
  shows "not_given x w = not_given x w0"
  using triple_path(3) [OF assms(1-3)] assms(4) by (auto simp: not_given_def split: option.split)

lemma triple_of:
  assumes "unrenamed w0" and "i < length (entries sd w0)"
  shows "matches w0 sd' (sd, i) = map_option (\<lambda>j. (sd', j)) (name_index (entries sd' w0) (names_of sd w0 ! i))"
    and "name_index (entries sd w0) (names_of sd w0 ! i) = Some i"
  using assms name_index_Some [OF unrenamedD(1) [OF assms(1)]]
  by (simp_all add: matches_def fe_of_def names_of_def)

lemma step_common:
  assumes u: "unrenamed w0" and j: "merge_inv w0 v (world s)" and i: "i < length (entries CommonSide w0)"
    and m: "merge_common_file X (\<lambda>n. on_disk_fm (ed n)) o' (CommonSide, i) s = (Inr (), t)"
  shows "merge_inv w0 v (world t) \<and>
    announced t = announced s @ filter (\<lambda>x. \<not> left_out w0 x) [triple w0 (names_of CommonSide w0 ! i)]"
proof -
  let ?r = "(CommonSide, i)" and ?p = "names_of CommonSide w0 ! i"
  have r: "valid_ref ?r w0" using i by (simp add: valid_ref_def)
  obtain s1 where s1: "match_fileent o' WorkingSide ?r s = (Inr (matches w0 WorkingSide ?r), s1)"
    "merge_inv w0 v (world s1)" "merge_log s1 = merge_log s" using match_ok [OF u j r] by blast
  obtain s2 where s2: "match_fileent o' SelectedSide ?r s1 = (Inr (matches w0 SelectedSide ?r), s2)"
    "merge_inv w0 v (world s2)" "merge_log s2 = merge_log s1" using match_ok [OF u s1(2) r] by blast
  let ?a = "matches w0 SelectedSide ?r" and ?c = "matches w0 WorkingSide ?r"
  have p: "triple w0 ?p = (?a, Some ?r, ?c)" by (simp add: triple_def triple_of [OF u i])
  have g: "not_given x (world s2) = not_given x w0" if "x \<in> {?a, Some ?r, ?c}" for x
    by (rule not_given_inv [OF u s2(2) p that])
  have "merge_inv w0 v (world t) \<and> announced t = announced s2 @
      (if not_given (Some ?r) (world s2) \<and> not_given ?c (world s2) \<and> not_given ?a (world s2)
       then [] else [(?a, Some ?r, ?c)])"
    by (rule merge_or_skip_announces [OF u s2(2) p])
      (use m in \<open>simp add: merge_common_file_def cbind_Inr [where m = "match_fileent o' WorkingSide ?r", OF s1(1)] cbind_Inr [where m = "match_fileent o' SelectedSide ?r", OF s2(1)]\<close>)
  then show ?thesis using s1(3) s2(3) g by (simp add: p left_out_def announced_def)
qed

lemma matches_None:
  assumes "unrenamed w0" and "i < length (entries sd w0)"
  shows "matches w0 sd' (sd, i) = None \<longleftrightarrow> names_of sd w0 ! i \<notin> set (names_of sd' w0)"
  by (simp add: triple_of [OF assms] name_index_iff) (simp add: names_of_def)

lemma step_selected:
  assumes u: "unrenamed w0" and j: "merge_inv w0 v (world s)" and i: "i < length (entries SelectedSide w0)"
    and m: "merge_selected_only_file X (\<lambda>n. on_disk_fm (ed n)) o' (SelectedSide, i) s = (Inr (), t)"
  shows "merge_inv w0 v (world t) \<and>
    announced t = announced s @ filter (\<lambda>x. \<not> left_out w0 x) (map (triple w0)
      (filter (\<lambda>p. p \<notin> set (names_of CommonSide w0) \<and> p \<notin> set (names_of WorkingSide w0))
        [names_of SelectedSide w0 ! i]))"
proof -
  let ?r = "(SelectedSide, i)" and ?p = "names_of SelectedSide w0 ! i"
  have r: "valid_ref ?r w0" using i by (simp add: valid_ref_def)
  obtain s1 where s1: "match_fileent o' CommonSide ?r s = (Inr (matches w0 CommonSide ?r), s1)"
    "merge_inv w0 v (world s1)" "merge_log s1 = merge_log s" using match_ok [OF u j r] by blast
  obtain s2 where s2: "match_fileent o' WorkingSide ?r s1 = (Inr (matches w0 WorkingSide ?r), s2)"
    "merge_inv w0 v (world s2)" "merge_log s2 = merge_log s1" using match_ok [OF u s1(2) r] by blast
  let ?b = "matches w0 CommonSide ?r" and ?c = "matches w0 WorkingSide ?r"
  note n = matches_None [OF u i]
  have p: "triple w0 ?p = (Some ?r, ?b, ?c)" by (simp add: triple_def triple_of [OF u i])
  show ?thesis
  proof (cases "?b = None \<and> ?c = None")
    case True
    have "merge_inv w0 v (world t) \<and> announced t = announced s2 @
        (if not_given (Some ?r) (world s2) then [] else [(Some ?r, None, None)])"
      by (rule merge_or_skip_announces [OF u s2(2)])
        (use p m True in \<open>simp_all add: merge_selected_only_file_def cbind_Inr [where m = "match_fileent o' CommonSide ?r", OF s1(1)] cbind_Inr [where m = "match_fileent o' WorkingSide ?r", OF s2(1)]\<close>)
    moreover have "triple w0 ?p = (Some ?r, None, None)" using p True by simp
    moreover have "?p \<notin> set (names_of CommonSide w0) \<and> ?p \<notin> set (names_of WorkingSide w0)" using True n by blast
    ultimately show ?thesis using s1(3) s2(3) not_given_inv [OF u s2(2) p, of "Some ?r"]
      by (simp add: left_out_def announced_def)
  next
    case False
    then have "announced t = announced s \<and> merge_inv w0 v (world t)"
      using m s1 s2 by (auto simp: merge_selected_only_file_def cbind_Inr [where m = "match_fileent o' CommonSide ?r", OF s1(1)] cbind_Inr [where m = "match_fileent o' WorkingSide ?r", OF s2(1)] cmd_simps
          announced_def split: if_splits)
    then show ?thesis using False n by auto
  qed
qed

lemma step_working:
  assumes u: "unrenamed w0" and j: "merge_inv w0 v (world s)" and i: "i < length (entries WorkingSide w0)"
    and m: "merge_working_only_file X (\<lambda>n. on_disk_fm (ed n)) o' (WorkingSide, i) s = (Inr (), t)"
  shows "merge_inv w0 v (world t) \<and>
    announced t = announced s @ filter (\<lambda>x. \<not> left_out w0 x) (map (triple w0)
      (filter (\<lambda>p. p \<notin> set (names_of CommonSide w0)) [names_of WorkingSide w0 ! i]))"
proof -
  let ?r = "(WorkingSide, i)" and ?p = "names_of WorkingSide w0 ! i"
  have r: "valid_ref ?r w0" using i by (simp add: valid_ref_def)
  obtain s1 where s1: "match_fileent o' CommonSide ?r s = (Inr (matches w0 CommonSide ?r), s1)"
    "merge_inv w0 v (world s1)" "merge_log s1 = merge_log s" using match_ok [OF u j r] by blast
  obtain s2 where s2: "match_fileent o' SelectedSide ?r s1 = (Inr (matches w0 SelectedSide ?r), s2)"
    "merge_inv w0 v (world s2)" "merge_log s2 = merge_log s1" using match_ok [OF u s1(2) r] by blast
  let ?b = "matches w0 CommonSide ?r" and ?a = "matches w0 SelectedSide ?r"
  note n = matches_None [OF u i]
  have p: "triple w0 ?p = (?a, ?b, Some ?r)" by (simp add: triple_def triple_of [OF u i])
  show ?thesis
  proof (cases "?b = None")
    case True
    have "merge_inv w0 v (world t) \<and> announced t = announced s2 @
        (if not_given (Some ?r) (world s2) \<and> not_given ?a (world s2) then [] else [(?a, None, Some ?r)])"
      by (rule merge_or_skip_announces [OF u s2(2)])
        (use p m True in \<open>simp_all add: merge_working_only_file_def cbind_Inr [where m = "match_fileent o' CommonSide ?r", OF s1(1)] cbind_Inr [where m = "match_fileent o' SelectedSide ?r", OF s2(1)]\<close>)
    moreover have "triple w0 ?p = (?a, None, Some ?r)" using p True by simp
    moreover have "?p \<notin> set (names_of CommonSide w0)" using True n by blast
    ultimately show ?thesis using s1(3) s2(3) not_given_inv [OF u s2(2) p]
      by (simp add: left_out_def announced_def)
  next
    case False
    then have "announced t = announced s \<and> merge_inv w0 v (world t)"
      using m s1 by (auto simp: merge_working_only_file_def cbind_Inr [where m = "match_fileent o' CommonSide ?r", OF s1(1)] cmd_simps
          announced_def split: if_splits)
    then show ?thesis using False n by auto
  qed
qed

text \<open>A loop that appends the part of each file appends the parts in order.\<close>

lemma loop_announces:
  assumes step: "\<And>i s t. i < n \<Longrightarrow> I (world s) \<Longrightarrow> f (sd, i) s = (Inr (), t) \<Longrightarrow>
      I (world t) \<and> announced t = announced s @ g i"
    and "k \<le> n" and "I (world s)" and "cforeach (map (\<lambda>i. (sd, i)) [k..<n]) f s = (Inr (), t)"
  shows "I (world t) \<and> announced t = announced s @ concat (map g [k..<n])"
  using assms(2-4)
proof (induction "n - k" arbitrary: k s)
  case 0
  then show ?case by (simp add: cmd_simps)
next
  case (Suc d)
  then have k: "[k..<n] = k # [Suc k..<n]" "k < n" by (simp_all add: upt_conv_Cons)
  obtain s1 where s1: "f (sd, k) s = (Inr (), s1)" "cforeach (map (\<lambda>i. (sd, i)) [Suc k..<n]) f s1 = (Inr (), t)"
    using Suc.prems(3) by (auto simp: k cthen_Inr_iff [where m = "f (sd, k)"])
  then show ?case using step [OF k(2) Suc.prems(2) s1(1)] Suc.hyps(1) [of "Suc k" s1] Suc.hyps(2) by (simp add: k)
qed

lemma concat_nth: "concat (map (\<lambda>i. filter P (map h (filter Q [xs ! i]))) [0..<length xs]) = filter P (map h (filter Q xs))"
proof -
  have "concat (map (\<lambda>x. filter P (map h (filter Q [x]))) xs) = filter P (map h (filter Q xs))"
    by (induction xs) simp_all
  moreover have "map (\<lambda>i. filter P (map h (filter Q [xs ! i]))) [0..<length xs] = map (\<lambda>x. filter P (map h (filter Q [x]))) xs"
    by (rule nth_equalityI) simp_all
  ultimately show ?thesis by simp
qed

lemma merge_all_announces:
  assumes "merge_start v (world s)"
    and "merge_all_files X (\<lambda>n. on_disk_fm (ed n)) o' s = (Inr (), t)"
  shows "merge_inv (world s) v (world t) \<and> announced t = announced s @ merged_files (world s)"
proof -
  let ?w = "world s" and ?ed = "\<lambda>n. on_disk_fm (ed n)"
  have u: "unrenamed ?w" using assms(1) by (simp add: merge_start_def)
  have j: "merge_inv ?w v ?w" by (rule merge_start_inv [OF assms(1)])
  obtain s1 s2 where l: "merge_common_files X ?ed o' s = (Inr (), s1)"
    "merge_selected_only_files X ?ed o' s1 = (Inr (), s2)" "merge_working_only_files X ?ed o' s2 = (Inr (), t)"
    using assms(2) unfolding merge_all_files_def cthen_Inr_iff [where m = "merge_common_files X ?ed o'"]
      cthen_Inr_iff [where m = "merge_selected_only_files X ?ed o'"] by auto
  have n: "length (names_of sd ?w) = length (entries sd ?w)" for sd by (simp add: names_of_def)
  have "cforeach (map (\<lambda>i. (CommonSide, i)) [0..<length (entries CommonSide ?w)]) (merge_common_file X ?ed o') s = (Inr (), s1)"
    using l(1) by (simp add: merge_common_files_def cmd_simps refs_of_def)
  from loop_announces [OF step_common [OF u] le0 j this]
  have 1: "merge_inv ?w v (world s1)" "announced s1 = announced s @
      filter (\<lambda>x. \<not> left_out ?w x) (map (triple ?w) (names_of CommonSide ?w))"
    using concat_nth [of "\<lambda>x. \<not> left_out ?w x" "triple ?w" "\<lambda>_. True" "names_of CommonSide ?w"] by (simp_all add: n)
  have "cforeach (map (\<lambda>i. (SelectedSide, i)) [0..<length (entries SelectedSide ?w)]) (merge_selected_only_file X ?ed o') s1 = (Inr (), s2)"
    using l(2) by (simp add: merge_selected_only_files_def cmd_simps refs_of_def merge_inv_length [OF 1(1)])
  from loop_announces [OF step_selected [OF u] le0 1(1) this] 
  have 2: "merge_inv ?w v (world s2)" "announced s2 = announced s1 @
      filter (\<lambda>x. \<not> left_out ?w x) (map (triple ?w)
        (filter (\<lambda>p. p \<notin> set (names_of CommonSide ?w) \<and> p \<notin> set (names_of WorkingSide ?w)) (names_of SelectedSide ?w)))"
    using concat_nth [of "\<lambda>x. \<not> left_out ?w x" "triple ?w" 
      "\<lambda>p. p \<notin> set (names_of CommonSide ?w) \<and> p \<notin> set (names_of WorkingSide ?w)" "names_of SelectedSide ?w"] by (simp_all add: n)
  have "cforeach (map (\<lambda>i. (WorkingSide, i)) [0..<length (entries WorkingSide ?w)]) (merge_working_only_file X ?ed o') s2 = (Inr (), t)"
    using l(3) by (simp add: merge_working_only_files_def cmd_simps refs_of_def merge_inv_length [OF 2(1)])
  from loop_announces [OF step_working [OF u] le0 2(1) this]
  have 3: "merge_inv ?w v (world t)" "announced t = announced s2 @
      filter (\<lambda>x. \<not> left_out ?w x) (map (triple ?w)
        (filter (\<lambda>p. p \<notin> set (names_of CommonSide ?w)) (names_of WorkingSide ?w)))"
    using concat_nth [of "\<lambda>x. \<not> left_out ?w x" "triple ?w" 
      "\<lambda>p. p \<notin> set (names_of CommonSide ?w)" "names_of WorkingSide ?w"] by (simp_all add: n)
  show ?thesis using 1 2 3 by (simp add: merged_files_def merge_order_def)
qed

section \<open>Every file is merged once\<close>

text \<open>
  A small project: the file \<open>a\<close> is left in the common version only, the file \<open>c\<close> is new in the
  working one.
\<close>

definition sample_attrs :: PrcsAttrs where
  "sample_attrs =
     (let a = new_PrcsAttrs \<lparr>env_merge = None, env_diff = None\<rparr> [] 0
      in case init_attrs a of Inl _ \<Rightarrow> a | Inr b \<Rightarrow> b)"

definition sample_entry :: "string \<Rightarrow> string \<Rightarrow> FileEntry" where
  "sample_entry n d = (sample_file n)\<lparr>fe_attrs := sample_attrs, fe_descriptor := Some d,
     fe_version := Some ''1.1'', fe_unmodified := True\<rparr>"

definition sample_prj :: MergingProject where
  "sample_prj = (sample_project [(new_MergeParentEntry ''main.3'' MergeStateIncomplete)
       \<lparr>working_table := Some ht_empty, common_table := Some ht_empty, selected_table := Some ht_empty\<rparr>])
     \<lparr>merge_entry := Some 0\<rparr>"

definition sample_world :: FileWorld where
  "sample_world =
     \<lparr>disk = \<lparr>nodes = [([''a''], RegNode ''x''), ([''c''], RegNode ''z'')], cwd = ''/'', faults = []\<rparr>,
      working_prj = sample_prj\<lparr>file_entries := [sample_entry ''c'' ''2_c'']\<rparr>,
      common_prj = (new_ProjectDescriptor \<lparr>env_merge = None, env_diff = None\<rparr> ''p'' True)
        \<lparr>file_entries := [sample_entry ''a'' ''0_a'']\<rparr>,
      selected_prj = (new_ProjectDescriptor \<lparr>env_merge = None, env_diff = None\<rparr> ''p'' True)
        \<lparr>file_entries := []\<rparr>,
      match_tables = (\<lambda>_. None), rfl = \<lparr>rf_root = [], rf_directory = 0, rf_offset = [], rf_available = []\<rparr>,
      do_once = False, any_obsolete = False\<rparr>"

definition sample_outside :: Outside where
  "sample_outside =
     \<lparr>rcs_files = [(''0_a'', [(''1.1'', ''A'')]), (''1_b'', [(''1.1'', ''B'')]), (''2_c'', [(''1.1'', ''C'')])],
      rcs_text = (\<lambda>_ _. Some ''x''), rcs_prepared = (\<lambda>_. True), gdiff3 = (\<lambda>_ _ _. (0, [])),
      merge_tool_run = (\<lambda>_ _. creturn 0), diff_pair = (\<lambda>_ _ _ _. creturn ()), temp_file_name = (\<lambda>_. ''t''),
      option_unlink = False, cmd_len = 0\<rparr>"

definition sample_merge :: "(FileWorld, FileRef) MergeState" where
  "sample_merge = QueryOstream.extend (query_fresh ''yyyyyy'')
     \<lparr>rule_bangs = replicate 14 False, merge_log = [], prcsoutput = [], all_conflicts = [], world = sample_world\<rparr>"


lemma sample_attrs_sel:
  "attrs_type sample_attrs = RealFile"
  "merge_actions sample_attrs =
     [NoPrompt, Merge, Replace, NoPrompt, NoPrompt, Nothing, Delete, NoPrompt, Nothing, Delete, Merge, NoPrompt,
      NoPrompt, Add]"
  by code_simp+

lemma one_name:
  "ht_lookup pathname_hash pathname_equal (ht_insert pathname_hash pathname_equal (ht_empty :: (string, nat) HashTable) n i) m =
     (if pathname_equal m n then Some i else None)"
  by (simp add: path.ht.lookup_insert path.ht.invar_empty path.ht.lookup_empty)

lemma not_merged_eq:
  assumes "merging_against v [] p" and "path_defined len w" and "path_defined len c" and "path_defined len sel"
  shows "has_been_merged len w c sel p = (Inr False, p)"
  using has_been_merged_eq [OF assms] by (simp add: recorded_def)

lemma sample_against: "merging_against ''main.3'' [] (sample_prj\<lparr>file_entries := es\<rparr>)"
  using tables_hold_empty by (simp add: merging_against_def sample_prj_def sample_project_def new_MergeParentEntry_def)

lemma run_one_sided:
  assumes "merge_actions (fe_attrs (fe_of r (world s))) =
     [NoPrompt, Merge, Replace, NoPrompt, NoPrompt, Nothing, Delete, NoPrompt, Nothing, Delete, Merge, NoPrompt,
      NoPrompt, Add]"
  shows "\<exists>t. run_merge (FileMergeControl X o') ed o' None (Some r) None s = (Inr (), t) \<and> world t = world s"
    and "\<exists>t. run_merge (FileMergeControl X o') ed o' None None (Some r) s = (Inr (), t) \<and> world t = world s"
  by (simp_all add: assms run_merge_def select_rule_def merge_loop.simps found_defs_def merge_defaults_def merge_def_def
    compare_pass_def quick_pass_def prune_defs_def cmd_simps file_merge_action_def FileMergeControl_def fe_merge_action_def
    get_fe_def merge_announce_def merge_action_def merge_action_os_def to_log_def to_output_def)

lemma one_sided:
  assumes "merging_against v [] (working_prj (world s))" and "a = (None :: FileRef option)" and
    "(b, c) \<in> {(Some r, None), (None, Some r)}" and "\<not> skip (world s)" and "cmd_len X = 0"
   and "merge_actions (fe_attrs (fe_of r (world s))) =
     [NoPrompt, Merge, Replace, NoPrompt, NoPrompt, Nothing, Delete, NoPrompt, Nothing, Delete, Merge, NoPrompt,
      NoPrompt, Add]"
  shows "\<exists>t. merge_or_skip X ed o' a b c skip s = (Inr (), t) \<and> world t = world s"
proof -
  have "has_been_merged (cmd_len X) x y z (working_prj (world s)) = (Inr False, working_prj (world s))" for x y z
    by (rule not_merged_eq [OF assms(1)]) (simp_all add: path_defined_def assms(5) split: option.split)
  then show ?thesis using assms(2-4) run_one_sided [OF assms(6), of X o' ed]
    by (auto simp: merge_or_skip_def was_merged_before_def on_working_def cmd_simps run_merge_rename_def maybe_rename_def)
qed

lemma sample_entries:
  "entries WorkingSide sample_world = [sample_entry ''c'' ''2_c'']"
  "entries CommonSide sample_world = [sample_entry ''a'' ''0_a'']" "entries SelectedSide sample_world = []"
  by (simp_all add: entries_def sample_world_def)

lemma sample_fields:
  "fe_working_path (sample_entry n d) = n" "fe_on_command_line (sample_entry n d)" "fe_attrs (sample_entry n d) = sample_attrs"
  "fe_descriptor (sample_entry n d) = Some d"
  by (simp_all add: sample_entry_def sample_file_def)

lemma sample_start: "merge_start ''main.3'' sample_world"
proof -
  have prj: "attrs_table sample_prj = ht_empty" "tool_env sample_prj = \<lparr>env_merge = None, env_diff = None\<rparr>"
    by (simp_all add: sample_prj_def sample_project_def merging_project_def new_ProjectDescriptor_def
      ProjectDescriptor.defs Let_def)
  have "attrs_canonical \<lparr>env_merge = None, env_diff = None\<rparr> sample_attrs"
    by code_simp
  moreover have "unrenamed sample_world"
    by (simp add: unrenamed_def all_entries_def sample_entries plain_entry_def same_family_def sample_fields
      single_slashed_def)
  ultimately show ?thesis
    using sample_against [of "[sample_entry ''c'' ''2_c'']"] prj attrs_inv_empty
    by (simp add: merge_start_def all_entries_def sample_entries sample_fields) (simp add: sample_world_def)
qed

lemma sample_returns: "fst (merge_all_files sample_outside edit interactive sample_merge) = Inr ()"
proof -
  let ?w = sample_world
  have start: "world sample_merge = ?w" by (simp add: sample_merge_def QueryOstream.defs)
  have u: "unrenamed ?w" and j: "merge_inv ?w ''main.3'' ?w" 
    using sample_start merge_start_inv by (auto simp: merge_start_def)
  have len: "cmd_len sample_outside = 0" by (simp add: sample_outside_def)
  have against: "merging_against ''main.3'' [] (working_prj w)" if "merge_inv ?w ''main.3'' w" for w
    using that by (simp add: merge_inv_def)
  have part: "\<exists>t. f r s = (Inr (), t) \<and> merge_inv ?w ''main.3'' (world t) \<and> (\<forall>x. fe_of x (world t) = fe_of x ?w)"
    if r: "valid_ref r ?w" "fe_on_command_line (fe_of r ?w)" "merge_actions (fe_attrs (fe_of r ?w)) = merge_actions sample_attrs"
     and s: "merge_inv ?w ''main.3'' (world s)" "\<forall>x. fe_of x (world s) = fe_of x ?w"
     and m: "matches ?w s1 r = None" "matches ?w s2 r = None" "s1 \<noteq> s2"
     and f: "f = merge_common_file sample_outside edit interactive \<and> s1 = WorkingSide \<and> s2 = SelectedSide \<or>
       f = merge_working_only_file sample_outside edit interactive \<and> s1 = CommonSide \<and> s2 = SelectedSide" for f r s s1 s2
  proof -
    obtain q1 where q1: "match_fileent interactive s1 r s = (Inr None, q1)" "merge_inv ?w ''main.3'' (world q1)"
      "fe_of x (world q1) = fe_of x ?w" for x using match_ok [OF u s(1) r(1), of interactive s1] m s by auto
    obtain q2 where q2: "match_fileent interactive s2 r q1 = (Inr None, q2)" "merge_inv ?w ''main.3'' (world q2)"
      "fe_of x (world q2) = fe_of x ?w" for x using match_ok [OF u q1(2) r(1), of interactive s2] m q1 by auto
    note one = one_sided [OF against [OF q2(2)] refl _ _ len, of _ _ r]
    have "\<exists>t. f r s = (Inr (), t) \<and> world t = world q2"
      using f q1(1) q2(1,3) r(2,3) one [of "Some r" None] one [of None "Some r"]
      by (auto simp: merge_common_file_def merge_working_only_file_def cbind_Inr [where m = "match_fileent interactive s1 r"] not_given_def
        sample_attrs_sel cmd_simps)
    then show ?thesis using q2 by metis
  qed
  have m: "matches ?w WorkingSide (CommonSide, 0) = None" "matches ?w SelectedSide (CommonSide, 0) = None"
    "matches ?w CommonSide (WorkingSide, 0) = None" "matches ?w SelectedSide (WorkingSide, 0) = None"
    by (simp_all add: matches_def sample_entries name_index_def fe_of_def sample_fields)
  have fe: "fe_on_command_line (fe_of (sd, 0) ?w) \<and> merge_actions (fe_attrs (fe_of (sd, 0) ?w)) = merge_actions sample_attrs
      \<and> valid_ref (sd, 0) ?w" if "sd \<noteq> SelectedSide" for sd
    using that by (cases sd) (simp_all add: fe_of_def sample_entries sample_fields valid_ref_def)
  obtain t1 where t1: "merge_common_file sample_outside edit interactive (CommonSide, 0) sample_merge = (Inr (), t1)"
    "merge_inv ?w ''main.3'' (world t1)" "\<forall>x. fe_of x (world t1) = fe_of x ?w"
    using part [of "(CommonSide, 0)" sample_merge WorkingSide SelectedSide "merge_common_file sample_outside edit interactive"]
      fe [of CommonSide] j m by (auto simp: start)
  obtain t2 where t2: "merge_working_only_file sample_outside edit interactive (WorkingSide, 0) t1 = (Inr (), t2)"
    using part [of "(WorkingSide, 0)" t1 CommonSide SelectedSide "merge_working_only_file sample_outside edit interactive"]
      fe [of WorkingSide] t1(2,3) m by auto
  have len: "refs_of sd (world t1) = map (\<lambda>i. (sd, i)) [0..<length (entries sd ?w)]" for sd
    by (simp add: refs_of_def merge_inv_length [OF t1(2)])
  show ?thesis
  proof -
    have "merge_common_files sample_outside edit interactive sample_merge = (Inr (), t1)"
      using t1(1) by (simp add: merge_common_files_def refs_of_def start sample_entries cmd_simps)
    moreover have "merge_selected_only_files sample_outside edit interactive t1 = (Inr (), t1)"
      by (simp add: merge_selected_only_files_def len sample_entries cmd_simps)
    moreover have "merge_working_only_files sample_outside edit interactive t1 = (Inr (), t2)"
      using t2 by (simp add: merge_working_only_files_def len sample_entries cmd_simps)
    ultimately show ?thesis by (simp add: merge_all_files_def cmd_simps)
  qed
qed

text \<open>
  C29. Every file is merged exactly once. When the three versions have no renamed files and the
  merge is a fresh one, and the three loops return, then they have announced, in this order and
  with the files of that name in each version, every name of the common version, those of
  the selected version that are new, and those of the working version that are new; each name
  once, and none is missing but those that were not named on the command line.
\<close>

theorem every_file_merged_once:
  assumes "merge_start v (world s)"
    and "merge_all_files X (\<lambda>n. on_disk_fm (ed n)) o' s = (Inr (), t)"
  shows "announced t = announced s @ filter (\<lambda>x. \<not> left_out (world s) x) (map (triple (world s)) (merge_order (world s))) \<and>
    distinct (merge_order (world s)) \<and>
    set (merge_order (world s)) = set (names_of WorkingSide (world s)) \<union> set (names_of CommonSide (world s)) \<union>
      set (names_of SelectedSide (world s))"
  using merge_all_announces [OF assms] merge_order_complete [of "world s"] assms(1)
  by (simp_all add: merged_files_def merge_start_def)

theorem every_file_merged_once_witness:
  "\<exists>t. merge_all_files sample_outside (\<lambda>n. on_disk_fm (creturn ())) interactive sample_merge = (Inr (), t) \<and>
     announced t = [(None, Some (CommonSide, 0), None), (None, None, Some (WorkingSide, 0))]"
proof -
  obtain t where t: "merge_all_files sample_outside (\<lambda>n. on_disk_fm (creturn ())) interactive sample_merge = (Inr (), t)"
    using sample_returns [of "\<lambda>n. on_disk_fm (creturn ())"]
    by (cases "merge_all_files sample_outside (\<lambda>n. on_disk_fm (creturn ())) interactive sample_merge") simp
  have start: "world sample_merge = sample_world" "announced sample_merge = []"
    by (simp_all add: sample_merge_def QueryOstream.defs announced_def)
  have order: "merge_order sample_world = [''a'', ''c'']"
    by (simp add: merge_order_def names_of_def sample_entries sample_fields)
  have tr: "triple sample_world ''a'' = (None, Some (CommonSide, 0), None)"
    "triple sample_world ''c'' = (None, None, Some (WorkingSide, 0))"
    by (simp_all add: triple_def name_index_def sample_entries sample_fields)
  have "\<not> left_out sample_world (triple sample_world ''a'')" "\<not> left_out sample_world (triple sample_world ''c'')"
    unfolding tr by (simp_all add: left_out_def not_given_def fe_of_def sample_entries sample_fields)
  then show ?thesis
    using every_file_merged_once [of "''main.3''" sample_merge sample_outside "\<lambda>_. creturn ()" interactive t]
      sample_start t by (simp add: start order tr)
qed

text \<open>
  C30. What a merge leaves of an entry, whatever was done to the file: its name and its place on
  the command line, attributes that are those of their list of strings, and for a regular file
  a descriptor that is that of a file of this name in one of the three versions.
\<close>

theorem merge_keeps_entries_typed:
  assumes "merge_start v (world s)"
    and "merge_all_files X (\<lambda>n. on_disk_fm (ed n)) o' s = (Inr (), t)"
  shows "list_all2 (entry_inv (tool_env (working_prj (world s))) (family (world s)))
    (file_entries (working_prj (world s))) (file_entries (working_prj (world t)))"
  using merge_all_announces [OF assms] merge_inv_list [of "world s" v "world t" WorkingSide]
  by (simp add: entries_def)

theorem merge_keeps_entries_typed_witness:
  "case merge_all_files sample_outside (\<lambda>n. on_disk_fm (creturn ())) interactive sample_merge of (r, t) \<Rightarrow>
     list_all2 (entry_inv \<lparr>env_merge = None, env_diff = None\<rparr> (family sample_world))
       [sample_entry ''c'' ''2_c''] (file_entries (working_prj (world t)))"
proof -
  obtain t where t: "merge_all_files sample_outside (\<lambda>n. on_disk_fm (creturn ())) interactive sample_merge = (Inr (), t)"
    using sample_returns [of "\<lambda>n. on_disk_fm (creturn ())"]
    by (cases "merge_all_files sample_outside (\<lambda>n. on_disk_fm (creturn ())) interactive sample_merge") simp
  have start: "world sample_merge = sample_world" by (simp add: sample_merge_def QueryOstream.defs)
  have env: "tool_env (working_prj sample_world) = \<lparr>env_merge = None, env_diff = None\<rparr>"
    "file_entries (working_prj sample_world) = [sample_entry ''c'' ''2_c'']"
    by (simp_all add: sample_world_def sample_prj_def sample_project_def merging_project_def new_ProjectDescriptor_def
      ProjectDescriptor.defs Let_def)
  show ?thesis
    using merge_keeps_entries_typed [of "''main.3''" sample_merge sample_outside "\<lambda>_. creturn ()" interactive t]
      sample_start t by (simp add: start env)
qed

end
