(* ===== verification/Dynarrays.thy ===== *)
theory Dynarrays
  imports Effects
begin

text \<open>
  The growing arrays of \<open>src/src/dynarray.cc\<close>, on which the strings of the program rest. A cell
  that was allocated and never written is \<open>None\<close>; \<open>ZeroTerm\<close> is the parameter \<open>zt\<close>, the zero of
  the element type for an array that keeps a zero behind its elements and \<open>None\<close> for the others.
  A size from \<open>2 ^ 30\<close> on would overflow the loop of \<open>nearest_pow\<close>: it is undefined. So is a
  read or write outside of the allocated cells, and a read of a cell never written.
\<close>

section \<open>State\<close>

record 'a Dynarray =
  dvec :: "'a option list option"
  filled :: nat
  alloc :: nat

type_synonym 'a dyn = "failure + 'a"

definition ZeroTerm :: "'a option \<Rightarrow> nat" where
  "ZeroTerm zt = (if zt = None then 0 else 1)"

definition assert_dyn :: "bool \<Rightarrow> unit dyn" where
  "assert_dyn b = (if b then Inr () else Inl AssertFailed)"

definition defined_dyn :: "bool \<Rightarrow> unit dyn" where
  "defined_dyn b = (if b then Inr () else Inl Undefined)"

section \<open>Sizes\<close>

function pow_above :: "nat \<Rightarrow> nat \<Rightarrow> nat" where
  "pow_above i x = (if 0 < i \<and> i \<le> x then pow_above (2 * i) x else i)"
  by pat_completeness auto
termination
  by (relation "measure (\<lambda>(i, x). Suc x - i)") auto

declare pow_above.simps [simp del]

definition nearest_pow :: "nat \<Rightarrow> nat dyn" where
  "nearest_pow x =
     (if 2 ^ 30 \<le> x then Inl Undefined
      else let i = pow_above 1 x in Inr (if i < 16 then 16 else i))"

text \<open>\<open>NEWVEC0\<close> clears the new cells, \<open>NEWVEC\<close> does not.\<close>

definition new_cells :: "'a option \<Rightarrow> nat \<Rightarrow> 'a option list" where
  "new_cells zt n = replicate n zt"

text \<open>\<open>v_length\<close> goes on to the first zero.\<close>

definition v_length :: "'a \<Rightarrow> 'a list \<Rightarrow> nat dyn" where
  "v_length z s = (if z \<in> set s then Inr (length (takeWhile (\<lambda>x. x \<noteq> z) s)) else Inl Undefined)"

definition given_length :: "'a option \<Rightarrow> 'a list \<Rightarrow> int \<Rightarrow> nat dyn" where
  "given_length zt s N0 =
     (if N0 < 0 then (case zt of None \<Rightarrow> Inl Undefined | Some z \<Rightarrow> v_length z s) else Inr (nat N0))"

text \<open>Writing into allocated cells.\<close>

definition write_cells :: "nat \<Rightarrow> 'a option list \<Rightarrow> 'a option list option \<Rightarrow> 'a option list option dyn" where
  "write_cells i cs v =
     (case v of
        None \<Rightarrow> if cs = [] then Inr None else Inl Undefined
      | Some v \<Rightarrow> if i + length cs \<le> length v then Inr (Some (take i v @ cs @ drop (i + length cs) v))
                  else Inl Undefined)"

section \<open>Construction\<close>

definition new_Dynarray :: "'a Dynarray" where
  "new_Dynarray = \<lparr>dvec = None, filled = 0, alloc = 0\<rparr>"

definition Dynarray_of :: "'a option \<Rightarrow> 'a list \<Rightarrow> int \<Rightarrow> 'a Dynarray dyn" where
  "Dynarray_of zt s N0 =
     ebind (assert_dyn (N0 < 0 \<or> zt \<noteq> None)) (\<lambda>_.
     ebind (given_length zt s N0) (\<lambda>n.
     ebind (nearest_pow (n + ZeroTerm zt)) (\<lambda>i.
     ebind (defined_dyn (n \<le> length s)) (\<lambda>_.
     ebind (write_cells 0 (map Some (take n s)) (Some (new_cells zt i))) (\<lambda>v.
       Inr \<lparr>dvec = v, filled = n, alloc = i\<rparr>)))))"

definition Dynarray_fill :: "'a option \<Rightarrow> 'a \<Rightarrow> nat \<Rightarrow> 'a Dynarray dyn" where
  "Dynarray_fill zt c n =
     ebind (nearest_pow (n + ZeroTerm zt)) (\<lambda>i.
     ebind (write_cells 0 (replicate n (Some c)) (Some (new_cells zt i))) (\<lambda>v.
       Inr \<lparr>dvec = v, filled = n, alloc = i\<rparr>))"

section \<open>Growth\<close>

definition maybe_expand :: "'a option \<Rightarrow> nat \<Rightarrow> 'a Dynarray \<Rightarrow> 'a Dynarray dyn" where
  "maybe_expand zt elts d =
     (case dvec d of
        None \<Rightarrow>
          ebind (assert_dyn (filled d = 0)) (\<lambda>_.
          ebind (nearest_pow (elts + ZeroTerm zt)) (\<lambda>i.
            Inr (d\<lparr>dvec := Some (new_cells zt i), alloc := i\<rparr>)))
      | Some v \<Rightarrow>
          if int (alloc d) - int (ZeroTerm zt) < int (filled d + elts) then
            ebind (nearest_pow (filled d + elts + ZeroTerm zt)) (\<lambda>goalsize.
              Inr (d\<lparr>dvec := Some (v @ new_cells zt (goalsize - alloc d)), alloc := goalsize\<rparr>))
          else Inr d)"

definition put :: "nat \<Rightarrow> 'a list \<Rightarrow> 'a Dynarray \<Rightarrow> 'a Dynarray dyn" where
  "put i xs d = ebind (write_cells i (map Some xs) (dvec d)) (\<lambda>v. Inr (d\<lparr>dvec := v\<rparr>))"

definition expand :: "'a option \<Rightarrow> nat \<Rightarrow> 'a \<Rightarrow> 'a Dynarray \<Rightarrow> 'a Dynarray dyn" where
  "expand zt elts x d =
     (if filled d < elts then
        ebind (maybe_expand zt (elts - filled d) d) (\<lambda>d.
        ebind (put (filled d) (replicate (elts - filled d) x) d) (\<lambda>d. Inr (d\<lparr>filled := elts\<rparr>)))
      else Inr d)"

definition dyn_append :: "'a option \<Rightarrow> 'a \<Rightarrow> 'a Dynarray \<Rightarrow> 'a Dynarray dyn" where
  "dyn_append zt c d =
     ebind (maybe_expand zt 1 d) (\<lambda>d.
     ebind (put (filled d) [c] d) (\<lambda>d. Inr (d\<lparr>filled := filled d + 1\<rparr>)))"

definition append_vec :: "'a option \<Rightarrow> 'a list \<Rightarrow> int \<Rightarrow> 'a Dynarray \<Rightarrow> 'a Dynarray dyn" where
  "append_vec zt s N0 d =
     ebind (assert_dyn (N0 < 0 \<or> zt \<noteq> None)) (\<lambda>_.
     ebind (given_length zt s N0) (\<lambda>n.
     ebind (maybe_expand zt n d) (\<lambda>d.
     ebind (defined_dyn (n \<le> length s)) (\<lambda>_.
     ebind (put (filled d) (take n s) d) (\<lambda>d. Inr (d\<lparr>filled := filled d + n\<rparr>))))))"

definition prepend :: "'a option \<Rightarrow> 'a \<Rightarrow> 'a Dynarray \<Rightarrow> 'a Dynarray dyn" where
  "prepend zt c d =
     ebind (maybe_expand zt 1 d) (\<lambda>d.
     ebind (write_cells 1 (case dvec d of None \<Rightarrow> [] | Some v \<Rightarrow> take (filled d) v) (dvec d)) (\<lambda>v.
     ebind (put 0 [c] (d\<lparr>dvec := v\<rparr>)) (\<lambda>d. Inr (d\<lparr>filled := filled d + 1\<rparr>))))"

section \<open>Changing and reading\<close>

text \<open>The length to clear is computed in an unsigned type: cutting beyond the end clears too much.\<close>

definition truncate_at :: "'a option \<Rightarrow> nat \<Rightarrow> 'a Dynarray \<Rightarrow> 'a Dynarray dyn" where
  "truncate_at zt n d =
     (case zt of
        None \<Rightarrow> Inr (d\<lparr>filled := n\<rparr>)
      | Some z \<Rightarrow>
          ebind (defined_dyn (n \<le> alloc d)) (\<lambda>_.
          ebind (write_cells n (replicate (alloc d - n) (Some z)) (dvec d)) (\<lambda>v.
            Inr (d\<lparr>dvec := v, filled := n\<rparr>))))"

definition index_set :: "int \<Rightarrow> 'a \<Rightarrow> 'a Dynarray \<Rightarrow> 'a Dynarray dyn" where
  "index_set n elt d =
     ebind (assert_dyn (n < int (filled d))) (\<lambda>_.
     ebind (defined_dyn (0 \<le> n)) (\<lambda>_. put (nat n) [elt] d))"

definition assign :: "'a option \<Rightarrow> 'a list \<Rightarrow> int \<Rightarrow> 'a Dynarray \<Rightarrow> 'a Dynarray dyn" where
  "assign zt s N d =
     ebind (given_length zt s N) (\<lambda>n.
     ebind (if filled d < n then maybe_expand zt (n - filled d) d else Inr d) (\<lambda>d.
     ebind (defined_dyn (n \<le> length s)) (\<lambda>_.
     ebind (put 0 (take n s) d) (\<lambda>d.
       case zt of
         None \<Rightarrow> Inr (d\<lparr>filled := n\<rparr>)
       | Some z \<Rightarrow>
           ebind (put n (replicate (filled d - n) z) d) (\<lambda>d. Inr (d\<lparr>filled := n\<rparr>))))))"

text \<open>\<open>cast\<close> gives the cells there are; a reader of the string goes on to the first zero.\<close>

definition dyn_cast :: "'a option \<Rightarrow> 'a Dynarray \<Rightarrow> ('a option list \<times> 'a Dynarray) dyn" where
  "dyn_cast zt d =
     (case dvec d of
        Some v \<Rightarrow>
          ebind (if zt = None then Inr ()
                 else ebind (defined_dyn (filled d < length v)) (\<lambda>_. assert_dyn (v ! filled d = zt)))
            (\<lambda>_. Inr (v, d))
      | None \<Rightarrow> Inr (new_cells zt 16, d\<lparr>dvec := Some (new_cells zt 16), alloc := 16\<rparr>))"

definition index_get :: "'a option \<Rightarrow> 'a \<Rightarrow> int \<Rightarrow> 'a Dynarray \<Rightarrow> 'a dyn" where
  "index_get zt null n d =
     ebind (assert_dyn (n < int (filled d + ZeroTerm zt))) (\<lambda>_.
       case dvec d of
         Some v \<Rightarrow>
           ebind (defined_dyn (0 \<le> n \<and> nat n < length v)) (\<lambda>_.
             case v ! nat n of Some x \<Rightarrow> Inr x | None \<Rightarrow> Inl Undefined)
       | None \<Rightarrow> ebind (assert_dyn (filled d = 0)) (\<lambda>_. Inr null))"

definition last_index :: "'a option \<Rightarrow> 'a \<Rightarrow> 'a Dynarray \<Rightarrow> 'a dyn" where
  "last_index zt null d = index_get zt null (int (filled d) - 1) d"

text \<open>The copy of an array allocates as many cells, and reads the elements of the other.\<close>

definition copy_Dynarray :: "'a option \<Rightarrow> 'a \<Rightarrow> 'a Dynarray \<Rightarrow> 'a Dynarray dyn" where
  "copy_Dynarray zt null s =
     ebind (efold (\<lambda>xs i. ebind (index_get zt null (int i) s) (\<lambda>x. Inr (xs @ [x]))) [] [0..<filled s]) (\<lambda>xs.
     ebind (write_cells 0 (map Some xs) (Some (new_cells zt (alloc s)))) (\<lambda>v.
       Inr \<lparr>dvec = v, filled = filled s, alloc = alloc s\<rparr>))"

section \<open>What an array holds\<close>

text \<open>
  The elements are written, and the cells behind them are zero if the array is terminated; there
  is always room for the zero.
\<close>

definition dyn_ok :: "'a option \<Rightarrow> 'a Dynarray \<Rightarrow> bool" where
  "dyn_ok zt d \<longleftrightarrow>
     (case dvec d of
        None \<Rightarrow> filled d = 0 \<and> alloc d = 0
      | Some v \<Rightarrow> length v = alloc d \<and> filled d + ZeroTerm zt \<le> alloc d \<and>
          None \<notin> set (take (filled d) v) \<and>
          (\<forall>z. zt = Some z \<longrightarrow> drop (filled d) v = replicate (alloc d - filled d) (Some z)))"

definition contents :: "'a Dynarray \<Rightarrow> 'a list" where
  "contents d = (case dvec d of None \<Rightarrow> [] | Some v \<Rightarrow> map the (take (filled d) v))"

lemma pow_above_gt: "0 < i \<Longrightarrow> x < pow_above i x"
proof (induction i x rule: pow_above.induct)
  case (1 i x)
  then show ?case by (subst pow_above.simps) auto
qed

lemma nearest_pow_ok: "x < 2 ^ 30 \<Longrightarrow> \<exists>i. nearest_pow x = Inr i \<and> x < i \<and> 16 \<le> i"
  using pow_above_gt [of 1 x] by (auto simp: nearest_pow_def Let_def)

lemma dyn_simps [simp]:
  "assert_dyn True = Inr ()" "defined_dyn True = Inr ()"
  by (simp_all add: assert_dyn_def defined_dyn_def)

lemma dyn_okE:
  assumes "dyn_ok zt d" and "dvec d = Some v"
  shows "length v = alloc d" "filled d + ZeroTerm zt \<le> alloc d" "take (filled d) v = map Some (contents d)"
    "length (contents d) = filled d" "zt = Some z \<Longrightarrow> drop (filled d) v = replicate (alloc d - filled d) (Some z)"
proof -
  show l: "length v = alloc d" and f: "filled d + ZeroTerm zt \<le> alloc d"
    and "zt = Some z \<Longrightarrow> drop (filled d) v = replicate (alloc d - filled d) (Some z)"
    using assms by (simp_all add: dyn_ok_def)
  have "None \<notin> set (take (filled d) v)" using assms by (simp add: dyn_ok_def)
  then have "map (Some \<circ> the) (take (filled d) v) = take (filled d) v"
    by (intro map_idI) (metis comp_apply option.collapse)
  then show "take (filled d) v = map Some (contents d)" using assms(2) by (simp add: contents_def)
  show "length (contents d) = filled d" using l f assms(2) by (simp add: contents_def)
qed

text \<open>The array that holds the elements \<open>xs\<close>, with so many cells behind them.\<close>

lemma dyn_ok_iff:
  assumes "dvec d = Some v"
  shows "dyn_ok zt d \<and> contents d = xs \<longleftrightarrow>
    length xs = filled d \<and> filled d + ZeroTerm zt \<le> alloc d \<and>
    (\<exists>r. v = map Some xs @ r \<and> length r = alloc d - filled d \<and> (\<forall>z. zt = Some z \<longrightarrow> r = replicate (length r) (Some z)))"
    (is "?l \<longleftrightarrow> ?r")
proof
  assume l: ?l
  then have v: "v = map Some xs @ drop (filled d) v" using dyn_okE(3) [of zt d v] assms by (metis append_take_drop_id)
  have "length (drop (filled d) v) = alloc d - filled d" using dyn_okE(1) l assms by (metis length_drop)
  with v show ?r using dyn_okE(2,4,5) [of zt d v] l assms by metis
next
  assume ?r
  then obtain r where "length xs = filled d" "filled d + ZeroTerm zt \<le> alloc d" "v = map Some xs @ r"
    "length r = alloc d - filled d" "\<forall>z. zt = Some z \<longrightarrow> r = replicate (length r) (Some z)" by blast
  then show ?l using assms by (auto simp: dyn_ok_def contents_def comp_def)
qed

definition holds :: "'a option \<Rightarrow> 'a Dynarray \<Rightarrow> 'a list \<Rightarrow> bool" where
  "holds zt d xs \<longleftrightarrow> dyn_ok zt d \<and> contents d = xs"

lemma maybe_expand_ok:
  assumes "holds zt d xs" and "length xs + n + ZeroTerm zt < 2 ^ 30"
  shows "\<exists>d' v. maybe_expand zt n d = Inr d' \<and> holds zt d' xs \<and> dvec d' = Some v \<and> filled d' = filled d \<and>
    filled d + n + ZeroTerm zt \<le> length v"
proof (cases "dvec d")
  case None
  then have f: "filled d = 0" "xs = []" "alloc d = 0"
    using assms(1) by (auto simp: holds_def dyn_ok_def contents_def)
  obtain i where i: "nearest_pow (n + ZeroTerm zt) = Inr i" "n + ZeroTerm zt < i"
    using nearest_pow_ok [of "n + ZeroTerm zt"] assms(2) by auto
  then have m: "maybe_expand zt n d = Inr (d\<lparr>dvec := Some (new_cells zt i), alloc := i\<rparr>)"
    using None f by (simp add: maybe_expand_def)
  have "holds zt (d\<lparr>dvec := Some (new_cells zt i), alloc := i\<rparr>) xs"
    using i(2) f by (auto simp: holds_def dyn_ok_def contents_def new_cells_def)
  then show ?thesis using m i f by (simp add: new_cells_def)
next
  case (Some v)
  have len: "length xs = filled d" using assms(1) dyn_okE(4) Some by (metis holds_def)
  have v: "length v = alloc d" using assms(1) dyn_okE(1) Some by (metis holds_def)
  show ?thesis
  proof (cases "int (alloc d) - int (ZeroTerm zt) < int (filled d + n)")
    case False
    then show ?thesis using assms(1) Some v by (simp add: maybe_expand_def)
  next
    case True
    obtain i where i: "nearest_pow (filled d + n + ZeroTerm zt) = Inr i" "filled d + n + ZeroTerm zt < i"
      using nearest_pow_ok [of "filled d + n + ZeroTerm zt"] assms(2) len by auto
    let ?d = "d\<lparr>dvec := Some (v @ new_cells zt (i - alloc d)), alloc := i\<rparr>"
    have m: "maybe_expand zt n d = Inr ?d" using Some True i by (simp add: maybe_expand_def)
    obtain r where r: "v = map Some xs @ r" "length r = alloc d - filled d"
      "\<forall>z. zt = Some z \<longrightarrow> r = replicate (length r) (Some z)" "filled d + ZeroTerm zt \<le> alloc d"
      using assms(1) unfolding holds_def dyn_ok_iff [OF Some] by blast
    have ai: "alloc d < i" using True i(2) by linarith
    have "holds zt ?d xs"
      unfolding holds_def
      by (subst dyn_ok_iff [where v = "v @ new_cells zt (i - alloc d)"])
        (use r i(2) len v ai in \<open>auto simp: new_cells_def replicate_add [symmetric]\<close>)
    then show ?thesis using m i(2) v ai by (simp add: new_cells_def)
  qed
qed


lemma tail_cells:
  assumes "holds zt d xs" and "dvec d = Some v"
  obtains r where "v = map Some xs @ r" "filled d = length xs" "alloc d = length xs + length r"
    "ZeroTerm zt \<le> length r" "\<And>z. zt = Some z \<Longrightarrow> r = replicate (length r) (Some z)"
  using assms dyn_ok_iff [OF assms(2), of zt xs] unfolding holds_def by auto

lemma holdsI:
  assumes "dvec d = Some (map Some xs @ r)" "filled d = length xs" "alloc d = length xs + length r"
    "ZeroTerm zt \<le> length r" "\<And>z. zt = Some z \<Longrightarrow> r = replicate (length r) (Some z)"
  shows "holds zt d xs"
  unfolding holds_def dyn_ok_iff [OF assms(1)] using assms by auto

text \<open>Writing behind the elements.\<close>

lemma put_behind:
  assumes "holds zt d xs" and "dvec d = Some v" and "filled d + length ys + ZeroTerm zt \<le> length v"
  shows "\<exists>d'. put (filled d) ys d = Inr d' \<and> filled d' = filled d \<and> holds zt (d'\<lparr>filled := filled d + length ys\<rparr>) (xs @ ys)"
proof -
  obtain r where r: "v = map Some xs @ r" "filled d = length xs" "alloc d = length xs + length r"
    "ZeroTerm zt \<le> length r" "\<And>z. zt = Some z \<Longrightarrow> r = replicate (length r) (Some z)"
    by (rule tail_cells [OF assms(1,2)]) blast
  let ?d = "d\<lparr>dvec := Some (map Some xs @ map Some ys @ drop (length ys) r)\<rparr>"
  have p: "put (filled d) ys d = Inr ?d"
    using assms(2,3) r by (simp add: put_def write_cells_def)
  have "zt = Some z \<Longrightarrow> drop (length ys) r = replicate (length r - length ys) (Some z)" for z
    using r(5) by (metis drop_replicate)
  then have "holds zt (?d\<lparr>filled := filled d + length ys\<rparr>) (xs @ ys)"
    by (intro holdsI [where r = "drop (length ys) r"]) (use r assms(3) in auto)
  then show ?thesis using p by simp
qed

lemma dyn_append_ok:
  assumes "holds zt d xs" and "length xs + 1 + ZeroTerm zt < 2 ^ 30"
  shows "\<exists>d'. dyn_append zt c d = Inr d' \<and> holds zt d' (xs @ [c])"
proof -
  obtain d1 v where d1: "maybe_expand zt 1 d = Inr d1" "holds zt d1 xs" "dvec d1 = Some v" "filled d1 = filled d"
    "filled d + 1 + ZeroTerm zt \<le> length v" using maybe_expand_ok [OF assms] by blast
  obtain d2 where "put (filled d1) [c] d1 = Inr d2" "filled d2 = filled d1" "holds zt (d2\<lparr>filled := filled d1 + 1\<rparr>) (xs @ [c])"
    using put_behind [OF d1(2,3), of "[c]"] d1(4,5) by auto
  then show ?thesis using d1(1) by (simp add: dyn_append_def)
qed

lemma append_vec_ok:
  assumes "holds zt d xs" and "length xs + length ys + ZeroTerm zt < 2 ^ 30"
    and "given_length zt s n = Inr (length ys)" and "take (length ys) s = ys" and "0 \<le> n \<longrightarrow> zt \<noteq> None"
  shows "\<exists>d'. append_vec zt s n d = Inr d' \<and> holds zt d' (xs @ ys)"
proof -
  obtain d1 v where d1: "maybe_expand zt (length ys) d = Inr d1" "holds zt d1 xs" "dvec d1 = Some v" "filled d1 = filled d"
    "filled d + length ys + ZeroTerm zt \<le> length v" using maybe_expand_ok [OF assms(1,2)] by blast
  obtain d2 where d2: "put (filled d1) ys d1 = Inr d2" "filled d2 = filled d1"
    "holds zt (d2\<lparr>filled := filled d1 + length ys\<rparr>) (xs @ ys)"
    using put_behind [OF d1(2,3), of ys] d1(4,5) by auto
  have "length ys \<le> length s" using assms(4) by (metis length_take min.cobounded1)
  moreover have "assert_dyn (n < 0 \<or> zt \<noteq> None) = Inr ()" using assms(5) by (auto simp: assert_dyn_def)
  ultimately show ?thesis using d1(1) d2 assms(3,4) by (simp add: append_vec_def)
qed

lemma expand_ok:
  assumes "holds zt d xs" and "max n (length xs) + ZeroTerm zt < 2 ^ 30"
  shows "\<exists>d'. expand zt n x d = Inr d' \<and> holds zt d' (xs @ replicate (n - length xs) x)"
proof -
  have f: "filled d = length xs"
    using assms(1) by (cases "dvec d") (auto simp: holds_def dyn_ok_def contents_def)
  show ?thesis
  proof (cases "filled d < n")
    case True
    then have "length xs + (n - filled d) + ZeroTerm zt < 2 ^ 30" using assms(2) f by simp
    from maybe_expand_ok [OF assms(1) this]
    obtain d1 v where d1: "maybe_expand zt (n - filled d) d = Inr d1" "holds zt d1 xs" "dvec d1 = Some v" "filled d1 = filled d"
      "filled d + (n - filled d) + ZeroTerm zt \<le> length v" by blast
    obtain d2 where "put (filled d1) (replicate (n - filled d) x) d1 = Inr d2" "filled d2 = filled d1"
      "holds zt (d2\<lparr>filled := filled d1 + (n - filled d)\<rparr>) (xs @ replicate (n - filled d) x)"
      using put_behind [OF d1(2,3), of "replicate (n - filled d) x"] d1(4,5) by auto
    then show ?thesis using d1(1,4) True f by (simp add: expand_def)
  qed (use assms(1) f in \<open>simp add: expand_def\<close>)
qed

lemma prepend_ok:
  assumes "holds zt d xs" and "length xs + 1 + ZeroTerm zt < 2 ^ 30"
  shows "\<exists>d'. prepend zt c d = Inr d' \<and> holds zt d' (c # xs)"
proof -
  obtain d1 v where d1: "maybe_expand zt 1 d = Inr d1" "holds zt d1 xs" "dvec d1 = Some v" "filled d1 = filled d"
    "filled d + 1 + ZeroTerm zt \<le> length v" using maybe_expand_ok [OF assms] by blast
  obtain r where r: "v = map Some xs @ r" "filled d1 = length xs" "alloc d1 = length xs + length r"
    "ZeroTerm zt \<le> length r" "\<And>z. zt = Some z \<Longrightarrow> r = replicate (length r) (Some z)"
    by (rule tail_cells [OF d1(2,3)]) blast
  have len: "1 + ZeroTerm zt \<le> length r" using d1(4,5) r by simp
  let ?v = "take 1 v @ map Some xs @ drop (1 + length xs) v"
  have w: "write_cells 1 (take (filled d1) v) (Some v) = Inr (Some ?v)"
    using r len by (simp add: write_cells_def)
  have hd: "length ?v = length v" and tl: "drop 1 ?v = map Some xs @ tl r"
    using r(1) len by (cases xs; cases r; simp)+
  have p: "put 0 [c] (d1\<lparr>dvec := Some ?v\<rparr>) = Inr (d1\<lparr>dvec := Some (Some c # drop 1 ?v)\<rparr>)"
    using hd r len by (auto simp: put_def write_cells_def)
  have "tl r = replicate (length r - 1) (Some z)" if "zt = Some z" for z
    using r(5) [OF that] by (metis replicate_Suc tl_replicate)
  then have "holds zt (d1\<lparr>dvec := Some (Some c # drop 1 ?v), filled := filled d1 + 1\<rparr>) (c # xs)"
    unfolding tl by (intro holdsI [where r = "tl r"]) (use r len in auto)
  then show ?thesis using d1(1,3) w p by (simp add: prepend_def)
qed

lemma truncate_ok:
  assumes "holds zt d xs" and "n \<le> length xs"
  shows "\<exists>d'. truncate_at zt n d = Inr d' \<and> holds zt d' (take n xs)"
proof (cases "dvec d")
  case None
  then have "xs = []" "n = 0" "filled d = 0" "alloc d = 0"
    using assms by (auto simp: holds_def dyn_ok_def contents_def)
  then show ?thesis using assms(1) None
    by (auto simp: truncate_at_def write_cells_def holds_def dyn_ok_def contents_def split: option.split)
next
  case (Some v)
  obtain r where r: "v = map Some xs @ r" "filled d = length xs" "alloc d = length xs + length r"
    "ZeroTerm zt \<le> length r" "\<And>z. zt = Some z \<Longrightarrow> r = replicate (length r) (Some z)"
    by (rule tail_cells [OF assms(1) Some]) blast
  show ?thesis
  proof (cases zt)
    case None
    have "holds zt (d\<lparr>filled := n\<rparr>) (take n xs)"
      by (rule holdsI [where r = "map Some (drop n xs) @ r"])
        (use r assms(2) Some None in \<open>auto simp: take_map [symmetric] drop_map [symmetric] ZeroTerm_def\<close>)
    then show ?thesis using None by (simp add: truncate_at_def)
  next
    case z: (Some z)
    let ?d = "d\<lparr>dvec := Some (map Some (take n xs) @ replicate (alloc d - n) (Some z)), filled := n\<rparr>"
    have "truncate_at zt n d = Inr ?d"
      using Some z r assms(2) by (simp add: truncate_at_def write_cells_def take_map)
    moreover have "holds zt ?d (take n xs)"
      by (rule holdsI [where r = "replicate (alloc d - n) (Some z)"]) (use r assms(2) z in auto)
    ultimately show ?thesis by blast
  qed
qed

lemma index_set_ok:
  assumes "holds zt d xs" and "i < length xs"
  shows "\<exists>d'. index_set (int i) c d = Inr d' \<and> holds zt d' (xs[i := c])"
proof (cases "dvec d")
  case None
  then show ?thesis using assms by (auto simp: holds_def dyn_ok_def contents_def)
next
  case (Some v)
  obtain r where r: "v = map Some xs @ r" "filled d = length xs" "alloc d = length xs + length r"
    "ZeroTerm zt \<le> length r" "\<And>z. zt = Some z \<Longrightarrow> r = replicate (length r) (Some z)"
    by (rule tail_cells [OF assms(1) Some]) blast
  let ?d = "d\<lparr>dvec := Some (map Some (xs[i := c]) @ r)\<rparr>"
  have "index_set (int i) c d = Inr ?d"
    using Some r assms(2)
    by (simp add: index_set_def put_def write_cells_def upd_conv_take_nth_drop take_map drop_map)
  moreover have "holds zt ?d (xs[i := c])"
    by (rule holdsI [where r = r]) (use r in auto)
  ultimately show ?thesis by blast
qed

lemma assign_ok:
  assumes "holds zt d xs" and "length ys + ZeroTerm zt < 2 ^ 30"
    and "given_length zt s n = Inr (length ys)" and "take (length ys) s = ys"
  shows "\<exists>d'. assign zt s n d = Inr d' \<and> holds zt d' ys"
proof -
  have ls: "length ys \<le> length s" using assms(4) by (metis length_take min.cobounded1)
  have f: "filled d = length xs"
    using assms(1) by (cases "dvec d") (auto simp: holds_def dyn_ok_def contents_def)
  obtain d1 where d1: "(if filled d < length ys then maybe_expand zt (length ys - filled d) d else Inr d) = Inr d1"
    "holds zt d1 xs" "filled d1 = length xs"
    "dvec d1 = None \<and> ys = [] \<or> (\<exists>v. dvec d1 = Some v \<and> length ys + ZeroTerm zt \<le> length v)"
  proof (cases "filled d < length ys")
    case True
    then have "length xs + (length ys - filled d) + ZeroTerm zt < 2 ^ 30" using assms(2) f by simp
    from maybe_expand_ok [OF assms(1) this] show ?thesis using True f that by auto
  next
    case False
    show ?thesis
    proof (cases "dvec d")
      case None
      then have "xs = []" using assms(1) by (simp add: holds_def contents_def)
      then show ?thesis using that [of d] False assms(1) f None by simp
    next
      case (Some v)
      obtain r where "v = map Some xs @ r" "ZeroTerm zt \<le> length r" by (rule tail_cells [OF assms(1) Some]) blast
      then show ?thesis using that [of d] False assms(1) f Some by simp
    qed
  qed
  have start: "assign zt s n d = ebind (put 0 ys d1) (\<lambda>d.
       case zt of None \<Rightarrow> Inr (d\<lparr>filled := length ys\<rparr>)
       | Some z \<Rightarrow> ebind (put (length ys) (replicate (filled d - length ys) z) d) (\<lambda>d. Inr (d\<lparr>filled := length ys\<rparr>)))"
    using assms(3,4) d1(1) ls by (simp add: assign_def)
  show ?thesis
  proof (cases "dvec d1")
    case None
    then have n: "xs = []" "ys = []" "filled d1 = 0" "alloc d1 = 0"
      using d1(2-4) by (auto simp: holds_def dyn_ok_def contents_def)
    then show ?thesis unfolding start using None
      by (auto simp: put_def write_cells_def holds_def dyn_ok_def contents_def split: option.split)
  next
    case (Some v)
    obtain r where r: "v = map Some xs @ r" "filled d1 = length xs" "alloc d1 = length xs + length r"
      "ZeroTerm zt \<le> length r" "\<And>z. zt = Some z \<Longrightarrow> r = replicate (length r) (Some z)"
      by (rule tail_cells [OF d1(2) Some]) blast
    have len: "length ys + ZeroTerm zt \<le> length v" using d1(4) Some by auto
    let ?v = "map Some ys @ drop (length ys) v"
    have p: "put 0 ys d1 = Inr (d1\<lparr>dvec := Some ?v\<rparr>)"
      using Some len by (simp add: put_def write_cells_def)
    show ?thesis
    proof (cases zt)
      case None
      have "holds zt (d1\<lparr>dvec := Some ?v, filled := length ys\<rparr>) ys"
        by (rule holdsI [where r = "drop (length ys) v"]) (use r len None in auto)
      then show ?thesis unfolding start p by (simp add: None)
    next
      case z: (Some z)
      let ?k = "length xs - length ys"
      have "drop (length ys) v = drop (length ys) (map Some xs) @ drop (length ys - length xs) r"
        using r(1) by simp
      moreover have "drop n r = replicate (length r - n) (Some z)" for n using r(5) [OF z] by (metis drop_replicate)
      ultimately have dr: "drop (length ys + ?k) v = replicate (length v - length ys - ?k) (Some z)"
        using r(1) r(5) [OF z] by (cases "length ys \<le> length xs") (simp_all add: drop_map)
      let ?w = "map Some ys @ replicate (length v - length ys) (Some z)"
      have "put (length ys) (replicate ?k z) (d1\<lparr>dvec := Some ?v\<rparr>) = Inr (d1\<lparr>dvec := Some ?w\<rparr>)"
      proof -
        have "length ys + ?k \<le> length v" using r(1) len by simp
        then show ?thesis
          using dr by (simp add: put_def write_cells_def add.commute replicate_add [symmetric])
      qed
      then have "assign zt s n d = Inr (d1\<lparr>dvec := Some ?w, filled := length ys\<rparr>)"
        unfolding start p by (simp add: z r(2))
      moreover have "holds zt (d1\<lparr>dvec := Some ?w, filled := length ys\<rparr>) ys"
        by (rule holdsI [where r = "replicate (length v - length ys) (Some z)"]) (use r(1,3) z len in auto)
      ultimately show ?thesis by blast
    qed
  qed
qed


section \<open>A history\<close>

text \<open>The operations, and what they do to the list of the elements when they are used within it.\<close>

datatype 'a dyn_op =
    AppendElt 'a | AppendVec "'a list" int | PrependElt 'a | Truncate nat | SetAt nat 'a | Assign "'a list" int
  | Expand nat 'a

fun dyn_step :: "'a option \<Rightarrow> 'a Dynarray \<Rightarrow> 'a dyn_op \<Rightarrow> 'a Dynarray dyn" where
  "dyn_step zt d (AppendElt c) = dyn_append zt c d"
| "dyn_step zt d (AppendVec s n) = append_vec zt s n d"
| "dyn_step zt d (PrependElt c) = prepend zt c d"
| "dyn_step zt d (Truncate n) = truncate_at zt n d"
| "dyn_step zt d (SetAt i c) = index_set (int i) c d"
| "dyn_step zt d (Assign s n) = assign zt s n d"
| "dyn_step zt d (Expand n x) = expand zt n x d"

text \<open>A negative length stands for the elements before the first zero.\<close>

definition source :: "'a option \<Rightarrow> 'a list \<Rightarrow> int \<Rightarrow> 'a list" where
  "source zt s n = (if n < 0 then takeWhile (\<lambda>x. Some x \<noteq> zt) s else take (nat n) s)"

definition source_ok :: "'a option \<Rightarrow> 'a list \<Rightarrow> int \<Rightarrow> bool" where
  "source_ok zt s n \<longleftrightarrow> (if n < 0 then zt \<in> Some ` set s else n \<le> int (length s))"

fun elts_step :: "'a option \<Rightarrow> 'a list \<Rightarrow> 'a dyn_op \<Rightarrow> 'a list" where
  "elts_step zt xs (AppendElt c) = xs @ [c]"
| "elts_step zt xs (AppendVec s n) = xs @ source zt s n"
| "elts_step zt xs (PrependElt c) = c # xs"
| "elts_step zt xs (Truncate n) = take n xs"
| "elts_step zt xs (SetAt i c) = xs[i := c]"
| "elts_step zt xs (Assign s n) = source zt s n"
| "elts_step zt xs (Expand n x) = xs @ replicate (n - length xs) x"

fun op_ok :: "'a option \<Rightarrow> 'a list \<Rightarrow> 'a dyn_op \<Rightarrow> bool" where
  "op_ok zt xs (AppendVec s n) = (source_ok zt s n \<and> (0 \<le> n \<longrightarrow> zt \<noteq> None))"
| "op_ok zt xs (Truncate n) = (n \<le> length xs)"
| "op_ok zt xs (SetAt i c) = (i < length xs)"
| "op_ok zt xs (Assign s n) = source_ok zt s n"
| "op_ok zt xs _ = True"

text \<open>Every operation of a history is in order, and no array in it is too long.\<close>

fun history_ok :: "'a option \<Rightarrow> 'a list \<Rightarrow> 'a dyn_op list \<Rightarrow> bool" where
  "history_ok zt xs [] = True"
| "history_ok zt xs (p # ps) =
     (op_ok zt xs p \<and> length (elts_step zt xs p) + ZeroTerm zt < 2 ^ 30 \<and> history_ok zt (elts_step zt xs p) ps)"

lemma source_length:
  assumes "source_ok zt s n"
  shows "given_length zt s n = Inr (length (source zt s n))" and "take (length (source zt s n)) s = source zt s n"
proof -
  show "given_length zt s n = Inr (length (source zt s n))"
    using assms by (auto simp: source_ok_def source_def given_length_def v_length_def split: if_splits)
  show "take (length (source zt s n)) s = source zt s n"
    using assms takeWhile_eq_take [of "\<lambda>x. Some x \<noteq> zt" s] by (auto simp: source_def source_ok_def split: if_splits)
qed

lemma dyn_step_ok:
  assumes "holds zt d xs" and "op_ok zt xs p" and "length (elts_step zt xs p) + ZeroTerm zt < 2 ^ 30"
  shows "\<exists>d'. dyn_step zt d p = Inr d' \<and> holds zt d' (elts_step zt xs p)"
proof (cases p)
  case (AppendElt c)
  then show ?thesis using dyn_append_ok [OF assms(1)] assms(3) by simp
next
  case (AppendVec s n)
  then show ?thesis using append_vec_ok [OF assms(1) _ source_length] assms(2,3) by auto
next
  case (PrependElt c)
  then show ?thesis using prepend_ok [OF assms(1)] assms(3) by simp
next
  case (Truncate n)
  then show ?thesis using truncate_ok [OF assms(1)] assms(2) by simp
next
  case (SetAt i c)
  then show ?thesis using index_set_ok [OF assms(1)] assms(2) by simp
next
  case (Assign s n)
  then show ?thesis using assign_ok [OF assms(1) _ source_length] assms(2,3) by auto
next
  case (Expand n x)
  then show ?thesis using expand_ok [OF assms(1), of n x] assms(3) by (cases "n \<le> length xs") auto
qed

lemma dyn_history:
  assumes "holds zt d xs" and "history_ok zt xs ps"
  shows "\<exists>d'. efold (dyn_step zt) d ps = Inr d' \<and> holds zt d' (foldl (elts_step zt) xs ps)"
  using assms
proof (induction ps arbitrary: d xs)
  case (Cons p ps)
  obtain d1 where "dyn_step zt d p = Inr d1" "holds zt d1 (elts_step zt xs p)"
    using dyn_step_ok [OF Cons.prems(1)] Cons.prems(2) by auto
  then show ?case using Cons.IH [of d1 "elts_step zt xs p"] Cons.prems(2) by simp
qed simp

lemma holds_new: "holds zt new_Dynarray []"
  by (simp add: holds_def dyn_ok_def contents_def new_Dynarray_def)

text \<open>The zero that ends the string.\<close>

lemma cast_terminated:
  assumes "holds (Some z) d xs"
  shows "\<exists>r d'. dyn_cast (Some z) d = Inr (map Some xs @ Some z # r, d') \<and> holds (Some z) d' xs"
proof (cases "dvec d")
  case None
  then have "xs = []" "filled d = 0" using assms by (auto simp: holds_def dyn_ok_def contents_def)
  moreover have "new_cells (Some z) 16 = Some z # replicate 15 (Some z)"
    by (simp add: new_cells_def numeral_eq_Suc)
  ultimately show ?thesis using None
    by (auto simp: dyn_cast_def holds_def dyn_ok_def contents_def ZeroTerm_def new_cells_def)
next
  case (Some v)
  obtain r where r: "v = map Some xs @ r" "filled d = length xs" "ZeroTerm (Some z) \<le> length r"
    "\<And>w. Some z = Some w \<Longrightarrow> r = replicate (length r) (Some w)"
    by (rule tail_cells [OF assms Some]) blast
  have "r = replicate (length r) (Some z)" using r(4) by blast
  then obtain n where n: "r = Some z # replicate n (Some z)" using r(3) by (cases "length r") (auto simp: ZeroTerm_def)
  have "dyn_cast (Some z) d = Inr (map Some xs @ Some z # replicate n (Some z), d)"
    using Some r(1,2) nth_append_length [of "map Some xs" "Some z"] by (simp add: dyn_cast_def n)
  then show ?thesis using assms by blast
qed

section \<open>Properties\<close>

text \<open>
  C31. A zero-terminated array, as the strings are, does what a list does. After any history of
  operations that stay within the array and below the size limit, starting from a new array,
  no operation has touched a cell that is not allocated, read one that was never written or
  failed an assertion; and the string that a reader finds is the list of the elements, with a zero
  behind.
\<close>

theorem string_history:
  assumes "history_ok (Some z) [] ps"
  shows "\<exists>d r d'. efold (dyn_step (Some z)) new_Dynarray ps = Inr d \<and> contents d = foldl (elts_step (Some z)) [] ps \<and>
    dyn_cast (Some z) d = Inr (map Some (contents d) @ Some z # r, d')"
proof -
  obtain d where "efold (dyn_step (Some z)) new_Dynarray ps = Inr d" "holds (Some z) d (foldl (elts_step (Some z)) [] ps)"
    using dyn_history [OF holds_new assms] by blast
  then show ?thesis using cast_terminated by (fastforce simp: holds_def)
qed

theorem string_history_witness:
  "\<exists>d r d'. efold (dyn_step (Some NUL)) new_Dynarray
      [Assign (''obs'' @ [NUL]) (-1), AppendElt CHR ''x'', Truncate 2, AppendVec ''olete'' 3, PrependElt CHR ''a''] = Inr d \<and>
    contents d = ''aobole'' \<and> dyn_cast (Some NUL) d = Inr (map Some (contents d) @ Some NUL # r, d')"
  using string_history [of NUL "[Assign (''obs'' @ [NUL]) (-1), AppendElt CHR ''x'', Truncate 2,
      AppendVec ''olete'' 3, PrependElt CHR ''a'']"]
  by (simp add: source_def source_ok_def ZeroTerm_def)

text \<open>The copy of a string that was never used has no cell for its zero.\<close>

lemma copy_of_unused_string:
  "ebind (copy_Dynarray (Some z) z new_Dynarray) (dyn_cast (Some z)) = Inl Undefined"
  by (simp add: copy_Dynarray_def new_Dynarray_def new_cells_def write_cells_def dyn_cast_def defined_dyn_def)

end
