(* ===== verification/Deltas.thy ===== *)
theory Deltas
  imports Dynarrays Versions
begin

text \<open>
  The table of the versions of an RCS file, \<open>RcsDelta\<close> of \<open>src/src/vc.cc\<close>: a tree whose branches
  are the numbers of a version, with the iterator that walks it through the parent pointers. A
  \<open>RcsDeltaPtrArray\<close> behaves as a list (\<open>dyn_history\<close>); an array that was never made counts as
  empty, which the operations do not tell apart.
\<close>

section \<open>Numbers\<close>

text \<open>
  \<open>(int)strtol(s, &end, 10)\<close>: white space, a sign and digits, cut to the range of \<open>long\<close> and then
  to the low 32 bits. Without digits nothing is read.
\<close>

fun strtol_sign :: "string \<Rightarrow> bool \<times> string" where
  "strtol_sign [] = (False, [])"
| "strtol_sign (c # r) =
     (if c = CHR ''-'' then (True, r) else if c = CHR ''+'' then (False, r) else (False, c # r))"

definition strtol10 :: "string \<Rightarrow> int \<times> string" where
  "strtol10 s =
     (case strtol_sign (dropWhile isspace s) of (neg, s') \<Rightarrow>
        let ds = takeWhile isdigit s'; n = digits_val 0 ds;
            v = (if neg then max (- n) (- (2 ^ 63)) else min n (2 ^ 63 - 1))
        in if ds = [] then (0, s) else (signed_take_bit 31 v, dropWhile isdigit s'))"

section \<open>The tree\<close>

datatype 'd RcsDelta =
  RcsDelta (rcs_data: "'d option") (delta_array: "'d RcsDelta option list") (insertion_count: int)

definition new_RcsDelta :: "'d RcsDelta" where
  "new_RcsDelta = RcsDelta None [] 0"

text \<open>
  The pointer behind the number skips the period. A number below zero, or too large for an array, is
  undefined.
\<close>

definition after_number :: "string \<Rightarrow> string" where
  "after_number end_ptr = (if end_ptr \<noteq> [] then tl end_ptr else end_ptr)"

lemma dropWhile_le: "length (dropWhile P s) \<le> length s"
  by (induction s) auto

lemma strtol_sign_le: "length (snd (strtol_sign s)) \<le> length s"
  by (cases s) auto

lemma after_number_shorter:
  assumes "index \<noteq> []" and "(n, e) = strtol10 index"
  shows "length (after_number e) < length index"
proof -
  obtain neg s' where s': "strtol_sign (dropWhile isspace index) = (neg, s')" by fastforce
  have "length s' \<le> length (dropWhile isspace index)"
    using strtol_sign_le [of "dropWhile isspace index"] s' by simp
  also have "\<dots> \<le> length index" by (rule dropWhile_le)
  finally have le: "length s' \<le> length index" .
  have "e = index \<or> takeWhile isdigit s' \<noteq> [] \<and> e = dropWhile isdigit s'"
    using assms(2) by (auto simp: strtol10_def s' Let_def split: if_splits)
  moreover have "length (dropWhile isdigit s') < length s'" if "takeWhile isdigit s' \<noteq> []"
    using that takeWhile_dropWhile_id [of isdigit s'] by (metis length_append length_greater_0_conv less_add_same_cancel2)
  ultimately show ?thesis using assms(1) le by (auto simp: after_number_def)
qed

function delta_insert :: "string \<Rightarrow> 'd \<Rightarrow> 'd RcsDelta \<Rightarrow> 'd RcsDelta dyn" where
  "delta_insert index data (RcsDelta rd arr cnt) =
     (if index = [] then Inr (RcsDelta (Some data) arr (cnt + 1))
      else case strtol10 index of (delta_num, end_ptr) \<Rightarrow>
        if delta_num < 0 \<or> 2 ^ 30 \<le> delta_num + 1 then Inl Undefined
        else
          let n = nat delta_num;
              arr1 = arr @ replicate (n + 1 - length arr) None;
              child = (case arr1 ! n of None \<Rightarrow> new_RcsDelta | Some c \<Rightarrow> c)
          in ebind (delta_insert (after_number end_ptr) data child)
               (\<lambda>c. Inr (RcsDelta rd (arr1[n := Some c]) (cnt + 1))))"
  by pat_completeness auto
termination
  by (relation "measure (\<lambda>(index, data, t). length index)") (auto simp: after_number_shorter)

declare delta_insert.simps [simp del]

function delta_lookup :: "string \<Rightarrow> 'd RcsDelta \<Rightarrow> 'd option dyn" where
  "delta_lookup index (RcsDelta rd arr cnt) =
     (if index = [] then Inr rd
      else case strtol10 index of (delta_num, end_ptr) \<Rightarrow>
        if arr = [] \<or> int (length arr) \<le> delta_num then Inr None
        else if delta_num < 0 then Inl Undefined
        else (case arr ! nat delta_num of
                Some c \<Rightarrow> delta_lookup (after_number end_ptr) c
              | None \<Rightarrow> Inr None))"
  by pat_completeness auto
termination
  by (relation "measure (\<lambda>(index, t). length index)") (auto simp: after_number_shorter)

declare delta_lookup.simps [simp del]

function delta_remove :: "string \<Rightarrow> 'd RcsDelta \<Rightarrow> 'd RcsDelta dyn" where
  "delta_remove index (RcsDelta rd arr cnt) =
     (if index = [] then Inr (RcsDelta None arr (cnt - 1))
      else case strtol10 index of (delta_num, end_ptr) \<Rightarrow>
        if arr = [] \<or> int (length arr) \<le> delta_num then Inr (RcsDelta rd arr (cnt - 1))
        else if delta_num < 0 then Inl Undefined
        else (case arr ! nat delta_num of
                Some c \<Rightarrow>
                  ebind (delta_remove (after_number end_ptr) c)
                    (\<lambda>c'. Inr (RcsDelta rd (arr[nat delta_num := Some c']) (cnt - 1)))
              | None \<Rightarrow> Inr (RcsDelta rd arr (cnt - 1))))"
  by pat_completeness auto
termination
  by (relation "measure (\<lambda>(index, t). length index)") (auto simp: after_number_shorter)

declare delta_remove.simps [simp del]

section \<open>The iterator\<close>

text \<open>
  A node is the path to it from the root. Every node remembers in \<open>my_iter_index\<close> where the walk is
  below it.
\<close>

record 'd DeltaIterator =
  it_current :: "nat list"
  it_data :: "'d option"
  it_finished :: bool
  it_index :: int
  my_iter_index :: "nat list \<Rightarrow> int"

fun delta_at :: "'d RcsDelta \<Rightarrow> nat list \<Rightarrow> 'd RcsDelta option" where
  "delta_at t [] = Some t"
| "delta_at t (i # p) =
     (if i < length (delta_array t) then
        (case delta_array t ! i of None \<Rightarrow> None | Some c \<Rightarrow> delta_at c p)
      else None)"

text \<open>One turn of \<open>next\<close>: whether it returns, and the state.\<close>

definition it_step :: "'d RcsDelta \<Rightarrow> 'd DeltaIterator \<Rightarrow> bool \<times> 'd DeltaIterator" where
  "it_step t s =
     (case delta_at t (it_current s) of
        None \<Rightarrow> (True, s)
      | Some current \<Rightarrow>
          let i = it_index s + 1; s1 = s\<lparr>it_index := i\<rparr>; array_length = int (length (delta_array current)) in
          if i = array_length then (rcs_data current \<noteq> None, s1\<lparr>it_data := rcs_data current\<rparr>)
          else if i < array_length then
            (if delta_array current ! nat i \<noteq> None then
               (False, s1\<lparr>my_iter_index := (my_iter_index s)(it_current s := i),
                         it_current := it_current s @ [nat i], it_index := -1\<rparr>)
             else (False, s1))
          else if it_current s = [] then (True, s1\<lparr>it_finished := True\<rparr>)
          else (False, s1\<lparr>it_current := butlast (it_current s),
                          it_index := my_iter_index s (butlast (it_current s))\<rparr>))"

text \<open>\<open>next\<close> calls itself; the fuel is the number of the calls.\<close>

fun it_next :: "nat \<Rightarrow> 'd RcsDelta \<Rightarrow> 'd DeltaIterator \<Rightarrow> 'd DeltaIterator option" where
  "it_next 0 t s = None"
| "it_next (Suc n) t s = (case it_step t s of (ret, s') \<Rightarrow> if ret then Some s' else it_next n t s')"

definition new_DeltaIterator :: "'d DeltaIterator" where
  "new_DeltaIterator = \<lparr>it_current = [], it_data = None, it_finished = False, it_index = -1, my_iter_index = (\<lambda>_. -1)\<rparr>"

text \<open>What a loop over the versions sees.\<close>

fun it_foreach :: "nat \<Rightarrow> 'd RcsDelta \<Rightarrow> 'd DeltaIterator \<Rightarrow> 'd option list option" where
  "it_foreach 0 t s = None"
| "it_foreach (Suc n) t s =
     (case it_next (Suc n) t s of
        None \<Rightarrow> None
      | Some s' \<Rightarrow> if it_finished s' then Some [] else map_option (Cons (it_data s')) (it_foreach n t s'))"

section \<open>The walk\<close>

lemma child_smaller [termination_simp]:
  "(i, Some c) \<in> set (List.enumerate k xs) \<Longrightarrow> size c < Suc (n + size_list (size_option size) xs)"
proof -
  assume "(i, Some c) \<in> set (List.enumerate k xs)"
  then have "Some c \<in> set xs" by (auto simp: in_set_enumerate_eq) (metis less_diff_conv2 nth_mem)
  moreover have "size c < size_option size (Some c)" by simp
  ultimately have "size c < size_list (size_option size) xs" by (rule size_list_estimation)
  then show ?thesis by simp
qed

text \<open>The versions below a node, each before those it branches from.\<close>

fun entries_of :: "'d RcsDelta \<Rightarrow> (nat list \<times> 'd) list" where
  "entries_of (RcsDelta rd arr cnt) =
     concat (map (\<lambda>(i, c). case c of None \<Rightarrow> [] | Some c \<Rightarrow> map (\<lambda>(p, d). (i # p, d)) (entries_of c)) (List.enumerate 0 arr)) @
     (case rd of None \<Rightarrow> [] | Some d \<Rightarrow> [([], d)])"

definition sees :: "'d RcsDelta \<Rightarrow> 'd DeltaIterator \<Rightarrow> 'd option list \<Rightarrow> bool" where
  "sees t s ys \<longleftrightarrow> (\<exists>k. \<forall>n \<ge> k. it_foreach n t s = Some ys)"

lemma it_next_more: "it_next n t s = Some s' \<Longrightarrow> n \<le> m \<Longrightarrow> it_next m t s = Some s'"
proof (induction n t s arbitrary: m rule: it_next.induct)
  case (2 n t s)
  then show ?case by (cases m) (auto split: prod.splits if_splits)
qed simp

lemma it_foreach_Suc:
  "it_next (Suc n) t s = Some s' \<Longrightarrow> it_foreach (Suc n) t s =
     (if it_finished s' then Some [] else map_option (Cons (it_data s')) (it_foreach n t s'))"
  by (simp del: it_next.simps)

lemma it_foreach_SomeD:
  assumes "it_foreach n t s = Some ys"
  obtains m s' where "n = Suc m" "it_next n t s = Some s'"
  using assms by (cases n) (auto simp del: it_next.simps split: option.splits)

lemma it_foreach_more: "it_foreach n t s = Some ys \<Longrightarrow> n \<le> m \<Longrightarrow> it_foreach m t s = Some ys"
proof (induction n arbitrary: m s ys)
  case (Suc n)
  obtain k where m: "m = Suc k" "n \<le> k" using Suc.prems(2) by (cases m) auto
  obtain s' where s': "it_next (Suc n) t s = Some s'" by (rule it_foreach_SomeD [OF Suc.prems(1)])
  have more: "it_next (Suc k) t s = Some s'" by (rule it_next_more [OF s']) (use m in simp)
  show ?case
    using Suc.prems(1) Suc.IH [of s' _ k] m(2)
    unfolding m(1) it_foreach_Suc [OF s'] it_foreach_Suc [OF more] by (cases "it_finished s'") auto
qed simp

lemma seesI: "it_foreach n t s = Some ys \<Longrightarrow> sees t s ys"
  unfolding sees_def using it_foreach_more by blast

lemma sees_go:
  assumes "it_step t s = (False, s')" and "sees t s' ys"
  shows "sees t s ys"
proof -
  obtain k where "it_foreach k t s' = Some ys" using assms(2) by (auto simp: sees_def)
  moreover have "it_foreach (Suc k) t s = Some ys" if h: "it_foreach k t s' = Some ys" for k
  proof -
    obtain j s2 where s2: "k = Suc j" "it_next k t s' = Some s2" by (rule it_foreach_SomeD [OF h])
    then have n: "it_next (Suc k) t s = Some s2" by (simp add: assms(1))
    have "it_foreach (Suc j) t s' = Some ys" using h s2(1) by simp
    then show ?thesis
      using it_foreach_more [of j t s2 _ k] s2(1)
      unfolding it_foreach_Suc [OF n] it_foreach_Suc [OF s2(2) [unfolded s2(1)]] by (cases "it_finished s2") auto
  qed
  ultimately show ?thesis using seesI by blast
qed

lemma sees_return:
  assumes "it_step t s = (True, s')" and "\<not> it_finished s'" and "sees t s' ys"
  shows "sees t s (it_data s' # ys)"
proof -
  obtain k where "it_foreach k t s' = Some ys" using assms(3) by (auto simp: sees_def)
  then have "it_foreach (Suc k) t s = Some (it_data s' # ys)" using assms(1,2) by simp
  then show ?thesis by (rule seesI)
qed

lemma sees_finish: "it_step t s = (True, s') \<Longrightarrow> it_finished s' \<Longrightarrow> sees t s []"
  by (rule seesI [of 1]) simp

lemma delta_at_append: "delta_at t (p @ q) = (case delta_at t p of None \<Rightarrow> None | Some c \<Rightarrow> delta_at c q)"
  by (induction p arbitrary: t) (auto split: option.split)

text \<open>The walk of a node, up to the moment its own version was passed over.\<close>

lemma visit:
  assumes "delta_at t p = Some nd"
    and "\<And>x m'. (\<And>q. \<not> prefix p q \<Longrightarrow> m' q = m q) \<Longrightarrow>
      sees t \<lparr>it_current = p, it_data = x, it_finished = False, it_index = int (length (delta_array nd)), my_iter_index = m'\<rparr> ys"
  shows "sees t \<lparr>it_current = p, it_data = x, it_finished = False, it_index = -1, my_iter_index = m\<rparr>
    (map (\<lambda>e. Some (snd e)) (entries_of nd) @ ys)"
  using assms
proof (induction nd arbitrary: p m x ys)
  case (RcsDelta rd arr cnt)
  let ?st = "\<lambda>i m x. \<lparr>it_current = p, it_data = x, it_finished = False, it_index = i, my_iter_index = m\<rparr>"
  let ?own = "map (\<lambda>e. Some (snd e)) (case rd of None \<Rightarrow> [] | Some d \<Rightarrow> [([] :: nat list, d)])"
  let ?sub = "\<lambda>(i, c). case c of None \<Rightarrow> [] | Some c \<Rightarrow> map (\<lambda>(p, d). (i # p, d)) (entries_of c)"
  have at: "delta_at t p = Some (RcsDelta rd arr cnt)" by (rule RcsDelta.prems(1))
  have from_child: "sees t (?st (int i - 1) m' x)
      (map (\<lambda>e. Some (snd e)) (concat (map ?sub (drop i (List.enumerate 0 arr)))) @ ?own @ ys)"
    if "i \<le> length arr" "\<And>q. \<not> prefix p q \<Longrightarrow> m' q = m q" for i m' x
    using that
  proof (induction "length arr - i" arbitrary: i m' x)
    case 0
    then have i: "i = length arr" by simp
    have e: "sees t (?st (int (length arr)) m' rd) ys"
      using RcsDelta.prems(2) [OF "0.prems"(2), of rd] by simp
    have "it_step t (?st (int i - 1) m' x) = (rd \<noteq> None, ?st (int (length arr)) m' rd)"
      using at i by (simp add: it_step_def Let_def)
    then show ?case using e sees_go sees_return i by (cases rd) fastforce+
  next
    case (Suc k)
    then have i: "i < length arr" by simp
    have d: "drop i (List.enumerate 0 arr) = (i, arr ! i) # drop (Suc i) (List.enumerate 0 arr)"
      using i by (simp add: Cons_nth_drop_Suc [symmetric] nth_enumerate_eq)
    have next_i: "sees t (?st (int (Suc i) - 1) m'' x')
        (map (\<lambda>e. Some (snd e)) (concat (map ?sub (drop (Suc i) (List.enumerate 0 arr)))) @ ?own @ ys)"
      if "\<And>q. \<not> prefix p q \<Longrightarrow> m'' q = m q" for m'' x'
      by (rule Suc.hyps(1)) (use Suc.hyps(2) i that in auto)
    show ?case
    proof (cases "arr ! i")
      case None
      have "it_step t (?st (int i - 1) m' x) = (False, ?st (int (Suc i) - 1) m' x)"
        using at i None by (simp add: it_step_def Let_def)
      then show ?thesis using next_i [OF Suc.prems(2)] sees_go by (fastforce simp: d None)
    next
      case (Some c)
      let ?ys = "map (\<lambda>e. Some (snd e)) (concat (map ?sub (drop (Suc i) (List.enumerate 0 arr)))) @ ?own @ ys"
      let ?m = "m'(p := int i)"
      have step: "it_step t (?st (int i - 1) m' x) =
          (False, \<lparr>it_current = p @ [i], it_data = x, it_finished = False, it_index = -1, my_iter_index = ?m\<rparr>)"
        using at i Some by (simp add: it_step_def Let_def)
      have atc: "delta_at t (p @ [i]) = Some c" using at i Some by (simp add: delta_at_append)
      have up: "sees t \<lparr>it_current = p @ [i], it_data = x', it_finished = False, it_index = int (length (delta_array c)),
          my_iter_index = m''\<rparr> ?ys" if "\<And>q. \<not> prefix (p @ [i]) q \<Longrightarrow> m'' q = ?m q" for x' m''
      proof -
        have "m'' p = int i" using that [of p] by simp
        then have "it_step t \<lparr>it_current = p @ [i], it_data = x', it_finished = False, it_index = int (length (delta_array c)),
            my_iter_index = m''\<rparr> = (False, ?st (int (Suc i) - 1) m'' x')"
          using atc by (simp add: it_step_def Let_def)
        moreover have "m'' q = m q" if "\<not> prefix p q" for q
        proof -
          have "\<not> prefix (p @ [i]) q" using that append_prefixD by blast
          then have "m'' q = ?m q" using \<open>\<And>q. \<not> prefix (p @ [i]) q \<Longrightarrow> m'' q = ?m q\<close> by blast
          moreover have "q \<noteq> p" using that by auto
          ultimately show ?thesis using Suc.prems(2) [OF that] by simp
        qed
        ultimately show ?thesis using next_i sees_go by blast
      qed
      have "Some c \<in> set arr" using i Some by (metis nth_mem)
      then have "sees t \<lparr>it_current = p @ [i], it_data = x, it_finished = False, it_index = -1, my_iter_index = ?m\<rparr>
          (map (\<lambda>e. Some (snd e)) (entries_of c) @ ?ys)"
        by (rule RcsDelta.IH [OF _ _ atc up]) simp_all
      moreover have "map (\<lambda>e. Some (snd e)) (map (\<lambda>(p, d). (i # p, d)) es) = map (\<lambda>e. Some (snd e)) es" for es :: "(nat list \<times> 'a) list"
        by (induction es) auto
      then have "map (\<lambda>e. Some (snd e)) (concat (map ?sub (drop i (List.enumerate 0 arr)))) @ ?own @ ys =
          map (\<lambda>e. Some (snd e)) (entries_of c) @ ?ys"
        by (simp add: d Some del: map_map)
      ultimately show ?thesis using sees_go [OF step] by (simp del: map_map)
    qed
  qed
  show ?case using from_child [of 0 m x] by simp
qed

lemma walk_entries: "sees t new_DeltaIterator (map (\<lambda>e. Some (snd e)) (entries_of t))"
proof -
  have "sees t \<lparr>it_current = [], it_data = x, it_finished = False, it_index = int (length (delta_array t)), my_iter_index = m\<rparr> []"
    for x m
    by (rule sees_finish) (auto simp: it_step_def Let_def)
  then have "sees t \<lparr>it_current = [], it_data = None, it_finished = False, it_index = -1, my_iter_index = (\<lambda>_. -1)\<rparr>
      (map (\<lambda>e. Some (snd e)) (entries_of t) @ [])"
    by (intro visit) simp_all
  then show ?thesis by (simp add: new_DeltaIterator_def)
qed

section \<open>Version numbers\<close>

text \<open>An RCS version number, its numbers separated by periods.\<close>

fun rcs_number :: "nat list \<Rightarrow> string" where
  "rcs_number [] = []"
| "rcs_number [n] = print_nat n"
| "rcs_number (n # m # ns) = print_nat n @ DOT # rcs_number (m # ns)"

definition small_numbers :: "nat list \<Rightarrow> bool" where
  "small_numbers ns \<longleftrightarrow> (\<forall>n \<in> set ns. n + 1 < 2 ^ 30)"

lemma small_Cons [simp]: "small_numbers (n # ns) \<longleftrightarrow> n + 1 < 2 ^ 30 \<and> small_numbers ns"
  by (simp add: small_numbers_def)

lemma print_nat_not_sign: "print_nat n = c # s \<Longrightarrow> isdigit c \<and> \<not> isspace c \<and> c \<noteq> CHR ''-'' \<and> c \<noteq> CHR ''+''"
  using print_nat_digits [of n] by (auto simp: isdigit_def isspace_def)

lemma strtol_number:
  assumes "n + 1 < 2 ^ 30" and "rest = [] \<or> \<not> isdigit (hd rest)"
  shows "strtol10 (print_nat n @ rest) = (int n, rest)"
proof -
  obtain c s where p: "print_nat n = c # s" using print_nat_digits [of n] by (cases "print_nat n") auto
  have c: "\<not> isspace c" "c \<noteq> CHR ''-''" "c \<noteq> CHR ''+''" using print_nat_not_sign [OF p] by auto
  then have sign: "strtol_sign (dropWhile isspace (print_nat n @ rest)) = (False, print_nat n @ rest)"
    by (simp add: p)
  have digits: "\<forall>x \<in> set (print_nat n). isdigit x" using print_nat_digits [of n] by (simp add: list_all_iff)
  have "takeWhile isdigit (print_nat n @ rest) = print_nat n" "dropWhile isdigit (print_nat n @ rest) = rest"
    using digits assms(2) by (simp_all, (cases rest; simp)+)
  moreover have "signed_take_bit 31 (int n) = int n"
    using assms(1) by (intro signed_take_bit_int_eq_self) auto
  ultimately show ?thesis
    using assms(1) print_nat_digits [of n] by (simp add: strtol10_def sign Let_def digits_val_print min_def)
qed

lemma rcs_number_split:
  assumes "small_numbers (n # ns)"
  shows "rcs_number (n # ns) \<noteq> [] \<and>
    (\<exists>e. strtol10 (rcs_number (n # ns)) = (int n, e) \<and> after_number e = rcs_number ns)"
proof (cases ns)
  case Nil
  then show ?thesis using strtol_number [of n "[]"] assms print_nat_digits [of n] by (simp add: after_number_def)
next
  case (Cons m ms)
  have "\<not> isdigit DOT" by (simp add: isdigit_def)
  then show ?thesis using strtol_number [of n "DOT # rcs_number (m # ms)"] assms Cons print_nat_digits [of n]
    by (simp add: after_number_def)
qed

section \<open>A finite map\<close>

definition child_of :: "'d RcsDelta \<Rightarrow> nat \<Rightarrow> 'd RcsDelta option" where
  "child_of t n = (if n < length (delta_array t) then delta_array t ! n else None)"

fun version_at :: "'d RcsDelta \<Rightarrow> nat list \<Rightarrow> 'd option" where
  "version_at t [] = rcs_data t"
| "version_at t (n # ns) = (case child_of t n of None \<Rightarrow> None | Some c \<Rightarrow> version_at c ns)"

lemma delta_lookup_at:
  assumes "small_numbers ns"
  shows "delta_lookup (rcs_number ns) t = Inr (version_at t ns)"
  using assms
proof (induction ns arbitrary: t)
  case Nil
  then show ?case by (cases t) (simp add: delta_lookup.simps)
next
  case (Cons n ns)
  obtain e where e: "rcs_number (n # ns) \<noteq> []" "strtol10 (rcs_number (n # ns)) = (int n, e)" "after_number e = rcs_number ns"
    using rcs_number_split [OF Cons.prems] by blast
  then show ?case using Cons
    by (cases t) (auto simp: delta_lookup.simps child_of_def split: option.split)
qed

lemma version_at_new: "version_at new_RcsDelta ns = None"
  by (cases ns) (simp_all add: new_RcsDelta_def child_of_def)

lemma delta_insert_at:
  assumes "small_numbers ns"
  shows "\<exists>t'. delta_insert (rcs_number ns) d t = Inr t' \<and> version_at t' = (version_at t)(ns \<mapsto> d)"
  using assms
proof (induction ns arbitrary: t)
  case Nil
  have "version_at (RcsDelta (Some d) arr c') ns = (if ns = [] then Some d else version_at (RcsDelta rd arr c) ns)"
    for rd arr c c' ns by (cases ns) (simp_all add: child_of_def)
  then show ?case by (cases t) (auto simp: delta_insert.simps)
next
  case (Cons n ns)
  obtain e where e: "rcs_number (n # ns) \<noteq> []" "strtol10 (rcs_number (n # ns)) = (int n, e)" "after_number e = rcs_number ns"
    using rcs_number_split [OF Cons.prems] by blast
  obtain rd arr cnt where t: "t = RcsDelta rd arr cnt" by (cases t)
  let ?arr = "arr @ replicate (n + 1 - length arr) None"
  let ?child = "case ?arr ! n of None \<Rightarrow> new_RcsDelta | Some c \<Rightarrow> c"
  obtain c where c: "delta_insert (rcs_number ns) d ?child = Inr c" "version_at c = (version_at ?child)(ns \<mapsto> d)"
    using Cons by fastforce
  let ?t = "RcsDelta rd (?arr[n := Some c]) (cnt + 1)"
  have "delta_insert (rcs_number (n # ns)) d t = Inr ?t"
    using e c(1) Cons.prems by (simp add: t delta_insert.simps Let_def)
  moreover have "version_at ?t p = ((version_at t)(n # ns \<mapsto> d)) p" for p
  proof (cases p)
    case (Cons m q)
    have "child_of ?t m = (if m = n then Some c else child_of t m)"
      by (auto simp: child_of_def t nth_append nth_list_update)
    moreover have "version_at ?child q = (case child_of t n of None \<Rightarrow> None | Some c \<Rightarrow> version_at c q)"
      by (auto simp: child_of_def t nth_append version_at_new split: option.split)
    ultimately show ?thesis using c(2) by (auto simp: Cons split: option.split)
  qed (simp add: t)
  ultimately show ?case by blast
qed

lemma delta_remove_at:
  assumes "small_numbers ns"
  shows "\<exists>t'. delta_remove (rcs_number ns) t = Inr t' \<and> version_at t' = (version_at t)(ns := None)"
  using assms
proof (induction ns arbitrary: t)
  case Nil
  have "version_at (RcsDelta None arr c') = (version_at (RcsDelta rd arr c))([] := None)" for rd arr c c'
  proof (rule ext)
    fix ns show "version_at (RcsDelta None arr c') ns = ((version_at (RcsDelta rd arr c))([] := None)) ns"
      by (cases ns) (simp_all add: child_of_def)
  qed
  note eq = this
  obtain rd arr cnt where t: "t = RcsDelta rd arr cnt" by (cases t)
  show ?case using eq [of arr "cnt - 1" rd cnt] by (simp add: t delta_remove.simps fun_upd_def)
next
  case (Cons n ns)
  obtain e where e: "rcs_number (n # ns) \<noteq> []" "strtol10 (rcs_number (n # ns)) = (int n, e)" "after_number e = rcs_number ns"
    using rcs_number_split [OF Cons.prems] by blast
  obtain rd arr cnt where t: "t = RcsDelta rd arr cnt" by (cases t)
  show ?case
  proof (cases "child_of t n")
    case None
    then have "delta_remove (rcs_number (n # ns)) t = Inr (RcsDelta rd arr (cnt - 1))"
      using e by (auto simp: t delta_remove.simps child_of_def)
    moreover have "version_at (RcsDelta rd arr (cnt - 1)) p = ((version_at t)(n # ns := None)) p" for p
      using None by (cases p) (auto simp: t child_of_def)
    ultimately show ?thesis by blast
  next
    case (Some c)
    obtain c' where c': "delta_remove (rcs_number ns) c = Inr c'" "version_at c' = (version_at c)(ns := None)"
      using Cons by fastforce
    have len: "n < length arr" "arr ! n = Some c" using Some by (auto simp: child_of_def t split: if_splits)
    let ?t = "RcsDelta rd (arr[n := Some c']) (cnt - 1)"
    have "delta_remove (rcs_number (n # ns)) t = Inr ?t"
      using e c'(1) len by (auto simp: t delta_remove.simps)
    moreover have "version_at ?t p = ((version_at t)(n # ns := None)) p" for p
    proof (cases p)
      case (Cons m q)
      have "child_of ?t m = (if m = n then Some c' else child_of t m)"
        using len by (auto simp: child_of_def t nth_list_update)
      then show ?thesis using c'(2) Some by (auto simp: Cons split: option.split)
    qed (simp add: t)
    ultimately show ?thesis by blast
  qed
qed

text \<open>The entries are the map, each once.\<close>

lemma entries_of_map:
  fixes t :: "'d RcsDelta"
  shows "distinct (map fst (entries_of t)) \<and> map_of (entries_of t) = version_at t"
proof (induction t)
  case (RcsDelta rd arr cnt)
  let ?sub = "\<lambda>(i, c). case c of None \<Rightarrow> [] | Some c \<Rightarrow> map (\<lambda>(p, d). (i # p, d)) (entries_of c)"
  let ?all = "\<lambda>k xs. concat (map ?sub (List.enumerate k xs))"
  have keys: "fst ` set (?all k xs) \<subseteq> {i # p | i p. k \<le> i}" for k xs
    by (induction xs arbitrary: k) (fastforce split: option.splits)+
  have part: "distinct (map fst (?all k xs)) \<and>
      map_of (?all k xs) = (\<lambda>p. case p of [] \<Rightarrow> None | i # q \<Rightarrow>
        if k \<le> i \<and> i < k + length xs then (case xs ! (i - k) of None \<Rightarrow> None | Some c \<Rightarrow> version_at c q) else None)"
    if "\<And>c. Some c \<in> set xs \<Longrightarrow> distinct (map fst (entries_of c)) \<and> map_of (entries_of c) = version_at c" for k and xs :: "'d RcsDelta option list"
    using that
  proof (induction xs arbitrary: k)
    case Nil
    show ?case by (auto simp: fun_eq_iff split: list.split)
  next
    case (Cons x xs)
    have "distinct (map fst (entries_of c)) \<and> map_of (entries_of c) = version_at c" if "Some c \<in> set xs" for c
      using Cons.prems [of c] that by simp
    from Cons.IH [OF this, of "Suc k"]
    have IH: "distinct (map fst (?all (Suc k) xs))"
      "map_of (?all (Suc k) xs) = (\<lambda>p. case p of [] \<Rightarrow> None | i # q \<Rightarrow>
        if Suc k \<le> i \<and> i < Suc k + length xs then (case xs ! (i - Suc k) of None \<Rightarrow> None | Some c \<Rightarrow> version_at c q) else None)"
      by blast+
    have sub: "distinct (map fst (?sub (k, x))) \<and> fst ` set (?sub (k, x)) \<subseteq> range ((#) k) \<and>
        map_of (?sub (k, x)) = (\<lambda>p. case p of [] \<Rightarrow> None | i # q \<Rightarrow> if i = k then (case x of None \<Rightarrow> None | Some c \<Rightarrow> version_at c q) else None)"
    proof (cases x)
      case None
      then show ?thesis by (auto split: list.split)
    next
      case (Some c)
      then have c: "distinct (map fst (entries_of c))" "map_of (entries_of c) = version_at c"
        using Cons.prems by auto
      have fst_map: "map fst (map (\<lambda>(p, d). (k # p, d)) es) = map ((#) k) (map fst es)" for es :: "(nat list \<times> 'd) list"
        by (induction es) auto
      have look: "map_of (map (\<lambda>(p, d). (k # p, d)) es) p = (case p of [] \<Rightarrow> None | i # q \<Rightarrow> if i = k then map_of es q else None)"
        for es :: "(nat list \<times> 'd) list" and p
        by (induction es) (auto split: list.split)
      have m: "map fst (?sub (k, x)) = map ((#) k) (map fst (entries_of c))" by (simp add: Some comp_def split_beta)
      have "distinct (map fst (?sub (k, x)))" unfolding m using c(1) by (subst distinct_map) (simp add: inj_on_def)
      moreover have "map_of (?sub (k, x)) = (\<lambda>p. case p of [] \<Rightarrow> None | i # q \<Rightarrow> if i = k then version_at c q else None)"
        using look [of "entries_of c"] unfolding c(2) by (simp add: Some fun_eq_iff)
      ultimately show ?thesis by (auto simp: Some fun_eq_iff split: list.split)
    qed
    have disj: "fst ` set (?sub (k, x)) \<inter> fst ` set (?all (Suc k) xs) = {}"
      using sub keys [of "Suc k" xs] by fastforce
    have "distinct (map fst (?all k (x # xs)))"
      using sub IH(1) disj by simp
    moreover have "map_of (?all k (x # xs)) p = (case p of [] \<Rightarrow> None | i # q \<Rightarrow>
        if k \<le> i \<and> i < k + length (x # xs) then (case (x # xs) ! (i - k) of None \<Rightarrow> None | Some c \<Rightarrow> version_at c q) else None)" for p
    proof (cases p)
      case (Cons i q)
      have at: "map_of (?all k (x # xs)) p = (case map_of (?sub (k, x)) p of None \<Rightarrow> map_of (?all (Suc k) xs) p | Some d \<Rightarrow> Some d)"
        by (simp add: map_add_def)
      consider "i < k" | "i = k" | j where "i = Suc k + j" by (metis add_Suc_right less_imp_Suc_add linorder_less_linear add_Suc)
      then show ?thesis using sub IH(2) at by cases (auto simp: Cons split: option.split)
    qed (use sub IH(2) in \<open>simp add: map_add_def\<close>)
    ultimately show ?case by blast
  qed
  have "distinct (map fst (?all 0 arr)) \<and> map_of (?all 0 arr) = (\<lambda>p. case p of [] \<Rightarrow> None | i # q \<Rightarrow>
      if i < length arr then (case arr ! i of None \<Rightarrow> None | Some c \<Rightarrow> version_at c q) else None)"
    using part [of arr 0, unfolded diff_zero] RcsDelta.IH by simp
  moreover have "[] \<notin> fst ` set (?all 0 arr)" using keys [of 0 arr] by fastforce
  moreover have "version_at (RcsDelta rd arr cnt) = (\<lambda>p. case p of [] \<Rightarrow> rd | i # q \<Rightarrow>
      if i < length arr then (case arr ! i of None \<Rightarrow> None | Some c \<Rightarrow> version_at c q) else None)"
    by (rule ext) (auto simp: child_of_def split: list.split option.split)
  ultimately show ?case
    by (cases rd) (auto simp: map_add_def fun_eq_iff split: option.split list.split)
qed


section \<open>A history\<close>

datatype 'd delta_op = RcsInsert "nat list" 'd | RcsRemove "nat list"

fun op_number :: "'d delta_op \<Rightarrow> nat list" where
  "op_number (RcsInsert ns d) = ns"
| "op_number (RcsRemove ns) = ns"

fun delta_step :: "'d RcsDelta \<Rightarrow> 'd delta_op \<Rightarrow> 'd RcsDelta dyn" where
  "delta_step t (RcsInsert ns d) = delta_insert (rcs_number ns) d t"
| "delta_step t (RcsRemove ns) = delta_remove (rcs_number ns) t"

fun map_step :: "(nat list \<rightharpoonup> 'd) \<Rightarrow> 'd delta_op \<Rightarrow> (nat list \<rightharpoonup> 'd)" where
  "map_step m (RcsInsert ns d) = m(ns \<mapsto> d)"
| "map_step m (RcsRemove ns) = m(ns := None)"

lemma delta_history_at:
  assumes "\<forall>p \<in> set ps. small_numbers (op_number p)"
  shows "\<exists>t'. efold delta_step t ps = Inr t' \<and> version_at t' = foldl map_step (version_at t) ps"
  using assms
proof (induction ps arbitrary: t)
  case (Cons p ps)
  obtain t1 where "delta_step t p = Inr t1" "version_at t1 = map_step (version_at t) p"
    using delta_insert_at delta_remove_at Cons.prems by (cases p) fastforce+
  then show ?case using Cons.IH [of t1] Cons.prems by simp
qed simp

section \<open>Properties\<close>

text \<open>
  C32. The table of the versions of a file is a finite map from RCS version numbers, whatever
  was inserted and removed before: \<open>lookup\<close> answers what the map has, and a loop over the table
  ends and sees every version of the map once, and no other.
\<close>

theorem delta_table_is_map:
  fixes ps :: "'d delta_op list"
  assumes "\<forall>p \<in> set ps. small_numbers (op_number p)"
  shows "\<exists>t. efold delta_step new_RcsDelta ps = Inr t \<and>
    (let m = foldl map_step Map.empty ps in
      (\<forall>ns. small_numbers ns \<longrightarrow> delta_lookup (rcs_number ns) t = Inr (m ns)) \<and>
      (\<exists>k ks. it_foreach k t new_DeltaIterator = Some (map m ks) \<and> distinct ks \<and> set ks = dom m))"
proof -
  obtain t where t: "efold delta_step new_RcsDelta ps = Inr t" "version_at t = foldl map_step (version_at new_RcsDelta) ps"
    using delta_history_at [OF assms] by blast
  have new: "version_at (new_RcsDelta :: 'd RcsDelta) = Map.empty" by (rule ext) (simp add: version_at_new)
  let ?m = "foldl map_step Map.empty ps"
  have m: "map_of (entries_of t) = ?m" "distinct (map fst (entries_of t))"
    using entries_of_map [of t] t(2) new by simp_all
  have "map (\<lambda>e. Some (snd e)) (entries_of t) = map ?m (map fst (entries_of t))"
    using m(2) by (auto simp: m(1) [symmetric] dest: map_of_is_SomeI [OF m(2)])
  moreover obtain k where "it_foreach k t new_DeltaIterator = Some (map (\<lambda>e. Some (snd e)) (entries_of t))"
    using walk_entries [of t] by (auto simp: sees_def)
  moreover have "set (map fst (entries_of t)) = dom ?m" by (simp add: m(1) [symmetric] dom_map_of_conv_image_fst)
  ultimately have "it_foreach k t new_DeltaIterator = Some (map ?m (map fst (entries_of t)))" by simp
  then have "\<exists>k ks. it_foreach k t new_DeltaIterator = Some (map ?m ks) \<and> distinct ks \<and> set ks = dom ?m"
    using m(2) \<open>set (map fst (entries_of t)) = dom ?m\<close> by blast
  moreover have "\<forall>ns. small_numbers ns \<longrightarrow> delta_lookup (rcs_number ns) t = Inr (?m ns)"
    using delta_lookup_at [of _ t] t(2) new by simp
  ultimately show ?thesis using t(1) unfolding Let_def by blast
qed

theorem delta_table_is_map_witness:
  "\<exists>t. efold delta_step new_RcsDelta [RcsInsert [1, 1] ''a'', RcsInsert [1, 1, 2, 1] ''b'', RcsInsert [1, 2] ''c'', RcsRemove [1, 1]]
      = Inr t \<and> delta_lookup ''1.1.2.1'' t = Inr (Some ''b'') \<and> delta_lookup ''1.1'' t = Inr None"
proof -
  have n: "rcs_number [1, 1, 2, 1] = ''1.1.2.1''" "rcs_number [1, 1] = ''1.1''" by code_simp+
  have s: "small_numbers [1, 1, 2, 1]" "small_numbers [1, 1]" "small_numbers [1, 2]" by (simp_all add: small_numbers_def)
  let ?ps = "[RcsInsert [1, 1] ''a'', RcsInsert [1, 1, 2, 1] ''b'', RcsInsert [1, 2] ''c'', RcsRemove [1, 1]]"
  have ok: "\<forall>p \<in> set ?ps. small_numbers (op_number p)" using s by simp
  obtain t where t: "efold delta_step new_RcsDelta ?ps = Inr t"
    "\<And>ns. small_numbers ns \<Longrightarrow> delta_lookup (rcs_number ns) t = Inr (foldl map_step Map.empty ?ps ns)"
    using delta_table_is_map [OF ok] unfolding Let_def by blast
  have "delta_lookup ''1.1.2.1'' t = Inr (Some ''b'')" "delta_lookup ''1.1'' t = Inr None"
    using t(2) [OF s(1)] t(2) [OF s(2)] n by simp_all
  then show ?thesis using t(1) by blast
qed

end
