(* ===== verification/VcLex.thy ===== *)
theory VcLex
  imports Deltas ProjRead
begin

text \<open>
  The scanner of the output of the RCS commands, \<open>src/src/vclex.l\<close>: its rules in their order, the
  choice flex makes between them (the longest match, then the first rule) and the text each token
  leaves in \<open>rcs_text\<close>. Characters that no rule matches go to the standard error output.
\<close>

section \<open>Patterns\<close>

datatype pattern =
    Lit string | Class "char \<Rightarrow> bool" | Then pattern pattern | Or pattern pattern | Many pattern

definition Never :: pattern where
  "Never = Class (\<lambda>_. False)"

text \<open>What is left of a pattern behind a character, and whether it may end here.\<close>

fun ends_here :: "pattern \<Rightarrow> bool" where
  "ends_here (Lit w) \<longleftrightarrow> w = []"
| "ends_here (Class P) \<longleftrightarrow> False"
| "ends_here (Then a b) \<longleftrightarrow> ends_here a \<and> ends_here b"
| "ends_here (Or a b) \<longleftrightarrow> ends_here a \<or> ends_here b"
| "ends_here (Many a) \<longleftrightarrow> True"

fun behind :: "char \<Rightarrow> pattern \<Rightarrow> pattern" where
  "behind c (Lit []) = Never"
| "behind c (Lit (d # w)) = (if c = d then Lit w else Never)"
| "behind c (Class P) = (if P c then Lit [] else Never)"
| "behind c (Then a b) =
     (if ends_here a then Or (Then (behind c a) b) (behind c b) else Then (behind c a) b)"
| "behind c (Or a b) = Or (behind c a) (behind c b)"
| "behind c (Many a) = Then (behind c a) (Many a)"

text \<open>The length of the longest match at the head of a text.\<close>

fun match_length :: "pattern \<Rightarrow> string \<Rightarrow> nat option" where
  "match_length r [] = (if ends_here r then Some 0 else None)"
| "match_length r (c # s) =
     (case match_length (behind c r) s of
        Some n \<Rightarrow> Some (Suc n) | None \<Rightarrow> if ends_here r then Some 0 else None)"

text \<open>The texts of a pattern.\<close>

fun texts :: "pattern \<Rightarrow> string set" where
  "texts (Lit w) = {w}"
| "texts (Class P) = {[c] | c. P c}"
| "texts (Then a b) = {u @ v | u v. u \<in> texts a \<and> v \<in> texts b}"
| "texts (Or a b) = texts a \<union> texts b"
| "texts (Many a) = {concat ws | ws. set ws \<subseteq> texts a}"

lemma texts_ends_here: "ends_here r \<longleftrightarrow> [] \<in> texts r"
  by (induction r) (auto intro: exI [of _ "[]"])

lemma concat_Cons_cases:
  assumes "c # w = concat ws"
  obtains v vs where "(c # v) \<in> set ws" "set vs \<subseteq> set ws" "w = v @ concat vs"
  using assms
proof (induction ws arbitrary: thesis)
  case (Cons x xs)
  show ?case
  proof (cases x)
    case Nil
    then show ?thesis using Cons by (metis append_Nil concat.simps(2) insert_subset list.set_intros(2) list.simps(15) order_trans set_subset_Cons)
  next
    case (Cons d v)
    then show ?thesis using Cons.prems by (intro Cons.prems(1) [of v xs]) auto
  qed
qed simp

lemma texts_behind: "w \<in> texts (behind c r) \<longleftrightarrow> c # w \<in> texts r"
proof (induction r arbitrary: w)
  case (Lit x)
  then show ?case by (cases x) (auto simp: Never_def)
next
  case (Then a b)
  have "c # w \<in> texts (Then a b) \<longleftrightarrow>
      (\<exists>u v. w = u @ v \<and> c # u \<in> texts a \<and> v \<in> texts b) \<or> ([] \<in> texts a \<and> c # w \<in> texts b)"
    by (auto simp: Cons_eq_append_conv)
  then show ?case by (auto simp: Then.IH texts_ends_here)
next
  case (Many a)
  have "(\<exists>u v. w = u @ v \<and> c # u \<in> texts a \<and> (\<exists>ws. v = concat ws \<and> set ws \<subseteq> texts a)) \<longleftrightarrow>
      (\<exists>ws. c # w = concat ws \<and> set ws \<subseteq> texts a)" (is "?l \<longleftrightarrow> ?r")
  proof
    assume ?l
    then obtain u ws where "w = u @ concat ws" "c # u \<in> texts a" "set ws \<subseteq> texts a" by blast
    then have "c # w = concat ((c # u) # ws)" "set ((c # u) # ws) \<subseteq> texts a" by simp_all
    then show ?r by blast
  next
    assume ?r
    then obtain ws where ws: "c # w = concat ws" "set ws \<subseteq> texts a" by blast
    then obtain v vs where "(c # v) \<in> set ws" "set vs \<subseteq> set ws" "w = v @ concat vs"
      by (elim concat_Cons_cases)
    then show ?l using ws(2) by blast
  qed
  then show ?case by (auto simp: Many.IH)
qed (auto simp: Never_def)

lemma match_length_None: "match_length r s = None \<longleftrightarrow> (\<forall>n \<le> length s. take n s \<notin> texts r)"
proof (induction s arbitrary: r)
  case (Cons c s)
  have "(\<forall>n \<le> length (c # s). take n (c # s) \<notin> texts r) \<longleftrightarrow>
      [] \<notin> texts r \<and> (\<forall>n \<le> length s. c # take n s \<notin> texts r)"
    by (auto simp: take_Cons split: nat.splits)
  then show ?case using Cons.IH [of "behind c r"]
    by (auto simp: texts_behind texts_ends_here split: option.splits)
qed (simp add: texts_ends_here)

lemma match_length_Some:
  "match_length r s = Some n \<longleftrightarrow>
     n \<le> length s \<and> take n s \<in> texts r \<and> (\<forall>m. n < m \<longrightarrow> m \<le> length s \<longrightarrow> take m s \<notin> texts r)"
proof (induction s arbitrary: r n)
  case (Cons c s)
  show ?case
  proof (cases n)
    case 0
    have "match_length r (c # s) = Some 0 \<longleftrightarrow> match_length (behind c r) s = None \<and> [] \<in> texts r"
      by (auto simp: texts_ends_here split: option.splits)
    then show ?thesis using 0 by (auto simp: match_length_None texts_behind take_Cons split: nat.splits)
  next
    case (Suc k)
    have "match_length r (c # s) = Some n \<longleftrightarrow> match_length (behind c r) s = Some k"
      using Suc by (auto split: option.splits)
    then show ?thesis using Suc by (auto simp: Cons.IH texts_behind take_Cons split: nat.splits)
  qed
qed (auto simp: texts_ends_here)

section \<open>The rules\<close>

datatype RcsToken =
    NoTokenMatch | RcsAbort | InitialRevision | NewRevision | PrevRevision
  | RlogVersion | RlogDate | RlogAuthor | RlogLines
  | PrcsMajorVersion | PrcsMinorVersion | PrcsParentMajorVersion | PrcsParentMinorVersion
  | PrcsDescendsMajorVersion | PrcsDescendsMinorVersion | PrcsVersionDeleted | PrcsParents
  | RlogTotalRevisions

text \<open>An action skips the match, or returns a token and sets \<open>rcs_text\<close> (or leaves it alone).\<close>

datatype action = Skip | Return RcsToken "(string \<Rightarrow> string) option"

definition newline :: string where
  "newline = [CHR 0x0A]"

definition killnl :: "string \<Rightarrow> string" where
  "killnl s = butlast s"

definition stop_at_ws :: "string \<Rightarrow> string" where
  "stop_at_ws s = takeWhile (\<lambda>c. \<not> isspace c) s"

definition some_of :: "pattern \<Rightarrow> pattern" where
  "some_of a = Then a (Many a)"

definition num :: pattern where
  "num = some_of (Class digit_char)"

definition rcnum :: pattern where
  "rcnum = Then num (some_of (Then (Lit ''.'') num))"

definition tad :: pattern where
  "tad =
     Then (Then num (Then (Lit ''/'') (Then num (Then (Lit ''/'') num))))
       (Then (Lit '' '') (Then num (Then (Lit '':'') (Then num (Then (Lit '':'') num)))))"

definition login :: pattern where
  "login =
     Then (Many (Class digit_char))
       (Then (Class idchar) (Many (Or (Class digit_char) (Class idchar))))"

definition label_start :: "char \<Rightarrow> bool" where
  "label_start c \<longleftrightarrow> alpha_char c \<or> digit_char c \<or> c \<in> set ''#^_+,''"

definition label_rest :: "char \<Rightarrow> bool" where
  "label_rest c \<longleftrightarrow> alpha_char c \<or> digit_char c \<or> c \<in> set ''#^-_+=,.''"

definition label :: pattern where
  "label = Then (Class label_start) (Many (Class label_rest))"

definition lines :: pattern where
  "lines = Then (Lit ''+'') (Then num (Then (Lit '' -'') num))"

definition any_line :: pattern where
  "any_line = Then (Many (Class (\<lambda>c. c \<noteq> CHR 0x0A))) (Lit newline)"

definition may :: "pattern \<Rightarrow> pattern" where
  "may a = Or (Lit []) a"

definition text_from :: "nat \<Rightarrow> (string \<Rightarrow> string) option" where
  "text_from n = Some (drop n)"

definition line_from :: "nat \<Rightarrow> (string \<Rightarrow> string) option" where
  "line_from n = Some (\<lambda>yytext. killnl (drop n yytext))"

definition prcs_rule :: "string \<Rightarrow> nat \<Rightarrow> RcsToken \<Rightarrow> bool \<times> pattern \<times> action" where
  "prcs_rule name n t = (True, Then (Lit name) (Then label (Lit newline)), Return t (line_from n))"

definition header_rule :: "string \<Rightarrow> bool \<times> pattern \<times> action" where
  "header_rule name = (True, Then (Lit name) any_line, Skip)"

definition arrow_rule :: "string \<Rightarrow> bool \<times> pattern \<times> action" where
  "arrow_rule arrow =
     (True, Then (Many (Class (\<lambda>c. c \<noteq> CHR 0x0A))) (Then (Lit arrow) any_line), Skip)"

definition run_rule :: "char \<Rightarrow> bool \<times> pattern \<times> action" where
  "run_rule d = (True, Then (Many (Class (\<lambda>c. c = d))) (Lit newline), Skip)"

definition whole_line :: "string \<Rightarrow> action \<Rightarrow> bool \<times> pattern \<times> action" where
  "whole_line l act = (True, Then (Lit l) (Lit newline), act)"

text \<open>Whether the rule holds at the beginning of a line only, its pattern and its action.\<close>

definition vc_rules :: "(bool \<times> pattern \<times> action) list" where
  "vc_rules =
    [prcs_rule ''PRCS major version: '' 20 PrcsMajorVersion,
     prcs_rule ''PRCS minor version: '' 20 PrcsMinorVersion,
     prcs_rule ''PRCS parent major version: '' 27 PrcsParentMajorVersion,
     prcs_rule ''PRCS parent minor version: '' 27 PrcsParentMinorVersion,
     prcs_rule ''PRCS descends from major: '' 26 PrcsDescendsMajorVersion,
     prcs_rule ''PRCS descends from minor: '' 26 PrcsDescendsMinorVersion,
     whole_line ''PRCS descends from major: -*-'' Skip,
     whole_line ''PRCS descends from minor: -*-'' Skip,
     whole_line ''PRCS version deleted'' (Return PrcsVersionDeleted None),
     (True, Then (Lit ''PRCS parent indices: '')
        (Then (may (Then (Many (Then num (Lit '':''))) num)) (Lit newline)),
      Return PrcsParents (line_from 21)),
     (True, Then (Lit ''revision '') (Then rcnum any_line),
      Return RlogVersion (Some (\<lambda>yytext. stop_at_ws (drop 9 yytext)))),
     (True, Then (Lit ''date: '') tad, Return RlogDate (text_from 6)),
     (False, Then (Lit '';  author: '') login, Return RlogAuthor (text_from 11)),
     (False, Then (Lit '';  state: '') (Then label (Then (Lit '';'') (may (Lit newline)))), Skip),
     (False, Then (Lit ''  lines: '') (Then lines (Lit newline)), Return RlogLines (text_from 9)),
     (True, Then (Lit ''new revision: '') rcnum, Return NewRevision (text_from 14)),
     (True, Then (Lit ''initial revision: '') (Then rcnum (Lit newline)),
      Return InitialRevision (line_from 18)),
     (True, Then (Lit ''file is unchanged; reverting to previous revision '') (Then rcnum (Lit newline)),
      Return PrevRevision (line_from 50)),
     (False, Then (Lit ''; previous revision: '') (Then rcnum (Lit newline)), Skip),
     (True, Then (Lit ''total revisions: '') (Then num any_line), Return RlogTotalRevisions (text_from 17)),
     whole_line ''done'' Skip,
     arrow_rule '',v  <--  '',
     arrow_rule '',v  -->  '',
     whole_line ''ci aborted'' (Return RcsAbort None),
     whole_line ''rcs aborted'' (Return RcsAbort None),
     whole_line ''rlog aborted'' (Return RcsAbort None),
     whole_line ''co aborted'' (Return RcsAbort None),
     run_rule CHR ''-'',
     run_rule CHR ''='',
     header_rule ''RCS file:'',
     header_rule ''Working file:'',
     (True, Then (Lit [CHR 0x09]) (Then login (Then (Lit '': '') (Then rcnum (Lit newline)))), Skip),
     header_rule ''head:'',
     header_rule ''branch'',
     header_rule ''locks:'',
     header_rule ''access list:'',
     header_rule ''symbolic names:'',
     header_rule ''keyword substitution:'',
     header_rule ''description:'',
     header_rule ''checked in by PRCS version'',
     whole_line ''*** empty log message ***'' Skip,
     whole_line ''*** no log ***'' Skip]"

text \<open>The longest match, of the first rule that has it.\<close>

fun best_rule :: "bool \<Rightarrow> string \<Rightarrow> (bool \<times> pattern \<times> action) list \<Rightarrow> (nat \<times> action) option" where
  "best_rule bol s [] = None"
| "best_rule bol s ((anchored, r, act) # rs) =
     (case (if anchored \<and> \<not> bol then None else match_length r s) of
        None \<Rightarrow> best_rule bol s rs
      | Some n \<Rightarrow>
          (case best_rule bol s rs of
             Some (m, a) \<Rightarrow> if n < m then Some (m, a) else Some (n, act)
           | None \<Rightarrow> Some (n, act)))"

text \<open>
  The scanner, with the text not yet read and whether it stands at the beginning of a line. The
  default rule echoes a character; no rule matches the empty text.
\<close>

record VcScanner =
  rcs_text :: string
  at_bol :: bool
  vc_input :: string

definition default_rule :: "nat \<times> action" where
  "default_rule = (1, Skip)"

definition vc_match :: "bool \<Rightarrow> string \<Rightarrow> nat \<times> action" where
  "vc_match bol s =
     (case best_rule bol s vc_rules of Some (n, act) \<Rightarrow> if n = 0 then default_rule else (n, act) | None \<Rightarrow> default_rule)"

lemma vc_match_pos: "(n, act) = vc_match bol s \<Longrightarrow> 0 < n"
  by (auto simp: vc_match_def default_rule_def split: option.splits if_splits)

function yylex :: "VcScanner \<Rightarrow> RcsToken \<times> VcScanner" where
  "yylex sc =
     (if vc_input sc = [] then (NoTokenMatch, sc)
      else
        (case vc_match (at_bol sc) (vc_input sc) of (n, act) \<Rightarrow>
           let yytext = take n (vc_input sc);
               sc' = sc\<lparr>at_bol := last yytext = CHR 0x0A, vc_input := drop n (vc_input sc)\<rparr>
           in (case act of
                 Skip \<Rightarrow> yylex sc'
               | Return t f \<Rightarrow> (t, case f of None \<Rightarrow> sc' | Some g \<Rightarrow> sc'\<lparr>rcs_text := g yytext\<rparr>))))"
  by auto
termination
  by (relation "measure (\<lambda>sc. length (vc_input sc))") (auto dest: vc_match_pos)

declare yylex.simps [simp del]

text \<open>\<open>VC_get_token\<close>: with a stream, the scanner starts on it; \<open>rcs_text\<close> is a global variable.\<close>

definition VC_get_token :: "string option \<Rightarrow> VcScanner \<Rightarrow> RcsToken \<times> VcScanner" where
  "VC_get_token is sc =
     yylex (case is of Some s \<Rightarrow> sc\<lparr>at_bol := True, vc_input := s\<rparr> | None \<Rightarrow> sc)"

section \<open>Scanning known texts\<close>

declare match_length.simps [simp del]

lemma match_length_cong: "texts r = texts r' \<Longrightarrow> match_length r s = match_length r' s"
  using match_length_None [of r s] match_length_None [of r' s] match_length_Some [of r s]
    match_length_Some [of r' s]
  by (cases "match_length r s"; cases "match_length r' s") auto

lemma match_length_empty: "texts r = {} \<Longrightarrow> match_length r s = None"
  by (simp add: match_length_None)

lemma match_length_Lit:
  "match_length (Then (Lit w) r) s =
     (if prefix w s then map_option ((+) (length w)) (match_length r (drop (length w) s)) else None)"
proof (induction w arbitrary: s)
  case Nil
  have "texts (Then (Lit []) r) = texts r" by auto
  then show ?case using match_length_cong [of "Then (Lit []) r" r s]
    by (cases "match_length r s") simp_all
next
  case (Cons d w)
  show ?case
  proof (cases s)
    case (Cons c t)
    have none: "match_length (Then Never r) t = None" by (rule match_length_empty) (simp add: Never_def)
    show ?thesis using Cons.IH [of t] Cons none
      by (cases "match_length r (drop (length w) t)") (auto simp: match_length.simps)
  qed (simp add: match_length.simps)
qed

lemma match_stop:
  assumes "w \<in> texts r" and "\<And>v. v \<in> texts r \<Longrightarrow> list_all P v" and "rest = [] \<or> \<not> P (hd rest)"
  shows "match_length r (w @ rest) = Some (length w)"
proof -
  have "take m (w @ rest) \<notin> texts r" if m: "length w < m" "m \<le> length (w @ rest)" for m
  proof
    assume "take m (w @ rest) \<in> texts r"
    then have "list_all P (take m (w @ rest))" by (rule assms(2))
    then have "list_all P (take (m - length w) rest)" using m by simp
    moreover obtain c rs where "rest = c # rs" using m by (cases rest) auto
    moreover obtain k where "m - length w = Suc k" using m by (cases "m - length w") auto
    ultimately show False using assms(3) by simp
  qed
  then show ?thesis using assms(1) by (auto simp: match_length_Some)
qed

text \<open>Patterns within a line: a newline can only be the last character of a text.\<close>

definition in_line :: "pattern \<Rightarrow> bool" where
  "in_line r \<longleftrightarrow> (\<forall>v \<in> texts r. CHR 0x0A \<notin> set (butlast v))"

lemma in_line_butlast:
  assumes "in_line r" and "take m (b @ newline @ rest) \<in> texts r"
    and "m \<le> length (b @ newline @ rest)"
  shows "m \<le> Suc (length b)"
proof (rule ccontr)
  assume "\<not> m \<le> Suc (length b)"
  then obtain k where k: "m = Suc (Suc (length b + k))" by (auto simp: not_le dest: less_imp_Suc_add)
  have "take m (b @ newline @ rest) = b @ CHR 0x0A # take (Suc k) rest"
    by (simp add: k newline_def)
  moreover have "take (Suc k) rest \<noteq> []" using assms(3) k by (cases rest) (auto simp: newline_def)
  ultimately have "CHR 0x0A \<in> set (butlast (take m (b @ newline @ rest)))"
    by (simp add: butlast_append)
  then show False using assms(1,2) by (auto simp: in_line_def)
qed

lemma match_line:
  assumes "in_line r" and "b @ newline \<in> texts r"
  shows "match_length r (b @ newline @ rest) = Some (length (b @ newline))"
  unfolding match_length_Some
proof (intro conjI allI impI)
  show "take (length (b @ newline)) (b @ newline @ rest) \<in> texts r"
    using assms(2) by (simp add: newline_def)
  fix m assume m: "length (b @ newline) < m" "m \<le> length (b @ newline @ rest)"
  then have "\<not> m \<le> Suc (length b)" by (simp add: newline_def)
  then show "take m (b @ newline @ rest) \<notin> texts r"
    using in_line_butlast [OF assms(1)] m(2) by blast
qed simp

lemma match_without:
  assumes "in_line r" and "\<And>v. v \<in> texts r \<Longrightarrow> c \<in> set v" and "c \<notin> set b" and "c \<noteq> CHR 0x0A"
  shows "match_length r (b @ newline @ rest) = None"
proof -
  have "take n (b @ newline @ rest) \<notin> texts r" if n: "n \<le> length (b @ newline @ rest)" for n
  proof
    assume t: "take n (b @ newline @ rest) \<in> texts r"
    have "n \<le> Suc (length b)" using in_line_butlast [OF assms(1) t n] .
    then have "n - length b \<le> 1" by simp
    then have "take (n - length b) (CHR 0x0A # rest) = take (n - length b) [CHR 0x0A]"
      by (cases "n - length b") auto
    then have eq: "take n (b @ newline @ rest) = take n (b @ newline)"
      by (simp only: newline_def take_append append_Cons append_Nil)
    have "set (take n (b @ newline @ rest)) \<subseteq> set (b @ newline)"
      unfolding eq by (rule set_take_subset)
    then show False using assms(2) [OF t] assms(3,4) by (auto simp: newline_def)
  qed
  then show ?thesis by (simp add: match_length_None)
qed

lemma texts_Then: "w \<in> texts (Then a b) \<longleftrightarrow> (\<exists>u v. w = u @ v \<and> u \<in> texts a \<and> v \<in> texts b)"
  by auto

lemma texts_Then_Class: "w \<in> texts (Then (Class P) b) \<longleftrightarrow> (\<exists>c v. w = c # v \<and> P c \<and> v \<in> texts b)"
proof
  assume "\<exists>c v. w = c # v \<and> P c \<and> v \<in> texts b"
  then obtain c v where "w = [c] @ v" "[c] \<in> texts (Class P)" "v \<in> texts b" by auto
  then show "w \<in> texts (Then (Class P) b)" unfolding texts_Then by blast
qed auto

lemma texts_Many_Class: "w \<in> texts (Many (Class P)) \<longleftrightarrow> list_all P w"
proof
  assume "list_all P w"
  then have "concat (map (\<lambda>c. [c]) w) \<in> texts (Many (Class P))"
    unfolding texts.simps mem_Collect_eq
    by (intro exI [of _ "map (\<lambda>c. [c]) w"] conjI refl) (auto simp: list_all_iff)
  then show "w \<in> texts (Many (Class P))" by simp
next
  assume "w \<in> texts (Many (Class P))"
  then obtain ws where "w = concat ws" and ws: "set ws \<subseteq> {[c] | c. P c}" by auto
  moreover have "list_all P x" if "x \<in> set ws" for x using subsetD [OF ws that] by auto
  ultimately show "list_all P w" by (auto simp: list_all_iff)
qed

declare texts.simps(5) [simp del]

lemma match_run_line:
  assumes c: "\<not> P c" "c \<noteq> CHR 0x0A"
  shows "match_length (Then (Many (Class P)) (Lit newline)) (c # s) = None"
proof -
  have "take n (c # s) \<notin> texts (Then (Many (Class P)) (Lit newline))" for n
  proof
    assume "take n (c # s) \<in> texts (Then (Many (Class P)) (Lit newline))"
    then obtain u where "take n (c # s) = u @ newline" "list_all P u"
      unfolding texts_Then texts_Many_Class by auto
    then show False using c by (cases u; cases n) (auto simp: newline_def)
  qed
  then show ?thesis by (simp add: match_length_None)
qed

lemma digit_char_isdigit: "digit_char c \<longleftrightarrow> isdigit c"
proof
  assume "isdigit c"
  then have "(of_char c :: nat) \<in> set [48..<58]" 
    unfolding isdigit_def set_upt atLeastLessThan_iff by linarith
  moreover have "[48..<58] = map (of_char :: char \<Rightarrow> nat) ''0123456789''" by code_simp
  ultimately have "(of_char c :: nat) \<in> set (map of_char ''0123456789'')" by (simp only:)
  then obtain d where "d \<in> set ''0123456789''" "(of_char c :: nat) = of_char d"
    unfolding set_map by blast
  then show "digit_char c" by (simp add: digit_char_def)
qed (auto simp: digit_char_def isdigit_def)

lemma texts_num: "w \<in> texts num \<longleftrightarrow> w \<noteq> [] \<and> list_all isdigit w"
  unfolding num_def some_of_def texts_Then_Class texts_Many_Class
  by (cases w) (auto simp: digit_char_isdigit list_all_iff)

lemma texts_label: "w \<in> texts label \<longleftrightarrow> label_match w"
  unfolding label_def texts_Then_Class texts_Many_Class
  by (cases w) (auto simp: label_start_def label_rest_def list_all_iff)

end
