(* ===== verification/VcScan.thy ===== *)
theory VcScan
  imports VcLex
begin

text \<open>
  What the scanner of the RCS output does on the lines that \<open>rlog\<close> prints: which rule takes a line
  and the token it gives. No line holds an angle bracket, so the rules for the messages of \<open>ci\<close> do
  not match it.
\<close>

section \<open>Rules that match and rules that do not\<close>

lemma in_line_Lit: "CHR 0x0A \<notin> set (butlast w) \<Longrightarrow> in_line (Lit w)"
  by (simp add: in_line_def)

lemma any_line_texts: "v \<in> texts any_line \<longleftrightarrow> (\<exists>b. v = b @ newline \<and> CHR 0x0A \<notin> set b)"
  unfolding any_line_def texts_Then texts_Many_Class by (auto simp: list_all_iff)

text \<open>A rule does not match a text that starts with a line.\<close>

definition misses :: "string \<Rightarrow> bool \<times> pattern \<times> action \<Rightarrow> bool" where
  "misses s x = (match_length (fst (snd x)) s = None)"

lemma misses_arrow:
  assumes "c \<in> set arrow" and "CHR 0x0A \<notin> set arrow" and "c \<notin> set b"
  shows "misses (b @ newline @ rest) (arrow_rule arrow)"
proof -
  have "\<exists>x y. v = x @ arrow @ y @ newline \<and> CHR 0x0A \<notin> set x \<and> CHR 0x0A \<notin> set y"
    if "v \<in> texts (fst (snd (arrow_rule arrow)))" for v
    using that unfolding arrow_rule_def fst_conv snd_conv texts_Then any_line_texts texts_Many_Class
    by (auto simp: list_all_iff)
  then have "in_line (fst (snd (arrow_rule arrow)))"
    and "\<And>v. v \<in> texts (fst (snd (arrow_rule arrow))) \<Longrightarrow> c \<in> set v"
    using assms(1,2) by (fastforce simp: in_line_def butlast_append newline_def)+
  then show ?thesis unfolding misses_def using assms by (intro match_without) auto
qed

lemma misses_run: "s = c # s' \<Longrightarrow> c \<noteq> d \<Longrightarrow> c \<noteq> CHR 0x0A \<Longrightarrow> misses s (run_rule d)"
  by (simp add: misses_def run_rule_def match_run_line)

lemma misses_Lit: "\<not> prefix w s \<Longrightarrow> misses s (anchored, Then (Lit w) r, act)"
  by (simp add: misses_def match_length_Lit)

lemma best_rule_misses: "list_all (misses s) xs \<Longrightarrow> best_rule bol s (xs @ ys) = best_rule bol s ys"
  by (induction xs) (auto simp: misses_def)

lemma best_rule_misses_all: "list_all (misses s) xs \<Longrightarrow> best_rule bol s xs = None"
  using best_rule_misses [of s xs bol "[]"] by simp

lemma best_rule_hit:
  assumes "match_length r s = Some n" and "list_all (misses s) ys" and "anchored \<longrightarrow> bol"
  shows "best_rule bol s ((anchored, r, act) # ys) = Some (n, act)"
  using assms by (simp add: best_rule_misses_all)

lemmas rule_defs = prcs_rule_def header_rule_def whole_line_def

lemma scan_skip:
  assumes "vc_match True (l @ rest) = (length l, Skip)" and "last l = CHR 0x0A" and "l \<noteq> []"
  shows "yylex \<lparr>rcs_text = t, at_bol = True, vc_input = l @ rest\<rparr> =
    yylex \<lparr>rcs_text = t, at_bol = True, vc_input = rest\<rparr>"
  using assms by (simp add: yylex.simps [of "\<lparr>rcs_text = t, at_bol = True, vc_input = l @ rest\<rparr>"])

lemma scan_skip_mid:
  assumes "vc_match bol (l @ rest) = (length l, Skip)" and "l \<noteq> []"
  shows "yylex \<lparr>rcs_text = t, at_bol = bol, vc_input = l @ rest\<rparr> =
    yylex \<lparr>rcs_text = t, at_bol = (last l = CHR 0x0A), vc_input = rest\<rparr>"
  using assms by (simp add: yylex.simps [of "\<lparr>rcs_text = t, at_bol = bol, vc_input = l @ rest\<rparr>"])

lemma scan_token:
  assumes "vc_match bol (l @ rest) = (length l, Return tok f)" and "l \<noteq> []"
  shows "yylex \<lparr>rcs_text = t, at_bol = bol, vc_input = l @ rest\<rparr> =
    (tok, \<lparr>rcs_text = (case f of None \<Rightarrow> t | Some g \<Rightarrow> g l), at_bol = (last l = CHR 0x0A), vc_input = rest\<rparr>)"
  using assms
  by (simp add: yylex.simps [of "\<lparr>rcs_text = t, at_bol = bol, vc_input = l @ rest\<rparr>"] split: option.split)

definition plain :: "string \<Rightarrow> bool" where
  "plain b \<longleftrightarrow> CHR 0x0A \<notin> set b \<and> CHR ''<'' \<notin> set b \<and> CHR ''>'' \<notin> set b"

lemma plain_append [simp]: "plain (a @ b) \<longleftrightarrow> plain a \<and> plain b"
  by (auto simp: plain_def)

lemma plain_Cons [simp]: "plain (c # b) \<longleftrightarrow> c \<noteq> CHR 0x0A \<and> c \<noteq> CHR ''<'' \<and> c \<noteq> CHR ''>'' \<and> plain b"
  by (auto simp: plain_def)

lemma plain_Nil [simp]: "plain []"
  by (simp add: plain_def)

lemma misses_arrows:
  assumes "plain b"
  shows "misses (b @ newline @ rest) (arrow_rule '',v  <--  '')"
    and "misses (b @ newline @ rest) (arrow_rule '',v  -->  '')"
  by (rule misses_arrow [of "CHR ''<''"]; use assms in \<open>simp add: plain_def\<close>)
    (rule misses_arrow [of "CHR ''>''"]; use assms in \<open>simp add: plain_def\<close>)

lemma label_match_rest: "label_match m \<Longrightarrow> list_all label_rest m"
  by (cases m) (auto simp: label_rest_def [abs_def] list_all_iff)

lemma label_rest_not:
  "\<not> label_rest CHR 0x0A" "\<not> label_rest CHR ''<''" "\<not> label_rest CHR ''>''" "\<not> label_rest CHR '';''"
  by (simp_all add: label_rest_def alpha_char_def digit_char_def)

lemma label_plain: "label_match m \<Longrightarrow> plain m"
  using label_match_rest [of m] label_rest_not by (auto simp: plain_def list_all_iff)

lemma match_label_line:
  assumes "label_match m"
  shows "match_length (Then label (Lit newline)) (m @ newline @ rest) = Some (length (m @ newline))"
proof (rule match_line)
  show "m @ newline \<in> texts (Then label (Lit newline))"
    unfolding texts_Then texts_label using assms by auto
  have "CHR 0x0A \<notin> set v" if "label_match v" for v
    using label_plain [OF that] by (simp add: plain_def)
  then show "in_line (Then label (Lit newline))"
    unfolding in_line_def texts_Then texts_label by (auto simp: newline_def texts_label)
qed

lemma scan_major:
  assumes "label_match m"
  shows "vc_match True (''PRCS major version: '' @ m @ newline @ rest) =
    (20 + length (m @ newline), Return PrcsMajorVersion (line_from 20))"
proof -
  let ?s = "''PRCS major version: '' @ m @ newline @ rest"
  have a: "misses ?s (arrow_rule '',v  <--  '')" "misses ?s (arrow_rule '',v  -->  '')"
    using misses_arrows [of "''PRCS major version: '' @ m" rest] label_plain [OF assms] by simp_all
  have r: "misses ?s (run_rule CHR ''-'')" "misses ?s (run_rule CHR ''='')"
    by (auto intro: misses_run)
  have "best_rule True ?s vc_rules =
      Some (20 + length (m @ newline), Return PrcsMajorVersion (line_from 20))"
    unfolding vc_rules_def rule_defs
    by (rule best_rule_hit) (use a r match_label_line [OF assms] in \<open>simp_all add: match_length_Lit misses_Lit\<close>)
  then show ?thesis by (simp add: vc_match_def)
qed

section \<open>The lines of the log\<close>

lemma best_rule_miss: "misses s x \<Longrightarrow> best_rule bol s (x # xs) = best_rule bol s xs"
  using best_rule_misses [of s "[x]" bol xs] by simp

lemma best_rule_anchored: "best_rule False s ((True, r, act) # xs) = best_rule False s xs"
  by simp

declare best_rule.simps [simp del]

lemma best_rule_Nil [simp]: "best_rule bol s [] = None"
  by (simp add: best_rule.simps)

lemma match_any_line:
  assumes "CHR 0x0A \<notin> set x"
  shows "match_length any_line (x @ newline @ rest) = Some (length (x @ newline))"
  by (rule match_line) (use assms in \<open>auto simp: any_line_texts in_line_def newline_def\<close>)

lemmas scan_simps =
  vc_match_def vc_rules_def rule_defs best_rule_miss misses_Lit best_rule_hit match_length_Lit

definition header_names :: "string list" where
  "header_names = [''RCS file:'', ''Working file:'', ''head:'', ''branch'', ''locks:'', ''access list:'',
     ''symbolic names:'', ''keyword substitution:'', ''description:'', ''checked in by PRCS version'']"

lemma in_header_names:
  "''RCS file:'' \<in> set header_names" "''Working file:'' \<in> set header_names" "''head:'' \<in> set header_names"
  "''branch'' \<in> set header_names" "''locks:'' \<in> set header_names" "''access list:'' \<in> set header_names"
  "''symbolic names:'' \<in> set header_names" "''keyword substitution:'' \<in> set header_names"
  "''description:'' \<in> set header_names" "''checked in by PRCS version'' \<in> set header_names"
  by (simp_all add: header_names_def)

lemma scan_header:
  assumes "name \<in> set header_names"
    and x: "plain x"
  shows "vc_match True (name @ x @ newline @ rest) = (length name + length (x @ newline), Skip)"
proof -
  have a: "misses (name @ x @ newline @ rest) (arrow_rule '',v  <--  '')"
    "misses (name @ x @ newline @ rest) (arrow_rule '',v  -->  '')"
    using misses_arrows [of "name @ x" rest] assms by (auto simp: header_names_def)
  have r: "misses (name @ x @ newline @ rest) (run_rule CHR ''-'')"
    "misses (name @ x @ newline @ rest) (run_rule CHR ''='')"
    using assms(1) by (auto simp: header_names_def intro: misses_run)
  have x': "CHR 0x0A \<notin> set x" using x by (simp add: plain_def)
  show ?thesis
    using assms(1) a r match_any_line [OF x', of rest] unfolding header_names_def list.set insert_iff empty_iff
    by (elim disjE FalseE) (simp_all add: scan_simps)
qed

lemma match_run:
  "match_length (Then (Many (Class (\<lambda>c. c = d))) (Lit newline)) (replicate k d @ newline @ rest) =
     Some (Suc k)" if "d \<noteq> CHR 0x0A"
proof -
  have "in_line (Then (Many (Class (\<lambda>c. c = d))) (Lit newline))"
    using that unfolding in_line_def texts_Then texts_Many_Class by (auto simp: list_all_iff newline_def texts_Many_Class)
  moreover have "replicate k d @ newline \<in> texts (Then (Many (Class (\<lambda>c. c = d))) (Lit newline))"
    unfolding texts_Then texts_Many_Class by (auto simp: list_all_iff)
  ultimately show ?thesis using match_line by (fastforce simp: newline_def)
qed

lemma scan_blank: "vc_match True (newline @ rest) = (1, Skip)"
proof -
  have m: "match_length (Then (Many (Class (\<lambda>c. c = d))) (Lit newline)) (newline @ rest) = Some 1"
    if "d \<noteq> CHR 0x0A" for d using match_run [OF that, of 0] by simp
  show ?thesis
    using misses_arrows [of "[]" rest] m [of "CHR ''-''"] m [of "CHR ''=''"]
    by (simp add: scan_simps run_rule_def best_rule.simps(2) newline_def)
qed

lemma scan_dashes:
  "vc_match True (replicate (Suc k) CHR ''-'' @ newline @ rest) = (Suc (Suc k), Skip)"
  using misses_arrows [of "replicate (Suc k) CHR ''-''" rest] match_run [of "CHR ''-''" "Suc k" rest]
    misses_run [of "replicate (Suc k) CHR ''-'' @ newline @ rest" "CHR ''-''" _ "CHR ''=''"]
  by (simp add: scan_simps run_rule_def best_rule.simps(2) plain_def misses_def)

lemma scan_equals:
  "vc_match True (replicate (Suc k) CHR ''='' @ newline @ rest) = (Suc (Suc k), Skip)"
  using misses_arrows [of "replicate (Suc k) CHR ''=''" rest] match_run [of "CHR ''=''" "Suc k" rest]
    misses_run [of "replicate (Suc k) CHR ''='' @ newline @ rest" "CHR ''=''" _ "CHR ''-''"]
  by (simp add: scan_simps run_rule_def best_rule.simps(2) plain_def misses_def)

lemma isdigit_chars: "\<not> isdigit CHR 0x0A" "\<not> isdigit CHR '';''" "\<not> isdigit CHR '' ''"
  "\<not> isdigit CHR '':''" "\<not> isdigit CHR ''/''" "\<not> isdigit CHR ''.''" "\<not> isdigit CHR ''<''" "\<not> isdigit CHR ''>''"
  by (simp_all add: isdigit_def)

lemma num_plain: "n \<in> texts num \<Longrightarrow> plain n"
  using isdigit_chars by (auto simp: texts_num plain_def list_all_iff)

lemma num_no_newline: "n \<in> texts num \<Longrightarrow> CHR 0x0A \<notin> set n"
  using num_plain by (auto simp: plain_def)

lemma scan_minor:
  assumes "label_match m"
  shows "vc_match True (''PRCS minor version: '' @ m @ newline @ rest) =
    (20 + length (m @ newline), Return PrcsMinorVersion (line_from 20))"
proof -
  let ?s = "''PRCS minor version: '' @ m @ newline @ rest"
  have a: "misses ?s (arrow_rule '',v  <--  '')" "misses ?s (arrow_rule '',v  -->  '')"
    using misses_arrows [of "''PRCS minor version: '' @ m" rest] label_plain [OF assms] by simp_all
  have r: "misses ?s (run_rule CHR ''-'')" "misses ?s (run_rule CHR ''='')"
    by (auto intro: misses_run)
  show ?thesis using a r match_label_line [OF assms] by (simp add: scan_simps)
qed

lemma scan_deleted:
  "vc_match True (''PRCS version deleted'' @ newline @ rest) = (21, Return PrcsVersionDeleted None)"
proof -
  let ?s = "''PRCS version deleted'' @ newline @ rest"
  have a: "misses ?s (arrow_rule '',v  <--  '')" "misses ?s (arrow_rule '',v  -->  '')"
    using misses_arrows [of "''PRCS version deleted''" rest] by simp_all
  have r: "misses ?s (run_rule CHR ''-'')" "misses ?s (run_rule CHR ''='')"
    by (auto intro: misses_run)
  have "match_length (Lit newline) (newline @ rest) = Some 1"
    using match_line [of "Lit newline" "[]" rest] by (simp add: in_line_def newline_def)
  then show ?thesis using a r by (simp add: scan_simps)
qed

fun with_colons :: "string list \<Rightarrow> string" where
  "with_colons [] = []"
| "with_colons [n] = n"
| "with_colons (n # ns) = n @ '':'' @ with_colons ns"

lemma with_colons_texts:
  "ns \<noteq> [] \<Longrightarrow> list_all (\<lambda>n. n \<in> texts num) ns \<Longrightarrow>
   with_colons ns \<in> texts (Then (Many (Then num (Lit '':''))) num)"
proof (induction ns rule: with_colons.induct)
  case (2 n)
  then show ?case unfolding texts_Then by (intro exI [of _ "[]"] exI [of _ n]) (auto simp: texts.simps(5) intro: exI [of _ "[]"])
next
  case (3 n m ns)
  then have "with_colons (m # ns) \<in> texts (Then (Many (Then num (Lit '':''))) num)" by simp
  then obtain ws v where "with_colons (m # ns) = concat ws @ v" "v \<in> texts num"
    "set ws \<subseteq> texts (Then num (Lit '':''))"
    unfolding texts_Then [of _ "Many _"] texts.simps(5) by blast
  moreover have "n @ '':'' \<in> texts (Then num (Lit '':''))" using 3 unfolding texts_Then by auto
  ultimately have "with_colons (n # m # ns) = concat ((n @ '':'') # ws) @ v" "v \<in> texts num"
    "set ((n @ '':'') # ws) \<subseteq> texts (Then num (Lit '':''))" by simp_all
  then show ?case unfolding texts_Then [of _ "Many _"] texts.simps(5) by blast
qed simp

lemma with_colons_plain: "list_all (\<lambda>n. n \<in> texts num) ns \<Longrightarrow> plain (with_colons ns)"
  by (induction ns rule: with_colons.induct) (auto simp: num_plain)

lemma parents_pattern_chars:
  "v \<in> texts (Then (may (Then (Many (Then num (Lit '':''))) num)) (Lit newline)) \<Longrightarrow>
   CHR 0x0A \<notin> set (butlast v)"
proof -
  have colon: "CHR 0x0A \<notin> set w" if "w \<in> texts (Then num (Lit '':''))" for w
    using that num_no_newline unfolding texts_Then by auto
  have "CHR 0x0A \<notin> set w" if w: "w \<in> texts (Then (Many (Then num (Lit '':''))) num)" for w
  proof -
    obtain ws n where "w = concat ws @ n" and ws: "set ws \<subseteq> texts (Then num (Lit '':''))" and "n \<in> texts num"
      using w unfolding texts_Then [of _ "Many _"] texts.simps(5) by blast
    then show ?thesis using colon subsetD [OF ws] num_no_newline by auto
  qed
  then show "v \<in> texts (Then (may (Then (Many (Then num (Lit '':''))) num)) (Lit newline)) \<Longrightarrow>
      CHR 0x0A \<notin> set (butlast v)"
    unfolding may_def texts_Then [of _ "Or _ _"] texts.simps(4) texts.simps(1) by (auto simp: newline_def simp del: texts.simps)
qed

lemma scan_parents:
  assumes "ns \<noteq> []" and "list_all (\<lambda>n. n \<in> texts num) ns"
  shows "vc_match True (''PRCS parent indices: '' @ with_colons ns @ newline @ rest) =
    (21 + length (with_colons ns @ newline), Return PrcsParents (line_from 21))"
proof -
  let ?s = "''PRCS parent indices: '' @ with_colons ns @ newline @ rest"
  have a: "misses ?s (arrow_rule '',v  <--  '')" "misses ?s (arrow_rule '',v  -->  '')"
    using misses_arrows [of "''PRCS parent indices: '' @ with_colons ns" rest]
      with_colons_plain [OF assms(2)] by simp_all
  have r: "misses ?s (run_rule CHR ''-'')" "misses ?s (run_rule CHR ''='')"
    by (auto intro: misses_run)
  have "match_length (Then (may (Then (Many (Then num (Lit '':''))) num)) (Lit newline))
      (with_colons ns @ newline @ rest) = Some (length (with_colons ns @ newline))"
  proof (rule match_line)
    show "in_line (Then (may (Then (Many (Then num (Lit '':''))) num)) (Lit newline))"
      using parents_pattern_chars unfolding in_line_def by blast
    show "with_colons ns @ newline \<in> texts (Then (may (Then (Many (Then num (Lit '':''))) num)) (Lit newline))"
      unfolding may_def texts_Then [of _ "Or _ _"] using with_colons_texts [OF assms] by (auto simp del: texts.simps(3))
  qed
  then show ?thesis using a r by (simp add: scan_simps)
qed

lemmas mid_line_simps =
  vc_match_def vc_rules_def rule_defs arrow_rule_def run_rule_def best_rule.simps match_length_Lit

lemma num_chars: "v \<in> texts num \<Longrightarrow> list_all isdigit v"
  by (simp add: texts_num)

lemma rcnum_chars: "v \<in> texts rcnum \<Longrightarrow> list_all (\<lambda>c. isdigit c \<or> c = CHR ''.'') v"
proof -
  have dot: "list_all (\<lambda>c. isdigit c \<or> c = CHR ''.'') w" if "w \<in> texts (Then (Lit ''.'') num)" for w
    using that num_chars unfolding texts_Then by (auto simp: list_all_iff)
  assume "v \<in> texts rcnum"
  then obtain n u ws where "v = n @ u @ concat ws" "n \<in> texts num" "u \<in> texts (Then (Lit ''.'') num)"
    and ws: "set ws \<subseteq> texts (Then (Lit ''.'') num)"
    unfolding rcnum_def some_of_def texts_Then [of _ num] texts_Then [of _ "Then (Lit _) _"] texts.simps(5)
    by blast
  then show ?thesis using num_chars [of n] dot [of u] dot subsetD [OF ws] by (auto simp: list_all_iff)
qed

definition date_char :: "char \<Rightarrow> bool" where
  "date_char c \<longleftrightarrow> isdigit c \<or> c = CHR ''/'' \<or> c = CHR '' '' \<or> c = CHR '':''"

lemma tad_chars: "v \<in> texts tad \<Longrightarrow> list_all date_char v"
  unfolding tad_def texts_Then texts.simps(1) using num_chars by (fastforce simp: list_all_iff date_char_def)

lemma login_chars: "v \<in> texts login \<Longrightarrow> list_all (\<lambda>c. isdigit c \<or> idchar c) v"
proof -
  assume "v \<in> texts login"
  then obtain ds w where "v = ds @ w" and ds: "list_all digit_char ds"
    and "w \<in> texts (Then (Class idchar) (Many (Or (Class digit_char) (Class idchar))))"
    unfolding login_def texts_Then [of _ "Many _"] texts_Many_Class by blast
  then obtain c ws where v: "v = ds @ c # concat ws" and c: "idchar c"
    and ws: "set ws \<subseteq> texts (Or (Class digit_char) (Class idchar))"
    unfolding texts_Then_Class texts.simps(5) by blast
  have "\<exists>d. w = [d] \<and> (digit_char d \<or> idchar d)" if "w \<in> set ws" for w
    using subsetD [OF ws that] by auto
  then have "list_all (\<lambda>c. digit_char c \<or> idchar c) (concat ws)" by (fastforce simp: list_all_iff)
  then show ?thesis using ds c unfolding v by (auto simp: list_all_iff digit_char_isdigit)
qed

lemma scan_total:
  assumes "n \<in> texts num" and "plain x"
  shows "vc_match True (''total revisions: '' @ (n @ x) @ newline @ rest) =
    (17 + length ((n @ x) @ newline), Return RlogTotalRevisions (text_from 17))"
proof -
  let ?s = "''total revisions: '' @ (n @ x) @ newline @ rest"
  have a: "misses ?s (arrow_rule '',v  <--  '')" "misses ?s (arrow_rule '',v  -->  '')"
    using misses_arrows [of "''total revisions: '' @ n @ x" rest] num_plain [OF assms(1)] assms(2) by simp_all
  have r: "misses ?s (run_rule CHR ''-'')" "misses ?s (run_rule CHR ''='')"
    by (auto intro: misses_run)
  have "match_length (Then num any_line) ((n @ x) @ newline @ rest) = Some (length ((n @ x) @ newline))"
  proof (rule match_line)
    show "in_line (Then num any_line)" unfolding in_line_def texts_Then any_line_texts
      using num_no_newline by (auto simp: butlast_append newline_def any_line_texts)
    show "(n @ x) @ newline \<in> texts (Then num any_line)"
      unfolding texts_Then any_line_texts using assms by (auto simp: plain_def)
  qed
  then show ?thesis using a r by (simp add: scan_simps)
qed

lemma scan_revision:
  assumes "n \<in> texts rcnum"
  shows "vc_match True (''revision '' @ n @ newline @ rest) =
    (9 + length (n @ newline), Return RlogVersion (Some (\<lambda>yytext. stop_at_ws (drop 9 yytext))))"
proof -
  let ?s = "''revision '' @ n @ newline @ rest"
  have nl: "CHR 0x0A \<notin> set v \<and> CHR ''<'' \<notin> set v \<and> CHR ''>'' \<notin> set v" if "v \<in> texts rcnum" for v
    using rcnum_chars [OF that] isdigit_chars by (auto simp: list_all_iff)
  have a: "misses ?s (arrow_rule '',v  <--  '')" "misses ?s (arrow_rule '',v  -->  '')"
    using misses_arrows [of "''revision '' @ n" rest] nl [OF assms] by (simp_all add: plain_def)
  have r: "misses ?s (run_rule CHR ''-'')" "misses ?s (run_rule CHR ''='')"
    by (auto intro: misses_run)
  have "match_length (Then rcnum any_line) (n @ newline @ rest) = Some (length (n @ newline))"
  proof (rule match_line)
    show "in_line (Then rcnum any_line)" unfolding in_line_def texts_Then any_line_texts
      using nl by (auto simp: butlast_append newline_def any_line_texts)
    show "n @ newline \<in> texts (Then rcnum any_line)"
      unfolding texts_Then any_line_texts using assms
      by (intro exI [of _ n] exI [of _ newline]) auto
  qed
  then show ?thesis using a r by (simp add: scan_simps)
qed

lemma scan_date:
  assumes "d \<in> texts tad" and "plain x"
  shows "vc_match True (''date: '' @ d @ CHR '';'' # x @ newline @ rest) =
    (6 + length d, Return RlogDate (text_from 6))"
proof -
  let ?s = "''date: '' @ d @ CHR '';'' # x @ newline @ rest"
  have "plain d" using tad_chars [OF assms(1)] isdigit_chars by (auto simp: plain_def list_all_iff date_char_def)
  then have a: "misses ?s (arrow_rule '',v  <--  '')" "misses ?s (arrow_rule '',v  -->  '')"
    using misses_arrows [of "''date: '' @ d @ CHR '';'' # x" rest] assms(2) by simp_all
  have r: "misses ?s (run_rule CHR ''-'')" "misses ?s (run_rule CHR ''='')"
    by (auto intro: misses_run)
  have "match_length tad (d @ CHR '';'' # x @ newline @ rest) = Some (length d)"
    by (rule match_stop [OF assms(1) tad_chars]) (auto simp: date_char_def isdigit_chars)
  then show ?thesis using a r by (simp add: scan_simps)
qed

lemma idchar_not: "\<not> idchar CHR '';''" "\<not> idchar CHR 0x0A" "\<not> idchar CHR ''<''" "\<not> idchar CHR ''>''"
  by (simp_all add: idchar_def alpha_char_def)

lemma scan_author:
  assumes "u \<in> texts login"
  shows "vc_match False ('';  author: '' @ u @ CHR '';'' # rest) =
    (11 + length u, Return RlogAuthor (text_from 11))"
proof -
  have "match_length login (u @ CHR '';'' # rest) = Some (length u)"
    by (rule match_stop [OF assms login_chars]) (auto simp: isdigit_chars idchar_not)
  then show ?thesis by (simp add: mid_line_simps)
qed

lemma state_chars:
  "v \<in> texts (Then label (Then (Lit '';'') (may (Lit newline)))) \<Longrightarrow>
   \<exists>l. label_match l \<and> (v = l @ '';'' \<or> v = l @ '';'' @ newline)"
  unfolding may_def texts_Then [of _ label] texts_Then [of _ "Lit _"] texts_label by auto

lemma scan_state:
  assumes "label_match l"
  shows "vc_match False ('';  state: '' @ l @ '';'' @ newline @ rest) = (10 + length l + 2, Skip)"
    and "vc_match False ('';  state: '' @ l @ '';'' @ CHR '' '' # rest) = (10 + length l + 1, Skip)"
proof -
  have t: "l @ '';'' \<in> texts (Then label (Then (Lit '';'') (may (Lit newline))))"
    "(l @ '';'') @ newline \<in> texts (Then label (Then (Lit '';'') (may (Lit newline))))"
    unfolding may_def texts_Then [of _ label] texts_Then [of _ "Lit _"] texts_label using assms by auto
  have i: "in_line (Then label (Then (Lit '';'') (may (Lit newline))))"
    unfolding in_line_def using state_chars label_plain
    by (fastforce simp: plain_def butlast_append newline_def simp del: texts.simps)
  have "match_length (Then label (Then (Lit '';'') (may (Lit newline)))) (l @ '';'' @ newline @ rest) =
      Some (length l + 2)"
    using match_line [OF i t(2), of rest] by (simp add: newline_def)
  then show "vc_match False ('';  state: '' @ l @ '';'' @ newline @ rest) = (10 + length l + 2, Skip)"
    by (simp add: mid_line_simps)
  have "list_all (\<lambda>c. label_rest c \<or> c = CHR '';'' \<or> c = CHR 0x0A) v"
    if "v \<in> texts (Then label (Then (Lit '';'') (may (Lit newline))))" for v
    using state_chars [OF that] label_match_rest by (auto simp: list_all_iff newline_def)
  then have "match_length (Then label (Then (Lit '';'') (may (Lit newline)))) ((l @ '';'') @ CHR '' '' # rest) =
      Some (length (l @ '';''))"
    by (rule match_stop [OF t(1)]) (simp_all add: label_rest_def alpha_char_def digit_char_def)
  then show "vc_match False ('';  state: '' @ l @ '';'' @ CHR '' '' # rest) = (10 + length l + 1, Skip)"
    by (simp add: mid_line_simps)
qed

lemma scan_lines:
  assumes "p \<in> texts num" and "m \<in> texts num"
  shows "vc_match False (''  lines: '' @ (''+'' @ p @ '' -'' @ m) @ newline @ rest) =
    (9 + length ((''+'' @ p @ '' -'' @ m) @ newline), Return RlogLines (text_from 9))"
proof -
  have "match_length (Then lines (Lit newline)) ((''+'' @ p @ '' -'' @ m) @ newline @ rest) =
      Some (length ((''+'' @ p @ '' -'' @ m) @ newline))"
  proof (rule match_line)
    show "in_line (Then lines (Lit newline))" unfolding in_line_def lines_def texts_Then texts.simps(1)
      using num_no_newline by (auto simp: newline_def butlast_append)
    show "(''+'' @ p @ '' -'' @ m) @ newline \<in> texts (Then lines (Lit newline))"
      unfolding lines_def texts_Then [of _ "Then _ _"] texts_Then [of _ "Lit _"] texts_Then [of _ num]
      using assms by auto
  qed
  then show ?thesis by (simp add: mid_line_simps)
qed

end
