(* ===== verification/RlogData.thy ===== *)
theory RlogData
  imports VcLex
begin

text \<open>
  Reading the log of the versions of a project, \<open>VC_get_project_version_data\<close> of \<open>src/src/vc.cc\<close>:
  the tokens of every version, its parents in the three formats the program has used, and the
  array of the versions. The run of \<open>rlog\<close> and the conversion of its dates are parameters.
\<close>

section \<open>Reading the versions of a project\<close>

text \<open>
  What the log of one version gives (\<open>RcsVersionData\<close>, and \<open>ProjectVersionData\<close> for the versions of
  the project file), as it is filled in. A string that was not set is a null pointer.
\<close>

record RcsVersionData =
  log_date :: int
  log_author :: "string option"
  log_version :: "string option"
  plus_lines :: int
  minus_lines :: int

record ProjectLogData = RcsVersionData +
  log_major :: "string option"
  log_minor :: "string option"
  log_parents :: "nat list"
  log_deleted :: bool

definition RcsVersionData_OK :: "'z RcsVersionData_scheme \<Rightarrow> bool" where
  "RcsVersionData_OK v \<longleftrightarrow> 0 < log_date v \<and> log_author v \<noteq> None \<and> log_version v \<noteq> None"

definition ProjectVersionData_OK :: "ProjectLogData \<Rightarrow> bool" where
  "ProjectVersionData_OK v \<longleftrightarrow> RcsVersionData_OK v \<and> log_major v \<noteq> None \<and> log_minor v \<noteq> None"

definition new_ProjectVersionData :: ProjectLogData where
  "new_ProjectVersionData =
     \<lparr>log_date = 0, log_author = None, log_version = None, plus_lines = 0, minus_lines = 0,
      log_major = None, log_minor = None, log_parents = [], log_deleted = False\<rparr>"

definition new_parent :: "nat \<Rightarrow> ProjectLogData \<Rightarrow> ProjectLogData" where
  "new_parent p v = v\<lparr>log_parents := log_parents v @ [p]\<rparr>"

text \<open>
  \<open>strtok\<close> with the separator \<open>:\<close> gives the pieces that are not empty. The texts of the scanner
  start with a digit, so the first call finds one; \<open>atoi\<close> of a null pointer is undefined.
\<close>

fun split_colon :: "string \<Rightarrow> string list" where
  "split_colon [] = [[]]"
| "split_colon (c # s) =
     (if c = CHR '':'' then [] # split_colon s
      else case split_colon s of [] \<Rightarrow> [[c]] | p # ps \<Rightarrow> (c # p) # ps)"

definition strtok_colon :: "string \<Rightarrow> string list" where
  "strtok_colon s = filter (\<lambda>p. p \<noteq> []) (split_colon s)"

fun add_parents :: "nat \<Rightarrow> string list \<Rightarrow> ProjectLogData \<Rightarrow> failure + ProjectLogData" where
  "add_parents idx [] v = Inr v"
| "add_parents idx (pis # pieces) v =
     (let pi = atoi pis
      in if pi < 0 \<or> int idx \<le> pi then Inl (Err NonFatalError)
         else add_parents idx pieces (new_parent (nat pi) v))"

definition parent_indices :: "nat \<Rightarrow> string \<Rightarrow> ProjectLogData \<Rightarrow> failure + ProjectLogData" where
  "parent_indices idx text v =
     (if text = [] then Inr v
      else if strtok_colon text = [] then Inl Undefined
      else add_parents idx (strtok_colon text) v)"

text \<open>
  The version at an index of the array with the names of its parents in the formats before 1.2
  (\<open>old_fmt_parents\<close> and \<open>old_fmt_descends\<close> at the same index).
\<close>

record LogEntry =
  entry_data :: ProjectLogData
  old_fmt_parent :: "string option"
  old_fmt_descend :: "string option"

definition upd_data :: "(ProjectLogData \<Rightarrow> ProjectLogData) \<Rightarrow> LogEntry \<Rightarrow> LogEntry" where
  "upd_data f e = e\<lparr>entry_data := f (entry_data e)\<rparr>"

definition new_entry :: "string \<Rightarrow> LogEntry" where
  "new_entry text =
     \<lparr>entry_data = new_ProjectVersionData\<lparr>log_version := Some text\<rparr>,
      old_fmt_parent = None, old_fmt_descend = None\<rparr>"

lemma yylex_shorter:
  "yylex sc = (t, sc') \<Longrightarrow> t \<noteq> NoTokenMatch \<Longrightarrow> length (vc_input sc') < length (vc_input sc)"
proof (induction sc arbitrary: t sc' rule: yylex.induct)
  case (1 sc)
  show ?case
  proof (cases "vc_input sc = []")
    case True
    then show ?thesis using 1 by (simp add: yylex.simps)
  next
    case False
    obtain n act where m: "vc_match (at_bol sc) (vc_input sc) = (n, act)" by fastforce
    have n: "0 < n" using vc_match_pos [OF m [symmetric]] .
    show ?thesis
    proof (cases act)
      case Skip
      then have "length (vc_input sc') < length (drop n (vc_input sc))"
        using "1.IH" [OF False m [symmetric] refl refl Skip] "1.prems" False m
        by (simp add: yylex.simps [of sc] Let_def)
      then show ?thesis by simp
    next
      case (Return t' f)
      then show ?thesis using "1.prems" False m n
        by (auto simp: yylex.simps [of sc] Let_def split: option.splits)
    qed
  qed
qed

lemma VC_get_token_shorter:
  "VC_get_token None sc = (t, sc') \<Longrightarrow> t \<noteq> NoTokenMatch \<Longrightarrow> length (vc_input sc') < length (vc_input sc)"
  by (simp add: VC_get_token_def yylex_shorter)

text \<open>
  One round of the loop over the tokens of a version: \<open>Some\<close> when it was the last one, with whether it
  found another version or the end, and the entry. A minor version \<open>0\<close> names no parent.
\<close>

definition old_parent ::
  "RcsToken \<Rightarrow> (string \<Rightarrow> LogEntry \<Rightarrow> LogEntry) \<Rightarrow> LogEntry \<Rightarrow> VcScanner
     \<Rightarrow> (failure + bool option \<times> LogEntry) \<times> VcScanner" where
  "old_parent minor_token record_name e sc1 =
     (case VC_get_token None sc1 of (vclex, sc2) \<Rightarrow>
        if vclex \<noteq> minor_token then (Inl (Err NonFatalError), sc2)
        else if rcs_text sc2 = ''0'' then (Inr (None, e), sc2)
        else (Inr (None, record_name (rcs_text sc1 @ ''.'' @ rcs_text sc2) e), sc2))"

definition version_step ::
  "(string \<Rightarrow> int) \<Rightarrow> nat \<Rightarrow> LogEntry \<Rightarrow> VcScanner \<Rightarrow> (failure + bool option \<times> LogEntry) \<times> VcScanner" where
  "version_step timestr idx e sc =
     (case VC_get_token None sc of (vclex, sc1) \<Rightarrow>
        let text = rcs_text sc1; go = (\<lambda>e'. (Inr (None, e'), sc1))
        in if vclex = RlogVersion \<or> vclex = NoTokenMatch then (Inr (Some (vclex = RlogVersion), e), sc1)
           else if vclex = RlogLines then go e
           else if vclex = RlogDate then go (upd_data (log_date_update (\<lambda>_. timestr text)) e)
           else if vclex = RlogAuthor then go (upd_data (log_author_update (\<lambda>_. Some text)) e)
           else if vclex = PrcsMajorVersion then go (upd_data (log_major_update (\<lambda>_. Some text)) e)
           else if vclex = PrcsMinorVersion then go (upd_data (log_minor_update (\<lambda>_. Some text)) e)
           else if vclex = PrcsDescendsMajorVersion
           then old_parent PrcsDescendsMinorVersion (\<lambda>n e. e\<lparr>old_fmt_descend := Some n\<rparr>) e sc1
           else if vclex = PrcsParentMajorVersion
           then old_parent PrcsParentMinorVersion (\<lambda>n e. e\<lparr>old_fmt_parent := Some n\<rparr>) e sc1
           else if vclex = PrcsVersionDeleted then go (upd_data (log_deleted_update (\<lambda>_. True)) e)
           else if vclex = PrcsParents
           then (case parent_indices idx text (entry_data e) of
                   Inl f \<Rightarrow> (Inl f, sc1) | Inr v \<Rightarrow> go (e\<lparr>entry_data := v\<rparr>))
           else (Inl (Err NonFatalError), sc1))"

lemma old_parent_shorter:
  assumes "old_parent m rn e sc1 = (Inr (b, e'), sc2)" and "m \<noteq> NoTokenMatch"
  shows "length (vc_input sc2) < length (vc_input sc1)"
proof -
  obtain t sc where t: "VC_get_token None sc1 = (t, sc)" by fastforce
  then have "t = m" "sc2 = sc" using assms(1) by (auto simp: old_parent_def split: if_splits)
  then show ?thesis using VC_get_token_shorter [OF t] assms(2) by simp
qed

lemma version_step_shorter:
  assumes "version_step timestr idx e sc = (Inr (None, e'), sc')"
  shows "length (vc_input sc') < length (vc_input sc)"
proof -
  obtain t sc1 where t: "VC_get_token None sc = (t, sc1)" by fastforce
  have "length (vc_input sc') \<le> length (vc_input sc1) \<and> t \<noteq> NoTokenMatch"
    using assms unfolding version_step_def t
    by (auto simp: Let_def split: if_splits sum.splits dest!: old_parent_shorter)
  then show ?thesis using VC_get_token_shorter [OF t] by simp
qed

function version_tokens ::
  "(string \<Rightarrow> int) \<Rightarrow> nat \<Rightarrow> LogEntry \<Rightarrow> VcScanner \<Rightarrow> (failure + bool \<times> LogEntry) \<times> VcScanner" where
  "version_tokens timestr idx e sc =
     (case version_step timestr idx e sc of
        (Inl f, sc') \<Rightarrow> (Inl f, sc')
      | (Inr (Some found, e'), sc') \<Rightarrow> (Inr (found, e'), sc')
      | (Inr (None, e'), sc') \<Rightarrow> version_tokens timestr idx e' sc')"
  by pat_completeness auto
termination
  by (relation "measure (\<lambda>(_, _, _, sc). length (vc_input sc))") (auto dest: version_step_shorter [OF sym])

declare version_tokens.simps [simp del]

text \<open>
  The versions arrive from the last to the first; \<open>Suc idx\<close> of them are left. A version takes its number
  from the text of the token before it; when the output has ended this text is in a buffer of the
  scanner that may be gone, so that copying it is undefined.
\<close>

fun read_versions ::
  "(string \<Rightarrow> int) \<Rightarrow> bool \<Rightarrow> nat \<Rightarrow> LogEntry list \<Rightarrow> VcScanner \<Rightarrow> (failure + LogEntry list) \<times> VcScanner" where
  "read_versions timestr found 0 es sc = (Inr es, sc)"
| "read_versions timestr found (Suc idx) es sc =
     (if \<not> found then (Inl Undefined, sc)
      else case version_tokens timestr idx (new_entry (rcs_text sc)) sc of
        (Inl f, sc') \<Rightarrow> (Inl f, sc')
      | (Inr (found', e), sc') \<Rightarrow>
          if ProjectVersionData_OK (entry_data e) then read_versions timestr found' idx (e # es) sc'
          else (Inl (Err NonFatalError), sc'))"

text \<open>\<open>fix_version_data\<close>: a name of a parent becomes the first index before the version that has it.\<close>

definition same_version :: "ProjectLogData \<Rightarrow> string \<Rightarrow> bool" where
  "same_version v name \<longleftrightarrow> log_minor v = minor_version_of name \<and> log_major v = major_version_of name"

definition fix_one :: "string option list \<Rightarrow> nat \<Rightarrow> ProjectLogData list \<Rightarrow> ProjectLogData list" where
  "fix_one names i pvda =
     (case names ! i of
        None \<Rightarrow> pvda
      | Some par_name \<Rightarrow>
          (case find (\<lambda>j. same_version (pvda ! j) par_name) [0..<i] of
             None \<Rightarrow> pvda | Some j \<Rightarrow> pvda[i := new_parent j (pvda ! i)]))"

definition fix_version_data :: "string option list \<Rightarrow> ProjectLogData list \<Rightarrow> ProjectLogData list" where
  "fix_version_data names pvda = fold (fix_one names) [0..<length pvda] pvda"

text \<open>The array that is returned: the index of a version is its place in the array.\<close>

definition version_at_index :: "nat \<Rightarrow> ProjectLogData \<Rightarrow> ProjectVersionData" where
  "version_at_index i v =
     \<lparr>prcs_major = the (log_major v), prcs_minor = the (log_minor v),
      version_index = int i,
      parents = log_parents v, deleted = log_deleted v, rcs_version = the (log_version v)\<rparr>"

definition version_array :: "ProjectLogData list \<Rightarrow> ProjectVersionData list" where
  "version_array pvda = map (\<lambda>(i, v). version_at_index i v) (zip [0..<length pvda] pvda)"

text \<open>
  A run of \<open>rlog\<close>: what it writes to its standard output, or the failure to start it, and its exit
  status, or the failure to get it.
\<close>

record Rlog =
  rlog_output :: "failure + string"
  rlog_status :: "failure + int"

definition clift :: "failure + 'a \<Rightarrow> ('s, 'a) cmd" where
  "clift r = (case r of Inl f \<Rightarrow> cthrow f | Inr a \<Rightarrow> creturn a)"

definition get_token :: "string option \<Rightarrow> (VcScanner, RcsToken) cmd" where
  "get_token is = (\<lambda>sc. case VC_get_token is sc of (t, sc') \<Rightarrow> (Inr t, sc'))"

definition expect :: "string option \<Rightarrow> RcsToken \<Rightarrow> (VcScanner, unit) cmd" where
  "expect is t = cbind (get_token is) (\<lambda>t'. if t' = t then creturn () else cthrow (Err NonFatalError))"

definition close_rlog :: "Rlog \<Rightarrow> (VcScanner, unit) cmd" where
  "close_rlog rlog =
     cbind (clift (rlog_status rlog)) (\<lambda>n. if n \<noteq> 0 then cthrow (Err NonFatalError) else creturn ())"

definition open_rlog :: "Rlog \<Rightarrow> (VcScanner, int) cmd" where
  "open_rlog rlog =
     cbind (clift (rlog_output rlog)) (\<lambda>out.
     cthen (expect (Some out) RlogTotalRevisions) (cget (\<lambda>sc. atoi (rcs_text sc))))"

text \<open>\<open>nearest_pow\<close> of a count from \<open>2\<^sup>3\<^sup>0\<close> on, when the three arrays are made, overflows an \<open>int\<close>.\<close>

definition VC_get_project_version_data ::
  "(string \<Rightarrow> int) \<Rightarrow> Rlog \<Rightarrow> (VcScanner, ProjectVersionData list) cmd" where
  "VC_get_project_version_data timestr rlog =
     cbind (open_rlog rlog) (\<lambda>rev_count.
     cthen (cdefined (rev_count < 2 ^ 30))
     (if rev_count = 0 then creturn []
      else
        cthen (expect None RlogVersion)
        (cbind (read_versions timestr True (nat rev_count) []) (\<lambda>es.
         cthen (close_rlog rlog)
         (creturn
           (version_array
             (fix_version_data (map old_fmt_descend es)
               (fix_version_data (map old_fmt_parent es) (map entry_data es)))))))))"

definition VC_get_version_count :: "Rlog \<Rightarrow> (VcScanner, int) cmd" where
  "VC_get_version_count rlog =
     cbind (open_rlog rlog) (\<lambda>rev_count. cthen (close_rlog rlog) (creturn rev_count))"

section \<open>The parents come before their versions\<close>

definition parents_below :: "nat \<Rightarrow> ProjectLogData \<Rightarrow> bool" where
  "parents_below i v \<longleftrightarrow> list_all (\<lambda>p. p < i) (log_parents v)"

lemma parents_below_new [simp]: "parents_below i (new_parent p v) \<longleftrightarrow> parents_below i v \<and> p < i"
  by (auto simp: parents_below_def new_parent_def)

lemma add_parents_below: "add_parents i ps v = Inr v' \<Longrightarrow> parents_below i v \<Longrightarrow> parents_below i v'"
  by (induction i ps v rule: add_parents.induct) (auto simp: Let_def split: if_splits)

lemma parent_indices_below: "parent_indices i s v = Inr v' \<Longrightarrow> parents_below i v \<Longrightarrow> parents_below i v'"
  by (auto simp: parent_indices_def add_parents_below split: if_splits)

lemma upd_data_below:
  "parents_below i (entry_data (upd_data (log_date_update f) e)) = parents_below i (entry_data e)"
  "parents_below i (entry_data (upd_data (log_author_update g) e)) = parents_below i (entry_data e)"
  "parents_below i (entry_data (upd_data (log_major_update g) e)) = parents_below i (entry_data e)"
  "parents_below i (entry_data (upd_data (log_minor_update g) e)) = parents_below i (entry_data e)"
  "parents_below i (entry_data (upd_data (log_deleted_update h) e)) = parents_below i (entry_data e)"
  by (simp_all add: upd_data_def parents_below_def)

lemma version_step_below:
  assumes "version_step timestr i e sc = (Inr (b, e'), sc')" and "parents_below i (entry_data e)"
  shows "parents_below i (entry_data e')"
proof -
  obtain t sc1 where t: "VC_get_token None sc = (t, sc1)" by fastforce
  show ?thesis using assms unfolding version_step_def old_parent_def t
    by (auto simp: Let_def upd_data_below parent_indices_below split: if_splits sum.splits prod.splits)
qed

lemma version_tokens_below:
  "version_tokens timestr i e sc = (Inr (m, e'), sc') \<Longrightarrow> parents_below i (entry_data e) \<Longrightarrow>
   parents_below i (entry_data e')"
proof (induction timestr i e sc rule: version_tokens.induct)
  case (1 timestr i e sc)
  obtain r sc1 where s: "version_step timestr i e sc = (r, sc1)" by fastforce
  then obtain b e1 where r: "r = Inr (b, e1)"
    using "1.prems"(1) by (cases r) (auto simp: version_tokens.simps [of timestr i e sc])
  have e1: "parents_below i (entry_data e1)" using version_step_below [OF s [unfolded r] "1.prems"(2)] .
  show ?case
    using "1.prems"(1) e1 "1.IH" [OF s [symmetric, unfolded r] refl refl]
    by (cases b) (auto simp: version_tokens.simps [of timestr i e sc] s r)
qed

definition all_below :: "ProjectLogData list \<Rightarrow> bool" where
  "all_below pvda \<longleftrightarrow> (\<forall>k < length pvda. parents_below k (pvda ! k))"

lemma read_versions_below:
  "read_versions timestr m n es sc = (Inr es', sc') \<Longrightarrow>
   (\<forall>k < length es. parents_below (n + k) (entry_data (es ! k))) \<Longrightarrow>
   length es' = n + length es \<and> (\<forall>k < length es'. parents_below k (entry_data (es' ! k)))"
proof (induction timestr m n es sc rule: read_versions.induct)
  case (2 timestr m idx es sc)
  then obtain m' e sc1 where m: "m"
    and e: "version_tokens timestr idx (new_entry (rcs_text sc)) sc = (Inr (m', e), sc1)"
    "ProjectVersionData_OK (entry_data e)" "read_versions timestr m' idx (e # es) sc1 = (Inr es', sc')"
    by (auto split: prod.splits sum.splits if_splits)
  have "parents_below idx (entry_data (new_entry (rcs_text sc)))"
    by (simp add: new_entry_def new_ProjectVersionData_def parents_below_def)
  then have "parents_below idx (entry_data e)" using version_tokens_below [OF e(1)] by simp
  then have "\<forall>k < length (e # es). parents_below (idx + k) (entry_data ((e # es) ! k))"
    using "2.prems"(2) by (auto simp: nth_Cons split: nat.splits)
  from "2.IH" [OF _ e(1) [symmetric] refl refl e(2,3) this] m show ?case by simp
qed simp

lemma fix_one_below:
  assumes "all_below pvda"
  shows "all_below (fix_one names i pvda)"
proof -
  have j: "j < i" if "find (\<lambda>j. same_version (pvda ! j) nm) [0..<i] = Some j" for nm j
    using that by (auto simp: find_Some_iff)
  have "parents_below k (pvda[i := new_parent j (pvda ! i)] ! k)" if "j < i" "k < length pvda" for j k
    using assms that by (cases "k = i") (simp_all add: all_below_def)
  then show ?thesis
    using assms j by (auto simp: fix_one_def all_below_def split: option.split)
qed

lemma fix_one_length [simp]: "length (fix_one names i pvda) = length pvda"
  by (simp add: fix_one_def split: option.split)

lemma fix_fold: "length (fold (fix_one names) is pvda) = length pvda \<and>
    (all_below pvda \<longrightarrow> all_below (fold (fix_one names) is pvda))"
  by (induction "is" arbitrary: pvda) (auto simp: fix_one_below)

lemma fix_version_data_below: "all_below pvda \<Longrightarrow> all_below (fix_version_data names pvda)"
  by (simp add: fix_version_data_def fix_fold)

lemma fix_version_data_length [simp]: "length (fix_version_data names pvda) = length pvda"
  by (simp add: fix_version_data_def fix_fold)

definition parents_first :: "ProjectVersionData list \<Rightarrow> bool" where
  "parents_first arr \<longleftrightarrow> (\<forall>i < length arr. \<forall>p \<in> set (parents (arr ! i)). p < i)"

lemma version_array_nth: "i < length pvda \<Longrightarrow> version_array pvda ! i = version_at_index i (pvda ! i)"
  by (simp add: version_array_def)

lemma version_array_length [simp]: "length (version_array pvda) = length pvda"
  by (simp add: version_array_def)

lemma version_array_wf:
  assumes "all_below pvda"
  shows "wf_versions (version_array pvda) \<and> parents_first (version_array pvda)"
proof -
  have nth: "parents (version_array pvda ! i) = log_parents (pvda ! i)"
    "version_index (version_array pvda ! i) = int i" if "i < length pvda" for i
    using that by (simp_all add: version_array_nth version_at_index_def)
  have pf: "parents_first (version_array pvda)"
    using assms by (auto simp: parents_first_def nth all_below_def parents_below_def list_all_iff)
  have "map version_index (version_array pvda) = map int [0..<length pvda]"
    by (rule nth_equalityI) (simp_all add: nth)
  moreover have "wf_node (version_array pvda) (version_array pvda ! i)" if "i < length pvda" for i
    using pf that by (fastforce simp: wf_node_def list_all_iff parents_first_def)
  ultimately show ?thesis using pf by (auto simp: wf_versions_def list_all_length)
qed

lemma read_project_versions_wf:
  assumes "VC_get_project_version_data timestr rlog sc = (Inr arr, sc')"
  shows "wf_versions arr \<and> parents_first arr"
proof (cases "arr = []")
  case True
  then show ?thesis by (simp add: wf_versions_def parents_first_def)
next
  case False
  then obtain n es sc1 sc2 where es: "read_versions timestr True n [] sc1 = (Inr es, sc2)"
    and arr: "arr = version_array (fix_version_data (map old_fmt_descend es)
              (fix_version_data (map old_fmt_parent es) (map entry_data es)))"
    using assms
    by (auto simp: VC_get_project_version_data_def cbind_Inr_iff cthen_Inr_iff creturn_def split: if_splits)
  have "all_below (map entry_data es)"
    using read_versions_below [OF es] by (simp add: all_below_def)
  then show ?thesis unfolding arr by (intro version_array_wf fix_version_data_below)
qed

end
