(* ===== verification/VersionLog.thy ===== *)
theory VersionLog
  imports RlogData VcScan
begin

text \<open>
  The log of a version: \<open>format_version_log\<close> of \<open>src/src/checkin.cc\<close>, which writes it, and reading
  it back through the output of \<open>rlog\<close>, the scanner of \<open>src/src/vclex.l\<close> and
  \<open>VC_get_project_version_data\<close> of \<open>src/src/vc.cc\<close>.
\<close>

section \<open>Writing the log of a version\<close>

text \<open>\<open>format_version_log\<close> of \<open>src/src/checkin.cc\<close>, with the three parts of \<open>prcs_version_number\<close>.\<close>

definition format_version_log :: "int \<Rightarrow> int \<Rightarrow> int \<Rightarrow> ProjectVersionData \<Rightarrow> string" where
  "format_version_log v0 v1 v2 pd =
     ''checked in by PRCS version '' @ assign_int v0 @ '' '' @ assign_int v1 @ '' '' @ assign_int v2 @ newline @
     ''PRCS major version: '' @ prcs_major pd @ newline @
     ''PRCS minor version: '' @ prcs_minor pd @ newline @
     (case parents pd of
        [] \<Rightarrow> []
      | p # ps \<Rightarrow>
          ''PRCS parent indices: '' @ print_nat p @ concat (map (\<lambda>i. '':'' @ print_nat i) ps) @ newline) @
     (if deleted pd then ''PRCS version deleted'' @ newline else [])"

section \<open>What rlog prints\<close>

text \<open>
  The form of the output of \<open>rlog\<close> for a file without locks, symbolic names and branches: a header,
  and for each revision, the last one first, a line of dashes, its number, a line with its date,
  author and state and, behind the first revision, the numbers of lines, and its log.
\<close>

record Revision =
  rev_number :: string
  rev_date :: string
  rev_author :: string
  rev_state :: string
  rev_lines :: "(string \<times> string) option"

definition revision_body :: "Revision \<Rightarrow> string \<Rightarrow> string" where
  "revision_body r log =
     ''date: '' @ rev_date r @ '';  author: '' @ rev_author r @ '';  state: '' @ rev_state r @ '';'' @
     (case rev_lines r of None \<Rightarrow> [] | Some (p, m) \<Rightarrow> ''  lines: '' @ (''+'' @ p @ '' -'' @ m)) @ newline @ log"

definition revision_text :: "Revision \<Rightarrow> string \<Rightarrow> string" where
  "revision_text r log =
     replicate 28 CHR ''-'' @ newline @ ''revision '' @ rev_number r @ newline @ revision_body r log"

definition rlog_header_text :: "string \<Rightarrow> string \<Rightarrow> string \<Rightarrow> nat \<Rightarrow> string" where
  "rlog_header_text file working head n =
     newline @ ''RCS file:'' @ file @ newline @ ''Working file:'' @ working @ newline @
     ''head:'' @ head @ newline @ ''branch'' @ '':'' @ newline @ ''locks:'' @ [] @ newline @
     ''access list:'' @ [] @ newline @ ''symbolic names:'' @ [] @ newline @
     ''keyword substitution:'' @ '' kv'' @ newline @
     ''total revisions: '' @ (print_nat n @ '';'' @ [CHR 0x09] @ ''selected revisions: '' @ print_nat n) @ newline @
     ''description:'' @ [] @ newline"

definition rlog_text :: "string \<Rightarrow> string \<Rightarrow> string \<Rightarrow> (Revision \<times> string) list \<Rightarrow> string" where
  "rlog_text file working head revs =
     rlog_header_text file working head (length revs) @
     concat (map (\<lambda>(r, log). revision_text r log) (rev revs)) @ replicate 77 CHR ''='' @ newline"

section \<open>The tokens of the log\<close>

abbreviation line_start :: "string \<Rightarrow> string \<Rightarrow> VcScanner" where
  "line_start t s \<equiv> \<lparr>rcs_text = t, at_bol = True, vc_input = s\<rparr>"

abbreviation mid_line :: "string \<Rightarrow> string \<Rightarrow> VcScanner" where
  "mid_line t s \<equiv> \<lparr>rcs_text = t, at_bol = False, vc_input = s\<rparr>"

lemma lex_header:
  assumes "name \<in> set header_names"
    and "plain x"
  shows "yylex (line_start t (name @ x @ newline @ rest)) = yylex (line_start t rest)"
  using scan_skip [of "name @ x @ newline" rest t] scan_header [OF assms, of rest]
  by (simp add: newline_def)

lemma lex_blank: "yylex (line_start t (newline @ rest)) = yylex (line_start t rest)"
  using scan_skip [of newline rest t] scan_blank [of rest] by (simp add: newline_def)

lemma lex_dashes: "yylex (line_start t (replicate (Suc k) CHR ''-'' @ newline @ rest)) = yylex (line_start t rest)"
  using scan_skip [of "replicate (Suc k) CHR ''-'' @ newline" rest t] scan_dashes [of k rest]
  by (simp add: newline_def)

lemma lex_equals: "yylex (line_start t (replicate (Suc k) CHR ''='' @ newline @ rest)) = yylex (line_start t rest)"
  using scan_skip [of "replicate (Suc k) CHR ''='' @ newline" rest t] scan_equals [of k rest]
  by (simp add: newline_def)

lemma lex_end: "yylex (line_start t []) = (NoTokenMatch, line_start t [])"
  by (simp add: yylex.simps)

lemma lex_total:
  assumes "n \<in> texts num" and "plain x"
  shows "yylex (line_start t (''total revisions: '' @ (n @ x) @ newline @ rest)) =
    (RlogTotalRevisions, line_start (n @ x @ newline) rest)"
  using scan_token [of True "''total revisions: '' @ (n @ x) @ newline" rest] scan_total [OF assms, of rest]
  by (simp add: newline_def text_from_def)

lemma lex_revision:
  assumes "n \<in> texts rcnum"
  shows "yylex (line_start t (''revision '' @ n @ newline @ rest)) = (RlogVersion, line_start n rest)"
proof -
  have "list_all (\<lambda>c. \<not> isspace c) n"
    using rcnum_chars [OF assms] by (auto simp: list_all_iff isspace_def isdigit_def)
  then have "stop_at_ws (n @ newline) = n"
    by (simp add: stop_at_ws_def newline_def isspace_def takeWhile_append1 list_all_iff)
  then show ?thesis
    using scan_token [of True "''revision '' @ n @ newline" rest] scan_revision [OF assms, of rest]
    by (simp add: newline_def)
qed

lemma lex_date:
  assumes "d \<in> texts tad" and "plain x"
  shows "yylex (line_start t (''date: '' @ d @ CHR '';'' # x @ newline @ rest)) =
    (RlogDate, mid_line d (CHR '';'' # x @ newline @ rest))"
proof -
  have "d \<noteq> []" using assms(1) by (auto simp: tad_def)
  moreover have "CHR 0x0A \<notin> set d"
    using tad_chars [OF assms(1)] isdigit_chars by (auto simp: list_all_iff date_char_def)
  ultimately have "last d \<noteq> CHR 0x0A" by (metis last_in_set)
  then show ?thesis using \<open>d \<noteq> []\<close>
    using scan_token [of True "''date: '' @ d" "CHR '';'' # x @ newline @ rest"] scan_date [OF assms, of rest]
    by (simp add: text_from_def)
qed

lemma lex_author:
  assumes "u \<in> texts login"
  shows "yylex (mid_line t ('';  author: '' @ u @ CHR '';'' # rest)) = (RlogAuthor, mid_line u (CHR '';'' # rest))"
proof -
  have "CHR 0x0A \<notin> set u" using login_chars [OF assms] isdigit_chars idchar_not by (auto simp: list_all_iff)
  then have "last ('';  author: '' @ u) \<noteq> CHR 0x0A"
    by (cases u rule: rev_cases) auto
  then show ?thesis
    using scan_token [of False "'';  author: '' @ u" "CHR '';'' # rest"] scan_author [OF assms, of rest]
    by (simp add: text_from_def)
qed

lemma lex_state:
  assumes "label_match l"
  shows "yylex (mid_line t ('';  state: '' @ l @ '';'' @ newline @ rest)) = yylex (line_start t rest)"
    and "yylex (mid_line t ('';  state: '' @ l @ '';'' @ CHR '' '' # rest)) = yylex (mid_line t (CHR '' '' # rest))"
  using scan_state [OF assms, of rest]
    scan_skip_mid [of False "'';  state: '' @ l @ '';'' @ newline" rest t]
    scan_skip_mid [of False "'';  state: '' @ l @ '';''" "CHR '' '' # rest" t]
  by (simp_all add: newline_def)

lemma lex_lines:
  assumes "p \<in> texts num" and "m \<in> texts num"
  shows "yylex (mid_line t (''  lines: '' @ (''+'' @ p @ '' -'' @ m) @ newline @ rest)) =
    (RlogLines, line_start ((''+'' @ p @ '' -'' @ m) @ newline) rest)"
  using scan_token [of False "''  lines: '' @ (''+'' @ p @ '' -'' @ m) @ newline" rest]
    scan_lines [OF assms, of rest]
  by (simp add: text_from_def newline_def)

lemma lex_major:
  "label_match m \<Longrightarrow> yylex (line_start t (''PRCS major version: '' @ m @ newline @ rest)) = (PrcsMajorVersion, line_start m rest)"
  using scan_token [of True "''PRCS major version: '' @ m @ newline" rest] scan_major [of m rest]
  by (simp add: line_from_def killnl_def newline_def)

lemma lex_minor:
  "label_match m \<Longrightarrow> yylex (line_start t (''PRCS minor version: '' @ m @ newline @ rest)) = (PrcsMinorVersion, line_start m rest)"
  using scan_token [of True "''PRCS minor version: '' @ m @ newline" rest] scan_minor [of m rest]
  by (simp add: line_from_def killnl_def newline_def)

lemma lex_deleted:
  "yylex (line_start t (''PRCS version deleted'' @ newline @ rest)) = (PrcsVersionDeleted, line_start t rest)"
  using scan_token [of True "''PRCS version deleted'' @ newline" rest] scan_deleted [of rest]
  by (simp add: newline_def)

lemma lex_parents:
  "ns \<noteq> [] \<Longrightarrow> list_all (\<lambda>n. n \<in> texts num) ns \<Longrightarrow>
   yylex (line_start t (''PRCS parent indices: '' @ with_colons ns @ newline @ rest)) =
     (PrcsParents, line_start (with_colons ns) rest)"
  using scan_token [of True "''PRCS parent indices: '' @ with_colons ns @ newline" rest] scan_parents [of ns rest]
  by (simp add: line_from_def killnl_def newline_def)

section \<open>Reading the log of a version\<close>

lemma version_tokens_lex:
  "yylex sc = yylex sc' \<Longrightarrow> version_tokens timestr i e sc = version_tokens timestr i e sc'"
  by (simp add: version_tokens.simps [of timestr i e] version_step_def VC_get_token_def)

lemma version_tokens_token:
  assumes "yylex sc = (t, sc1)"
  shows "t = RlogLines \<Longrightarrow> version_tokens timestr i e sc = version_tokens timestr i e sc1"
    and "t = RlogDate \<Longrightarrow> version_tokens timestr i e sc =
      version_tokens timestr i (upd_data (log_date_update (\<lambda>_. timestr (rcs_text sc1))) e) sc1"
    and "t = RlogAuthor \<Longrightarrow> version_tokens timestr i e sc =
      version_tokens timestr i (upd_data (log_author_update (\<lambda>_. Some (rcs_text sc1))) e) sc1"
    and "t = PrcsMajorVersion \<Longrightarrow> version_tokens timestr i e sc =
      version_tokens timestr i (upd_data (log_major_update (\<lambda>_. Some (rcs_text sc1))) e) sc1"
    and "t = PrcsMinorVersion \<Longrightarrow> version_tokens timestr i e sc =
      version_tokens timestr i (upd_data (log_minor_update (\<lambda>_. Some (rcs_text sc1))) e) sc1"
    and "t = PrcsVersionDeleted \<Longrightarrow> version_tokens timestr i e sc =
      version_tokens timestr i (upd_data (log_deleted_update (\<lambda>_. True)) e) sc1"
    and "t = PrcsParents \<Longrightarrow> parent_indices i (rcs_text sc1) (entry_data e) = Inr v \<Longrightarrow>
      version_tokens timestr i e sc = version_tokens timestr i (e\<lparr>entry_data := v\<rparr>) sc1"
    and "t = RlogVersion \<or> t = NoTokenMatch \<Longrightarrow> version_tokens timestr i e sc = (Inr (t = RlogVersion, e), sc1)"
  using assms
  by (auto simp: version_tokens.simps [of timestr i e sc] version_step_def VC_get_token_def)

lemma split_colon_no: "CHR '':'' \<notin> set n \<Longrightarrow> split_colon n = [n]"
  by (induction n) auto

lemma split_colon_not_Nil [simp]: "split_colon s \<noteq> []"
  by (cases s) (auto split: list.split)

lemma split_colon_append: "CHR '':'' \<notin> set n \<Longrightarrow> split_colon (n @ CHR '':'' # s) = n # split_colon s"
  by (induction n) auto

lemma split_with_colons:
  "ns \<noteq> [] \<Longrightarrow> list_all (\<lambda>n. n \<in> texts num) ns \<Longrightarrow> split_colon (with_colons ns) = ns"
proof (induction ns rule: with_colons.induct)
  case (2 n)
  then show ?case using num_chars [of n] isdigit_chars by (auto simp: split_colon_no list_all_iff)
next
  case (3 n m ns)
  then have "CHR '':'' \<notin> set n" using num_chars [of n] isdigit_chars by (auto simp: list_all_iff)
  then show ?case using 3 by (simp add: split_colon_append)
qed simp

lemma print_nat_num: "print_nat n \<in> texts num"
  using print_nat_digits [of n] by (simp add: texts_num)

lemma strtok_print: "ps \<noteq> [] \<Longrightarrow> strtok_colon (with_colons (map print_nat ps)) = map print_nat ps"
  using split_with_colons [of "map print_nat ps"] print_nat_digits
  by (auto simp: strtok_colon_def list_all_iff print_nat_num filter_id_conv)

lemma add_parents_print:
  "list_all (\<lambda>p. p < i) ps \<Longrightarrow> i < 2 ^ 30 \<Longrightarrow>
   add_parents i (map print_nat ps) v = Inr (v\<lparr>log_parents := log_parents v @ ps\<rparr>)"
  by (induction ps arbitrary: v) (simp_all add: atoi_print_nat new_parent_def)

lemma parent_indices_print:
  assumes "ps \<noteq> []" and "list_all (\<lambda>p. p < i) ps" and "i < 2 ^ 30"
  shows "parent_indices i (with_colons (map print_nat ps)) v = Inr (v\<lparr>log_parents := log_parents v @ ps\<rparr>)"
proof -
  have "with_colons (map print_nat ps) \<noteq> []"
    using strtok_print [OF assms(1)] assms(1) by (auto simp: strtok_colon_def)
  then show ?thesis
    using assms add_parents_print [OF assms(2,3)] by (simp add: parent_indices_def strtok_print)
qed

lemma parents_with_colons:
  "print_nat p @ concat (map (\<lambda>i. '':'' @ print_nat i) ps) = with_colons (map print_nat (p # ps))"
  by (induction ps arbitrary: p) simp_all

text \<open>The entry that a version and its revision give.\<close>

definition log_entry :: "(string \<Rightarrow> int) \<Rightarrow> ProjectVersionData \<Rightarrow> Revision \<Rightarrow> LogEntry" where
  "log_entry timestr pd r =
     \<lparr>entry_data =
        \<lparr>log_date = timestr (rev_date r), log_author = Some (rev_author r), log_version = Some (rev_number r),
         plus_lines = 0, minus_lines = 0, log_major = Some (prcs_major pd), log_minor = Some (prcs_minor pd),
         log_parents = parents pd, log_deleted = deleted pd\<rparr>,
      old_fmt_parent = None, old_fmt_descend = None\<rparr>"

text \<open>What a version and its revision must be, at an index of the array.\<close>

definition revision_ok :: "(string \<Rightarrow> int) \<Rightarrow> nat \<Rightarrow> ProjectVersionData \<Rightarrow> Revision \<Rightarrow> bool" where
  "revision_ok timestr i pd r \<longleftrightarrow> i < 2 ^ 30 \<and>
     label_match (prcs_major pd) \<and> label_match (prcs_minor pd) \<and> list_all (\<lambda>p. p < i) (parents pd) \<and>
     rev_number r \<in> texts rcnum \<and> rev_date r \<in> texts tad \<and> 0 < timestr (rev_date r) \<and>
     rev_author r \<in> texts login \<and> label_match (rev_state r) \<and>
     (\<forall>p m. rev_lines r = Some (p, m) \<longrightarrow> p \<in> texts num \<and> m \<in> texts num)"

lemma assign_int_plain: "plain (assign_int x)"
  using num_plain [OF print_nat_num] by (simp add: assign_int_def)

lemma log_tokens:
  assumes "revision_ok timestr i pd r" and "log_parents (entry_data e) = []"
  shows "\<exists>t'. version_tokens timestr i e (line_start t (format_version_log v0 v1 v2 pd @ rest)) =
    version_tokens timestr i
      (upd_data (\<lambda>v. v\<lparr>log_major := Some (prcs_major pd), log_minor := Some (prcs_minor pd),
         log_parents := parents pd, log_deleted := deleted pd \<or> log_deleted v\<rparr>) e) (line_start t' rest)"
proof -
  let ?e1 = "upd_data (log_minor_update (\<lambda>_. Some (prcs_minor pd)))
    (upd_data (log_major_update (\<lambda>_. Some (prcs_major pd))) e)"
  let ?e2 = "upd_data (log_parents_update (\<lambda>_. parents pd)) ?e1"
  let ?rest1 = "(if deleted pd then ''PRCS version deleted'' @ newline else []) @ rest"
  let ?rest2 = "(case parents pd of
        [] \<Rightarrow> [] | p # ps \<Rightarrow> ''PRCS parent indices: '' @ print_nat p @ concat (map (\<lambda>i. '':'' @ print_nat i) ps) @ newline) @
     ?rest1"
  have ok: "label_match (prcs_major pd)" "label_match (prcs_minor pd)" "list_all (\<lambda>p. p < i) (parents pd)" "i < 2 ^ 30"
    using assms(1) by (simp_all add: revision_ok_def)
  have "yylex (line_start t (format_version_log v0 v1 v2 pd @ rest)) =
      (PrcsMajorVersion, line_start (prcs_major pd) (''PRCS minor version: '' @ prcs_minor pd @ newline @ ?rest2))"
    using lex_header [OF in_header_names(10), of
        "'' '' @ assign_int v0 @ '' '' @ assign_int v1 @ '' '' @ assign_int v2" t
        "''PRCS major version: '' @ prcs_major pd @ newline @ ''PRCS minor version: '' @ prcs_minor pd @ newline @ ?rest2"]
      lex_major [OF ok(1)] assign_int_plain by (simp add: format_version_log_def)
  then have "version_tokens timestr i e (line_start t (format_version_log v0 v1 v2 pd @ rest)) =
      version_tokens timestr i ?e1 (line_start (prcs_minor pd) ?rest2)"
    using version_tokens_token(5) [OF lex_minor [OF ok(2)] refl]
    by (simp only: version_tokens_token(4) [OF _ refl] VcScanner.simps)
  also obtain t2 where "\<dots> = version_tokens timestr i ?e2 (line_start t2 ?rest1)"
  proof (cases "parents pd")
    case Nil
    have "?e2 = ?e1" using Nil assms(2) by (cases "entry_data e") (simp add: upd_data_def)
    then show ?thesis using Nil that [of "prcs_minor pd"] by simp
  next
    case (Cons p ps)
    have digits: "list_all (\<lambda>n. n \<in> texts num) (map print_nat (p # ps))"
      by (simp add: list_all_iff print_nat_num)
    have pi: "parent_indices i (with_colons (map print_nat (p # ps))) (entry_data ?e1) =
        Inr (entry_data ?e2)"
      using parent_indices_print [of "p # ps" i "entry_data ?e1"] ok(3,4) assms(2) Cons
      by (simp add: upd_data_def)
    have "?rest2 = ''PRCS parent indices: '' @ with_colons (map print_nat (p # ps)) @ newline @ ?rest1"
      unfolding parents_with_colons [symmetric] by (simp add: Cons)
    then show ?thesis
      using version_tokens_token(7) [OF lex_parents [OF _ digits] refl] pi that
      by (simp add: upd_data_def del: with_colons.simps)
  qed
  also obtain t3 where "\<dots> = version_tokens timestr i
      (upd_data (\<lambda>v. v\<lparr>log_deleted := deleted pd \<or> log_deleted v\<rparr>) ?e2) (line_start t3 rest)"
  proof (cases "deleted pd")
    case True
    then show ?thesis
      using version_tokens_token(6) [OF lex_deleted refl, of timestr i ?e2 t2 rest] that
      by (simp add: upd_data_def)
  next
    case False
    have "upd_data (\<lambda>v. v\<lparr>log_deleted := deleted pd \<or> log_deleted v\<rparr>) ?e2 = ?e2"
      using False by (cases "entry_data e") (simp add: upd_data_def)
    then show ?thesis using False that [of t2] by simp
  qed
  finally show ?thesis by (auto simp: upd_data_def)
qed

lemma body_tokens:
  assumes ok: "revision_ok timestr i pd r"
  shows "\<exists>t'. version_tokens timestr i (new_entry (rev_number r))
      (line_start t (revision_body r (format_version_log v0 v1 v2 pd) @ rest)) =
    version_tokens timestr i (log_entry timestr pd r) (line_start t' rest)"
proof -
  let ?log = "format_version_log v0 v1 v2 pd @ rest"
  let ?lines = "case rev_lines r of None \<Rightarrow> [] | Some (p, m) \<Rightarrow> ''  lines: '' @ (''+'' @ p @ '' -'' @ m)"
  let ?x = "''  author: '' @ rev_author r @ '';  state: '' @ rev_state r @ '';'' @ ?lines"
  let ?e1 = "upd_data (log_date_update (\<lambda>_. timestr (rev_date r))) (new_entry (rev_number r))"
  let ?e2 = "upd_data (log_author_update (\<lambda>_. Some (rev_author r))) ?e1"
  have p: "rev_date r \<in> texts tad" "rev_author r \<in> texts login" "label_match (rev_state r)"
    "\<And>p m. rev_lines r = Some (p, m) \<Longrightarrow> p \<in> texts num \<and> m \<in> texts num"
    using ok by (auto simp: revision_ok_def)
  have "plain (rev_author r)"
    using login_chars [OF p(2)] isdigit_chars idchar_not by (auto simp: plain_def list_all_iff)
  then have x: "plain ?x" using label_plain [OF p(3)] p(4) num_plain by (auto split: option.split)
  have d: "yylex (line_start t (revision_body r (format_version_log v0 v1 v2 pd) @ rest)) =
      (RlogDate, mid_line (rev_date r)
        ('';  author: '' @ rev_author r @ CHR '';'' # (''  state: '' @ rev_state r @ '';'' @ ?lines @ newline @ ?log)))"
    using lex_date [OF p(1) x, of t ?log] by (simp add: revision_body_def)
  have "version_tokens timestr i (new_entry (rev_number r))
      (line_start t (revision_body r (format_version_log v0 v1 v2 pd) @ rest)) =
    version_tokens timestr i ?e2
      (mid_line (rev_author r) ('';  state: '' @ rev_state r @ '';'' @ ?lines @ newline @ ?log))"
    using version_tokens_token(2) [OF d refl] version_tokens_token(3) [OF lex_author [OF p(2)] refl]
    by simp
  also obtain t2 where "\<dots> = version_tokens timestr i ?e2 (line_start t2 ?log)"
  proof (cases "rev_lines r")
    case None
    then show ?thesis
      using version_tokens_lex [OF lex_state(1) [OF p(3)], of timestr i ?e2 "rev_author r" ?log] that by simp
  next
    case (Some pm)
    then obtain a b where ab: "rev_lines r = Some (a, b)" "a \<in> texts num" "b \<in> texts num"
      using p(4) by (cases pm) auto
    then show ?thesis
      using version_tokens_lex [OF lex_state(2) [OF p(3)], of timestr i ?e2 "rev_author r"
          "'' lines: '' @ (''+'' @ a @ '' -'' @ b) @ newline @ ?log"]
        version_tokens_token(1) [OF lex_lines [OF ab(2,3)] refl, of timestr i ?e2 "rev_author r" ?log] that
      by simp
  qed
  also obtain t3 where "\<dots> = version_tokens timestr i
      (upd_data (\<lambda>v. v\<lparr>log_major := Some (prcs_major pd), log_minor := Some (prcs_minor pd),
         log_parents := parents pd, log_deleted := deleted pd \<or> log_deleted v\<rparr>) ?e2) (line_start t3 rest)"
    using log_tokens [OF ok, of ?e2 t2 v0 v1 v2 rest]
    by (auto simp: upd_data_def new_entry_def new_ProjectVersionData_def)
  also have "upd_data (\<lambda>v. v\<lparr>log_major := Some (prcs_major pd), log_minor := Some (prcs_minor pd),
         log_parents := parents pd, log_deleted := deleted pd \<or> log_deleted v\<rparr>) ?e2 = log_entry timestr pd r"
    by (simp add: upd_data_def new_entry_def new_ProjectVersionData_def log_entry_def)
  finally show ?thesis by blast
qed

definition version_text :: "int \<Rightarrow> int \<Rightarrow> int \<Rightarrow> ProjectVersionData \<times> Revision \<Rightarrow> string" where
  "version_text v0 v1 v2 x = revision_text (snd x) (format_version_log v0 v1 v2 (fst x))"

text \<open>The text behind the number of the last of \<open>n\<close> versions: what is left to read.\<close>

definition text_below :: "int \<Rightarrow> int \<Rightarrow> int \<Rightarrow> (ProjectVersionData \<times> Revision) list \<Rightarrow> nat \<Rightarrow> string" where
  "text_below v0 v1 v2 vs n =
     concat (map (version_text v0 v1 v2) (rev (take n vs))) @ replicate 77 CHR ''='' @ newline"

definition body_below :: "int \<Rightarrow> int \<Rightarrow> int \<Rightarrow> (ProjectVersionData \<times> Revision) list \<Rightarrow> nat \<Rightarrow> string" where
  "body_below v0 v1 v2 vs n =
     revision_body (snd (vs ! n)) (format_version_log v0 v1 v2 (fst (vs ! n))) @ text_below v0 v1 v2 vs n"

lemma lex_text_below:
  assumes "n \<le> length vs" and "\<forall>i < length vs. revision_ok timestr i (fst (vs ! i)) (snd (vs ! i))"
  shows "yylex (line_start t (text_below v0 v1 v2 vs n)) =
    (case n of 0 \<Rightarrow> (NoTokenMatch, line_start t [])
     | Suc k \<Rightarrow> (RlogVersion, line_start (rev_number (snd (vs ! k))) (body_below v0 v1 v2 vs k)))"
proof (cases n)
  case 0
  have "(77 :: nat) = Suc 76" by simp
  then show ?thesis using 0 lex_equals [of t 76 "[]"] lex_end [of t] unfolding text_below_def by simp
next
  case (Suc k)
  have "rev_number (snd (vs ! k)) \<in> texts rcnum" using assms Suc by (simp add: revision_ok_def)
  moreover have "(28 :: nat) = Suc 27" by simp
  moreover have "take n vs = take k vs @ [vs ! k]" using assms(1) Suc by (simp add: take_Suc_conv_app_nth)
  ultimately show ?thesis using Suc
      lex_dashes [of t 27 "''revision '' @ rev_number (snd (vs ! k)) @ newline @ body_below v0 v1 v2 vs k"]
      lex_revision [of "rev_number (snd (vs ! k))" t "body_below v0 v1 v2 vs k"]
    by (simp add: text_below_def version_text_def revision_text_def body_below_def)
qed

definition entry_of :: "(string \<Rightarrow> int) \<Rightarrow> ProjectVersionData \<times> Revision \<Rightarrow> LogEntry" where
  "entry_of timestr x = log_entry timestr (fst x) (snd x)"

lemma read_versions_text:
  assumes "n \<le> length vs" and "\<forall>i < length vs. revision_ok timestr i (fst (vs ! i)) (snd (vs ! i))"
    and "0 < n \<Longrightarrow> sc = line_start (rev_number (snd (vs ! (n - 1)))) (body_below v0 v1 v2 vs (n - 1))"
  shows "\<exists>sc'. read_versions timestr (0 < n \<or> m) n es sc = (Inr (map (entry_of timestr) (take n vs) @ es), sc')"
  using assms(1,3)
proof (induction n arbitrary: es sc m)
  case (Suc k)
  let ?r = "snd (vs ! k)" and ?pd = "fst (vs ! k)"
  have ok: "revision_ok timestr k ?pd ?r" using assms(2) Suc.prems(1) by simp
  have k: "k \<le> length vs" using Suc.prems(1) by simp
  obtain t where t: "version_tokens timestr k (new_entry (rev_number ?r)) sc =
      version_tokens timestr k (log_entry timestr ?pd ?r) (line_start t (text_below v0 v1 v2 vs k))"
    using body_tokens [OF ok, of "rev_number ?r" v0 v1 v2 "text_below v0 v1 v2 vs k"] Suc.prems(2)
    by (auto simp: body_below_def)
  obtain sc1 where sc1: "version_tokens timestr k (new_entry (rcs_text sc)) sc =
      (Inr (0 < k, entry_of timestr (vs ! k)), sc1)"
    "0 < k \<Longrightarrow> sc1 = line_start (rev_number (snd (vs ! (k - 1)))) (body_below v0 v1 v2 vs (k - 1))"
  proof (cases k)
    case 0
    then have "yylex (line_start t (text_below v0 v1 v2 vs k)) = (NoTokenMatch, line_start t [])"
      using lex_text_below [OF k assms(2)] by simp
    then show ?thesis using version_tokens_token(8) [of _ NoTokenMatch] t Suc.prems(2) that 0
      by (simp add: entry_of_def)
  next
    case (Suc j)
    then have "yylex (line_start t (text_below v0 v1 v2 vs k)) =
        (RlogVersion, line_start (rev_number (snd (vs ! j))) (body_below v0 v1 v2 vs j))"
      using lex_text_below [OF k assms(2)] by simp
    then show ?thesis using version_tokens_token(8) [of _ RlogVersion] t Suc.prems(2) that Suc
      by (simp add: entry_of_def)
  qed
  have "ProjectVersionData_OK (entry_data (entry_of timestr (vs ! k)))"
    using ok by (simp add: entry_of_def log_entry_def ProjectVersionData_OK_def RcsVersionData_OK_def revision_ok_def)
  then show ?case
    using Suc.IH [OF k sc1(2), of False "entry_of timestr (vs ! k) # es"] sc1(1) Suc.prems(1)
    by (auto simp: take_Suc_conv_app_nth)
qed simp

text \<open>
  A history that the log can hold: an array of versions with their revisions in the file, of a length
  that the program can make arrays of.
\<close>

definition history_ok :: "(string \<Rightarrow> int) \<Rightarrow> (ProjectVersionData \<times> Revision) list \<Rightarrow> bool" where
  "history_ok timestr vs \<longleftrightarrow>
     length vs < 2 ^ 30 \<and>
     (\<forall>i < length vs.
        revision_ok timestr i (fst (vs ! i)) (snd (vs ! i)) \<and>
        rcs_version (fst (vs ! i)) = rev_number (snd (vs ! i)) \<and>
        version_index (fst (vs ! i)) = int i)"

definition run_of_rlog ::
  "string \<Rightarrow> string \<Rightarrow> string \<Rightarrow> int \<Rightarrow> int \<Rightarrow> int \<Rightarrow> (ProjectVersionData \<times> Revision) list \<Rightarrow> Rlog" where
  "run_of_rlog file working head v0 v1 v2 vs =
     \<lparr>rlog_output = Inr (rlog_text file working head (map (\<lambda>(pd, r). (r, format_version_log v0 v1 v2 pd)) vs)),
      rlog_status = Inr 0\<rparr>"

lemma fix_no_names: "list_all (\<lambda>n. n = None) names \<Longrightarrow> length names = length pvda \<Longrightarrow> fix_version_data names pvda = pvda"
proof -
  assume n: "list_all (\<lambda>n. n = None) names" "length names = length pvda"
  have "fold (fix_one names) is pvda = pvda" if "set is \<subseteq> {..<length pvda}" for "is"
    using that n by (induction "is") (auto simp: fix_one_def list_all_length)
  from this [of "[0..<length pvda]"] show ?thesis by (simp add: fix_version_data_def lessThan_atLeast0)
qed

lemma atoi_total: "n < 2 ^ 30 \<Longrightarrow> atoi (print_nat n @ CHR '';'' # s) = int n"
proof -
  assume n: "n < 2 ^ 30"
  obtain c cs where p: "print_nat n = c # cs" using print_nat_digits by (cases "print_nat n") auto
  have d: "isdigit c" using print_nat_digits [of n] p by simp
  have "\<not> isspace c" "c \<noteq> CHR ''-''" "c \<noteq> CHR ''+''"
    using d by (auto simp: isspace_def isdigit_def)
  then have "atoi ((c # cs) @ CHR '';'' # s) = int_of_long (digits_val 0 ((c # cs) @ CHR '';'' # s))"
    by (simp add: atoi_def del: digits_val.simps)
  also have "\<dots> = int_of_long (digits_val (int n) (CHR '';'' # s))"
    using digits_val_append [of "c # cs" 0 "CHR '';'' # s"] print_nat_digits [of n] digits_val_print [of n] p
    by (simp del: digits_val.simps)
  finally show ?thesis using p n by (simp add: isdigit_chars int_of_long_id)
qed

lemma lex_rlog_header:
  assumes "plain file" and "plain working" and "plain head"
  shows "\<exists>x. yylex (line_start t (rlog_header_text file working head n @ rest)) =
    (RlogTotalRevisions, line_start (print_nat n @ CHR '';'' # x) (''description:'' @ [] @ newline @ rest))"
proof -
  have tail: "plain ('';'' @ [CHR 0x09] @ ''selected revisions: '' @ print_nat n)"
    using num_plain [OF print_nat_num] by simp
  have colon: "plain '':''" and kv: "plain '' kv''" by simp_all
  show ?thesis
    using lex_total [OF print_nat_num tail, of t n "''description:'' @ [] @ newline @ rest"]
    unfolding rlog_header_text_def append_assoc
    by (simp only: lex_blank lex_header [OF in_header_names(1)] lex_header [OF in_header_names(2)]
        lex_header [OF in_header_names(3)] lex_header [OF in_header_names(4)] lex_header [OF in_header_names(5)]
        lex_header [OF in_header_names(6)] lex_header [OF in_header_names(7)] lex_header [OF in_header_names(8)]
        assms plain_Nil colon kv) auto
qed

lemma version_array_entries:
  assumes "history_ok timestr vs"
  shows "version_array (map entry_data (map (entry_of timestr) vs)) = map fst vs"
proof (rule nth_equalityI)
  fix i assume "i < length (version_array (map entry_data (map (entry_of timestr) vs)))"
  then have i: "i < length vs" by simp
  have ok: "rcs_version (fst (vs ! i)) = rev_number (snd (vs ! i))" "version_index (fst (vs ! i)) = int i"
    using assms i by (simp_all add: history_ok_def)
  show "version_array (map entry_data (map (entry_of timestr) vs)) ! i = map fst vs ! i"
    using i ok by (cases "fst (vs ! i)")
      (simp add: version_array_nth version_at_index_def entry_of_def log_entry_def)
qed simp

lemma rlog_text_versions:
  "rlog_text file working head (map (\<lambda>(pd, r). (r, format_version_log v0 v1 v2 pd)) vs) =
     rlog_header_text file working head (length vs) @ text_below v0 v1 v2 vs (length vs)"
  by (simp add: rlog_text_def text_below_def rev_map version_text_def [abs_def] comp_def case_prod_unfold)

lemma history_read:
  assumes "history_ok timestr vs" and "plain file" and "plain working" and "plain head"
  shows "fst (VC_get_project_version_data timestr (run_of_rlog file working head v0 v1 v2 vs) sc) =
    Inr (map fst vs)"
proof -
  let ?text = "rlog_header_text file working head (length vs) @ text_below v0 v1 v2 vs (length vs)"
  have ok: "\<forall>i < length vs. revision_ok timestr i (fst (vs ! i)) (snd (vs ! i))"
    using assms(1) by (simp add: history_ok_def)
  have len: "length vs < 2 ^ 30" using assms(1) by (simp add: history_ok_def)
  obtain x where x: "yylex (line_start (rcs_text sc) ?text) =
      (RlogTotalRevisions, line_start (print_nat (length vs) @ CHR '';'' # x)
         (''description:'' @ [] @ newline @ text_below v0 v1 v2 vs (length vs)))"
    using lex_rlog_header [OF assms(2-4)] by blast
  have start: "sc\<lparr>at_bol := True, vc_input := ?text\<rparr> = line_start (rcs_text sc) ?text"
    by (cases sc) simp
  let ?t = "print_nat (length vs) @ CHR '';'' # x"
  let ?sc1 = "line_start ?t (''description:'' @ [] @ newline @ text_below v0 v1 v2 vs (length vs))"
  have opened: "open_rlog (run_of_rlog file working head v0 v1 v2 vs) sc = (Inr (int (length vs)), ?sc1)"
    using x [folded start]
    by (simp add: open_rlog_def run_of_rlog_def clift_def expect_def get_token_def VC_get_token_def
        rlog_text_versions cmd_simps atoi_total [OF len])
  show ?thesis
  proof (cases "vs = []")
    case True
    then show ?thesis
      using opened by (simp add: VC_get_project_version_data_def cmd_simps version_array_def fix_version_data_def)
  next
    case False
    then obtain n where n: "length vs = Suc n" by (cases vs) auto
    have closed: "close_rlog (run_of_rlog file working head v0 v1 v2 vs) sc' = (Inr (), sc')" for sc'
      by (simp add: close_rlog_def run_of_rlog_def clift_def cmd_simps)
    let ?sc2 = "line_start (rev_number (snd (vs ! n))) (body_below v0 v1 v2 vs n)"
    have "yylex ?sc1 = (RlogVersion, ?sc2)"
      using lex_header [OF in_header_names(9) plain_Nil, of ?t "text_below v0 v1 v2 vs (length vs)"]
        lex_text_below [OF order.refl ok, of ?t v0 v1 v2] n by simp
    then have second: "expect None RlogVersion ?sc1 = (Inr (), ?sc2)"
      by (simp add: expect_def get_token_def VC_get_token_def cmd_simps)
    obtain sc3 where "read_versions timestr True (length vs) [] ?sc2 = (Inr (map (entry_of timestr) vs), sc3)"
      using read_versions_text [OF order.refl ok, of ?sc2 v0 v1 v2 True "[]"] n by auto
    moreover have "fix_version_data (map old_fmt_descend (map (entry_of timestr) vs))
        (fix_version_data (map old_fmt_parent (map (entry_of timestr) vs))
          (map entry_data (map (entry_of timestr) vs))) = map entry_data (map (entry_of timestr) vs)"
      by (simp add: fix_no_names list_all_iff entry_of_def log_entry_def)
    ultimately show ?thesis
      using opened second False version_array_entries [OF assms(1)] closed len
      by (simp add: VC_get_project_version_data_def cmd_simps del: map_map read_versions.simps)
  qed
qed

section \<open>Reading has no undefined behaviour\<close>

lemma best_rule_from:
  "best_rule bol s rs = Some (n, act) \<Longrightarrow> \<exists>anchored r. (anchored, r, act) \<in> set rs \<and> match_length r s = Some n"
proof (induction rs arbitrary: n act)
  case (Cons x rs)
  obtain anchored r a where x: "x = (anchored, r, a)" by (cases x)
  have "best_rule bol s rs = Some (n, act) \<or> (match_length r s = Some n \<and> a = act)"
    using Cons.prems by (auto simp: x best_rule.simps split: option.splits if_splits)
  then show ?case
  proof
    assume "best_rule bol s rs = Some (n, act)"
    then show ?thesis using Cons.IH [of n act] by auto
  qed (auto simp: x)
qed simp

lemma parents_rule:
  "(anchored, r, Return PrcsParents f) \<in> set vc_rules \<Longrightarrow>
   f = line_from 21 \<and>
   r = Then (Lit ''PRCS parent indices: '') (Then (may (Then (Many (Then num (Lit '':''))) num)) (Lit newline))"
  unfolding vc_rules_def rule_defs arrow_rule_def run_rule_def
  by (simp only: list.set insert_iff empty_iff prod.inject action.inject action.distinct RcsToken.distinct simp_thms)

lemma yylex_parents:
  "yylex sc = (PrcsParents, sc') \<Longrightarrow>
   rcs_text sc' = [] \<or> rcs_text sc' \<in> texts (Then (Many (Then num (Lit '':''))) num)"
proof (induction sc arbitrary: sc' rule: yylex.induct)
  case (1 sc)
  have ne: "vc_input sc \<noteq> []" using "1.prems" by (auto simp: yylex.simps [of sc])
  obtain n act where m: "vc_match (at_bol sc) (vc_input sc) = (n, act)" by fastforce
  show ?case
  proof (cases act)
    case Skip
    then show ?thesis
      using "1.IH" [OF ne m [symmetric] refl refl Skip] "1.prems" ne m by (simp add: yylex.simps [of sc] Let_def)
  next
    case (Return t f)
    let ?yytext = "take n (vc_input sc)"
    have t: "t = PrcsParents" and sc': "rcs_text sc' = (case f of None \<Rightarrow> rcs_text sc | Some g \<Rightarrow> g ?yytext)"
      using "1.prems" ne m Return by (auto simp: yylex.simps [of sc] Let_def split: option.splits)
    have "best_rule (at_bol sc) (vc_input sc) vc_rules = Some (n, act)"
      using m Return by (auto simp: vc_match_def default_rule_def split: option.splits if_splits)
    then obtain anchored r where r: "(anchored, r, act) \<in> set vc_rules" "match_length r (vc_input sc) = Some n"
      using best_rule_from by blast
    then have f: "f = line_from 21" and
      "?yytext \<in> texts (Then (Lit ''PRCS parent indices: '')
         (Then (may (Then (Many (Then num (Lit '':''))) num)) (Lit newline)))"
      using parents_rule [of anchored r f] Return t by (auto simp: match_length_Some simp del: texts.simps)
    then obtain w where "?yytext = ''PRCS parent indices: '' @ w @ newline"
      "w = [] \<or> w \<in> texts (Then (Many (Then num (Lit '':''))) num)"
      unfolding may_def texts_Then [of _ "Lit ''PRCS parent indices: ''"] texts_Then [of _ "Or _ _"]
        texts.simps(1,4) by blast
    then show ?thesis using f sc' by (simp add: line_from_def killnl_def newline_def)
  qed
qed

lemma parents_have_piece:
  assumes "w \<in> texts (Then (Many (Then num (Lit '':''))) num)"
  shows "strtok_colon w \<noteq> []"
proof -
  have last: "split_colon (u @ v) \<noteq> [] \<and> last (split_colon (u @ v)) \<noteq> []"
    if "v \<noteq> []" "CHR '':'' \<notin> set v" for u v
    using that by (induction u) (auto simp: split_colon_no split: list.split)
  obtain u n where "w = u @ n" "n \<in> texts num" using assms unfolding texts_Then [of _ "Many _"] by blast
  then have "last (split_colon w) \<in> set (split_colon w) \<and> last (split_colon w) \<noteq> []"
    using last [of n u] num_chars [of n] isdigit_chars by (auto simp: texts_num list_all_iff)
  then show ?thesis by (auto simp: strtok_colon_def filter_empty_conv)
qed

lemma add_parents_err: "add_parents i ps v = Inl f \<Longrightarrow> \<exists>e. f = Err e"
  by (induction i ps v rule: add_parents.induct) (auto simp: Let_def split: if_splits)

lemma version_step_err: "version_step timestr i e sc = (Inl f, sc') \<Longrightarrow> \<exists>x. f = Err x"
proof -
  assume step: "version_step timestr i e sc = (Inl f, sc')"
  obtain t sc1 where t: "VC_get_token None sc = (t, sc1)" by fastforce
  have "t = PrcsParents \<Longrightarrow> rcs_text sc1 = [] \<or> strtok_colon (rcs_text sc1) \<noteq> []"
    using t yylex_parents [of sc sc1] parents_have_piece by (auto simp: VC_get_token_def)
  then show ?thesis
    using step add_parents_err unfolding version_step_def old_parent_def t
    by (auto simp: Let_def parent_indices_def split: if_splits sum.splits prod.splits)
qed

lemma version_tokens_err: "version_tokens timestr i e sc = (Inl f, sc') \<Longrightarrow> \<exists>x. f = Err x"
proof (induction timestr i e sc rule: version_tokens.induct)
  case (1 timestr i e sc)
  obtain r sc1 where s: "version_step timestr i e sc = (r, sc1)" by fastforce
  show ?case
  proof (cases r)
    case (Inl g)
    then show ?thesis using "1.prems" s version_step_err by (auto simp: version_tokens.simps [of timestr i e sc])
  next
    case (Inr be)
    then show ?thesis using "1.prems" "1.IH" s
      by (cases be) (auto simp: version_tokens.simps [of timestr i e sc] split: if_splits option.splits)
  qed
qed

text \<open>The revisions that are left in the output.\<close>

function versions_left :: "VcScanner \<Rightarrow> nat" where
  "versions_left sc =
     (case VC_get_token None sc of (vclex, sc') \<Rightarrow>
        if vclex = NoTokenMatch then 0
        else if vclex = RlogVersion then Suc (versions_left sc') else versions_left sc')"
  by pat_completeness auto
termination
  by (relation "measure (\<lambda>sc. length (vc_input sc))") (auto dest!: VC_get_token_shorter [OF sym])

declare versions_left.simps [simp del]

lemma version_step_left:
  assumes "version_step timestr i e sc = (Inr (r, e'), sc')"
  shows "versions_left sc =
    (case r of None \<Rightarrow> versions_left sc' | Some found \<Rightarrow> if found then Suc (versions_left sc') else 0)"
proof -
  obtain t sc1 where t: "VC_get_token None sc = (t, sc1)" by fastforce
  have old: "r = None \<and> versions_left sc1 = versions_left sc'"
    if "old_parent m rn e sc1 = (Inr (r, e'), sc')" "m \<noteq> RlogVersion" "m \<noteq> NoTokenMatch" for m rn
    using that by (auto simp: old_parent_def versions_left.simps [of sc1] split: prod.splits if_splits)
  consider "t = PrcsDescendsMajorVersion" | "t = PrcsParentMajorVersion"
    | "t \<noteq> PrcsDescendsMajorVersion" "t \<noteq> PrcsParentMajorVersion" by blast
  then show ?thesis
  proof cases
    case 1
    then have "old_parent PrcsDescendsMinorVersion (\<lambda>n e. e\<lparr>old_fmt_descend := Some n\<rparr>) e sc1 = (Inr (r, e'), sc')"
      using assms unfolding version_step_def t by (simp add: Let_def)
    from old [OF this] show ?thesis using 1 by (simp add: versions_left.simps [of sc] t)
  next
    case 2
    then have "old_parent PrcsParentMinorVersion (\<lambda>n e. e\<lparr>old_fmt_parent := Some n\<rparr>) e sc1 = (Inr (r, e'), sc')"
      using assms unfolding version_step_def t by (simp add: Let_def)
    from old [OF this] show ?thesis using 2 by (simp add: versions_left.simps [of sc] t)
  next
    case 3
    then show ?thesis using assms unfolding version_step_def t
      by (auto simp: Let_def versions_left.simps [of sc] t split: if_splits sum.splits)
  qed
qed

lemma version_tokens_left:
  "version_tokens timestr i e sc = (Inr (found, e'), sc') \<Longrightarrow>
   versions_left sc = (if found then Suc (versions_left sc') else 0)"
proof (induction timestr i e sc rule: version_tokens.induct)
  case (1 timestr i e sc)
  obtain r sc1 where s: "version_step timestr i e sc = (r, sc1)" by fastforce
  then obtain b e1 where r: "r = Inr (b, e1)"
    using "1.prems" by (cases r) (auto simp: version_tokens.simps [of timestr i e sc])
  show ?case
    using "1.prems" version_step_left [OF s [unfolded r]] "1.IH" [OF s [symmetric, unfolded r] refl refl]
    by (cases b) (auto simp: version_tokens.simps [of timestr i e sc] s r)
qed

lemma read_versions_err:
  "read_versions timestr found n es sc = (Inl f, sc') \<Longrightarrow>
   (0 < n \<Longrightarrow> found \<and> n \<le> Suc (versions_left sc)) \<Longrightarrow> \<exists>x. f = Err x"
proof (induction timestr found n es sc rule: read_versions.induct)
  case (2 timestr found idx es sc)
  have found: "found" "idx \<le> versions_left sc" using "2.prems"(2) by simp_all
  obtain r sc1 where r: "version_tokens timestr idx (new_entry (rcs_text sc)) sc = (r, sc1)" by fastforce
  show ?case
  proof (cases r)
    case (Inl g)
    then show ?thesis using "2.prems"(1) r found version_tokens_err by auto
  next
    case (Inr x)
    obtain found' e where x: "x = (found', e)" by (cases x)
    note left = version_tokens_left [OF r [unfolded Inr x]]
    show ?thesis
    proof (cases "ProjectVersionData_OK (entry_data e)")
      case True
      have "read_versions timestr found' idx (e # es) sc1 = (Inl f, sc')"
        using "2.prems"(1) found True r Inr x by simp
      moreover have "0 < idx \<Longrightarrow> found' \<and> idx \<le> Suc (versions_left sc1)"
        using left found(2) by (cases found') simp_all
      ultimately show ?thesis
        using "2.IH" [OF _ r [symmetric] Inr x [symmetric] True] found(1) by blast
    next
      case False
      then show ?thesis using "2.prems"(1) found r Inr x by auto
    qed
  qed
qed simp

section \<open>What the program relies on\<close>

text \<open>A failure is an error token, which the program reports.\<close>

definition is_error :: "failure \<Rightarrow> bool" where
  "is_error f \<longleftrightarrow> (\<exists>x. f = Err x)"

definition rlog_fails_with_errors :: "Rlog \<Rightarrow> bool" where
  "rlog_fails_with_errors rlog \<longleftrightarrow>
     (\<forall>f. rlog_output rlog = Inl f \<longrightarrow> is_error f) \<and> (\<forall>f. rlog_status rlog = Inl f \<longrightarrow> is_error f)"

text \<open>
  The output has the revisions that it announces, and no more than the program can make arrays of.
\<close>

definition rlog_complete :: "Rlog \<Rightarrow> VcScanner \<Rightarrow> bool" where
  "rlog_complete rlog sc \<longleftrightarrow>
     (case open_rlog rlog sc of
        (Inl _, _) \<Rightarrow> True
      | (Inr rev_count, sc') \<Rightarrow> rev_count < 2 ^ 30 \<and> rev_count \<le> int (versions_left sc'))"

lemma read_versions_left:
  "read_versions timestr found n es sc = (Inr es', sc') \<Longrightarrow> 0 < n \<Longrightarrow> found \<and> n \<le> Suc (versions_left sc)"
proof (induction timestr found n es sc rule: read_versions.induct)
  case (2 timestr found idx es sc)
  have found: "found" using "2.prems"(1) by (simp split: if_splits)
  obtain found' e sc1 where e: "version_tokens timestr idx (new_entry (rcs_text sc)) sc = (Inr (found', e), sc1)"
    "ProjectVersionData_OK (entry_data e)" "read_versions timestr found' idx (e # es) sc1 = (Inr es', sc')"
    using "2.prems"(1) found by (auto split: prod.splits sum.splits if_splits)
  have "0 < idx \<Longrightarrow> found' \<and> idx \<le> Suc (versions_left sc1)"
    using "2.IH" [OF _ e(1) [symmetric] refl refl e(2,3)] found by blast
  then show ?case using found version_tokens_left [OF e(1)] by (cases idx) auto
qed simp

lemma read_complete:
  assumes "VC_get_project_version_data timestr rlog sc = (Inr arr, sc')"
  shows "rlog_complete rlog sc"
proof -
  obtain o' sc1 where o': "open_rlog rlog sc = (o', sc1)" by fastforce
  then obtain n where n: "o' = Inr n" using assms by (cases o') (auto simp: VC_get_project_version_data_def cmd_simps)
  have lt: "n < 2 ^ 30"
    using assms o' n by (auto simp: VC_get_project_version_data_def cmd_simps split: if_splits)
  moreover have "n \<le> int (versions_left sc1)"
  proof (cases "0 < n")
    case True
    obtain t sc2 where t: "VC_get_token None sc1 = (t, sc2)" by fastforce
    obtain r sc3 where r: "read_versions timestr True (nat n) [] sc2 = (r, sc3)" by fastforce
    have tv: "t = RlogVersion"
      using assms o' n lt True t by (auto simp: VC_get_project_version_data_def expect_def get_token_def cmd_simps split: if_splits)
    then obtain es where "r = Inr es"
      using assms o' n lt True t r
      by (cases r) (auto simp: VC_get_project_version_data_def expect_def get_token_def cmd_simps)
    then have "nat n \<le> Suc (versions_left sc2)" using read_versions_left r True by fastforce
    then show ?thesis using t tv by (simp add: versions_left.simps [of sc1])
  qed simp
  ultimately show ?thesis using o' n by (simp add: rlog_complete_def)
qed

text \<open>
  C34. Whatever \<open>rlog\<close> prints, as long as it lists the revisions that it announces, and however it ends,
  reading the versions of a project ends with an error that is reported or with an array in which every
  parent stands before its versions; no step of it is undefined. So the array is what the search for
  common ancestors needs.
\<close>

theorem rlog_read_safe:
  assumes "rlog_fails_with_errors rlog" and "rlog_complete rlog sc"
  shows "case fst (VC_get_project_version_data timestr rlog sc) of
      Inl f \<Rightarrow> is_error f | Inr arr \<Rightarrow> wf_versions arr \<and> parents_first arr"
proof -
  obtain r sc' where r: "VC_get_project_version_data timestr rlog sc = (r, sc')" by fastforce
  obtain o' sc1 where o': "open_rlog rlog sc = (o', sc1)" by fastforce
  show ?thesis
  proof (cases r)
    case (Inr arr)
    then show ?thesis using read_project_versions_wf r by simp
  next
    case (Inl f)
    have "is_error f"
    proof (cases o')
      case (Inl g)
      then have "is_error g"
        using o' assms(1) unfolding open_rlog_def expect_def get_token_def clift_def rlog_fails_with_errors_def is_error_def
        by (auto simp: cmd_simps split: sum.splits prod.splits if_splits)
      then show ?thesis using r o' Inl \<open>r = Inl f\<close> by (simp add: VC_get_project_version_data_def cmd_simps)
    next
      case (Inr n)
      have n: "n < 2 ^ 30" "n \<le> int (versions_left sc1)" using assms(2) o' Inr by (simp_all add: rlog_complete_def)
      obtain t sc2 where t: "VC_get_token None sc1 = (t, sc2)" by fastforce
      have left: "nat n \<le> Suc (versions_left sc2)" if "t = RlogVersion"
        using n(2) t that by (simp add: versions_left.simps [of sc1])
      have "is_error g" if "read_versions timestr True (nat n) [] sc2 = (Inl g, sc3)" "t = RlogVersion" for g sc3
        using read_versions_err [OF that(1)] left [OF that(2)] by (auto simp: is_error_def)
      then show ?thesis
        using r o' Inr \<open>r = Inl f\<close> assms(1) n(1) t
        unfolding VC_get_project_version_data_def close_rlog_def expect_def get_token_def clift_def
          rlog_fails_with_errors_def
        by (auto simp: cmd_simps is_error_def split: sum.splits prod.splits if_splits)
    qed
    then show ?thesis using r Inl by simp
  qed
qed

text \<open>
  C35. For two versions of an array that was read from \<open>rlog\<close>, the search for common versions ends and
  gives, each once, the common ancestors that no other common ancestor descends from.
\<close>

theorem read_history_common_versions:
  assumes "VC_get_project_version_data timestr rlog sc = (Inr arr, sc')"
    and "one \<in> set arr" and "two \<in> set arr"
  shows "\<exists>res. common_version arr one two = Some res \<and> distinct res \<and>
    (\<forall>v. v \<in> set res \<longleftrightarrow> v \<in> common_ancestors arr one two \<and>
      (\<forall>c \<in> common_ancestors arr one two. (c, v) \<notin> (parent_rel arr)\<^sup>+))"
proof -
  have wf: "wf_versions arr" using read_project_versions_wf [OF assms(1)] by simp
  then have "wf_node arr one" using assms(2) by (auto simp: wf_versions_def list_all_iff)
  then show ?thesis using common_version_result [OF wf _ assms(3)] by blast
qed

definition sample_history :: "(ProjectVersionData \<times> Revision) list" where
  "sample_history =
    [(\<lparr>prcs_major = ''main'', prcs_minor = ''1'', version_index = 0, parents = [],
       deleted = False, rcs_version = ''1.1''\<rparr>,
      \<lparr>rev_number = ''1.1'', rev_date = ''1997/01/02 03:04:05'', rev_author = ''jmacd'', rev_state = ''Exp'',
       rev_lines = None\<rparr>),
     (\<lparr>prcs_major = ''main'', prcs_minor = ''2'', version_index = 1, parents = [0],
       deleted = True, rcs_version = ''1.2''\<rparr>,
      \<lparr>rev_number = ''1.2'', rev_date = ''1997/01/03 03:04:05'', rev_author = ''josh-9'', rev_state = ''Exp'',
       rev_lines = Some (''12'', ''3'')\<rparr>)]"

lemma matches_text: "match_length r s = Some (length s) \<Longrightarrow> s \<in> texts r"
  using match_length_Some [of r s "length s"] by simp

lemma sample_texts:
  "''1.1'' \<in> texts rcnum" "''1.2'' \<in> texts rcnum" "''1997/01/02 03:04:05'' \<in> texts tad"
  "''1997/01/03 03:04:05'' \<in> texts tad" "''jmacd'' \<in> texts login" "''josh-9'' \<in> texts login"
  "''12'' \<in> texts num" "''3'' \<in> texts num"
  by (rule matches_text, code_simp)+

lemma sample_history_ok: "history_ok (\<lambda>d. int (length d)) sample_history"
proof -
  have labels: "label_match ''main''" "label_match ''1''" "label_match ''2''" "label_match ''Exp''"
    by code_simp+
  have lt: "i < length sample_history \<Longrightarrow> i = 0 \<or> i = 1" for i by (auto simp: sample_history_def)
  show ?thesis unfolding history_ok_def
    by (rule conjI, simp add: sample_history_def, intro allI impI, drule lt)
      (auto simp: sample_history_def revision_ok_def labels sample_texts simp del: label_match.simps)
qed

text \<open>
  C33. What a checkin writes into the log of the project file is what the program reads back: for any
  history of versions, \<open>rlog\<close> of the file whose revisions have the logs of \<open>format_version_log\<close>
  gives exactly the array of those versions, with their parents, deletions and numbers.
\<close>

theorem version_log_roundtrip:
  assumes "history_ok timestr vs" and "plain file" and "plain working" and "plain head"
  shows "fst (VC_get_project_version_data timestr (run_of_rlog file working head v0 v1 v2 vs) sc) =
    Inr (map fst vs)"
  using assms by (rule history_read)

theorem version_log_roundtrip_witness:
  "fst (VC_get_project_version_data (\<lambda>d. int (length d))
     (run_of_rlog '' main.prj,v'' '' main.prj'' '' 1.2'' 1 3 3 sample_history) (line_start [] [])) =
   Inr (map fst sample_history)"
  by (rule version_log_roundtrip [OF sample_history_ok]) simp_all

theorem rlog_read_safe_witness:
  "wf_versions (map fst sample_history) \<and> parents_first (map fst sample_history)"
proof -
  let ?rlog = "run_of_rlog '' main.prj,v'' '' main.prj'' '' 1.2'' 1 3 3 sample_history"
  let ?read = "VC_get_project_version_data (\<lambda>d. int (length d)) ?rlog (line_start [] [])"
  have "fst ?read = Inr (map fst sample_history)"
    by (rule history_read [OF sample_history_ok]) simp_all
  then obtain sc' where read: "?read = (Inr (map fst sample_history), sc')" by (cases ?read) auto
  have "rlog_fails_with_errors ?rlog" by (simp add: rlog_fails_with_errors_def run_of_rlog_def)
  from rlog_read_safe [OF this read_complete [OF read], of "\<lambda>d. int (length d)"]
  show ?thesis by (simp add: read)
qed

theorem read_history_common_versions_witness:
  "\<exists>sc' res. VC_get_project_version_data (\<lambda>d. int (length d))
     (run_of_rlog '' main.prj,v'' '' main.prj'' '' 1.2'' 1 3 3 sample_history) (line_start [] []) =
       (Inr (map fst sample_history), sc') \<and>
     common_version (map fst sample_history) (fst (sample_history ! 0)) (fst (sample_history ! 1)) = Some res"
proof -
  let ?read = "VC_get_project_version_data (\<lambda>d. int (length d))
     (run_of_rlog '' main.prj,v'' '' main.prj'' '' 1.2'' 1 3 3 sample_history) (line_start [] [])"
  have "fst ?read = Inr (map fst sample_history)"
    by (rule history_read [OF sample_history_ok]) simp_all
  then obtain sc' where r: "?read = (Inr (map fst sample_history), sc')" by (cases ?read) auto
  have "fst (sample_history ! 0) \<in> set (map fst sample_history)"
    "fst (sample_history ! 1) \<in> set (map fst sample_history)"
    by (simp_all add: sample_history_def)
  from read_history_common_versions [OF r this] r show ?thesis by blast
qed

end
