(* ===== verification/DataFile.thy ===== *)
theory DataFile
  imports RlogData
begin

text \<open>
  The data file of a repository (\<open>rebuild.cc\<close>, \<open>prcs_data\<close>): a header of four bytes, then sections, one of
  the versions of the project and one for every file with its versions. A rebuild writes it whole, a
  checkin appends a section for the new version and one for every new version of a file, and the next
  command reads it. Every number and string ends with a NUL but the checksum, which has 16 bytes.
\<close>

section \<open>Writing\<close>

text \<open>
  The data of a version of a file, with its length and the checksum of its text without keywords.
  \<open>operator<<\<close> prints a number in decimal, a string up to its NUL and a character as it is.
\<close>

record RcsFileData = RcsVersionData +
  data_length :: int
  unkeyed_checksum :: string

definition nul_str :: string where
  "nul_str = [NUL]"

definition data_file_header :: string where
  "data_file_header = [CHR 0x6E, CHR 0x9C, CHR 0x3A, CHR 0xFE]"

text \<open>In the first of the old headers \<open>\158\<close> is the character 13 and the digit 8.\<close>

definition old_data_file_headers :: "string list" where
  "old_data_file_headers =
     [[CHR 0x0D, CHR 0x38, CHR 0x9B, CHR 0x39, CHR 0xFD], [CHR 0x0D, CHR 0x39, CHR 0x9C, CHR 0x3A, CHR 0xFE]]"

definition data_file_length :: nat where
  "data_file_length = 4"

definition write_data_file_header :: string where
  "write_data_file_header = take data_file_length data_file_header"

definition write_data_file_project_info :: "ProjectLogData \<Rightarrow> string" where
  "write_data_file_project_info ver =
     assign_int (log_date ver) @ nul_str @ the (log_author ver) @ nul_str @ the (log_version ver) @ nul_str @
     assign_int (if log_deleted ver then 1 else 0) @ nul_str @
     the (log_major ver) @ nul_str @ the (log_minor ver) @ nul_str @
     assign_int (int (length (log_parents ver))) @ nul_str @
     concat (map (\<lambda>p. assign_int (int p) @ nul_str) (log_parents ver))"

definition write_data_file_rcs_info :: "RcsFileData \<Rightarrow> string" where
  "write_data_file_rcs_info ver =
     assign_int (log_date ver) @ nul_str @ assign_int (data_length ver) @ nul_str @ the (log_author ver) @ nul_str @
     the (log_version ver) @ nul_str @ assign_int (plus_lines ver) @ nul_str @ assign_int (minus_lines ver) @ nul_str @
     unkeyed_checksum ver"

definition write_data_file_project_summary :: "ProjectLogData list \<Rightarrow> string" where
  "write_data_file_project_summary project_summary =
     ''@'' @ assign_int (int (length project_summary)) @ nul_str @
     concat (map write_data_file_project_info project_summary)"

text \<open>The iterator sees the data of the entries of a table in their order (\<open>walk_entries\<close>).\<close>

definition write_data_file_rcs_file_summary :: "string \<Rightarrow> RcsFileData RcsDelta \<Rightarrow> string" where
  "write_data_file_rcs_file_summary name delta =
     (if insertion_count delta = 0 then []
      else ''#'' @ name @ nul_str @ ''$'' @ assign_int (insertion_count delta) @ nul_str @
        concat (map (\<lambda>e. write_data_file_rcs_info (snd e)) (entries_of delta)))"

text \<open>The file that \<open>rebuild_repository\<close> writes, and what a checkin appends to it.\<close>

definition write_data_file ::
  "ProjectLogData list \<Rightarrow> (string, RcsFileData RcsDelta) HashTable \<Rightarrow> string" where
  "write_data_file project_summary file_table =
     write_data_file_header @ write_data_file_project_summary project_summary @
     concat (map (\<lambda>(name, delta). write_data_file_rcs_file_summary name delta) (ht_items file_table))"

definition add_project_data :: "ProjectLogData \<Rightarrow> string" where
  "add_project_data data = ''@'' @ assign_int 1 @ nul_str @ write_data_file_project_info data"

definition add_rcs_file_data :: "string \<Rightarrow> RcsFileData \<Rightarrow> string" where
  "add_rcs_file_data new_file_name data =
     ''#'' @ new_file_name @ nul_str @ ''$'' @ assign_int 1 @ nul_str @ write_data_file_rcs_info data"

section \<open>Reading\<close>

text \<open>
  \<open>RebuildFile\<close> with the bytes from its offset to the end of the mapped segment. A string without
  a NUL before that end is read beyond the segment, which is undefined.
\<close>

record RebuildFile =
  seg_rest :: string
  project_data :: "ProjectLogData list"
  rcs_file_table :: "(string, RcsFileData RcsDelta) HashTable"

definition bad_data_file :: "(RebuildFile, 'a) cmd" where
  "bad_data_file = cthrow (Err NonFatalError)"

definition get_string :: "(RebuildFile, string) cmd" where
  "get_string =
     cbind (cget seg_rest) (\<lambda>rest.
     cthen (cdefined (CHR 0x00 \<in> set rest))
     (cthen (cupd (seg_rest_update (\<lambda>_. tl (dropWhile (\<lambda>c. c \<noteq> CHR 0x00) rest))))
     (creturn (takeWhile (\<lambda>c. c \<noteq> CHR 0x00) rest))))"

definition get_string_len :: "nat \<Rightarrow> (RebuildFile, string option) cmd" where
  "get_string_len len =
     cbind (cget seg_rest) (\<lambda>rest.
     if length rest < len then creturn None
     else cthen (cupd (seg_rest_update (drop len))) (creturn (Some (take len rest))))"

definition get_string_expected :: "string \<Rightarrow> (RebuildFile, bool) cmd" where
  "get_string_expected expected =
     cbind (cget seg_rest) (\<lambda>rest.
     if prefix expected rest
     then cthen (cupd (seg_rest_update (drop (length expected)))) (creturn True)
     else creturn False)"

text \<open>
  The loop of \<open>get_size\<close>: the value and, unless a character is no digit, the new position. An
  \<open>int\<close> that overflows is undefined.
\<close>

fun size_loop :: "char \<Rightarrow> int \<Rightarrow> string \<Rightarrow> failure + int \<times> string option" where
  "size_loop c acc [] = Inr (if c = CHR 0x00 then acc else - 1, Some [])"
| "size_loop _ acc (c # p) =
     (if c = CHR 0x00 then Inr (acc, Some p)
      else if \<not> isdigit c then Inr (- 1, None)
      else let acc' = 10 * acc + (of_char c - 48)
           in if 2 ^ 31 \<le> acc' then Inl Undefined else size_loop c acc' p)"

definition get_size :: "(RebuildFile, int) cmd" where
  "get_size =
     cbind (cget seg_rest) (\<lambda>rest.
     cbind (clift (size_loop (CHR 0x00) 0 rest)) (\<lambda>(acc, moved).
     cthen (case moved of None \<Rightarrow> creturn () | Some p \<Rightarrow> cupd (seg_rest_update (\<lambda>_. p)))
     (creturn acc)))"

definition get_count :: "(RebuildFile, int) cmd" where
  "get_count = cbind get_size (\<lambda>get. if get < 0 then bad_data_file else creturn get)"

definition read_header :: "(RebuildFile, unit) cmd" where
  "read_header =
     cbind (get_string_len data_file_length) (\<lambda>s. case s of
       None \<Rightarrow> bad_data_file
     | Some s \<Rightarrow>
         if list_ex (\<lambda>h. s = take data_file_length h) old_data_file_headers then cthrow (Err NonFatalError)
         else if s \<noteq> take data_file_length data_file_header then bad_data_file
         else creturn ())"

fun read_parent_indices :: "nat \<Rightarrow> ProjectLogData \<Rightarrow> (RebuildFile, ProjectLogData) cmd" where
  "read_parent_indices 0 ver = creturn ver"
| "read_parent_indices (Suc c) ver =
     cbind get_count (\<lambda>get. read_parent_indices c (new_parent (nat get) ver))"

definition read_project_version :: "(RebuildFile, ProjectLogData) cmd" where
  "read_project_version =
     cbind get_count (\<lambda>date.
     cbind get_string (\<lambda>author.
     cbind get_string (\<lambda>version.
     cbind get_count (\<lambda>is_deleted.
     cbind get_string (\<lambda>major.
     cbind get_string (\<lambda>minor.
     cbind get_count (\<lambda>count.
     read_parent_indices (nat count)
       (new_ProjectVersionData\<lparr>log_date := date, log_author := Some author, log_version := Some version,
         log_deleted := (is_deleted \<noteq> 0), log_major := Some major, log_minor := Some minor\<rparr>))))))))"

text \<open>\<open>set_plus_lines\<close> and \<open>set_minus_lines\<close> of a text.\<close>

definition lines_of :: "string \<Rightarrow> (RebuildFile, int) cmd" where
  "lines_of pls = (case strtol10 pls of (pl, endp) \<Rightarrow> cthen (cassert (endp = [])) (creturn pl))"

definition read_rcs_version :: "(RebuildFile, RcsFileData) cmd" where
  "read_rcs_version =
     cbind get_size (\<lambda>date.
     cbind get_size (\<lambda>len.
     if date < 0 \<or> len < 0 then bad_data_file
     else
       cbind get_string (\<lambda>author.
       cbind get_string (\<lambda>version.
       cbind get_string (\<lambda>pls.
       cbind get_string (\<lambda>mls.
       cbind (lines_of pls) (\<lambda>pl.
       cbind (lines_of mls) (\<lambda>ml.
       cbind (get_string_len 16) (\<lambda>cksum. case cksum of
         None \<Rightarrow> bad_data_file
       | Some ck \<Rightarrow>
           creturn \<lparr>log_date = date, log_author = Some author, log_version = Some version,
             plus_lines = pl, minus_lines = ml, data_length = len, unkeyed_checksum = ck\<rparr>)))))))))"

text \<open>The index of a version is its place in \<open>project_data\<close>.\<close>

fun read_project_versions :: "nat \<Rightarrow> (RebuildFile, unit) cmd" where
  "read_project_versions 0 = creturn ()"
| "read_project_versions (Suc n) =
     cbind read_project_version (\<lambda>ver.
     cthen (cupd (project_data_update (\<lambda>vs. vs @ [ver]))) (read_project_versions n))"

definition read_project_summary :: "(RebuildFile, unit) cmd" where
  "read_project_summary = cbind get_count (\<lambda>version_count. read_project_versions (nat version_count))"

fun read_rcs_versions :: "nat \<Rightarrow> RcsFileData RcsDelta \<Rightarrow> (RebuildFile, RcsFileData RcsDelta) cmd" where
  "read_rcs_versions 0 deltas = creturn deltas"
| "read_rcs_versions (Suc n) deltas =
     cbind read_rcs_version (\<lambda>ver.
     cbind (clift (delta_insert (the (log_version ver)) ver deltas)) (\<lambda>deltas'.
     cbind (clift (delta_lookup (the (log_version ver)) deltas')) (\<lambda>found.
     cthen (cassert (found = Some ver)) (read_rcs_versions n deltas'))))"

definition table_insert :: "string \<Rightarrow> RcsFileData RcsDelta \<Rightarrow> (RebuildFile, unit) cmd" where
  "table_insert name delta =
     cupd (rcs_file_table_update (\<lambda>t. ht_insert hash_string (=) t name delta))"

text \<open>The table of a file is changed in place, which is an insertion under its name.\<close>

definition read_rcs_file_summary :: "(RebuildFile, unit) cmd" where
  "read_rcs_file_summary =
     cbind get_string (\<lambda>read_file_name.
     cbind (cget (\<lambda>f. ht_lookup hash_string (=) (rcs_file_table f) read_file_name)) (\<lambda>lookup.
     cbind (case lookup of
         None \<Rightarrow> cthen (table_insert read_file_name new_RcsDelta) (creturn new_RcsDelta)
       | Some delta \<Rightarrow> creturn delta) (\<lambda>deltas.
     cbind (get_string_expected ''$'') (\<lambda>found.
     if \<not> found then bad_data_file
     else
       cbind get_count (\<lambda>num.
       cbind (read_rcs_versions (nat num) deltas) (\<lambda>deltas'.
       table_insert read_file_name deltas'))))))"

text \<open>The loop over the sections; every round reads a byte, so the length of the file is fuel enough.\<close>

fun read_sections :: "nat \<Rightarrow> (RebuildFile, unit) cmd" where
  "read_sections 0 = cthrow Aborted"
| "read_sections (Suc fuel) =
     cbind (get_string_len 1) (\<lambda>s. case s of
       None \<Rightarrow> creturn ()
     | Some s \<Rightarrow>
         if s = ''@'' then cthen read_project_summary (read_sections fuel)
         else if s = ''#'' then cthen read_rcs_file_summary (read_sections fuel)
         else bad_data_file)"

definition init_rebuild_file :: "string \<Rightarrow> (failure + unit) \<times> RebuildFile" where
  "init_rebuild_file seg =
     cthen read_header
       (cthen (read_sections (length seg + 1))
         (cbind (cget seg_rest) (\<lambda>rest. if rest = [] then creturn () else bad_data_file)))
       \<lparr>seg_rest = seg, project_data = [], rcs_file_table = ht_empty\<rparr>"

section \<open>Reading what was written\<close>

abbreviation at :: "ProjectLogData list \<Rightarrow> (string, RcsFileData RcsDelta) HashTable \<Rightarrow> string \<Rightarrow> RebuildFile" where
  "at ps tb s \<equiv> \<lparr>seg_rest = s, project_data = ps, rcs_file_table = tb\<rparr>"

definition no_NUL :: "string \<Rightarrow> bool" where
  "no_NUL s \<longleftrightarrow> CHR 0x00 \<notin> set s"

lemma get_string_at:
  assumes "no_NUL s"
  shows "get_string (at ps tb (s @ nul_str @ rest)) = (Inr s, at ps tb rest)"
proof -
  have "takeWhile (\<lambda>c. c \<noteq> CHR 0x00) (s @ nul_str @ rest) = s"
    "dropWhile (\<lambda>c. c \<noteq> CHR 0x00) (s @ nul_str @ rest) = nul_str @ rest"
    using assms unfolding nul_str_def no_NUL_def
    by (simp_all, (subst takeWhile_append2 dropWhile_append2; auto)+)
  then show ?thesis by (simp add: get_string_def cmd_simps nul_str_def)
qed

lemma digit_value: "isdigit c \<Longrightarrow> 0 \<le> (of_char c :: int) - 48"
proof -
  assume "isdigit c"
  then have "48 \<le> (of_char c :: nat)" by (simp add: isdigit_def)
  then have "48 \<le> int (of_char c)" by linarith
  then show ?thesis by (simp only: of_nat_of_char)
qed

lemma digits_val_mono: "0 \<le> a \<Longrightarrow> list_all isdigit ds \<Longrightarrow> a \<le> digits_val a ds"
proof (induction ds arbitrary: a)
  case (Cons c ds)
  have "0 \<le> (of_char c :: int) - 48" using Cons.prems(2) digit_value by simp
  then have "a \<le> 10 * a + (of_char c - 48)" using Cons.prems(1) by linarith
  also have "\<dots> \<le> digits_val (10 * a + (of_char c - 48)) ds"
    using Cons.prems \<open>a \<le> 10 * a + (of_char c - 48)\<close> by (intro Cons.IH) simp_all
  finally show ?case using Cons.prems(2) by simp
qed simp

lemma size_loop_digits:
  "0 \<le> a \<Longrightarrow> list_all isdigit ds \<Longrightarrow> digits_val a ds < 2 ^ 31 \<Longrightarrow>
   size_loop c a (ds @ nul_str @ rest) = Inr (digits_val a ds, Some rest)"
proof (induction ds arbitrary: a c)
  case (Cons d ds)
  let ?a = "10 * a + ((of_char d :: int) - 48)"
  have d: "isdigit d" "d \<noteq> CHR 0x00" using Cons.prems(2) by (auto simp: isdigit_def)
  have "0 \<le> (of_char d :: int) - 48" using digit_value [OF d(1)] .
  then have a: "0 \<le> ?a" using Cons.prems(1) by linarith
  have "?a < 2 ^ 31"
    using digits_val_mono [OF a, of ds] Cons.prems(2,3) d(1) by simp
  then show ?case using Cons.IH [OF a, of d] Cons.prems(2,3) d by simp
qed (simp add: nul_str_def)

definition in_int :: "int \<Rightarrow> bool" where
  "in_int n \<longleftrightarrow> 0 \<le> n \<and> n < 2 ^ 31"

lemma get_size_at:
  assumes "in_int n"
  shows "get_size (at ps tb (assign_int n @ nul_str @ rest)) = (Inr n, at ps tb rest)"
proof -
  have "digits_val 0 (print_nat (nat n)) = n" using assms by (simp add: in_int_def digits_val_print)
  then have "size_loop (CHR 0x00) 0 (assign_int n @ nul_str @ rest) = Inr (n, Some rest)"
    using size_loop_digits [of 0 "print_nat (nat n)" "CHR 0x00" rest] print_nat_digits assms
    by (simp add: assign_int_def in_int_def)
  then show ?thesis by (simp add: get_size_def clift_def cmd_simps)
qed

lemma get_count_at: "in_int n \<Longrightarrow> get_count (at ps tb (assign_int n @ nul_str @ rest)) = (Inr n, at ps tb rest)"
  using get_size_at [of n rest ps tb] by (simp add: get_count_def cmd_simps in_int_def)

lemma assign_int_no_NUL: "no_NUL (assign_int n)"
proof -
  have "no_NUL (print_nat k)" for k
    using print_nat_digits [of k] by (auto simp: no_NUL_def list_all_iff isdigit_def)
  then show ?thesis by (simp add: assign_int_def no_NUL_def)
qed

lemma rcs_number_no_NUL: "no_NUL (rcs_number ns)"
proof (induction ns rule: rcs_number.induct)
  case (2 n)
  then show ?case using assign_int_no_NUL [of "int n"] by (simp add: assign_int_def)
next
  case (3 n m ns)
  then show ?case using assign_int_no_NUL [of "int n"] by (simp add: assign_int_def no_NUL_def)
qed (simp add: no_NUL_def)

definition string_ok :: "string option \<Rightarrow> bool" where
  "string_ok s \<longleftrightarrow> (case s of None \<Rightarrow> False | Some s \<Rightarrow> no_NUL s)"

lemma string_ok_the: "string_ok s \<Longrightarrow> no_NUL (the s) \<and> s = Some (the s)"
  by (cases s) (simp_all add: string_ok_def)

definition project_version_ok :: "ProjectLogData \<Rightarrow> bool" where
  "project_version_ok v \<longleftrightarrow>
     in_int (log_date v) \<and> string_ok (log_author v) \<and> string_ok (log_version v) \<and>
     string_ok (log_major v) \<and> string_ok (log_minor v) \<and> plus_lines v = 0 \<and> minus_lines v = 0 \<and>
     in_int (int (length (log_parents v))) \<and> list_all (\<lambda>p. in_int (int p)) (log_parents v)"

lemma read_parent_indices_at:
  "list_all (\<lambda>p. in_int (int p)) is \<Longrightarrow>
   read_parent_indices (length is) v (at ps tb (concat (map (\<lambda>p. assign_int (int p) @ nul_str) is) @ rest)) =
     (Inr (v\<lparr>log_parents := log_parents v @ is\<rparr>), at ps tb rest)"
proof (induction "is" arbitrary: v)
  case (Cons p "is")
  then show ?case
    using get_count_at [of "int p" "concat (map (\<lambda>p. assign_int (int p) @ nul_str) is) @ rest" ps tb]
    by (simp add: cmd_simps new_parent_def)
qed (simp add: cmd_simps)

lemma read_project_version_at:
  assumes "project_version_ok v"
  shows "read_project_version (at ps tb (write_data_file_project_info v @ rest)) = (Inr v, at ps tb rest)"
proof -
  note ok = assms [unfolded project_version_ok_def]
  note s = string_ok_the [of "log_author v"] string_ok_the [of "log_version v"]
    string_ok_the [of "log_major v"] string_ok_the [of "log_minor v"]
  have d: "in_int (if log_deleted v then 1 else 0)" by (simp add: in_int_def)
  show ?thesis
    using ok s unfolding read_project_version_def write_data_file_project_info_def append_assoc
    by (cases v) (auto simp: cbind_apply get_count_at get_string_at d [simplified]
        read_parent_indices_at new_ProjectVersionData_def in_int_def [of 1] in_int_def [of 0])
qed

definition file_version_ok :: "nat list \<Rightarrow> RcsFileData \<Rightarrow> bool" where
  "file_version_ok ns v \<longleftrightarrow>
     log_version v = Some (rcs_number ns) \<and> small_numbers ns \<and> in_int (log_date v) \<and> in_int (data_length v) \<and>
     string_ok (log_author v) \<and> 0 \<le> plus_lines v \<and> plus_lines v + 1 < 2 ^ 30 \<and>
     0 \<le> minus_lines v \<and> minus_lines v + 1 < 2 ^ 30 \<and> length (unkeyed_checksum v) = 16"

lemma get_string_len_at: "length s = n \<Longrightarrow> get_string_len n (at ps tb (s @ rest)) = (Inr (Some s), at ps tb rest)"
  by (simp add: get_string_len_def cmd_simps)

lemma get_string_expected_at: "get_string_expected s (at ps tb (s @ rest)) = (Inr True, at ps tb rest)"
  by (simp add: get_string_expected_def cmd_simps)

lemma lines_of_number: "0 \<le> n \<Longrightarrow> n + 1 < 2 ^ 30 \<Longrightarrow> lines_of (assign_int n) f = (Inr n, f)"
  using strtol_number [of "nat n" "[]"] by (simp add: lines_of_def cmd_simps assign_int_def)

lemma read_rcs_version_at:
  assumes "file_version_ok ns v"
  shows "read_rcs_version (at ps tb (write_data_file_rcs_info v @ rest)) = (Inr v, at ps tb rest)"
proof -
  note ok = assms [unfolded file_version_ok_def]
  note s = string_ok_the [of "log_author v"]
  show ?thesis
    using ok s rcs_number_no_NUL [of ns] unfolding read_rcs_version_def write_data_file_rcs_info_def append_assoc
    by (cases v) (auto simp: cbind_apply get_size_at get_string_at assign_int_no_NUL lines_of_number
        get_string_len_at in_int_def creturn_def)
qed

lemma read_project_versions_at:
  "list_all project_version_ok vs \<Longrightarrow>
   read_project_versions (length vs) (at ps tb (concat (map write_data_file_project_info vs) @ rest)) =
     (Inr (), at (ps @ vs) tb rest)"
proof (induction vs arbitrary: ps)
  case (Cons v vs)
  then show ?case
    using read_project_version_at [of v "concat (map write_data_file_project_info vs) @ rest" ps tb]
    by (simp add: cmd_simps)
qed (simp add: cmd_simps)

lemma read_project_summary_at:
  assumes "list_all project_version_ok vs" and "in_int (int (length vs))"
  shows "read_project_summary (at ps tb (assign_int (int (length vs)) @ nul_str @
      concat (map write_data_file_project_info vs) @ rest)) = (Inr (), at (ps @ vs) tb rest)"
  using get_count_at [OF assms(2), of "concat (map write_data_file_project_info vs) @ rest" ps tb]
    read_project_versions_at [OF assms(1), of rest ps tb]
  by (simp add: read_project_summary_def cmd_simps)

definition infos :: "(nat list \<times> RcsFileData) list \<Rightarrow> string" where
  "infos ds = concat (map (\<lambda>e. write_data_file_rcs_info (snd e)) ds)"

definition put_versions :: "(nat list \<rightharpoonup> 'd) \<Rightarrow> (nat list \<times> 'd) list \<Rightarrow> (nat list \<rightharpoonup> 'd)" where
  "put_versions m ds = foldl (\<lambda>m e. m(fst e \<mapsto> snd e)) m ds"

definition versions_ok :: "(nat list \<times> RcsFileData) list \<Rightarrow> bool" where
  "versions_ok ds \<longleftrightarrow> list_all (\<lambda>e. file_version_ok (fst e) (snd e)) ds \<and> in_int (int (length ds))"

lemma read_rcs_versions_step:
  assumes v: "read_rcs_version f = (Inr v, f')" and n: "log_version v = Some s"
    and i: "delta_insert s v d = Inr d1" and l: "delta_lookup s d1 = Inr (Some v)"
  shows "read_rcs_versions (Suc n) d f = read_rcs_versions n d1 f'"
proof -
  have "read_rcs_versions (Suc n) d f = cbind (clift (delta_insert (the (log_version v)) v d)) (\<lambda>deltas'.
     cbind (clift (delta_lookup (the (log_version v)) deltas')) (\<lambda>found.
     cthen (cassert (found = Some v)) (read_rcs_versions n deltas'))) f'"
    unfolding read_rcs_versions.simps by (rule cbind_Inr) (rule v)
  also have "\<dots> = read_rcs_versions n d1 f'"
    by (simp only: n i l option.sel clift_def cmd_simps prod.case sum.case simp_thms if_True)
  finally show ?thesis .
qed
lemma read_rcs_versions_at:
  "list_all (\<lambda>e. file_version_ok (fst e) (snd e)) ds \<Longrightarrow>
   \<exists>d'. read_rcs_versions (length ds) d (at ps tb (infos ds @ rest)) = (Inr d', at ps tb rest) \<and>
     version_at d' = put_versions (version_at d) ds"
proof (induction ds arbitrary: d)
  case (Cons e ds)
  obtain ns v where e: "e = (ns, v)" by (cases e)
  have ok: "file_version_ok ns v" and s: "small_numbers ns" "log_version v = Some (rcs_number ns)"
    using Cons.prems by (simp_all add: e file_version_ok_def)
  obtain d1 where d1: "delta_insert (rcs_number ns) v d = Inr d1" "version_at d1 = (version_at d)(ns \<mapsto> v)"
    using delta_insert_at [OF s(1), of v d] by (elim exE conjE) (rule that)
  have "delta_lookup (rcs_number ns) d1 = Inr (Some v)"
    using delta_lookup_at [OF s(1), of d1] d1(2) by simp
  moreover have "read_rcs_version (at ps tb (infos (e # ds) @ rest)) = (Inr v, at ps tb (infos ds @ rest))"
    using read_rcs_version_at [OF ok, of "infos ds @ rest" ps tb] by (simp add: e infos_def)
  ultimately have "read_rcs_versions (Suc (length ds)) d (at ps tb (infos (e # ds) @ rest)) =
      read_rcs_versions (length ds) d1 (at ps tb (infos ds @ rest))"
    using read_rcs_versions_step [OF _ s(2) d1(1)] by metis
  moreover have "\<exists>d'. read_rcs_versions (length ds) d1 (at ps tb (infos ds @ rest)) = (Inr d', at ps tb rest) \<and>
      version_at d' = put_versions (version_at d1) ds"
    by (rule Cons.IH) (use Cons.prems in simp)
  moreover have "put_versions (version_at d1) ds = put_versions (version_at d) (e # ds)"
    by (simp add: d1(2) e put_versions_def)
  ultimately show ?case by (simp only: list.size add_Suc_right add_0_right)
next
  case Nil
  show ?case by (intro exI [of _ d]) (simp add: creturn_def infos_def put_versions_def)
qed

text \<open>The version with a number of the file with a name.\<close>

definition file_versions :: "(string, RcsFileData RcsDelta) HashTable \<Rightarrow> string \<Rightarrow> nat list \<rightharpoonup> RcsFileData" where
  "file_versions t name =
     (case ht_lookup hash_string (=) t name of None \<Rightarrow> Map.empty | Some delta \<Rightarrow> version_at delta)"

lemma file_versions_insert:
  "ht_inv hash_string (=) t \<Longrightarrow>
   file_versions (ht_insert hash_string (=) t name d) = (file_versions t)(name := version_at d)"
  by (rule ext) (simp add: file_versions_def str.ht.lookup_insert)

lemma read_rcs_file_summary_at:
  assumes ds: "versions_ok ds" and name: "no_NUL name" and inv: "ht_inv hash_string (=) tb"
  shows "\<exists>t. read_rcs_file_summary
      (at ps tb (name @ nul_str @ ''$'' @ assign_int (int (length ds)) @ nul_str @ infos ds @ rest)) =
        (Inr (), at ps t rest) \<and> ht_inv hash_string (=) t \<and>
    file_versions t = (file_versions tb)(name := put_versions (file_versions tb name) ds)"
proof -
  have n: "in_int (int (length ds))" "list_all (\<lambda>e. file_version_ok (fst e) (snd e)) ds"
    using ds by (simp_all add: versions_ok_def)
  define t1 d0 where "t1 = (if ht_lookup hash_string (=) tb name = None
      then ht_insert hash_string (=) tb name new_RcsDelta else tb)"
    and "d0 = (case ht_lookup hash_string (=) tb name of None \<Rightarrow> new_RcsDelta | Some d \<Rightarrow> d)"
  have new: "version_at (new_RcsDelta :: RcsFileData RcsDelta) = Map.empty"
    by (rule ext) (simp add: version_at_new)
  have inv1: "ht_inv hash_string (=) t1" using str.ht.invar_insert [OF inv] inv by (simp add: t1_def)
  have v1: "file_versions t1 = file_versions tb" "version_at d0 = file_versions tb name"
    using file_versions_insert [OF inv, of name new_RcsDelta] new
    by (auto simp: t1_def d0_def file_versions_def [of tb name] fun_upd_idem_iff split: option.splits)
  obtain d where d: "read_rcs_versions (length ds) d0 (at ps t1 (infos ds @ rest)) = (Inr d, at ps t1 rest)"
    "version_at d = put_versions (version_at d0) ds"
    using read_rcs_versions_at [OF n(2)] by blast
  have lookup: "(case ht_lookup hash_string (=) tb name of
         None \<Rightarrow> cthen (table_insert name new_RcsDelta) (creturn new_RcsDelta)
       | Some delta \<Rightarrow> creturn delta) (at ps tb s) = (Inr d0, at ps t1 s)" for s
    by (simp add: t1_def d0_def table_insert_def cmd_simps split: option.split)
  have "read_rcs_file_summary
      (at ps tb (name @ nul_str @ ''$'' @ assign_int (int (length ds)) @ nul_str @ infos ds @ rest)) =
    (Inr (), at ps (ht_insert hash_string (=) t1 name d) rest)"
    using d(1) get_string_at [OF name] get_string_expected_at [of "''$''" _ ps t1] lookup
      get_count_at [OF n(1), of "infos ds @ rest" ps t1]
    by (simp add: read_rcs_file_summary_def cbind_apply cget_def table_insert_def cupd_def)
  then show ?thesis
    using str.ht.invar_insert [OF inv1, of name d] file_versions_insert [OF inv1, of name d] v1 d(2) by auto
qed

section \<open>Sections\<close>

datatype data_section = Projects "ProjectLogData list" | FileVersions string "(nat list \<times> RcsFileData) list"

fun section_text :: "data_section \<Rightarrow> string" where
  "section_text (Projects vs) =
     ''@'' @ assign_int (int (length vs)) @ nul_str @ concat (map write_data_file_project_info vs)"
| "section_text (FileVersions name ds) =
     ''#'' @ name @ nul_str @ ''$'' @ assign_int (int (length ds)) @ nul_str @ infos ds"

fun section_ok :: "data_section \<Rightarrow> bool" where
  "section_ok (Projects vs) \<longleftrightarrow> list_all project_version_ok vs \<and> in_int (int (length vs))"
| "section_ok (FileVersions name ds) \<longleftrightarrow> no_NUL name \<and> versions_ok ds"

fun section_projects :: "data_section \<Rightarrow> ProjectLogData list" where
  "section_projects (Projects vs) = vs"
| "section_projects (FileVersions name ds) = []"

fun section_files ::
  "(string \<Rightarrow> nat list \<rightharpoonup> RcsFileData) \<Rightarrow> data_section \<Rightarrow> (string \<Rightarrow> nat list \<rightharpoonup> RcsFileData)" where
  "section_files m (Projects vs) = m"
| "section_files m (FileVersions name ds) = m(name := put_versions (m name) ds)"

lemma read_sections_at:
  "list_all section_ok secs \<Longrightarrow> ht_inv hash_string (=) tb \<Longrightarrow> length secs < fuel \<Longrightarrow>
   \<exists>t. read_sections fuel (at ps tb (concat (map section_text secs))) =
       (Inr (), at (ps @ concat (map section_projects secs)) t []) \<and>
     file_versions t = foldl section_files (file_versions tb) secs"
proof (induction secs arbitrary: ps tb fuel)
  case Nil
  then obtain n where "fuel = Suc n" by (cases fuel) auto
  then show ?case by (simp add: cmd_simps get_string_len_def)
next
  case (Cons x secs)
  obtain n where n: "fuel = Suc n" "length secs < n" using Cons.prems(3) by (cases fuel) auto
  let ?rest = "concat (map section_text secs)"
  show ?case
  proof (cases x)
    case (Projects vs)
    have ok: "list_all project_version_ok vs" "in_int (int (length vs))" using Cons.prems(1) Projects by simp_all
    have "read_sections fuel (at ps tb (concat (map section_text (x # secs)))) =
        read_sections n (at (ps @ vs) tb ?rest)"
      using read_project_summary_at [OF ok, of ?rest ps tb] Projects n(1)
        get_string_len_at [of "''@''" 1 _ ps tb] by (simp add: cmd_simps)
    then show ?thesis
      using Cons.IH [of tb n "ps @ vs"] Cons.prems(1,2) n(2) Projects by auto
  next
    case (FileVersions name ds)
    have ok: "versions_ok ds" "no_NUL name" using Cons.prems(1) FileVersions by simp_all
    obtain t1 where t1: "read_rcs_file_summary
        (at ps tb (name @ nul_str @ ''$'' @ assign_int (int (length ds)) @ nul_str @ infos ds @ ?rest)) =
          (Inr (), at ps t1 ?rest)" "ht_inv hash_string (=) t1"
      "file_versions t1 = (file_versions tb)(name := put_versions (file_versions tb name) ds)"
      using read_rcs_file_summary_at [OF ok Cons.prems(2)] by blast
    have "read_sections fuel (at ps tb (concat (map section_text (x # secs)))) =
        read_sections n (at ps t1 ?rest)"
      using t1(1) FileVersions n(1) get_string_len_at [of "''#''" 1 _ ps tb] by (simp add: cmd_simps)
    moreover obtain t where "read_sections n (at ps t1 ?rest) = (Inr (), at (ps @ concat (map section_projects secs)) t [])"
      "file_versions t = foldl section_files (file_versions t1) secs"
      using Cons.IH [OF _ t1(2) n(2), of ps] Cons.prems(1) by auto
    ultimately show ?thesis using t1(3) FileVersions by (intro exI [of _ t]) simp
  qed
qed

lemma init_rebuild_file_sections:
  assumes "list_all section_ok secs"
  shows "\<exists>f. init_rebuild_file (write_data_file_header @ concat (map section_text secs)) = (Inr (), f) \<and>
    project_data f = concat (map section_projects secs) \<and>
    file_versions (rcs_file_table f) = foldl section_files (\<lambda>_. Map.empty) secs"
proof -
  let ?text = "concat (map section_text secs)"
  have header: "read_header (at [] ht_empty (write_data_file_header @ ?text)) = (Inr (), at [] ht_empty ?text)"
    using get_string_len_at [of write_data_file_header data_file_length ?text "[]" ht_empty]
    by (simp add: read_header_def cmd_simps write_data_file_header_def data_file_header_def
        data_file_length_def old_data_file_headers_def)
  have one: "1 \<le> length (section_text s)" for s by (cases s) simp_all
  have len: "length secs \<le> length ?text"
  proof (induction secs)
    case (Cons s secs)
    then show ?case using one [of s] by simp
  qed simp
  have empty: "file_versions ht_empty = (\<lambda>_. Map.empty)"
    by (rule ext) (simp add: file_versions_def str.ht.lookup_empty)
  obtain t where t: "read_sections (length (write_data_file_header @ ?text) + 1) (at [] ht_empty ?text) =
      (Inr (), at (concat (map section_projects secs)) t [])"
    "file_versions t = foldl section_files (\<lambda>_. Map.empty) secs"
    using read_sections_at [OF assms str.ht.invar_empty, of "length (write_data_file_header @ ?text) + 1" "[]"] len empty
    by auto
  show ?thesis
    using header t by (simp add: init_rebuild_file_def cmd_simps del: read_sections.simps)
qed

text \<open>A table of files that can be written: every count is the number of versions.\<close>

definition written_ok :: "string \<Rightarrow> RcsFileData RcsDelta \<Rightarrow> bool" where
  "written_ok name delta \<longleftrightarrow>
     no_NUL name \<and> versions_ok (entries_of delta) \<and> insertion_count delta = int (length (entries_of delta))"

definition file_table_ok :: "(string, RcsFileData RcsDelta) HashTable \<Rightarrow> bool" where
  "file_table_ok t \<longleftrightarrow> ht_inv hash_string (=) t \<and> list_all (\<lambda>(name, delta). written_ok name delta) (ht_items t)"

definition table_sections :: "(string \<times> RcsFileData RcsDelta) list \<Rightarrow> data_section list" where
  "table_sections items =
     map (\<lambda>(name, delta). FileVersions name (entries_of delta)) (filter (\<lambda>i. insertion_count (snd i) \<noteq> 0) items)"

lemma table_sections_text:
  "list_all (\<lambda>(name, delta). written_ok name delta) items \<Longrightarrow>
   concat (map section_text (table_sections items)) =
     concat (map (\<lambda>(name, delta). write_data_file_rcs_file_summary name delta) items)"
  by (induction items)
    (auto simp: table_sections_def write_data_file_rcs_file_summary_def written_ok_def infos_def)

lemma table_sections_ok:
  "list_all (\<lambda>(name, delta). written_ok name delta) items \<Longrightarrow> list_all section_ok (table_sections items)"
  by (induction items) (auto simp: table_sections_def written_ok_def)

lemma table_sections_projects: "concat (map section_projects (table_sections items)) = []"
  by (induction items) (auto simp: table_sections_def)

lemma put_versions_map_of: "distinct (map fst es) \<Longrightarrow> put_versions m es = m ++ map_of es"
proof (induction es arbitrary: m)
  case (Cons e es)
  then have "map_of es (fst e) = None" by (simp add: map_of_eq_None_iff)
  then show ?case using Cons by (auto simp: put_versions_def fun_eq_iff map_add_def split: option.splits)
qed (simp add: put_versions_def)

lemma table_sections_files:
  fixes items :: "(string \<times> RcsFileData RcsDelta) list"
  assumes "distinct (map fst items)" and "list_all (\<lambda>(name, delta). written_ok name delta) items"
    and "\<And>name. name \<in> set (map fst items) \<Longrightarrow> m name = Map.empty"
  shows "foldl section_files m (table_sections items) =
    (\<lambda>name. case map_of items name of None \<Rightarrow> m name | Some delta \<Rightarrow> version_at delta)"
  using assms
proof (induction items arbitrary: m)
  case Nil
  show ?case by (simp add: table_sections_def)
next
  case (Cons i items)
  obtain name delta where i: "i = (name, delta)" by (cases i)
  let ?m = "m(name := version_at delta)"
  have new: "m name = Map.empty" "name \<notin> set (map fst items)"
    using Cons.prems(3) [of name] Cons.prems(1) i by simp_all
  have e: "put_versions Map.empty (entries_of delta) = version_at delta"
    using entries_of_map [of delta] by (simp add: put_versions_map_of)
  have "foldl section_files m (table_sections (i # items)) = foldl section_files ?m (table_sections items)"
  proof (cases "insertion_count delta = 0")
    case True
    then have "entries_of delta = []" using Cons.prems(2) i by (simp add: written_ok_def)
    then have "version_at delta = Map.empty" using e by (simp add: put_versions_def)
    then have "?m = m" using new(1) by auto
    then show ?thesis using True by (simp add: table_sections_def i)
  next
    case False
    then show ?thesis using e new(1) by (simp add: table_sections_def i)
  qed
  also have "\<dots> = (\<lambda>n. case map_of items n of None \<Rightarrow> ?m n | Some delta \<Rightarrow> version_at delta)"
    by (rule Cons.IH) (use Cons.prems new in \<open>auto simp: i\<close>)
  also have "\<dots> = (\<lambda>n. case map_of (i # items) n of None \<Rightarrow> m n | Some delta \<Rightarrow> version_at delta)"
  proof (rule ext)
    fix n
    show "(case map_of items n of None \<Rightarrow> ?m n | Some delta \<Rightarrow> version_at delta) =
        (case map_of (i # items) n of None \<Rightarrow> m n | Some delta \<Rightarrow> version_at delta)"
      using new(2) map_of_eq_None_iff [of items name] by (cases "n = name") (auto simp: i split: option.split)
  qed
  finally show ?case .
qed

lemma table_lookup_items:
  fixes t :: "(string, 'v) HashTable"
  assumes "ht_inv hash_string (=) t"
  shows "distinct (map fst (ht_items t)) \<and> map_of (ht_items t) = ht_lookup hash_string (=) t"
proof -
  have d: "distinct (map fst (ht_items t))"
    using str.uniq_keys_items [OF assms] unfolding uniq_keys_def distinct_conv_nth sorted_wrt_iff_nth_less
    by (auto simp: neq_iff)
  have "map_of (ht_items t) n = ht_lookup hash_string (=) t n" for n
  proof (cases "ht_lookup_pair hash_string (=) t n")
    case None
    then have "n \<notin> fst ` set (ht_items t)"
      using str.ht_lookup_pair_iff [OF assms, of n] by auto
    then show ?thesis using None by (simp add: ht_lookup_def map_of_eq_None_iff)
  next
    case (Some p)
    then have "p \<in> set (ht_items t)" "n = fst p" using str.ht_lookup_pair_iff [OF assms, of n p] by auto
    then show ?thesis using d Some by (simp add: ht_lookup_def)
  qed
  then show ?thesis using d by auto
qed

text \<open>What a checkin appends.\<close>

datatype data_op = AddProject ProjectLogData | AddFile string "nat list" RcsFileData

fun data_op_text :: "data_op \<Rightarrow> string" where
  "data_op_text (AddProject v) = add_project_data v"
| "data_op_text (AddFile name ns v) = add_rcs_file_data name v"

fun data_op_section :: "data_op \<Rightarrow> data_section" where
  "data_op_section (AddProject v) = Projects [v]"
| "data_op_section (AddFile name ns v) = FileVersions name [(ns, v)]"

fun data_op_ok :: "data_op \<Rightarrow> bool" where
  "data_op_ok (AddProject v) = project_version_ok v"
| "data_op_ok (AddFile name ns v) = (no_NUL name \<and> file_version_ok ns v)"

fun data_op_projects :: "data_op \<Rightarrow> ProjectLogData list" where
  "data_op_projects (AddProject v) = [v]"
| "data_op_projects (AddFile name ns v) = []"

fun data_op_files :: "(string \<Rightarrow> nat list \<rightharpoonup> RcsFileData) \<Rightarrow> data_op \<Rightarrow> (string \<Rightarrow> nat list \<rightharpoonup> RcsFileData)" where
  "data_op_files m (AddProject v) = m"
| "data_op_files m (AddFile name ns v) = m(name := (m name)(ns \<mapsto> v))"

lemma data_op_section_text: "section_text (data_op_section x) = data_op_text x"
  by (cases x) (simp_all add: add_project_data_def add_rcs_file_data_def infos_def)

lemma data_op_section_ok: "data_op_ok x \<Longrightarrow> section_ok (data_op_section x)"
  by (cases x) (simp_all add: in_int_def versions_ok_def)

lemma data_op_section_projects: "section_projects (data_op_section x) = data_op_projects x"
  by (cases x) simp_all

lemma data_op_section_files: "section_files m (data_op_section x) = data_op_files m x"
  by (cases x) (simp_all add: put_versions_def)

text \<open>
  C39. A data file that was written for a project and to which checkins have appended their data is
  read without an error, and what is read is what was written: the versions of the project in their
  order, those added by checkins at the end, and for every file and every number the data written last.
\<close>
theorem data_file_roundtrip:
  assumes "list_all project_version_ok vs" and "in_int (int (length vs))" and "file_table_ok t"
    and "list_all data_op_ok ops"
  shows "\<exists>f. init_rebuild_file (write_data_file vs t @ concat (map data_op_text ops)) = (Inr (), f) \<and>
    project_data f = vs @ concat (map data_op_projects ops) \<and>
    file_versions (rcs_file_table f) = foldl data_op_files (file_versions t) ops"
proof -
  let ?secs = "Projects vs # table_sections (ht_items t) @ map data_op_section ops"
  have t: "ht_inv hash_string (=) t" "list_all (\<lambda>(name, delta). written_ok name delta) (ht_items t)"
    using assms(3) by (simp_all add: file_table_ok_def)
  have ok: "list_all section_ok ?secs"
    using assms table_sections_ok [OF t(2)] data_op_section_ok by (auto simp: list_all_iff)
  have text_eq: "write_data_file vs t @ concat (map data_op_text ops) =
      write_data_file_header @ concat (map section_text ?secs)"
    using table_sections_text [OF t(2)]
    by (simp add: write_data_file_def write_data_file_project_summary_def data_op_section_text comp_def)
  have projects: "concat (map section_projects ?secs) = vs @ concat (map data_op_projects ops)"
    by (simp add: table_sections_projects data_op_section_projects comp_def)
  have ops: "foldl section_files m (map data_op_section ops) = foldl data_op_files m ops" for m
    by (induction ops arbitrary: m) (simp_all add: data_op_section_files)
  have "foldl section_files (\<lambda>_. Map.empty) (table_sections (ht_items t)) = file_versions t"
    using table_sections_files [of "ht_items t" "\<lambda>_. Map.empty"] table_lookup_items [OF t(1)] t(2)
    by (auto simp: file_versions_def fun_eq_iff)
  then have files: "foldl section_files (\<lambda>_. Map.empty) ?secs = foldl data_op_files (file_versions t) ops"
    by (simp add: ops)
  show ?thesis
    using init_rebuild_file_sections [OF ok] unfolding text_eq projects files .
qed

definition sample_project_data :: ProjectLogData where
  "sample_project_data = new_ProjectVersionData\<lparr>log_date := 5, log_author := Some ''jmacd'', log_version := Some ''1.1'',
     log_major := Some ''main'', log_minor := Some ''1''\<rparr>"

definition sample_file_data :: RcsFileData where
  "sample_file_data = \<lparr>log_date = 7, log_author = Some ''jmacd'', log_version = Some (rcs_number [1, 1]), plus_lines = 2, minus_lines = 0,
     data_length = 30, unkeyed_checksum = replicate 16 (CHR ''x'')\<rparr>"

definition sample_delta :: "RcsFileData RcsDelta" where
  "sample_delta =
     RcsDelta None [None, Some (RcsDelta None [None, Some (RcsDelta (Some sample_file_data) [] 0)] 1)] 1"

theorem data_file_roundtrip_witness:
  "\<exists>f. init_rebuild_file
      (write_data_file [sample_project_data] (ht_insert hash_string (=) ht_empty ''a'' sample_delta) @
        concat (map data_op_text [AddFile ''b'' [1, 1] sample_file_data])) = (Inr (), f) \<and>
    project_data f = [sample_project_data] \<and> file_versions (rcs_file_table f) ''b'' [1, 1] = Some sample_file_data \<and>
    file_versions (rcs_file_table f) ''a'' [1, 1] = Some sample_file_data"
proof -
  let ?t = "ht_insert hash_string (=) ht_empty ''a'' sample_delta"
  have p: "project_version_ok sample_project_data"
    by (simp add: sample_project_data_def project_version_ok_def new_ProjectVersionData_def string_ok_def no_NUL_def in_int_def)
  have small: "small_numbers [1, 1]" by (simp add: small_numbers_def)
  have v: "file_version_ok [1, 1] sample_file_data"
    using small by (simp add: sample_file_data_def file_version_ok_def string_ok_def no_NUL_def in_int_def)
  have e: "entries_of sample_delta = [([1, 1], sample_file_data)]" by (simp add: sample_delta_def)
  have w: "written_ok ''a'' sample_delta"
    unfolding written_ok_def e using v by (simp add: versions_ok_def no_NUL_def in_int_def sample_delta_def)
  have inv: "ht_inv hash_string (=) ?t" by (rule str.ht.invar_insert [OF str.ht.invar_empty])
  have look: "ht_lookup hash_string (=) ?t n = (if n = ''a'' then Some sample_delta else None)" for n
    using str.ht.lookup_insert [OF str.ht.invar_empty, of "''a''" sample_delta n] by (simp add: str.ht.lookup_empty)
  have "list_all (\<lambda>(name, delta). written_ok name delta) (ht_items ?t)"
    unfolding list_all_iff
  proof (intro ballI, clarify)
    fix n d assume "(n, d) \<in> set (ht_items ?t)"
    then have "ht_lookup hash_string (=) ?t n = Some d"
      using table_lookup_items [OF inv] by (metis map_of_is_SomeI)
    then show "written_ok n d" using look [of n] w by (auto split: if_splits)
  qed
  then have t: "file_table_ok ?t" using inv by (simp add: file_table_ok_def)
  have "version_at sample_delta [1, 1] = Some sample_file_data" using entries_of_map [of sample_delta] e by (metis map_of_Cons_code(2))
  then show ?thesis
    using data_file_roundtrip [OF _ _ t, of "[sample_project_data]" "[AddFile ''b'' [1, 1] sample_file_data]"] p v look
    by (auto simp: in_int_def no_NUL_def file_versions_def [of ?t])
qed

end
