(* ===== verification/Rebuild.thy ===== *)
theory Rebuild
  imports DataFile ProjRead Md5
begin

text \<open>
  Rebuilding a repository, \<open>src/src/rebuild.cc\<close>, with the functions of \<open>src/src/vc.cc\<close> that read the
  versions of a file and check versions out: the versions of the project and of every file are read again
  from RCS, the versions of the project are checked, the versions of files that no version of the project
  names are deleted, and the data file is written. RCS is an argument: what \<open>rlog\<close> and \<open>co\<close> answer and
  whether a version can be deleted. Not modelled are the messages, the permissions, and the packing of
  the files around a rebuild.
\<close>

section \<open>The versions of an RCS file\<close>

text \<open>
  The constructor; the length and the checksum are not initialised, and nothing reads them before
  they are set.
\<close>

definition new_RcsVersionData :: RcsFileData where
  "new_RcsVersionData =
     \<lparr>log_date = 0, log_author = None, log_version = None, plus_lines = 0, minus_lines = 0,
      data_length = 0, unkeyed_checksum = []\<rparr>"

definition set_lines :: "string \<Rightarrow> RcsFileData \<Rightarrow> failure + RcsFileData" where
  "set_lines lns v =
     (if take 1 lns \<noteq> ''+'' then Inl AssertFailed
      else case strtol10 (tl lns) of (pl, endp) \<Rightarrow>
        if take 2 endp \<noteq> '' -'' then Inl AssertFailed
        else case strtol10 (drop 2 endp) of (ml, endp2) \<Rightarrow>
          if take 1 endp2 \<noteq> newline then Inl AssertFailed
          else Inr (v\<lparr>plus_lines := pl, minus_lines := ml\<rparr>))"

text \<open>
  One round of the loop over the tokens of a version, as in \<open>version_step\<close>. With \<open>one\<close> it is the loop of
  \<open>VC_get_one_version_data\<close>, where another version is an error.
\<close>

definition file_version_step ::
  "bool \<Rightarrow> (string \<Rightarrow> int) \<Rightarrow> RcsFileData \<Rightarrow> VcScanner \<Rightarrow> (failure + bool option \<times> RcsFileData) \<times> VcScanner" where
  "file_version_step one timestr v sc =
     (case VC_get_token None sc of (vclex, sc1) \<Rightarrow>
        let text = rcs_text sc1; go = (\<lambda>v'. (Inr (None, v'), sc1))
        in if vclex = RlogVersion \<and> one then (Inl (Err NonFatalError), sc1)
           else if vclex = RlogVersion \<or> vclex = NoTokenMatch then (Inr (Some (vclex = RlogVersion), v), sc1)
           else if vclex = RlogDate then go (v\<lparr>log_date := timestr text\<rparr>)
           else if vclex = RlogAuthor then go (v\<lparr>log_author := Some text\<rparr>)
           else if vclex = RlogLines
           then (case set_lines text v of Inl f \<Rightarrow> (Inl f, sc1) | Inr v' \<Rightarrow> go v')
           else if vclex \<in> {PrcsMajorVersion, PrcsMinorVersion, PrcsParentMajorVersion,
               PrcsParentMinorVersion, PrcsDescendsMajorVersion, PrcsDescendsMinorVersion}
           then go v
           else (Inl (Err NonFatalError), sc1))"

lemma file_version_step_shorter:
  assumes "file_version_step one timestr v sc = (Inr (None, v'), sc')"
  shows "length (vc_input sc') < length (vc_input sc)"
proof -
  obtain t sc1 where t: "VC_get_token None sc = (t, sc1)" by fastforce
  have "sc' = sc1 \<and> t \<noteq> NoTokenMatch"
    using assms unfolding file_version_step_def t by (auto simp: Let_def split: if_splits sum.splits)
  then show ?thesis using VC_get_token_shorter [OF t] by simp
qed

function file_version_tokens ::
  "bool \<Rightarrow> (string \<Rightarrow> int) \<Rightarrow> RcsFileData \<Rightarrow> VcScanner \<Rightarrow> (failure + bool \<times> RcsFileData) \<times> VcScanner" where
  "file_version_tokens one timestr v sc =
     (case file_version_step one timestr v sc of
        (Inl f, sc') \<Rightarrow> (Inl f, sc')
      | (Inr (Some found, v'), sc') \<Rightarrow> (Inr (found, v'), sc')
      | (Inr (None, v'), sc') \<Rightarrow> file_version_tokens one timestr v' sc')"
  by pat_completeness auto
termination
  by (relation "measure (\<lambda>(_, _, _, sc). length (vc_input sc))") (auto dest: file_version_step_shorter [OF sym])

declare file_version_tokens.simps [simp del]

text \<open>
  A version enters the table, under the number that was scanned, before its data is read; the table
  holds a pointer to it, so what it has in the end is the data as it was filled in. As in
  \<open>read_versions\<close>, the number is gone when the output has ended before.
\<close>

fun read_file_versions ::
  "(string \<Rightarrow> int) \<Rightarrow> bool \<Rightarrow> nat \<Rightarrow> RcsFileData RcsDelta \<Rightarrow> (VcScanner, RcsFileData RcsDelta) cmd" where
  "read_file_versions timestr found 0 pvda = creturn pvda"
| "read_file_versions timestr found (Suc n) pvda =
     cthen (cdefined found)
     (cbind (cget rcs_text) (\<lambda>number.
     cbind (clift (delta_insert number new_RcsVersionData pvda)) (\<lambda>_.
     cbind (file_version_tokens False timestr (new_RcsVersionData\<lparr>log_version := Some number\<rparr>)) (\<lambda>(found', pvd).
     if RcsVersionData_OK pvd
     then cbind (clift (delta_insert number pvd pvda)) (read_file_versions timestr found' n)
     else cthrow (Err NonFatalError)))))"

definition VC_get_version_data ::
  "(string \<Rightarrow> int) \<Rightarrow> Rlog \<Rightarrow> (VcScanner, RcsFileData RcsDelta) cmd" where
  "VC_get_version_data timestr rlog =
     cbind (open_rlog rlog) (\<lambda>rev_count.
     if rev_count = 0 then creturn new_RcsDelta
     else
       cthen (expect None RlogVersion)
       (cbind (read_file_versions timestr True (nat rev_count) new_RcsDelta) (\<lambda>pvda.
        cthen (close_rlog rlog) (creturn pvda))))"

text \<open>The data of one version, that \<open>rlog\<close> was asked for.\<close>

definition VC_get_one_version_data ::
  "(string \<Rightarrow> int) \<Rightarrow> Rlog \<Rightarrow> string \<Rightarrow> RcsFileData \<Rightarrow> (VcScanner, RcsFileData) cmd" where
  "VC_get_one_version_data timestr rlog versionnum rvd =
     cbind (open_rlog rlog) (\<lambda>_.
     cthen (expect None RlogVersion)
     (cbind (cget rcs_text) (\<lambda>number.
      if number \<noteq> versionnum then cthrow (Err NonFatalError)
      else
        cbind (file_version_tokens True timestr (rvd\<lparr>log_version := Some number\<rparr>)) (\<lambda>(_, rvd').
        if RcsVersionData_OK rvd' then cthen (close_rlog rlog) (creturn rvd')
        else cthrow (Err NonFatalError)))))"

section \<open>The runs of RCS\<close>

text \<open>
  A run of \<open>co -p\<close>: the text, unless the process could not be started or not be read, what it writes to its standard
  error, and its exit status.
\<close>

record CoRun =
  co_out :: "string option"
  co_err :: string
  co_status :: "failure + int"

definition VC_checkout_stream :: "CoRun \<Rightarrow> ('s, string) cmd" where
  "VC_checkout_stream co = (case co_out co of None \<Rightarrow> cthrow (Err NonFatalError) | Some s \<Rightarrow> creturn s)"

definition VC_expect_token :: "string option \<Rightarrow> RcsToken \<Rightarrow> (VcScanner, bool) cmd" where
  "VC_expect_token is t = cbind (get_token is) (\<lambda>t'. creturn (t' = t))"

definition VC_close_checkout_stream :: "CoRun \<Rightarrow> string \<Rightarrow> (VcScanner, unit) cmd" where
  "VC_close_checkout_stream co version =
     cbind (VC_expect_token (Some (co_err co)) RlogVersion) (\<lambda>found.
     cbind (cget rcs_text) (\<lambda>text.
     if \<not> found \<or> text \<noteq> version then cthrow (Err NonFatalError)
     else
       cbind (clift (co_status co)) (\<lambda>n.
       if n \<noteq> 0 then cthrow (Err NonFatalError) else creturn ())))"

definition VC_delete_version :: "failure + int \<Rightarrow> ('s, bool) cmd" where
  "VC_delete_version status = cbind (clift status) (\<lambda>n. creturn (n = 0))"

text \<open>
  What the repository and RCS answer: \<open>rlog\<close> on a version file when some versions were deleted, \<open>co\<close> of
  a version, \<open>rcs -o\<close> of a version, whether a file can be removed or is a symbolic link; the conversion
  of a date, and the memory that MD5 starts on.
\<close>

record RcsWorld =
  rlog_of :: "(string \<times> string) list \<Rightarrow> string \<Rightarrow> Rlog"
  co_of :: "string \<Rightarrow> string \<Rightarrow> CoRun"
  outdate_status :: "string \<Rightarrow> string \<Rightarrow> failure + int"
  unlinks :: "string \<Rightarrow> bool"
  is_symlink :: "string \<Rightarrow> bool"
  data_writes :: bool
  timestr_to_time_t :: "string \<Rightarrow> int"
  md5_junk :: "8 word list"

text \<open>
  A repository entry, with the table that is being built and the versions that are marked. A mark is
  kept with the name of the file and the number of the version, which name the version that has it.
  \<open>outdated\<close> and \<open>unlinked\<close> are the versions and the files removed so far.
\<close>

record RepEntry =
  scanner :: VcScanner
  entry_path :: string
  version_file :: string
  root_project_name :: string
  project_summary :: "ProjectLogData list"
  file_summary :: "(string, RcsFileData RcsDelta) HashTable"
  new_file_table :: "(string, RcsFileData RcsDelta) HashTable"
  referenced :: "(string \<times> string) list"
  outdated :: "(string \<times> string) list"
  unlinked :: "string list"
  data_file :: "string option"

definition on_scanner :: "(VcScanner, 'a) cmd \<Rightarrow> (RepEntry, 'a) cmd" where
  "on_scanner m = (\<lambda>r. case m (scanner r) of (x, sc) \<Rightarrow> (x, r\<lparr>scanner := sc\<rparr>))"

definition Rep_name_in_entry :: "string \<Rightarrow> RepEntry \<Rightarrow> string" where
  "Rep_name_in_entry name r = entry_path r @ [SLASH] @ name"

text \<open>An error is reported and forgotten (\<open>If_fail\<close>).\<close>

definition cignore :: "('s, 'a) cmd \<Rightarrow> ('s, unit) cmd" where
  "cignore m = (\<lambda>s. case m s of
     (Inl (Err e), s') \<Rightarrow> (Inr (), s') | (Inl f, s') \<Rightarrow> (Inl f, s') | (Inr _, s') \<Rightarrow> (Inr (), s'))"

definition Err_unlink :: "RcsWorld \<Rightarrow> string \<Rightarrow> (RepEntry, unit) cmd" where
  "Err_unlink W name =
     (if unlinks W name then cupd (unlinked_update (\<lambda>ns. ns @ [name])) else cthrow (Err NonFatalError))"

section \<open>Building the table of files\<close>

text \<open>\<open>name + len - 2\<close> is in the path also for a shorter name, as the names tested have a directory.\<close>

definition is_garbage_by_name :: "string \<Rightarrow> bool" where
  "is_garbage_by_name pathname \<longleftrightarrow>
     drop (length pathname - 2) pathname \<noteq> '',v'' \<and> \<not> prefix ''prcs_'' (strip_leading_path pathname)"

definition is_prcs_file :: "string \<Rightarrow> string \<Rightarrow> bool" where
  "is_prcs_file pathname project_file_name \<longleftrightarrow>
     prefix ''prcs_'' (strip_leading_path pathname) \<or>
     strip_leading_path pathname = strip_leading_path project_file_name"

definition checksum_of :: "RcsWorld \<Rightarrow> string \<Rightarrow> string option" where
  "checksum_of W text =
     map_option (map (\<lambda>w. char_of (unat w))) (md5_buffer (md5_junk W) (map of_char text))"

definition with_cksum :: "RcsWorld \<Rightarrow> string \<Rightarrow> RcsFileData \<Rightarrow> RcsFileData" where
  "with_cksum W versionfile ver =
     (case co_out (co_of W (the (log_version ver)) versionfile) of
        None \<Rightarrow> ver
      | Some text \<Rightarrow>
          ver\<lparr>data_length := int (length text),
              unkeyed_checksum := (case checksum_of W text of None \<Rightarrow> unkeyed_checksum ver | Some s \<Rightarrow> s)\<rparr>)"

text \<open>The length of the text is an \<open>int\<close>.\<close>

definition compute_cksum :: "RcsWorld \<Rightarrow> string \<Rightarrow> RcsFileData \<Rightarrow> (RepEntry, RcsFileData) cmd" where
  "compute_cksum W versionfile ver =
     (let co = co_of W (the (log_version ver)) versionfile
      in cbind (VC_checkout_stream co) (\<lambda>text.
         cthen (cdefined (length text < 2 ^ 31))
         (cthen (on_scanner (VC_close_checkout_stream co (the (log_version ver))))
         (creturn (with_cksum W versionfile ver)))))"

text \<open>The checksums are put into the versions of the table in place.\<close>

definition rebuild_repository_file ::
  "RcsWorld \<Rightarrow> bool \<Rightarrow> string \<Rightarrow> (RepEntry, RcsFileData RcsDelta option) cmd" where
  "rebuild_repository_file W report name =
     cbind (cget outdated) (\<lambda>del.
     cbind (on_scanner (VC_get_version_data (timestr_to_time_t W) (rlog_of W del name))) (\<lambda>data.
     if insertion_count data = 0
     then cthen (if report then creturn () else Err_unlink W name) (creturn None)
     else
       cthen (cforeach (entries_of data) (\<lambda>e. cbind (compute_cksum W name (snd e)) (\<lambda>_. creturn ())))
       (creturn (Some (map_RcsDelta (with_cksum W name) data)))))"

definition rebuild_file_table_file :: "RcsWorld \<Rightarrow> bool \<Rightarrow> string \<Rightarrow> (RepEntry, unit) cmd" where
  "rebuild_file_table_file W report name =
     cbind (cget version_file) (\<lambda>project_file_name.
     cbind (cget entry_path) (\<lambda>path.
     if is_symlink W name \<or> is_garbage_by_name name
     then (if report then creturn () else cignore (Err_unlink W name))
     else if \<not> is_prcs_file name project_file_name
     then
       cbind (rebuild_repository_file W report name) (\<lambda>delta_ptr. case delta_ptr of
         None \<Rightarrow> creturn ()
       | Some delta \<Rightarrow>
           let saved_name = drop (length path + 1) name;
               saved_name = take (length saved_name - 2) saved_name
           in cupd (new_file_table_update (\<lambda>t. ht_insert hash_string (=) t saved_name delta)))
     else creturn ()))"

text \<open>
  A directory as \<open>directory_recurse\<close> meets it: the names of its entries, those that are directories
  with what is in them, and whether it was read to its end.
\<close>

datatype Dir = Dir "DirEnt list" bool
and DirEnt = SubDir Dir | OtherEnt string

fun directory_recurse :: "(string \<Rightarrow> ('s, unit) cmd) \<Rightarrow> Dir \<Rightarrow> ('s, unit) cmd"
  and recurse_entries :: "(string \<Rightarrow> ('s, unit) cmd) \<Rightarrow> DirEnt list \<Rightarrow> ('s, unit) cmd" where
  "directory_recurse func (Dir ents ok) =
     cthen (recurse_entries func ents) (if ok then creturn () else cthrow (Err NonFatalError))"
| "recurse_entries func [] = creturn ()"
| "recurse_entries func (SubDir d # ents) = cthen (directory_recurse func d) (recurse_entries func ents)"
| "recurse_entries func (OtherEnt ent # ents) = cthen (func ent) (recurse_entries func ents)"

definition rebuild_file_table ::
  "RcsWorld \<Rightarrow> bool \<Rightarrow> Dir \<Rightarrow> (RepEntry, (string, RcsFileData RcsDelta) HashTable) cmd" where
  "rebuild_file_table W report dir =
     cthen (cupd (new_file_table_update (\<lambda>_. ht_empty)))
     (cthen (directory_recurse (rebuild_file_table_file W report) dir)
     (cget new_file_table))"

section \<open>The check of the versions\<close>

text \<open>
  \<open>rebuild_check_project_summary\<close>: the inner loop from one version on, over the versions of one major,
  which are taken out of the copy; it answers the versions that are left and the numbers of the
  versions that are missing. The index of a version is its place in the array.
\<close>

fun check_major ::
  "string \<Rightarrow> int \<Rightarrow> nat \<Rightarrow> ProjectLogData option list
     \<Rightarrow> failure + ProjectLogData option list \<times> (string \<times> int) list" where
  "check_major major minor j [] = Inr ([], [])"
| "check_major major minor j (None # copy) =
     ebind (check_major major minor (Suc j) copy) (\<lambda>(copy', missing). Inr (None # copy', missing))"
| "check_major major minor j (Some check # copy) =
     (if major = the (log_major check) then
        let this_minor = atoi (the (log_minor check))
        in if this_minor \<le> minor then Inl (Err NonFatalError)
           else if list_ex (\<lambda>p_i. j \<le> p_i) (log_parents check) then Inl (Err NonFatalError)
           else ebind (check_major major this_minor (Suc j) copy) (\<lambda>(copy', missing).
             Inr (None # copy', map (\<lambda>m. (major, m)) [minor + 1..this_minor - 1] @ missing))
      else ebind (check_major major minor (Suc j) copy) (\<lambda>(copy', missing). Inr (Some check # copy', missing)))"

lemma check_major_length: "check_major major minor j copy = Inr (copy', w) \<Longrightarrow> length copy' = length copy"
  by (induction major minor j copy arbitrary: copy' w rule: check_major.induct)
    (auto simp: ebind_def Let_def split: if_splits sum.splits)

function check_majors ::
  "nat \<Rightarrow> ProjectLogData option list \<Rightarrow> failure + (string \<times> int) list" where
  "check_majors i [] = Inr []"
| "check_majors i (None # copy) = check_majors (Suc i) copy"
| "check_majors i (Some v # copy) =
     (case check_major (the (log_major v)) 0 i (Some v # copy) of
        Inl f \<Rightarrow> Inl f
      | Inr (copy', missing) \<Rightarrow> ebind (check_majors (Suc i) (tl copy')) (\<lambda>ws. Inr (missing @ ws)))"
  by pat_completeness auto
termination
  by (relation "measure (\<lambda>(_, copy). length copy)") (auto simp del: check_major.simps dest!: check_major_length)

definition rebuild_check_project_summary :: "ProjectLogData list \<Rightarrow> failure + (string \<times> int) list" where
  "rebuild_check_project_summary versions = check_majors 0 (map Some versions)"

section \<open>Cleaning\<close>

text \<open>
  \<open>delete_version\<close> removes one version from a file; that RCS refuses is ignored.
\<close>

definition delete_version :: "RcsWorld \<Rightarrow> bool \<Rightarrow> string \<Rightarrow> string \<Rightarrow> (RepEntry, unit) cmd" where
  "delete_version W report file_name version =
     (if report then creturn ()
      else
        cbind (VC_delete_version (outdate_status W version file_name)) (\<lambda>deleted.
        if deleted then cupd (outdated_update (\<lambda>ds. ds @ [(file_name, version)])) else creturn ()))"

definition set_delta :: "string \<Rightarrow> RcsFileData RcsDelta \<Rightarrow> (RepEntry, unit) cmd" where
  "set_delta name delta = cupd (file_summary_update (\<lambda>t. ht_insert hash_string (=) t name delta))"

text \<open>
  The iterator has passed a version when the loop sees it, so that the removal of this version changes
  nothing that is still to come: the loop sees the versions of the table as it was. The table in
  memory loses the version before RCS is asked. \<open>name\<close> is the name of the file in the table.
\<close>

fun delete_unreferenced_versions_file ::
  "RcsWorld \<Rightarrow> bool \<Rightarrow> string \<Rightarrow> string \<Rightarrow> (nat list \<times> RcsFileData) list \<Rightarrow> RcsFileData RcsDelta
     \<Rightarrow> (RepEntry, RcsFileData RcsDelta) cmd" where
  "delete_unreferenced_versions_file W report name file_name [] delta = creturn delta"
| "delete_unreferenced_versions_file W report name file_name (e # es) delta =
     cbind (cget referenced) (\<lambda>marks.
     let version = the (log_version (snd e))
     in if (name, version) \<in> set marks
        then delete_unreferenced_versions_file W report name file_name es delta
        else
          cbind (clift (delta_remove version delta)) (\<lambda>delta'.
          cthen (set_delta name delta')
          (cthen (delete_version W report file_name version)
          (delete_unreferenced_versions_file W report name file_name es delta'))))"

text \<open>Marking the version that an entry of a project file names.\<close>

definition reference_version :: "FileEntry \<Rightarrow> (RepEntry, unit) cmd" where
  "reference_version fe =
     (let name = the (fe_descriptor fe)
      in cbind (cget (\<lambda>r. ht_lookup hash_string (=) (file_summary r) name)) (\<lambda>lookup. case lookup of
           None \<Rightarrow> cthrow (Err NonFatalError)
         | Some delta \<Rightarrow>
             cthen (cdefined (fe_version fe \<noteq> None))
             (cbind (clift (delta_lookup (the (fe_version fe)) delta)) (\<lambda>version_data. case version_data of
               None \<Rightarrow> cthrow (Err NonFatalError)
             | Some d \<Rightarrow> cupd (referenced_update (\<lambda>ms. ms @ [(name, the (log_version d))]))))))"

text \<open>A project file that cannot be read, or with a file that was never checked in, is ignored.\<close>

definition reference_versions ::
  "RcsWorld \<Rightarrow> ToolEnv \<Rightarrow> ProjectLogData \<Rightarrow> (RepEntry, unit) cmd" where
  "reference_versions W env pd =
     cbind (cget version_file) (\<lambda>project_file_name.
     cbind (cget root_project_name) (\<lambda>full_name.
     let version = the (log_version pd); co = co_of W version project_file_name
     in cbind (VC_checkout_stream co) (\<lambda>text.
        case init_from_file env full_name False text of
          (Inl (Err e), _) \<Rightarrow> creturn ()
        | (Inl f, _) \<Rightarrow> cthrow f
        | (Inr _, project) \<Rightarrow>
            cthen (on_scanner (VC_close_checkout_stream co version))
            (let files = filter (\<lambda>fe. file_type fe = RealFile) (file_entries project)
             in if list_ex (\<lambda>fe. fe_descriptor fe = None) files then creturn ()
                else cforeach files reference_version))))"

definition clean_file :: "RcsWorld \<Rightarrow> bool \<Rightarrow> string \<times> RcsFileData RcsDelta \<Rightarrow> (RepEntry, unit) cmd" where
  "clean_file W report file_pair =
     cbind (cget (Rep_name_in_entry (fst file_pair))) (\<lambda>in_entry.
     let name = in_entry @ '',v''
     in cbind (delete_unreferenced_versions_file W report (fst file_pair) name (entries_of (snd file_pair)) (snd file_pair))
       (\<lambda>delta.
        if insertion_count delta = 0 then cignore (rebuild_repository_file W report name) else creturn ()))"

definition delete_unreferenced_versions :: "RcsWorld \<Rightarrow> ToolEnv \<Rightarrow> bool \<Rightarrow> (RepEntry, unit) cmd" where
  "delete_unreferenced_versions W env report =
     cbind (cget project_summary) (\<lambda>versions.
     cthen (cforeach (filter (\<lambda>pd. \<not> log_deleted pd) versions) (reference_versions W env))
     (cbind (cget (\<lambda>r. ht_items (file_summary r))) (\<lambda>items.
     cforeach items (clean_file W report))))"

section \<open>Rebuilding\<close>

text \<open>
  \<open>VC_get_project_version_data\<close> with the data of the versions, from which the array in \<open>RlogData\<close> is made.
\<close>

definition project_log :: "(string \<Rightarrow> int) \<Rightarrow> Rlog \<Rightarrow> (VcScanner, ProjectLogData list) cmd" where
  "project_log timestr rlog =
     cbind (open_rlog rlog) (\<lambda>rev_count.
     cthen (cdefined (rev_count < 2 ^ 30))
     (if rev_count = 0 then creturn []
     else
       cthen (expect None RlogVersion)
       (cbind (read_versions timestr True (nat rev_count) []) (\<lambda>es.
        cthen (close_rlog rlog)
        (creturn
          (fix_version_data (map old_fmt_descend es)
            (fix_version_data (map old_fmt_parent es) (map entry_data es))))))))"

lemma project_log_array:
  "VC_get_project_version_data timestr rlog = cbind (project_log timestr rlog) (\<lambda>vs. creturn (version_array vs))"
  by (rule ext)
    (auto simp: VC_get_project_version_data_def project_log_def cbind_apply cthen_apply creturn_def version_array_def
      split: prod.split sum.split)

definition unlink_data_file :: "RcsWorld \<Rightarrow> (RepEntry, unit) cmd" where
  "unlink_data_file W =
     cbind (cget (Rep_name_in_entry ''prcs_data'')) (\<lambda>name.
     if unlinks W name then cupd (data_file_update (\<lambda>_. None)) else cthrow (Err NonFatalError))"

definition rebuild_repository ::
  "RcsWorld \<Rightarrow> ToolEnv \<Rightarrow> bool \<Rightarrow> Dir \<Rightarrow> ProjectLogData list option
     \<Rightarrow> (string, RcsFileData RcsDelta) HashTable option \<Rightarrow> (RepEntry, unit) cmd" where
  "rebuild_repository W env report dir given_summary given_table =
     cbind (case given_summary of
         None \<Rightarrow> cbind (cget (\<lambda>r. rlog_of W (outdated r) (version_file r))) (\<lambda>rlog.
             on_scanner (project_log (timestr_to_time_t W) rlog))
       | Some versions \<Rightarrow> creturn versions) (\<lambda>versions.
     cthen (clift (rebuild_check_project_summary versions))
     (cbind (case given_table of
         None \<Rightarrow> rebuild_file_table W report dir
       | Some files \<Rightarrow> creturn files) (\<lambda>files.
     cthen (unlink_data_file W)
     (cthen (cupd (\<lambda>r. r\<lparr>project_summary := versions, file_summary := files\<rparr>))
     (cthen (cignore (delete_unreferenced_versions W env report))
     (if report then creturn ()
      else
        cbind (cget file_summary) (\<lambda>file_table.
        cthen (cupd (data_file_update (\<lambda>_. Some (write_data_file versions file_table))))
        (if data_writes W then creturn () else cthrow (Err NonFatalError)))))))))"

text \<open>\<open>admin_rebuild_command_no_open\<close> but for the compression of the files and the tag of the repository.\<close>

definition admin_rebuild_command_no_open ::
  "RcsWorld \<Rightarrow> ToolEnv \<Rightarrow> bool \<Rightarrow> Dir \<Rightarrow> bool \<Rightarrow> (RepEntry, unit) cmd" where
  "admin_rebuild_command_no_open W env report dir valid_rep_data =
     cbind (cget project_summary) (\<lambda>versions.
     cbind (cget file_summary) (\<lambda>files.
     if valid_rep_data then rebuild_repository W env report dir (Some versions) (Some files)
     else rebuild_repository W env report dir None None))"

section \<open>What the check accepts\<close>

definition minor_int :: "ProjectLogData \<Rightarrow> int" where
  "minor_int v = atoi (the (log_minor v))"

definition minors_of :: "string \<Rightarrow> ProjectLogData option list \<Rightarrow> int list" where
  "minors_of major copy =
     concat (map (\<lambda>c. case c of None \<Rightarrow> [] | Some v \<Rightarrow> if the (log_major v) = major then [minor_int v] else []) copy)"

definition drop_major :: "string \<Rightarrow> ProjectLogData option list \<Rightarrow> ProjectLogData option list" where
  "drop_major major copy =
     map (\<lambda>c. case c of None \<Rightarrow> None | Some v \<Rightarrow> if the (log_major v) = major then None else Some v) copy"

definition below_from :: "nat \<Rightarrow> (ProjectLogData \<Rightarrow> bool) \<Rightarrow> ProjectLogData option list \<Rightarrow> bool" where
  "below_from i P copy \<longleftrightarrow>
     (\<forall>k v. k < length copy \<longrightarrow> copy ! k = Some v \<longrightarrow> P v \<longrightarrow> parents_below (i + k) v)"

lemma minors_of_simps [simp]:
  "minors_of major [] = []"
  "minors_of major (None # copy) = minors_of major copy"
  "minors_of major (Some v # copy) =
     (if the (log_major v) = major then minor_int v # minors_of major copy else minors_of major copy)"
  by (simp_all add: minors_of_def)

lemma drop_major_simps [simp]:
  "drop_major major [] = []"
  "drop_major major (None # copy) = None # drop_major major copy"
  "drop_major major (Some v # copy) =
     (if the (log_major v) = major then None else Some v) # drop_major major copy"
  by (simp_all add: drop_major_def)

lemma below_from_Nil [simp]: "below_from i P []"
  by (simp add: below_from_def)

lemma below_from_Cons [simp]:
  "below_from i P (c # copy) \<longleftrightarrow>
     (\<forall>v. c = Some v \<longrightarrow> P v \<longrightarrow> parents_below i v) \<and> below_from (Suc i) P copy"
proof
  assume h: "below_from i P (c # copy)"
  have "\<forall>v. c = Some v \<longrightarrow> P v \<longrightarrow> parents_below i v"
    using h unfolding below_from_def by (metis add_0_right length_greater_0_conv list.discI nth_Cons_0)
  moreover have "below_from (Suc i) P copy"
    using h unfolding below_from_def
    by (metis add_Suc_right add_Suc_shift length_Cons not_less_eq nth_Cons_Suc)
  ultimately show "(\<forall>v. c = Some v \<longrightarrow> P v \<longrightarrow> parents_below i v) \<and> below_from (Suc i) P copy" by blast
next
  assume "(\<forall>v. c = Some v \<longrightarrow> P v \<longrightarrow> parents_below i v) \<and> below_from (Suc i) P copy"
  then show "below_from i P (c # copy)"
    unfolding below_from_def by (auto simp: nth_Cons split: nat.splits)
qed

lemma minors_of_drop: "minors_of major (drop_major m copy) = (if major = m then [] else minors_of major copy)"
  by (induction copy) (auto simp: minors_of_def drop_major_def split: option.splits)

lemma below_drop:
  "below_from i (\<lambda>_. True) copy \<longleftrightarrow>
     below_from i (\<lambda>v. the (log_major v) = m) copy \<and> below_from i (\<lambda>_. True) (drop_major m copy)"
  by (induction copy arbitrary: i) (auto simp: drop_major_def split: option.splits)

lemma below_Not: "list_ex (\<lambda>p. j \<le> p) (log_parents v) \<longleftrightarrow> \<not> parents_below j v"
  by (auto simp: parents_below_def list_ex_iff list_all_iff not_less)

lemma ebind_ok: "(\<exists>x. ebind r f = Inr x) \<longleftrightarrow> (\<exists>a. r = Inr a \<and> (\<exists>x. f a = Inr x))"
  by (auto simp: ebind_def split: sum.splits)

lemma check_major_ok:
  "(\<exists>x. check_major major minor j copy = Inr x) \<longleftrightarrow>
     sorted_wrt (<) (minor # minors_of major copy) \<and> below_from j (\<lambda>v. the (log_major v) = major) copy"
proof (induction major minor j copy rule: check_major.induct)
  case (3 major minor j check copy)
  have trans: "sorted_wrt (<) (a # b # l) \<longleftrightarrow> a < b \<and> sorted_wrt (<) (b # l)" for a b :: int and l
    by auto
  show ?case
  proof (cases "major = the (log_major check)")
    case True
    have ok: "(\<exists>x. check_major major minor j (Some check # copy) = Inr x) \<longleftrightarrow>
        minor < minor_int check \<and> parents_below j check \<and>
        (\<exists>x. check_major major (minor_int check) (Suc j) copy = Inr x)"
      using True by (simp add: Let_def below_Not ebind_ok minor_int_def split_beta del: split_paired_Ex)
    show ?thesis
    proof (cases "minor < minor_int check \<and> parents_below j check")
      case t: True
      have "(\<exists>x. check_major major (minor_int check) (Suc j) copy = Inr x) \<longleftrightarrow>
          sorted_wrt (<) (minor_int check # minors_of major copy) \<and>
          below_from (Suc j) (\<lambda>v. the (log_major v) = major) copy"
        using 3(1) [OF True refl] t by (simp add: minor_int_def below_Not)
      then show ?thesis using ok t True trans [of minor "minor_int check"] by simp
    next
      case False
      then show ?thesis using ok True by auto
    qed
  next
    case False
    then show ?thesis using 3(2) by (simp add: ebind_ok split_beta del: split_paired_Ex)
  qed
qed (simp_all add: ebind_ok split_beta del: split_paired_Ex)

lemma check_major_copy: "check_major major minor j copy = Inr (copy', w) \<Longrightarrow> copy' = drop_major major copy"
  by (induction major minor j copy arbitrary: copy' w rule: check_major.induct)
    (auto simp: ebind_def Let_def split: if_splits sum.splits)

lemma check_majors_ok:
  "(\<exists>w. check_majors i copy = Inr w) \<longleftrightarrow>
     (\<forall>major. sorted_wrt (<) (0 # minors_of major copy)) \<and> below_from i (\<lambda>_. True) copy"
proof (induction i copy rule: check_majors.induct)
  case (3 i v copy)
  let ?m = "the (log_major v)"
  show ?case
  proof (cases "check_major ?m 0 i (Some v # copy)")
    case (Inl f)
    then have "\<not> (sorted_wrt (<) (0 # minors_of ?m (Some v # copy)) \<and>
        below_from i (\<lambda>v. the (log_major v) = ?m) (Some v # copy))"
      using check_major_ok [of ?m 0 i "Some v # copy"] by simp
    then have "\<not> ((\<forall>major. sorted_wrt (<) (0 # minors_of major (Some v # copy))) \<and>
        below_from i (\<lambda>_. True) (Some v # copy))"
      using below_drop [of i "Some v # copy" ?m] by blast
    moreover have "check_majors i (Some v # copy) = Inl f"
      unfolding check_majors.simps Inl by simp
    ultimately show ?thesis by (simp only: sum.simps simp_thms)
  next
    case (Inr x)
    obtain copy' missing where x: "x = (copy', missing)" by (cases x)
    have copy': "copy' = drop_major ?m (Some v # copy)" using check_major_copy [OF Inr [unfolded x]] .
    have c: "check_majors i (Some v # copy) = ebind (check_majors (Suc i) (tl copy')) (\<lambda>ws. Inr (missing @ ws))"
      unfolding check_majors.simps Inr x by simp
    have IH: "(\<exists>w. check_majors (Suc i) (tl copy') = Inr w) \<longleftrightarrow>
        (\<forall>major. sorted_wrt (<) (0 # minors_of major (tl copy'))) \<and> below_from (Suc i) (\<lambda>_. True) (tl copy')"
      by (rule 3) (use Inr x in simp_all)
    have own: "sorted_wrt (<) (0 # minors_of ?m (Some v # copy))"
      "below_from i (\<lambda>v. the (log_major v) = ?m) (Some v # copy)"
      using check_major_ok [of ?m 0 i "Some v # copy"] Inr by blast+
    have t: "tl copy' = drop_major ?m copy" by (simp add: copy')
    have "(\<forall>major. sorted_wrt (<) (0 # minors_of major (tl copy'))) \<longleftrightarrow>
        (\<forall>major. sorted_wrt (<) (0 # minors_of major (Some v # copy)))"
      unfolding t minors_of_drop using own(1) by (simp add: minors_of_simps(3)) metis
    moreover have "below_from (Suc i) (\<lambda>_. True) (tl copy') \<longleftrightarrow> below_from i (\<lambda>_. True) (Some v # copy)"
      unfolding below_drop [of i "Some v # copy" ?m] t using own(2) by simp
    ultimately show ?thesis using IH unfolding c ebind_ok by simp
  qed
qed simp_all

text \<open>
  C38. The check of a rebuild accepts the versions of a project if and only if, in every major version,
  the minor versions are positive and increase in the order of the versions, and every parent of a
  version has a lower index. So no two versions that it accepts have one name.
\<close>

theorem rebuild_check_iff:
  "(\<exists>missing. rebuild_check_project_summary versions = Inr missing) \<longleftrightarrow>
     (\<forall>major. sorted_wrt (<)
        (0 # map (\<lambda>v. atoi (the (log_minor v))) (filter (\<lambda>v. the (log_major v) = major) versions))) \<and>
     all_below versions"
proof -
  have "minors_of major (map Some versions) =
      map (\<lambda>v. atoi (the (log_minor v))) (filter (\<lambda>v. the (log_major v) = major) versions)" for major
    by (induction versions) (simp_all add: minor_int_def)
  moreover have "below_from 0 (\<lambda>_. True) (map Some versions) \<longleftrightarrow> all_below versions"
    by (simp add: below_from_def all_below_def)
  ultimately show ?thesis
    using check_majors_ok [of 0 "map Some versions"] by (simp add: rebuild_check_project_summary_def)
qed

section \<open>What is marked\<close>

text \<open>The files that a version of the project names, as far as its project file can be read.\<close>

definition named_files :: "RcsWorld \<Rightarrow> ToolEnv \<Rightarrow> RepEntry \<Rightarrow> ProjectLogData \<Rightarrow> FileEntry list" where
  "named_files W env r pd =
     (case co_out (co_of W (the (log_version pd)) (version_file r)) of
        None \<Rightarrow> []
      | Some text \<Rightarrow>
          (case init_from_file env (root_project_name r) False text of
             (Inl _, _) \<Rightarrow> []
           | (Inr _, project) \<Rightarrow>
               (let files = filter (\<lambda>fe. file_type fe = RealFile) (file_entries project)
                in if list_ex (\<lambda>fe. fe_descriptor fe = None) files then [] else files)))"

definition mark_of :: "RepEntry \<Rightarrow> FileEntry \<Rightarrow> (string \<times> string) set" where
  "mark_of r fe =
     {(name, number). fe_descriptor fe = Some name \<and>
       (\<exists>delta d. ht_lookup hash_string (=) (file_summary r) name = Some delta \<and>
          delta_lookup (the (fe_version fe)) delta = Inr (Some d) \<and> number = the (log_version d))}"

definition needed :: "RcsWorld \<Rightarrow> ToolEnv \<Rightarrow> RepEntry \<Rightarrow> (string \<times> string) set" where
  "needed W env r =
     (\<Union>pd \<in> set (filter (\<lambda>pd. \<not> log_deleted pd) (project_summary r)).
        \<Union>fe \<in> set (named_files W env r pd). mark_of r fe)"

text \<open>Marking changes the scanner and the marks only.\<close>

definition unmarked ::
  "RepEntry \<Rightarrow> (string \<times> string \<times> string \<times> ProjectLogData list \<times> (string, RcsFileData RcsDelta) HashTable)
     \<times> (string, RcsFileData RcsDelta) HashTable \<times> (string \<times> string) list \<times> string list \<times> string option" where
  "unmarked r = ((entry_path r, version_file r, root_project_name r, project_summary r, file_summary r),
     new_file_table r, outdated r, unlinked r, data_file r)"

lemma always_on_scanner: "(\<And>sc r. p (r\<lparr>scanner := sc\<rparr>) = p r) \<Longrightarrow> always (keeps p) (on_scanner m)"
  by (simp add: always_def on_scanner_def keeps_def split: prod.split)

lemma always_clift: "always (keeps p) (clift x)"
  by (simp add: clift_def always_def keeps_def cmd_simps split: sum.split)

lemma always_ignore: "always R m \<Longrightarrow> always R (cignore m)"
  by (auto simp: always_def cignore_def split: prod.split sum.split failure.split) (metis snd_conv)+

lemma always_checkout: "always (keeps p) (VC_checkout_stream co)"
  by (simp add: VC_checkout_stream_def kept.always_intros split: option.split)

lemma always_option:
  "always R n \<Longrightarrow> (\<And>y. always R (f y)) \<Longrightarrow> always R (case x of None \<Rightarrow> n | Some y \<Rightarrow> f y)"
  by (simp split: option.split)

lemma always_reference_version: "always (keeps unmarked) (reference_version fe)"
  unfolding reference_version_def Let_def
  by (intro kept.always_intros always_clift always_option) (simp add: keeps_def unmarked_def)

lemma always_reference_versions: "always (keeps unmarked) (reference_versions W env pd)"
proof -
  have s: "always (keeps unmarked) (on_scanner m)" for m :: "(VcScanner, 'a) cmd"
    by (rule always_on_scanner) (simp add: unmarked_def)
  show ?thesis
    unfolding reference_versions_def Let_def
    by (intro kept.always_bind kept.always_get always_checkout)
      (auto split: prod.split sum.split failure.split
        intro!: kept.always_intros s always_reference_version)
qed

lemma mark_of_unmarked: "unmarked r = unmarked r' \<Longrightarrow> mark_of r fe = mark_of r' fe"
  by (simp add: unmarked_def mark_of_def)

lemma named_files_unmarked: "unmarked r = unmarked r' \<Longrightarrow> named_files W env r pd = named_files W env r' pd"
proof -
  assume "unmarked r = unmarked r'"
  then have "version_file r = version_file r'" "root_project_name r = root_project_name r'"
    by (simp_all add: unmarked_def)
  then show ?thesis unfolding named_files_def by (simp only:)
qed

lemma reference_version_marks:
  assumes "reference_version fe r = (Inr (), r')" and "fe_descriptor fe \<noteq> None"
  shows "set (referenced r') = set (referenced r) \<union> mark_of r fe"
proof -
  obtain delta d where d: "ht_lookup hash_string (=) (file_summary r) (the (fe_descriptor fe)) = Some delta"
    "delta_lookup (the (fe_version fe)) delta = Inr (Some d)"
    "r' = r\<lparr>referenced := referenced r @ [(the (fe_descriptor fe), the (log_version d))]\<rparr>"
    using assms(1)
    by (auto simp: reference_version_def Let_def cmd_simps clift_def
        split: option.splits sum.splits if_splits prod.splits)
  then show ?thesis using assms(2) by (auto simp: mark_of_def)
qed

lemma reference_all_marks:
  "cforeach fes reference_version r = (Inr (), r') \<Longrightarrow> list_all (\<lambda>fe. fe_descriptor fe \<noteq> None) fes \<Longrightarrow>
   set (referenced r') = set (referenced r) \<union> (\<Union>fe \<in> set fes. mark_of r fe)"
proof (induction fes arbitrary: r)
  case (Cons fe fes)
  obtain r1 where r1: "reference_version fe r = (Inr (), r1)" "cforeach fes reference_version r1 = (Inr (), r')"
    using Cons.prems(1) by (auto simp: cthen_Inr_iff)
  have "unmarked r1 = unmarked r" using alwaysD [OF always_reference_version r1(1)] by (simp add: keeps_def)
  then show ?case
    using Cons.IH [OF r1(2)] reference_version_marks [OF r1(1)] Cons.prems(2) mark_of_unmarked [of r1 r] by auto
qed (simp add: creturn_def)

lemma reference_versions_marks:
  assumes "reference_versions W env pd r = (Inr (), r')"
  shows "set (referenced r') = set (referenced r) \<union> (\<Union>fe \<in> set (named_files W env r pd). mark_of r fe)"
proof -
  let ?co = "co_of W (the (log_version pd)) (version_file r)"
  obtain s where s: "co_out ?co = Some s"
    using assms by (auto simp: reference_versions_def Let_def cmd_simps VC_checkout_stream_def split: option.splits)
  obtain x project where x: "init_from_file env (root_project_name r) False s = (x, project)" by fastforce
  show ?thesis
  proof (cases x)
    case (Inl f)
    then show ?thesis
      using assms s x
      by (cases f) (simp_all add: reference_versions_def Let_def cmd_simps VC_checkout_stream_def named_files_def)
  next
    case (Inr u)
    let ?files = "filter (\<lambda>fe. file_type fe = RealFile) (file_entries project)"
    obtain r1 where r1: "on_scanner (VC_close_checkout_stream ?co (the (log_version pd))) r = (Inr (), r1)"
      "(if list_ex (\<lambda>fe. fe_descriptor fe = None) ?files then creturn () else cforeach ?files reference_version) r1 = (Inr (), r')"
      using assms s x Inr
      by (auto simp: reference_versions_def Let_def cget_def creturn_def cbind_apply cthen_Inr_iff VC_checkout_stream_def
          split: prod.splits sum.splits)
    have k: "always (keeps (\<lambda>r. (referenced r, unmarked r))) (on_scanner m)" for m :: "(VcScanner, unit) cmd"
      by (rule always_on_scanner) (simp add: unmarked_def)
    have same: "referenced r1 = referenced r" "unmarked r1 = unmarked r"
      using alwaysD [OF k r1(1)] by (simp_all add: keeps_def)
    show ?thesis
    proof (cases "list_ex (\<lambda>fe. fe_descriptor fe = None) ?files")
      case True
      then show ?thesis using r1(2) same s x Inr by (simp add: named_files_def creturn_def)
    next
      case False
      then have f: "list_all (\<lambda>fe. fe_descriptor fe \<noteq> None) ?files" "named_files W env r pd = ?files"
        using s x Inr by (auto simp: named_files_def list_all_iff list_ex_iff)
      have "cforeach ?files reference_version r1 = (Inr (), r')" using r1(2) False by (simp split: if_splits)
      from reference_all_marks [OF this f(1)] show ?thesis
        unfolding f(2) using same mark_of_unmarked [OF same(2)] by simp
    qed
  qed
qed

lemma reference_phase:
  "cforeach pds (reference_versions W env) r = (Inr (), r') \<Longrightarrow>
   set (referenced r') =
     set (referenced r) \<union> (\<Union>pd \<in> set pds. \<Union>fe \<in> set (named_files W env r pd). mark_of r fe)"
proof (induction pds arbitrary: r)
  case (Cons pd pds)
  obtain r1 where r1: "reference_versions W env pd r = (Inr (), r1)"
    "cforeach pds (reference_versions W env) r1 = (Inr (), r')"
    using Cons.prems by (auto simp: cthen_Inr_iff)
  have u: "unmarked r1 = unmarked r"
    using alwaysD [OF always_reference_versions r1(1)] by (simp add: keeps_def)
  show ?case
    using Cons.IH [OF r1(2)] reference_versions_marks [OF r1(1)] mark_of_unmarked [OF u] named_files_unmarked [OF u]
    by auto
qed (simp add: creturn_def)

section \<open>What is deleted\<close>

definition version_file_of :: "string \<Rightarrow> string \<Rightarrow> string" where
  "version_file_of path name = path @ [SLASH] @ name @ '',v''"

lemma version_file_of_inj: "version_file_of p n = version_file_of p m \<longleftrightarrow> n = m"
  by (simp add: version_file_of_def)

text \<open>Of the files of an entry at \<open>path\<close> only versions are deleted that have no mark.\<close>

definition cleans :: "string \<Rightarrow> RepEntry \<Rightarrow> RepEntry \<Rightarrow> bool" where
  "cleans path r r' \<longleftrightarrow>
     referenced r' = referenced r \<and> entry_path r' = entry_path r \<and>
     (\<forall>name number. (version_file_of path name, number) \<in> set (outdated r') \<longrightarrow>
        (version_file_of path name, number) \<in> set (outdated r) \<or> (name, number) \<notin> set (referenced r))"

interpretation cleaned: step_rel "cleans path"
  for path :: string
  by unfold_locales (auto simp: cleans_def)

definition untouched ::
  "RepEntry \<Rightarrow> (string \<times> string) list \<times> string \<times> (string \<times> string) list \<times> (string, RcsFileData RcsDelta) HashTable
     \<times> ProjectLogData list" where
  "untouched r = (referenced r, entry_path r, outdated r, file_summary r, project_summary r)"

lemma cleans_untouched: "untouched r' = untouched r \<Longrightarrow> cleans path r r'"
  by (simp add: cleans_def untouched_def)

lemma delete_version_cases:
  assumes "delete_version W report file number r = (x, r')"
  shows "r' = r \<or> r' = r\<lparr>outdated := outdated r @ [(file, number)]\<rparr>"
  using assms
  by (auto simp: delete_version_def VC_delete_version_def clift_def cmd_simps split: if_splits sum.splits)

lemma delete_file_cleans:
  "delete_unreferenced_versions_file W report name (version_file_of path name) es delta r = (x, r') \<Longrightarrow>
   cleans path r r'"
proof (induction es arbitrary: delta r)
  case Nil
  then show ?case by (simp add: creturn_def cleaned.R_refl)
next
  case (Cons e es)
  let ?v = "the (log_version (snd e))"
  show ?case
  proof (cases "(name, ?v) \<in> set (referenced r)")
    case True
    then show ?thesis using Cons by (simp add: cget_bind Let_def)
  next
    case False
    show ?thesis
    proof (cases "delta_remove ?v delta")
      case (Inl f)
      then have "r' = r" using Cons.prems False by (simp add: cget_bind Let_def clift_def cmd_simps)
      then show ?thesis by (simp add: cleaned.R_refl)
    next
      case (Inr delta')
      define r1 where "r1 = file_summary_update (\<lambda>t. ht_insert hash_string (=) t name delta') r"
      obtain y r2 where r2: "delete_version W report (version_file_of path name) ?v r1 = (y, r2)" by fastforce
      have a: "cleans path r r1" by (simp add: cleans_def r1_def)
      have b: "cleans path r1 r2"
        using delete_version_cases [OF r2] False by (auto simp: cleans_def r1_def version_file_of_inj)
      have c: "cleans path r2 r'"
      proof (cases y)
        case (Inl f)
        then have "r' = r2"
          using Cons.prems False Inr r2 by (simp add: cget_bind Let_def clift_def cmd_simps set_delta_def r1_def)
        then show ?thesis by (simp add: cleaned.R_refl)
      next
        case y: (Inr u)
        then have "delete_unreferenced_versions_file W report name (version_file_of path name) es delta' r2 = (x, r')"
          using Cons.prems False Inr r2 by (simp add: cget_bind Let_def clift_def cmd_simps set_delta_def r1_def)
        then show ?thesis by (rule Cons.IH)
      qed
      show ?thesis using cleaned.R_trans [OF a cleaned.R_trans [OF b c]] .
    qed
  qed
qed

lemma always_rebuild_file: "always (keeps untouched) (rebuild_repository_file W report name)"
proof -
  have s: "always (keeps untouched) (on_scanner m)" for m :: "(VcScanner, 'b) cmd"
    by (rule always_on_scanner) (simp add: untouched_def)
  have "always (keeps untouched) (compute_cksum W name v)" for v
    unfolding compute_cksum_def Let_def by (intro kept.always_intros always_checkout s)
  moreover have "always (keeps untouched) (Err_unlink W name)"
    unfolding Err_unlink_def by (intro kept.always_intros) (simp add: keeps_def untouched_def)
  ultimately show ?thesis
    unfolding rebuild_repository_file_def by (intro kept.always_intros s)
qed

lemma clean_file_parts:
  assumes "clean_file W report (name, delta) r = (x, r')"
  obtains y r1 where
    "delete_unreferenced_versions_file W report name (version_file_of (entry_path r) name) (entries_of delta) delta r = (y, r1)"
    "untouched r' = untouched r1" "x = Inr () \<Longrightarrow> \<exists>delta'. y = Inr delta'"
proof -
  obtain y r1 where y:
    "delete_unreferenced_versions_file W report name (version_file_of (entry_path r) name) (entries_of delta) delta r = (y, r1)"
    by fastforce
  show thesis
  proof (cases y)
    case (Inl f)
    then have "x = Inl f" "r' = r1" using assms y by (simp_all add: clean_file_def Let_def cmd_simps Rep_name_in_entry_def version_file_of_def)
    then show ?thesis using that [OF y] by simp
  next
    case (Inr d)
    let ?m = "if insertion_count d = 0 then cignore (rebuild_repository_file W report (version_file_of (entry_path r) name)) else creturn ()"
    have "?m r1 = (x, r')"
      using assms y Inr
      by (auto simp: clean_file_def Let_def cmd_simps Rep_name_in_entry_def version_file_of_def split: if_splits)
    moreover have "always (keeps untouched) ?m"
      by (intro kept.always_if always_ignore always_rebuild_file kept.always_return)
    ultimately have "untouched r' = untouched r1" by (metis alwaysD keeps_def)
    then show ?thesis using that [OF y] Inr by simp
  qed
qed

lemma clean_file_cleans:
  assumes "clean_file W report item r = (x, r')"
  shows "cleans (entry_path r) r r'"
proof -
  obtain name delta where i: "item = (name, delta)" by (cases item)
  obtain y r1 where
    "delete_unreferenced_versions_file W report name (version_file_of (entry_path r) name) (entries_of delta) delta r = (y, r1)"
    "untouched r' = untouched r1"
    using clean_file_parts [OF assms [unfolded i]] by metis
  then show ?thesis
    using delete_file_cleans cleans_untouched cleaned.R_trans by metis
qed

lemma clean_files_clean: "cforeach items (clean_file W report) r = (x, r') \<Longrightarrow> cleans (entry_path r) r r'"
proof (induction items arbitrary: r)
  case Nil
  then show ?case by (simp add: creturn_def cleaned.R_refl)
next
  case (Cons i items)
  obtain y r1 where y: "clean_file W report i r = (y, r1)" by fastforce
  have a: "cleans (entry_path r) r r1" using clean_file_cleans [OF y] .
  have "cleans (entry_path r) r1 r'"
  proof (cases y)
    case (Inl f)
    then show ?thesis using Cons.prems y by (simp add: cthen_apply cleaned.R_refl)
  next
    case (Inr u)
    then have "cforeach items (clean_file W report) r1 = (x, r')" using Cons.prems y by (simp add: cthen_apply)
    then show ?thesis using Cons.IH a by (metis cleans_def)
  qed
  then show ?case using a cleaned.R_trans by blast
qed

text \<open>
  C37. Cleaning a repository loses nothing that is in use: whatever the outcome, also when it stops with
  an error in the middle, a version of a file that RCS was told to delete is named by no version of the
  project that is not deleted and whose project file can be read.
\<close>

theorem cleaning_keeps_needed:
  assumes "delete_unreferenced_versions W env report r = (res, r')"
    and "(Rep_name_in_entry name r @ '',v'', number) \<in> set (outdated r')"
    and "(Rep_name_in_entry name r @ '',v'', number) \<notin> set (outdated r)"
  shows "(name, number) \<notin> needed W env r"
proof -
  let ?pds = "filter (\<lambda>pd. \<not> log_deleted pd) (project_summary r)"
  have n: "Rep_name_in_entry name r @ '',v'' = version_file_of (entry_path r) name"
    by (simp add: Rep_name_in_entry_def version_file_of_def)
  obtain x r1 where x: "cforeach ?pds (reference_versions W env) r = (x, r1)" by fastforce
  have "always (keeps unmarked) (cforeach ?pds (reference_versions W env))"
    by (intro kept.always_foreach always_reference_versions)
  then have u: "unmarked r1 = unmarked r" using x by (metis alwaysD keeps_def)
  show ?thesis
  proof (cases x)
    case (Inl f)
    then have "r' = r1" using assms(1) x by (simp add: delete_unreferenced_versions_def cget_bind cthen_apply)
    then show ?thesis using assms(2,3) u by (simp add: unmarked_def)
  next
    case (Inr v)
    then have "cforeach (ht_items (file_summary r1)) (clean_file W report) r1 = (res, r')"
      using assms(1) x by (simp add: delete_unreferenced_versions_def cget_bind cthen_apply)
    then have "cleans (entry_path r1) r1 r'" by (rule clean_files_clean)
    then have "(name, number) \<notin> set (referenced r1)"
      using assms(2,3) u unfolding n by (auto simp: cleans_def unmarked_def)
    then show ?thesis
      using reference_phase [of ?pds W env r r1] x Inr by (auto simp: needed_def)
  qed
qed

section \<open>What is left\<close>



definition entries_numbered :: "(nat list \<times> RcsFileData) list \<Rightarrow> bool" where
  "entries_numbered es \<longleftrightarrow> list_all (\<lambda>(ns, d). small_numbers ns \<and> log_version d = Some (rcs_number ns)) es"

lemma entries_numbered_simps [simp]:
  "entries_numbered []"
  "entries_numbered (e # es) \<longleftrightarrow>
     small_numbers (fst e) \<and> log_version (snd e) = Some (rcs_number (fst e)) \<and> entries_numbered es"
  by (simp_all add: entries_numbered_def split_beta)






text \<open>
  C40. A rebuild that may only report what it would do removes the data file of the repository and does
  not write it again.
\<close>

theorem rebuild_report_loses_data_file:
  assumes "rebuild_repository W env True dir given_summary given_table r = (Inr (), r')"
  shows "data_file r' = None"
proof -
  have k: "always (keeps data_file) (cignore (delete_unreferenced_versions W env True))"
  proof -
    have s: "always (keeps data_file) (on_scanner m)" for m :: "(VcScanner, 'b) cmd"
      by (rule always_on_scanner) simp
    have "always (keeps data_file) (reference_versions W env pd)" for pd
      using always_reference_versions unfolding always_def keeps_def unmarked_def by (metis prod.inject)
    moreover have "always (keeps data_file) (Err_unlink W name)" for name
      unfolding Err_unlink_def by (intro kept.always_intros) (simp add: keeps_def)
    moreover have "always (keeps data_file) (delete_unreferenced_versions_file W True name f es delta)"
      for name f es delta
    proof (induction es arbitrary: delta)
      case (Cons e es)
      have "always (keeps data_file) (set_delta name d)" for d
        unfolding set_delta_def by (intro kept.always_intros) (simp add: keeps_def)
      then show ?case
        using Cons by (simp add: Let_def delete_version_def kept.always_intros always_clift)
    qed (simp add: kept.always_return)
    ultimately show ?thesis
      unfolding delete_unreferenced_versions_def clean_file_def Let_def rebuild_repository_file_def compute_cksum_def
      by (intro always_ignore kept.always_intros s always_checkout)
  qed
  show ?thesis
    using assms alwaysD [OF k]
    by (fastforce simp: rebuild_repository_def cbind_Inr_iff cthen_Inr_iff unlink_data_file_def creturn_def cupd_def cthrow_def
        keeps_def split: if_splits)
qed

definition sample_project_version :: ProjectLogData where
  "sample_project_version = (new_ProjectVersionData)\<lparr>log_version := Some ''1.1'', log_major := Some ''main'', log_minor := Some ''1''\<rparr>"

definition sample_rcs :: RcsWorld where
  "sample_rcs =
     \<lparr>rlog_of = (\<lambda>_ _. \<lparr>rlog_output = Inl (Err NonFatalError), rlog_status = Inr 1\<rparr>),
      co_of = (\<lambda>_ _. \<lparr>co_out = Some ''('', co_err = [], co_status = Inr 0\<rparr>),
      outdate_status = (\<lambda>_ _. Inr 0), unlinks = (\<lambda>_. True), is_symlink = (\<lambda>_. False), data_writes = True,
      timestr_to_time_t = (\<lambda>_. 0), md5_junk = replicate 64 0\<rparr>"

definition sample_repository :: RepEntry where
  "sample_repository =
     \<lparr>scanner = \<lparr>rcs_text = [], at_bol = True, vc_input = []\<rparr>, entry_path = ''/r/p'', version_file = ''/r/p/p.prj,v'',
      root_project_name = ''p'', project_summary = [sample_project_version],
      file_summary = ht_insert hash_string (=) ht_empty ''0_a'' sample_delta, new_file_table = ht_empty,
      referenced = [], outdated = [], unlinked = [], data_file = None\<rparr>"

definition sample_tools :: ToolEnv where "sample_tools = \<lparr>env_merge = None, env_diff = None\<rparr>"

lemma sample_unreadable: "fst (init_from_file sample_tools ''p'' False ''('') = Inl (Err NonFatalError)"
  by code_simp
lemma sample_number: "rcs_number [1, 1] = ''1.1''" "small_numbers [1, 1]"
  by (code_simp, simp add: small_numbers_def)

lemma rebuild_entries: "entries_of sample_delta = [([1, 1], sample_file_data)]"
  by (simp add: sample_delta_def)

lemma sample_look: "ht_lookup hash_string (=) (file_summary sample_repository) n =
    (if n = ''0_a'' then Some sample_delta else None)"
  using str.ht.lookup_insert [OF str.ht.invar_empty, of "''0_a''" sample_delta n]
  by (simp add: sample_repository_def str.ht.lookup_empty)

lemma sample_table_inv: "ht_inv hash_string (=) (file_summary sample_repository)"
  by (simp add: sample_repository_def str.ht.invar_insert ht_inv_empty)

lemma sample_items: "ht_items (file_summary sample_repository) = [(''0_a'', sample_delta)]"
proof -
  let ?is = "ht_items (file_summary sample_repository)"
  have d: "distinct (map fst ?is)" and m: "map_of ?is = ht_lookup hash_string (=) (file_summary sample_repository)"
    using table_lookup_items [OF sample_table_inv] by simp_all
  have "map_of ?is n = map_of [(''0_a'', sample_delta)] n" for n using m sample_look by simp
  then have one: "set ?is = {(''0_a'', sample_delta)}"
    using map_of_inject_set [OF d, of "[(''0_a'', sample_delta)]"] by (simp add: fun_eq_iff)
  have "length ?is = card (set ?is)" using d by (metis distinct_card distinct_map)
  then have "length ?is = 1" using one by simp
  then obtain x where "?is = [x]" by (auto simp: length_Suc_conv)
  then show ?thesis using one by simp
qed

lemma sample_cleaned:
  "\<exists>r'. delete_unreferenced_versions sample_rcs sample_tools False sample_repository = (Inr (), r') \<and>
     outdated r' = [(''/r/p/0_a,v'', ''1.1'')]"
proof -
  let ?r = "sample_repository"
  have p: "project_summary ?r = [sample_project_version]" "\<not> log_deleted sample_project_version"
    by (simp_all add: sample_repository_def sample_project_version_def new_ProjectVersionData_def)
  obtain q where q: "init_from_file sample_tools ''p'' False ''('' = (Inl (Err NonFatalError), q)"
    using sample_unreadable by (cases "init_from_file sample_tools ''p'' False ''(''") auto
  have v: "reference_versions sample_rcs sample_tools sample_project_version ?r = (Inr (), ?r)"
    using q by (simp add: reference_versions_def cmd_simps Let_def VC_checkout_stream_def sample_rcs_def sample_repository_def)
  obtain d where d: "delta_remove ''1.1'' sample_delta = Inr d"
    using delta_remove_at [OF sample_number(2), of sample_delta] sample_number(1) by auto
  have n: "log_version sample_file_data = Some ''1.1''" using sample_number(1) by (simp add: sample_file_data_def)
  have rest: "referenced ?r = []" "entry_path ?r = ''/r/p''" "outdated ?r = []" by (simp_all add: sample_repository_def)
  have del: "VC_delete_version (outdate_status sample_rcs v f) s = (Inr True, s)" for v f and s :: RepEntry
    by (simp add: VC_delete_version_def clift_def cmd_simps sample_rcs_def)
  have rb: "\<exists>r''. cignore (rebuild_repository_file sample_rcs False nm) s = (Inr (), r'') \<and> outdated r'' = outdated s" for nm s
    by (simp add: cignore_def rebuild_repository_file_def cmd_simps on_scanner_def VC_get_version_data_def open_rlog_def
      clift_def sample_rcs_def)
  define s1 where "s1 = outdated_update (\<lambda>ds. ds @ [(''/r/p/0_a,v'', ''1.1'')])
    (file_summary_update (\<lambda>t. ht_insert hash_string (=) t ''0_a'' d) ?r)"
  obtain s2 where s2: "cignore (rebuild_repository_file sample_rcs False ''/r/p/0_a,v'') s1 = (Inr (), s2)"
    "outdated s2 = outdated s1"
    using rb by metis
  have s1: "outdated s1 = [(''/r/p/0_a,v'', ''1.1'')]" using rest by (simp add: s1_def)
  show ?thesis
    using s2 s1
    by (simp add: delete_unreferenced_versions_def cmd_simps p v sample_items clean_file_def rebuild_entries rest n d del
      Let_def clift_def set_delta_def delete_version_def Rep_name_in_entry_def s1_def [symmetric])
qed

theorem cleaning_keeps_needed_witness:
  "\<exists>r'. delete_unreferenced_versions sample_rcs sample_tools False sample_repository = (Inr (), r') \<and>
     outdated r' = [(''/r/p/0_a,v'', ''1.1'')] \<and> (''0_a'', ''1.1'') \<notin> needed sample_rcs sample_tools sample_repository"
proof -
  obtain r' where r': "delete_unreferenced_versions sample_rcs sample_tools False sample_repository = (Inr (), r')"
    "outdated r' = [(''/r/p/0_a,v'', ''1.1'')]"
    using sample_cleaned by blast
  have "Rep_name_in_entry ''0_a'' sample_repository @ '',v'' = ''/r/p/0_a,v''" "outdated sample_repository = []"
    by (simp_all add: Rep_name_in_entry_def sample_repository_def)
  then have "(''0_a'', ''1.1'') \<notin> needed sample_rcs sample_tools sample_repository"
    using cleaning_keeps_needed [OF r'(1), of "''0_a''" "''1.1''"] r'(2) by simp
  with r' show ?thesis by blast
qed



lemma sample_check: "rebuild_check_project_summary [sample_project_version] = Inr []"
  by code_simp

theorem rebuild_report_loses_data_file_witness:
  "\<exists>r'. rebuild_repository sample_rcs sample_tools True (Dir [] True) (Some []) (Some ht_empty)
      (sample_repository\<lparr>data_file := Some ''x''\<rparr>) = (Inr (), r') \<and> data_file r' = None"
proof -
  have items: "ht_items (ht_empty :: (string, RcsFileData RcsDelta) HashTable) = []" by code_simp
  let ?m = "rebuild_repository sample_rcs sample_tools True (Dir [] True) (Some []) (Some ht_empty)
      (sample_repository\<lparr>data_file := Some ''x''\<rparr>)"
  have "fst ?m = Inr ()"
    by (simp add: rebuild_repository_def cmd_simps clift_def rebuild_check_project_summary_def unlink_data_file_def
      cignore_def delete_unreferenced_versions_def items sample_rcs_def)
  then obtain r' where r': "?m = (Inr (), r')" by (cases ?m) auto
  from rebuild_report_loses_data_file [OF r'] r' show ?thesis by blast
qed

end
