(* ===== verification/Spec2Isabelle.thy ===== *)
theory Spec2Isabelle
  imports Prelude Effects Misc Versions Containers Query MergeRules MergeControl KeyPop Attrs Lock ProjLex ProjRead ReadSafe ProjVerify MergeParents MergeHistory SetKeys Md5 FileSys RepNames FileMatch FileMerge MergeFiles MergeOnce Dynarrays Deltas VcLex VcScan RlogData VersionLog DataFile Rebuild
begin

text \<open>
  A verification development for PRCS, the Project Revision Control System: a program in C++ that
  keeps versions of whole projects on top of RCS. A project is a directory with a project file, an
  s-expression that lists its files; a repository holds one RCS file for the project file and one for
  every other file, with locks for its users. File names below are relative to \<open>src/src\<close>.

  \<^bold>\<open>How the code is modelled.\<close> A function of the program is a function of the same name. Strings are lists
  of characters up to their NUL and a pointer into a string is the suffix there (\<open>Prelude\<close>). An error
  token of \<open>PrError\<close> is the left of a sum; \<open>Effects\<close> adds a state that is passed along and the
  failures of an \<open>ASSERT\<close>, an \<open>abort\<close> and of undefined behaviour (a null dereference, an index outside
  an array) as values, so that theorems can state their absence. Integers that can overflow are words
  or have their range written out (\<open>pathname_hash\<close>, the perfect hashes, MD5, \<open>strtol\<close>, \<open>atoi\<close>) or the
  place where they overflow is undefined (the sizes of arrays); other counts and positions stay below
  \<open>2\<^sup>3\<^sup>1\<close> and are unbounded here. What is not under \<open>src\<close> (the system calls, RCS,
  the user) is an argument: answers of the user are a list of characters, a failing system call is
  a function that says whether a call fails, the output of \<open>rlog\<close> is a text.

  \<^bold>\<open>The parts of the program and their theories.\<close>
  \<^item> \<open>Misc\<close> (\<open>misc.cc\<close>): quoting of names, tests and hashes of path names, version names.
  \<^item> \<open>Dynarrays\<close> (\<open>dynarray.cc\<close>): growing arrays, cell by cell, and the strings made of them.
  \<^item> \<open>Containers\<close> (\<open>hash.cc\<close>): hash tables and ordered tables: the locale \<open>key_hash\<close> is what they need of
    the hash and the equality of a key (strings, path names, attribute sets), and \<open>table\<close> what they promise.
  \<^item> \<open>Query\<close> (\<open>prcserror.cc\<close>): questions to the user, with their manipulators and the effect of the options.
  \<^item> \<open>Lock\<close> (\<open>lock.cc\<close>): the advisory lock, as a step relation over the steps of all processes.
  \<^item> \<open>Attrs\<close> (\<open>attrs.cc\<close>, \<open>prcs-keys.c\<close>, \<open>prj-names.h\<close>, \<open>projdesc.cc\<close>): the generated perfect hashes and
    the attribute sets of files.
  \<^item> \<open>ProjLex\<close>, \<open>ProjRead\<close>, \<open>ReadSafe\<close>, \<open>ProjVerify\<close> (\<open>prjlex.l\<close>, \<open>sexp.cc\<close>, \<open>projdesc.cc\<close>): the scanner and
    the parser of project files, that they are safe, and what the verification of the names ensures.
  \<^item> \<open>SetKeys\<close> (\<open>setkeys.cc\<close>): setting and unsetting the keywords of a file.
  \<^item> \<open>Md5\<close> (\<open>md5c.c\<close>): the digest that tells whether a file changed.
  \<^item> \<open>Versions\<close> (\<open>repository.cc\<close>, \<open>prcsver.cc\<close>): versions of a project, how a version is resolved, and the
    search for the common ancestors of two versions.
  \<^item> \<open>VcLex\<close>, \<open>VcScan\<close>, \<open>RlogData\<close>, \<open>VersionLog\<close> (\<open>vclex.l\<close>, \<open>vc.cc\<close>, \<open>checkin.cc\<close>): the scanner of the output of
    RCS, the reader of the versions of a project, and the log that a checkin writes for a version.
  \<^item> \<open>Deltas\<close> (\<open>vc.cc\<close>): the table of the versions of one RCS file and the iterator over it.
  \<^item> \<open>DataFile\<close> (\<open>rebuild.cc\<close>): the data file of a repository, how it is written, appended to and read.
  \<^item> \<open>Rebuild\<close> (\<open>rebuild.cc\<close>, \<open>vc.cc\<close>, \<open>misc.cc\<close>): how the data file is made again from the files of RCS, and how
    the versions that no version of the project names are deleted.
  \<^item> \<open>RepNames\<close> (\<open>repository.cc\<close>): free names for new files of the repository.
  \<^item> \<open>MergeRules\<close>, \<open>MergeControl\<close>, \<open>KeyPop\<close> (\<open>merge.cc\<close>): the fourteen rules of a merge, the menu, and the
    merge of the keywords and of the ignored names.
  \<^item> \<open>FileSys\<close>, \<open>FileMatch\<close>, \<open>FileMerge\<close>, \<open>MergeFiles\<close>, \<open>MergeOnce\<close> (\<open>misc.cc\<close>, \<open>checkout.cc\<close>, \<open>projdesc.cc\<close>,
    \<open>merge.cc\<close>, \<open>fileent.cc\<close>): a disk with failing system calls, the matching of files between versions,
    every action of the merge of a file, and the three loops over the files.
  \<^item> \<open>MergeParents\<close>, \<open>MergeHistory\<close> (\<open>projdesc.cc\<close>): the record of merges in the project file.

  \<^bold>\<open>How they interact.\<close> A command reads the project file (\<open>ProjRead\<close>, which uses \<open>Attrs\<close>, \<open>Misc\<close> and the
  tables of \<open>Containers\<close>), takes the lock of the repository (\<open>Lock\<close>) and reads the versions from
  the data file (\<open>DataFile\<close>, \<open>Deltas\<close>), which \<open>Rebuild\<close> makes from what RCS says (\<open>RlogData\<close>). A merge resolves the versions and their common ancestor (\<open>Versions\<close>), matches the files
  (\<open>FileMatch\<close>), selects a rule for each and acts on it (\<open>MergeControl\<close>, \<open>FileMerge\<close>, with \<open>Query\<close> for the
  user, \<open>FileSys\<close> for the disk and \<open>SetKeys\<close> for the texts), and notes it (\<open>MergeHistory\<close>). A checkin
  decides what changed by \<open>SetKeys\<close> and \<open>Md5\<close> and writes the log of the version (\<open>VersionLog\<close>).

  \<^bold>\<open>What is shown.\<close> The groups of theorems are: memory safety of arrays and of the project reader
  (\<open>string_history\<close>, \<open>read_project_safe\<close>); refinements of tables to lists and maps
  (\<open>ordered_table_history\<close>, \<open>path_table_last_insert_wins\<close>, \<open>delta_table_is_map\<close>); round trips (quoting,
  merge records, keywords, the logs of versions, the data file); the lock protocol; the rebuild of a
  repository, which deletes what is not needed and nothing else; the semantics of resolving
  versions and of common ancestors, which holds for every history that can be read
  (\<open>rlog_read_safe\<close>, \<open>read_history_common_versions\<close>); the merge, from the rules to a three-way merge of
  the keyword tables and the theorem that the loops merge every file once. Where the code does not do
  what it means to, the theorem states what it does; the findings name the place.

  \<^bold>\<open>Bounds.\<close> Loops that are not structural have a measure (the text left, the versions not yet marked,
  the size of the scanner's input). The loops over input have fuel that is proved enough: the menus
  use the length of the input plus one, the reader the input left plus two, the search for a free name
  the number of nodes of the disk plus one, the resolution of links the forty steps of the system.
  The iterator over a version table is shown to need only finitely many steps.

  \<^bold>\<open>Not modelled.\<close> The vendored libraries (\<open>regex.c\<close>, \<open>libgnu\<close>, \<open>getopt\<close>, \<open>partime.c\<close>, \<open>maketime.c\<close>); the
  parsing of the command line (\<open>prcs.cc\<close>) and the texts of its help; the commands that only drive
  the parts above or other programs (\<open>populate.cc\<close>, \<open>checkout.cc\<close> and \<open>checkin.cc\<close> but for the functions
  named above, \<open>diff.cc\<close>, \<open>package.cc\<close>, \<open>rekey.cc\<close>, \<open>execute.cc\<close>, \<open>info.cc\<close>, \<open>changes.cc\<close>,
  \<open>convert.cc\<close>); pipes, processes and memory maps (\<open>syscmd.cc\<close>, \<open>memseg.cc\<close>); the layout of the repository on
  disk and its setup in \<open>repository.cc\<close>; and the line filling of messages. The manifest lists them.
\<close>

end
